(* ===== verification/Prelude.thy ===== *)
theory Prelude
  imports Main "HOL-Library.Word"
begin

text \<open>
  Shared vocabulary of the development: the machine integers of the Rust sources, panics as
  values, the saturating arithmetic of \<^verbatim>\<open>core\<close>, the chunking loop that four places of the
  runtime repeat, and the list lemmas the component theories rely on.

  Quantities of type \<^verbatim>\<open>usize\<close> that count instances, slots or nodes are \<^typ>\<open>nat\<close>; every
  \<^verbatim>\<open>as u32\<close> of the code is written out as a truncation to a 32-bit word. Values that the code
  packs into atomics are words of their width.
\<close>

unbundle bit_operations_syntax

type_synonym u8 = "8 word"
type_synonym u16 = "16 word"
type_synonym u32 = "32 word"
type_synonym u64 = "64 word"

text \<open>Node identifiers (\<^verbatim>\<open>IdType = u16\<close>) are used as vector indices throughout.\<close>

type_synonym node_id = nat

named_theorems gen_simps \<open>reading and writing generation-tagged cells\<close>
named_theorems dep_simps \<open>unfolding the dependency counters\<close>
named_theorems slot_simps \<open>unfolding the slot operations\<close>

lemma all_less_Suc_shift: "(\<forall>i < Suc n. P i) \<longleftrightarrow> P 0 \<and> (\<forall>i < n. P (Suc i))"
  by (auto simp: less_Suc_eq_0_disj)

section \<open>Panics and results\<close>

datatype panic =
    IndexOutOfBounds
  | AssertionFailed
  | ArithmeticOverflow
  | DivideByZero
  | ExplicitPanic

type_synonym 'a result = "panic + 'a"

definition rbind :: "('e + 'a) \<Rightarrow> ('a \<Rightarrow> 'e + 'b) \<Rightarrow> 'e + 'b" where
  "rbind r f = (case r of Inl e \<Rightarrow> Inl e | Inr a \<Rightarrow> f a)"

lemma rbind_simps [simp]: "rbind (Inl e) f = Inl e" "rbind (Inr a) f = f a"
  by (simp_all add: rbind_def)

lemma rbind_eq_Inr: "rbind r f = Inr b \<longleftrightarrow> (\<exists>a. r = Inr a \<and> f a = Inr b)"
  by (cases r) auto

fun rmap :: "('a \<Rightarrow> 'e + 'b) \<Rightarrow> 'a list \<Rightarrow> 'e + 'b list" where
  "rmap f [] = Inr []"
| "rmap f (x # xs) = rbind (f x) (\<lambda>y. rbind (rmap f xs) (\<lambda>ys. Inr (y # ys)))"

lemma rmap_Inr: "rmap f xs = Inr ys \<longleftrightarrow> length ys = length xs \<and> (\<forall>i < length xs. f (xs ! i) = Inr (ys ! i))"
proof (induction xs arbitrary: ys)
  case (Cons x xs)
  show ?case
  proof (cases ys)
    case (Cons y ys')
    then show ?thesis
      using Cons.IH [of ys'] by (cases "f x"; cases "rmap f xs") (auto simp: all_less_Suc_shift)
  next
    case Nil
    then show ?thesis by (auto simp: rbind_eq_Inr)
  qed
qed auto

section \<open>Saturating and truncating arithmetic on words\<close>

definition saturating_sub :: "'l::len word \<Rightarrow> 'l word \<Rightarrow> 'l word" where
  "saturating_sub a b = (if a < b then 0 else a - b)"

definition saturating_add :: "'l::len word \<Rightarrow> 'l word \<Rightarrow> 'l word" where
  "saturating_add a b = (if unat a + unat b < 2 ^ LENGTH('l) then a + b else - 1)"

lemma unat_saturating_sub: "unat (saturating_sub a b) = unat a - unat b"
  by (auto simp: saturating_sub_def word_less_nat_alt unat_sub word_le_nat_alt)

lemma unat_saturating_add:
  fixes a b :: "'l::len word"
  shows "unat (saturating_add a b) = min (unat a + unat b) (2 ^ LENGTH('l) - 1)"
  by (auto simp: saturating_add_def unat_word_ariths unsigned_minus_1_eq_mask mask_eq_exp_minus_1)

definition as_u32 :: "nat \<Rightarrow> u32" where
  "as_u32 n = word_of_nat n"

lemma unat_as_u32: "unat (as_u32 n) = n mod 2 ^ 32"
  by (simp add: as_u32_def unat_of_nat)

lemma unat_as_u32_small [simp]: "n < 2 ^ 32 \<Longrightarrow> unat (as_u32 n) = n"
  by (simp add: unat_as_u32)

lemma as_u32_unat [simp]: "as_u32 (unat w) = w"
  by (simp add: as_u32_def)

definition checked_div :: "nat \<Rightarrow> nat \<Rightarrow> nat option" where
  "checked_div a b = (if b = 0 then None else Some (a div b))"

fun unwrap_or :: "'a option \<Rightarrow> 'a \<Rightarrow> 'a" where
  "unwrap_or None d = d"
| "unwrap_or (Some a) d = a"

lemma unwrap_or_checked_div [simp]: "unwrap_or (checked_div a b) 0 = a div b"
  by (simp add: checked_div_def)

section \<open>Intervals\<close>

lemma upt_split: "i \<le> j \<Longrightarrow> j \<le> k \<Longrightarrow> [i..<k] = [i..<j] @ [j..<k]"
  using upt_add_eq_append [of i j "k - j"] by simp

section \<open>The chunking loop\<close>

text \<open>
  The runtime splits \<open>tot\<close> instances into \<open>n\<close> contiguous chunks whose sizes differ by at
  most one: \<open>base = tot / n\<close>, \<open>extra = tot % n\<close>, and chunk \<open>c\<close> has \<open>base + (c < extra)\<close>
  instances. The loop is the same wherever it is written.
\<close>

fun chunk_ranges :: "nat \<Rightarrow> nat \<Rightarrow> nat \<Rightarrow> nat list \<Rightarrow> (nat \<times> nat) list" where
  "chunk_ranges base extra offset [] = []"
| "chunk_ranges base extra offset (c # cs) =
     (let count = base + (if c < extra then 1 else 0)
      in (offset, count) # chunk_ranges base extra (offset + count) cs)"

definition chunks :: "nat \<Rightarrow> nat \<Rightarrow> nat \<Rightarrow> (nat \<times> nat) list" where
  "chunks start tot n = chunk_ranges (tot div n) (tot mod n) start [0..<n]"

definition covered :: "(nat \<times> nat) list \<Rightarrow> nat list" where
  "covered cs = concat (map (\<lambda>(o', n). [o'..<o' + n]) cs)"

lemma covered_simps [simp]:
  "covered [] = []" "covered ((o', n) # cs) = [o'..<o' + n] @ covered cs"
  "covered (cs @ ds) = covered cs @ covered ds"
  by (simp_all add: covered_def)

lemma length_chunk_ranges [simp]: "length (chunk_ranges b e s cs) = length cs"
  by (induction cs arbitrary: s) (auto simp: Let_def)

lemma covered_chunk_ranges:
  "k \<le> m \<Longrightarrow> covered (chunk_ranges b e s [k..<m])
     = [s..<s + b * (m - k) + (min e m - min e k)]"
proof (induction "m - k" arbitrary: k s)
  case 0
  then show ?case by simp
next
  case (Suc d)
  then have km: "k < m" and d: "d = m - Suc k" by simp_all
  define c where "c = b + (if k < e then 1 else 0)"
  have IH: "covered (chunk_ranges b e (s + c) [Suc k..<m])
      = [s + c..<s + c + b * (m - Suc k) + (min e m - min e (Suc k))]"
    using km d by (intro Suc.hyps(1)) simp_all
  have "b * (m - k) = b + b * (m - Suc k)"
    using km by (metis Suc_diff_Suc mult_Suc_right)
  moreover have "(if k < e then 1 else 0) + (min e m - min e (Suc k)) = min e m - min e k"
    using km by (simp add: min_def; arith)
  ultimately have e: "s + c + b * (m - Suc k) + (min e m - min e (Suc k))
      = s + b * (m - k) + (min e m - min e k)"
    by (simp add: c_def)
  have "covered (chunk_ranges b e s [k..<m])
      = [s..<s + c] @ covered (chunk_ranges b e (s + c) [Suc k..<m])"
    using upt_conv_Cons [OF km] by (simp add: c_def Let_def)
  also have "\<dots> = [s..<s + b * (m - k) + (min e m - min e k)]"
    unfolding IH e [symmetric] by (rule upt_split [symmetric]) simp_all
  finally show ?case .
qed

lemma covered_chunks: "0 < n \<Longrightarrow> covered (chunks s tot n) = [s..<s + tot]"
proof -
  assume n: "0 < n"
  have "tot mod n \<le> n" using n by (simp add: less_imp_le)
  then have "tot div n * n + (min (tot mod n) n - min (tot mod n) 0) = tot"
    by simp
  then show ?thesis
    using covered_chunk_ranges [of 0 n "tot div n" "tot mod n" s]
    by (simp add: chunks_def add.assoc)
qed

lemma length_chunks [simp]: "length (chunks s tot n) = n"
  by (simp add: chunks_def)

lemma chunk_ranges_sizes:
  "(o', c) \<in> set (chunk_ranges b e s cs) \<Longrightarrow> c = b \<or> c = Suc b"
  by (induction cs arbitrary: s) (auto simp: Let_def split: if_splits)

lemma chunks_balanced:
  "(o', c) \<in> set (chunks s tot n) \<Longrightarrow> (o'', d) \<in> set (chunks s tot n) \<Longrightarrow> c \<le> Suc d"
  by (auto simp: chunks_def dest!: chunk_ranges_sizes)

lemma chunks_positive:
  assumes "0 < n" "n \<le> tot" "(o', c) \<in> set (chunks s tot n)"
  shows "0 < c"
proof -
  have "0 < tot div n" using assms(1,2) by (simp add: div_greater_zero_iff)
  then show ?thesis
    using chunk_ranges_sizes [OF assms(3) [unfolded chunks_def]] by auto
qed

section \<open>Lists\<close>

lemma foldl_invariant:
  assumes "P s" and "\<And>s x. P s \<Longrightarrow> x \<in> set xs \<Longrightarrow> P (f s x)"
  shows "P (foldl f s xs)"
  using assms by (induction xs arbitrary: s) auto

lemma filter_upt_less: "filter (\<lambda>i. i < k) [a..<b] = [a..<min k b]" if "a \<le> k"
proof (cases "k \<le> b")
  case True
  then have "[a..<b] = [a..<k] @ [k..<b]"
    using that by (rule_tac upt_split)
  moreover have "filter (\<lambda>i. i < k) [k..<b] = []"
    by (simp add: filter_empty_conv)
  ultimately show ?thesis using True by simp
next
  case False
  then show ?thesis by (simp add: min_def)
qed

lemma filter_upt_between: "filter (\<lambda>i. lo \<le> i \<and> i < hi) [a..<b] = [max a lo..<min b hi]"
proof (induction b)
  case (Suc b)
  then show ?case
    by (cases "a \<le> b") (auto simp: max_def min_def not_le not_less less_Suc_eq_le dest: le_antisym)
qed simp

lemma filter_upt_eq: "a \<le> i \<Longrightarrow> i < b \<Longrightarrow> filter (\<lambda>j. j = i) [a..<b] = [i]"
proof -
  assume i: "a \<le> i" "i < b"
  then have "[a..<b] = [a..<i] @ i # [Suc i..<b]"
    using upt_split [of a i b] upt_conv_Cons [of i b] by simp
  moreover have "filter (\<lambda>j. j = i) [a..<i] = []" "filter (\<lambda>j. j = i) [Suc i..<b] = []"
    by (auto simp: filter_empty_conv)
  ultimately show ?thesis by simp
qed

lemma upt_append_filter:
  "a \<le> b \<Longrightarrow> [s..<s + a] @ filter (\<lambda>i. i \<notin> set [s..<s + a]) [s..<s + b] = [s..<s + (b :: nat)]"
proof -
  assume ab: "a \<le> b"
  have sp: "[s..<s + b] = [s..<s + a] @ [s + a..<s + b]"
    using ab by (intro upt_split) simp_all
  have "filter (\<lambda>i. i \<notin> set [s..<s + a]) [s..<s + a] = []"
    by (simp add: filter_empty_conv)
  moreover have "filter (\<lambda>i. i \<notin> set [s..<s + a]) [s + a..<s + b] = [s + a..<s + b]"
    by (simp add: filter_id_conv)
  ultimately show ?thesis unfolding sp by (simp only: filter_append append_Nil)
qed

end
