(* ===== verification/Gen_Word.thy ===== *)
theory Gen_Word
  imports Prelude
begin

text \<open>
  The generational lazy-reinit pattern of \<^verbatim>\<open>tomii-core/src/buffers/mod.rs\<close>: a 32-bit
  generation and a 32-bit value packed into one atomic 64-bit word. A reader that finds another
  generation than the slot's current one treats the value as its initial one, so that bumping
  the slot generation resets every cell of the slot without touching it. The interface
  \<^theory_text>\<open>lazy_cell\<close> states what every user of such a cell relies on; the code's packing
  is an interpretation of it.
\<close>

unbundle bit_operations_syntax

section \<open>Packing\<close>

definition gen_pack :: "u32 \<Rightarrow> u32 \<Rightarrow> u64" where
  "gen_pack gen val = push_bit 32 (ucast gen) OR ucast val"

definition gen_unpack_gen :: "u64 \<Rightarrow> u32" where
  "gen_unpack_gen packed = ucast (drop_bit 32 packed)"

definition gen_unpack_val :: "u64 \<Rightarrow> u32" where
  "gen_unpack_val packed = ucast packed"

lemma gen_unpack_gen_pack [gen_simps, simp]: "gen_unpack_gen (gen_pack g v) = g"
  by (rule bit_word_eqI)
    (auto simp: gen_unpack_gen_def gen_pack_def bit_simps dest: bit_imp_le_length)

lemma gen_unpack_val_pack [gen_simps, simp]: "gen_unpack_val (gen_pack g v) = v"
  by (rule bit_word_eqI)
    (auto simp: gen_unpack_val_def gen_pack_def bit_simps)

lemma gen_pack_unpack [gen_simps, simp]: "gen_pack (gen_unpack_gen p) (gen_unpack_val p) = p"
  by (rule bit_word_eqI)
    (auto simp: gen_unpack_val_def gen_unpack_gen_def gen_pack_def bit_simps)

lemma gen_pack_inject [simp]: "gen_pack g v = gen_pack g' v' \<longleftrightarrow> g = g' \<and> v = v'"
  by (metis gen_unpack_gen_pack gen_unpack_val_pack)

lemma gen_pack_max: "gen_pack g v = - 1 \<longleftrightarrow> g = - 1 \<and> v = - 1"
proof -
  have "gen_pack (- 1) (- 1) = (- 1 :: u64)"
    by (rule bit_word_eqI) (auto simp: gen_pack_def bit_simps)
  then show ?thesis by (metis gen_pack_inject)
qed

section \<open>Reading and updating a tagged cell\<close>

text \<open>
  \<^verbatim>\<open>if stored_gen == slot_gen { gen_unpack_val(packed) } else { init }\<close>, and the closure of
  the \<^verbatim>\<open>fetch_update\<close> calls, which stores the updated value under the current generation.
\<close>

definition lazy_val :: "u32 \<Rightarrow> u32 \<Rightarrow> u64 \<Rightarrow> u32" where
  "lazy_val init slot_gen packed =
     (let stored_gen = gen_unpack_gen packed
      in if stored_gen = slot_gen then gen_unpack_val packed else init)"

definition lazy_update :: "u32 \<Rightarrow> u32 \<Rightarrow> (u32 \<Rightarrow> u32) \<Rightarrow> u64 \<Rightarrow> u64" where
  "lazy_update init slot_gen f packed = gen_pack slot_gen (f (lazy_val init slot_gen packed))"

section \<open>The contract of a tagged cell\<close>

locale lazy_cell =
  fixes read :: "'v \<Rightarrow> 'g \<Rightarrow> 'c \<Rightarrow> 'v"
    and update :: "'v \<Rightarrow> 'g \<Rightarrow> ('v \<Rightarrow> 'v) \<Rightarrow> 'c \<Rightarrow> 'c"
    and tag :: "'c \<Rightarrow> 'g"
    and store :: "'g \<Rightarrow> 'v \<Rightarrow> 'c"
  assumes read_update: "read i g (update i g f c) = f (read i g c)"
    and read_stale: "tag c \<noteq> g \<Longrightarrow> read i g c = i"
    and tag_update: "tag (update i g f c) = g"
    and read_store: "read i g (store g v) = v"
    and tag_store: "tag (store g v) = g"
    and update_as_store: "update i g f c = store g (f (read i g c))"
begin

lemma read_updates: "read i g (foldl (\<lambda>c f. update i g f c) c fs) = foldl (\<lambda>v f. f v) (read i g c) fs"
  by (induction fs arbitrary: c) (simp_all add: read_update)

lemma updates_from_stale:
  "tag c \<noteq> g \<Longrightarrow> read i g (foldl (\<lambda>c f. update i g f c) c fs) = foldl (\<lambda>v f. f v) i fs"
  by (simp add: read_updates read_stale)

lemma update_stale: "tag c \<noteq> g \<Longrightarrow> update i g f c = store g (f i)"
  by (simp add: update_as_store read_stale)

lemma fresh_after_bump: "tag c = g \<Longrightarrow> g' \<noteq> g \<Longrightarrow> read i g' c = i"
  by (rule read_stale) simp

lemma update_cong: "read i g c = read i g d \<Longrightarrow> update i g f c = update i g f d"
  by (simp add: update_as_store)

end

interpretation gw: lazy_cell lazy_val lazy_update gen_unpack_gen gen_pack
  by unfold_locales (simp_all add: lazy_val_def lazy_update_def Let_def)

lemmas gen_cell_simps =
  gw.read_update gw.read_stale gw.tag_update gw.read_store gw.tag_store

declare gw.read_update [gen_simps, simp] gw.tag_update [gen_simps, simp]
  gw.read_store [gen_simps, simp] gw.read_stale [gen_simps]

end
