(* ===== verification/Cm_Types.thy ===== *)
theory Cm_Types
  imports Prelude
begin

text \<open>
  The type-erased values of \<^verbatim>\<open>tomii-types/src/lib.rs\<close>: the enum \<^verbatim>\<open>CmTypes\<close>, its equality and
  the predicates the runtime applies to it. Integers are words of their width (signed ones read
  with \<^const>\<open>sint\<close>), \<^verbatim>\<open>char\<close> is its scalar value, floats are their IEEE bit patterns, strings
  are byte strings. The variants that hold trait objects or guards carry an opaque handle; the
  code never compares them.
\<close>

unbundle bit_operations_syntax

datatype cm_types =
    CmBool bool
  | CmI8 "8 word" | CmI16 "16 word" | CmI32 "32 word" | CmI64 "64 word"
  | CmU8 "8 word" | CmU16 "16 word" | CmU32 "32 word" | CmU64 "64 word"
  | CmF32 "32 word" | CmF64 "64 word"
  | CmChar "32 word"
  | CmUsize "64 word" | CmIsize "64 word"
  | CmI128 "128 word" | CmU128 "128 word"
  | CmString string
  | CmComplex32 "32 word \<times> 32 word" | CmComplex64 "64 word \<times> 64 word"
  | CmVecCmt "cm_types list"
  | CmRef nat | CmRes nat | CmDep nat
  | CmBarrier string
  | CmNone | CmInit
  | CmAny nat | CmAnySliced nat | CmVecAny nat
  | CmBytes "8 word list"
  | CmAnyHeld nat

section \<open>IEEE equality on bit patterns\<close>

text \<open>A NaN has an all-ones exponent and a non-zero fraction; both zeros are equal.\<close>

definition f32_is_nan :: "32 word \<Rightarrow> bool" where
  "f32_is_nan b \<longleftrightarrow> 0x7F800000 < (b AND 0x7FFFFFFF)"

definition f64_is_nan :: "64 word \<Rightarrow> bool" where
  "f64_is_nan b \<longleftrightarrow> 0x7FF0000000000000 < (b AND 0x7FFFFFFFFFFFFFFF)"

definition f32_eq :: "32 word \<Rightarrow> 32 word \<Rightarrow> bool" where
  "f32_eq a b \<longleftrightarrow> \<not> f32_is_nan a \<and> \<not> f32_is_nan b \<and>
     (a = b \<or> (a AND 0x7FFFFFFF = 0 \<and> b AND 0x7FFFFFFF = 0))"

definition f64_eq :: "64 word \<Rightarrow> 64 word \<Rightarrow> bool" where
  "f64_eq a b \<longleftrightarrow> \<not> f64_is_nan a \<and> \<not> f64_is_nan b \<and>
     (a = b \<or> (a AND 0x7FFFFFFFFFFFFFFF = 0 \<and> b AND 0x7FFFFFFFFFFFFFFF = 0))"

section \<open>Equality (impl PartialEq for CmTypes)\<close>

primrec cm_eq :: "cm_types \<Rightarrow> cm_types \<Rightarrow> bool" where
  "cm_eq (CmBool a) r = (case r of CmBool b \<Rightarrow> a = b | _ \<Rightarrow> False)"
| "cm_eq (CmI8 a) r = (case r of CmI8 b \<Rightarrow> a = b | _ \<Rightarrow> False)"
| "cm_eq (CmI16 a) r = (case r of CmI16 b \<Rightarrow> a = b | _ \<Rightarrow> False)"
| "cm_eq (CmI32 a) r = (case r of CmI32 b \<Rightarrow> a = b | _ \<Rightarrow> False)"
| "cm_eq (CmI64 a) r = (case r of CmI64 b \<Rightarrow> a = b | _ \<Rightarrow> False)"
| "cm_eq (CmI128 a) r = (case r of CmI128 b \<Rightarrow> a = b | _ \<Rightarrow> False)"
| "cm_eq (CmU8 a) r = (case r of CmU8 b \<Rightarrow> a = b | _ \<Rightarrow> False)"
| "cm_eq (CmU16 a) r = (case r of CmU16 b \<Rightarrow> a = b | _ \<Rightarrow> False)"
| "cm_eq (CmU32 a) r = (case r of CmU32 b \<Rightarrow> a = b | _ \<Rightarrow> False)"
| "cm_eq (CmU64 a) r = (case r of CmU64 b \<Rightarrow> a = b | _ \<Rightarrow> False)"
| "cm_eq (CmU128 a) r = (case r of CmU128 b \<Rightarrow> a = b | _ \<Rightarrow> False)"
| "cm_eq (CmF32 a) r = (case r of CmF32 b \<Rightarrow> f32_eq a b | _ \<Rightarrow> False)"
| "cm_eq (CmF64 a) r = (case r of CmF64 b \<Rightarrow> f64_eq a b | _ \<Rightarrow> False)"
| "cm_eq (CmChar a) r = (case r of CmChar b \<Rightarrow> a = b | _ \<Rightarrow> False)"
| "cm_eq (CmUsize a) r = (case r of CmUsize b \<Rightarrow> a = b | _ \<Rightarrow> False)"
| "cm_eq (CmIsize a) r = (case r of CmIsize b \<Rightarrow> a = b | _ \<Rightarrow> False)"
| "cm_eq (CmString a) r = (case r of CmString b \<Rightarrow> a = b | _ \<Rightarrow> False)"
| "cm_eq (CmVecCmt as) r =
     (case r of
        CmVecCmt bs \<Rightarrow> length as = length bs \<and> list_all (\<lambda>(eq, b). eq b) (zip (map cm_eq as) bs)
      | _ \<Rightarrow> False)"
| "cm_eq (CmRef a) r = (case r of CmRef b \<Rightarrow> a = b | _ \<Rightarrow> False)"
| "cm_eq (CmRes a) r = (case r of CmRes b \<Rightarrow> a = b | _ \<Rightarrow> False)"
| "cm_eq (CmDep a) r = (case r of CmDep b \<Rightarrow> a = b | _ \<Rightarrow> False)"
| "cm_eq (CmBarrier a) r = (case r of CmBarrier b \<Rightarrow> a = b | _ \<Rightarrow> False)"
| "cm_eq (CmComplex32 a) r =
     (case r of CmComplex32 b \<Rightarrow> f32_eq (fst a) (fst b) \<and> f32_eq (snd a) (snd b) | _ \<Rightarrow> False)"
| "cm_eq (CmComplex64 a) r =
     (case r of CmComplex64 b \<Rightarrow> f64_eq (fst a) (fst b) \<and> f64_eq (snd a) (snd b) | _ \<Rightarrow> False)"
| "cm_eq CmNone r = (case r of CmNone \<Rightarrow> True | _ \<Rightarrow> False)"
| "cm_eq CmInit r = (case r of CmInit \<Rightarrow> True | _ \<Rightarrow> False)"
| "cm_eq (CmBytes a) r = (case r of CmBytes b \<Rightarrow> a = b | _ \<Rightarrow> False)"
| "cm_eq (CmAny a) r = False"
| "cm_eq (CmAnySliced a) r = False"
| "cm_eq (CmVecAny a) r = False"
| "cm_eq (CmAnyHeld a) r = False"

lemma f32_eq_sym: "f32_eq a b = f32_eq b a"
  by (auto simp: f32_eq_def)

lemma f64_eq_sym: "f64_eq a b = f64_eq b a"
  by (auto simp: f64_eq_def)

section \<open>Predicates and conversions\<close>

fun is_result :: "cm_types \<Rightarrow> bool" where
  "is_result (CmRes _) = True"
| "is_result _ = False"

fun cm_is_barrier :: "cm_types \<Rightarrow> bool" where
  "cm_is_barrier (CmBarrier _) = True"
| "cm_is_barrier _ = False"

fun valid_number_to_usize :: "cm_types \<Rightarrow> u64 option" where
  "valid_number_to_usize (CmUsize x) = Some x"
| "valid_number_to_usize (CmU8 x) = Some (ucast x)"
| "valid_number_to_usize (CmU16 x) = Some (ucast x)"
| "valid_number_to_usize (CmU32 x) = Some (ucast x)"
| "valid_number_to_usize (CmU64 x) = Some x"
| "valid_number_to_usize (CmU128 x) = Some (ucast x)"
| "valid_number_to_usize (CmI8 x) = (if 0 \<le> sint x then Some (scast x) else None)"
| "valid_number_to_usize (CmI16 x) = (if 0 \<le> sint x then Some (scast x) else None)"
| "valid_number_to_usize (CmI32 x) = (if 0 \<le> sint x then Some (scast x) else None)"
| "valid_number_to_usize (CmI64 x) = (if 0 \<le> sint x then Some x else None)"
| "valid_number_to_usize (CmI128 x) = (if 0 \<le> sint x then Some (ucast x) else None)"
| "valid_number_to_usize _ = None"

end
