(* ===== verification/Text_Parse.thy ===== *)
theory Text_Parse
  imports Prelude
begin

text \<open>
  The string operations of the Rust standard library that the graph and worker specifications are
  parsed with: \<^verbatim>\<open>str::split\<close>, \<^verbatim>\<open>str::trim\<close>, \<^verbatim>\<open>str::parse::<usize>\<close>, and the decimal
  \<^verbatim>\<open>Display\<close> of an unsigned integer. Strings are ASCII, so white space is the ASCII one.
\<close>

section \<open>Splitting and trimming\<close>

fun split_on :: "char \<Rightarrow> string \<Rightarrow> string list" where
  "split_on c [] = [[]]"
| "split_on c (x # xs) =
     (if x = c then [] # split_on c xs
      else case split_on c xs of p # ps \<Rightarrow> (x # p) # ps | [] \<Rightarrow> [[x]])"

definition is_white :: "char \<Rightarrow> bool" where
  "is_white c \<longleftrightarrow> (let n = of_char c :: nat in n = 32 \<or> (9 \<le> n \<and> n \<le> 13))"

definition trim :: "string \<Rightarrow> string" where
  "trim s = rev (dropWhile is_white (rev (dropWhile is_white s)))"

lemma split_on_ne [simp]: "split_on c s \<noteq> []"
  by (induction s) (auto split: list.splits)

lemma split_on_none: "c \<notin> set s \<Longrightarrow> split_on c s = [s]"
  by (induction s) auto

lemma split_on_append: "c \<notin> set s \<Longrightarrow> split_on c (s @ c # t) = s # split_on c t"
  by (induction s) auto

lemma split_on_singleton: "split_on c s = [t] \<Longrightarrow> s = t \<and> c \<notin> set s"
  by (induction s arbitrary: t) (auto split: if_splits list.splits)

lemma trim_id: "list_all (\<lambda>c. \<not> is_white c) s \<Longrightarrow> trim s = s"
proof -
  assume "list_all (\<lambda>c. \<not> is_white c) s"
  then have "dropWhile is_white s = s" "dropWhile is_white (rev s) = rev s"
    by (auto simp: list_all_iff dropWhile_eq_self_iff hd_rev)
  then show ?thesis by (simp add: trim_def)
qed

section \<open>Unsigned integers\<close>

definition digit_val :: "char \<Rightarrow> nat option" where
  "digit_val c = (let n = of_char c :: nat in if 48 \<le> n \<and> n \<le> 57 then Some (n - 48) else None)"

fun parse_digits :: "nat \<Rightarrow> string \<Rightarrow> nat option" where
  "parse_digits acc [] = Some acc"
| "parse_digits acc (c # cs) =
     (case digit_val c of
        None \<Rightarrow> None
      | Some d \<Rightarrow> if acc * 10 + d < 2 ^ 64 then parse_digits (acc * 10 + d) cs else None)"

definition parse_usize :: "string \<Rightarrow> nat option" where
  "parse_usize s =
     (let digits = (case s of c # cs \<Rightarrow> if c = CHR ''+'' then cs else s | [] \<Rightarrow> [])
      in if digits = [] then None else parse_digits 0 digits)"

definition digit_char :: "nat \<Rightarrow> char" where
  "digit_char d = char_of (48 + d)"

fun show_nat :: "nat \<Rightarrow> string" where
  "show_nat n = (if n < 10 then [digit_char n] else show_nat (n div 10) @ [digit_char (n mod 10)])"

declare show_nat.simps [simp del]

lemma digit_val_char [simp]: "d < 10 \<Longrightarrow> digit_val (digit_char d) = Some d"
  by (simp add: digit_val_def digit_char_def Let_def)

lemma parse_digits_append:
  "parse_digits acc (s @ t) = Option.bind (parse_digits acc s) (\<lambda>a. parse_digits a t)"
  by (induction acc s rule: parse_digits.induct) (auto split: option.splits)

lemma parse_digits_bound: "acc < 2 ^ 64 \<Longrightarrow> parse_digits acc s = Some n \<Longrightarrow> n < 2 ^ 64"
  by (induction acc s rule: parse_digits.induct) (auto split: option.splits if_splits)

lemma parse_digits_show: "n < 2 ^ 64 \<Longrightarrow> parse_digits 0 (show_nat n) = Some n"
proof (induction n rule: show_nat.induct)
  case (1 n)
  show ?case
  proof (cases "n < 10")
    case True
    then show ?thesis by (subst show_nat.simps) simp
  next
    case False
    then have "n div 10 < n" by simp
    then have "parse_digits 0 (show_nat (n div 10)) = Some (n div 10)"
      using 1 False by linarith
    moreover have "n div 10 * 10 + n mod 10 = n" by simp
    ultimately show ?thesis
      using False 1(2) by (subst show_nat.simps) (simp add: parse_digits_append)
  qed
qed

lemma show_nat_ne [simp]: "show_nat n \<noteq> []"
  by (subst show_nat.simps) simp

definition is_digit_char :: "char \<Rightarrow> bool" where
  "is_digit_char c \<longleftrightarrow> (\<exists>d < 10. c = digit_char d)"

lemma show_nat_digits: "list_all is_digit_char (show_nat n)"
proof (induction n rule: show_nat.induct)
  case (1 n)
  have "is_digit_char (digit_char (n mod 10))" "n < 10 \<Longrightarrow> is_digit_char (digit_char n)"
    unfolding is_digit_char_def by (rule exI [of _ "n mod 10"], simp) (rule exI [of _ n], simp)
  then show ?case using 1 by (subst show_nat.simps) simp
qed

lemma digit_char_props:
  assumes "is_digit_char c"
  shows "c \<noteq> CHR ''-''" "c \<noteq> CHR ''+''" "\<not> is_white c" "c \<noteq> CHR '',''"
proof -
  from assms obtain d where d: "d < 10" "c = digit_char d" by (auto simp: is_digit_char_def)
  then have n: "48 \<le> (of_char c :: nat)" "of_char c \<le> (57 :: nat)"
    by (simp_all add: digit_char_def)
  show "c \<noteq> CHR ''-''" by (rule notI) (use n(1) in simp)
  show "c \<noteq> CHR ''+''" by (rule notI) (use n(1) in simp)
  show "c \<noteq> CHR '',''" by (rule notI) (use n(1) in simp)
  show "\<not> is_white c" using n by (simp add: is_white_def)
qed

lemma show_nat_digit: "c \<in> set (show_nat n) \<Longrightarrow> is_digit_char c"
  using show_nat_digits [of n] by (simp add: list_all_iff)

lemma show_nat_chars:
  "CHR ''-'' \<notin> set (show_nat n)" "CHR ''+'' \<notin> set (show_nat n)" "trim (show_nat n) = show_nat n"
  "CHR '','' \<notin> set (show_nat n)"
proof -
  show "CHR ''-'' \<notin> set (show_nat n)" "CHR ''+'' \<notin> set (show_nat n)" "CHR '','' \<notin> set (show_nat n)"
    using show_nat_digit digit_char_props(1,2,4) by blast+
  show "trim (show_nat n) = show_nat n"
    by (rule trim_id) (use show_nat_digit digit_char_props(3) in \<open>unfold list_all_iff, blast\<close>)
qed

lemma parse_usize_show [simp]: "n < 2 ^ 64 \<Longrightarrow> parse_usize (show_nat n) = Some n"
  using parse_digits_show [of n] show_nat_chars(2) [of n]
  by (cases "show_nat n") (auto simp: parse_usize_def)

lemma parse_usize_bound: "parse_usize s = Some n \<Longrightarrow> n < 2 ^ 64"
  using parse_digits_bound [of 0] by (auto simp: parse_usize_def Let_def split: if_splits)

end
