(* ===== verification/Worker_Range.thy ===== *)
theory Worker_Range
  imports Text_Parse
begin

text \<open>
  Worker affinity specifications, \<^verbatim>\<open>tomii-core/src/worker_range.rs\<close>: the half-open range of
  worker indices, its textual form \<open>a-b\<close> with an inclusive end, and the count-or-range
  specification a node may carry.
\<close>

record worker_range =
  wr_start :: nat
  wr_end :: nat

datatype worker_range_spec = Count nat | Range worker_range

text \<open>The error messages, by their format and arguments.\<close>

datatype worker_range_error =
    InvalidRangeFormat string
  | InvalidStart string
  | InvalidEnd string
  | StartAfterEnd nat nat
  | ZeroWorkers
  | InvalidUseWorkers string

definition worker_range_parse :: "string \<Rightarrow> worker_range_error + worker_range" where
  "worker_range_parse s =
     (case split_on (CHR ''-'') s of
        [a, b] \<Rightarrow>
          (case parse_usize (trim a) of
             None \<Rightarrow> Inl (InvalidStart a)
           | Some start \<Rightarrow>
               (case parse_usize (trim b) of
                  None \<Rightarrow> Inl (InvalidEnd b)
                | Some end_inclusive \<Rightarrow>
                    if end_inclusive < start then Inl (StartAfterEnd start end_inclusive)
                    else Inr \<lparr>wr_start = start, wr_end = (end_inclusive + 1) mod 2 ^ 64\<rparr>))
      | _ \<Rightarrow> Inl (InvalidRangeFormat s))"

definition wr_contains :: "worker_range \<Rightarrow> nat \<Rightarrow> bool" where
  "wr_contains r worker_idx \<longleftrightarrow> wr_start r \<le> worker_idx \<and> worker_idx < wr_end r"

definition wr_len :: "worker_range \<Rightarrow> nat" where
  "wr_len r = wr_end r - wr_start r"

definition wr_is_empty :: "worker_range \<Rightarrow> bool" where
  "wr_is_empty r \<longleftrightarrow> wr_end r \<le> wr_start r"

definition worker_range_show :: "worker_range \<Rightarrow> string" where
  "worker_range_show r =
     (if wr_is_empty r then ''[empty]''
      else show_nat (wr_start r) @ ''-'' @ show_nat (wr_end r - 1))"

definition worker_range_spec_parse :: "string \<Rightarrow> worker_range_error + worker_range_spec" where
  "worker_range_spec_parse s0 =
     (let s = trim s0;
          parts = split_on (CHR ''-'') s;
          as_range = rbind (worker_range_parse s) (\<lambda>r. Inr (Range r))
      in if CHR ''-'' \<in> set s \<and> length parts = 2 \<and> parts ! 0 \<noteq> [] then as_range
         else case parse_usize s of
             Some count \<Rightarrow> if count = 0 then Inl ZeroWorkers else Inr (Count count)
           | None \<Rightarrow> if CHR ''-'' \<in> set s then as_range else Inl (InvalidUseWorkers s))"

fun spec_to_range :: "worker_range_spec \<Rightarrow> nat \<Rightarrow> worker_range" where
  "spec_to_range (Count count) start_idx = \<lparr>wr_start = start_idx, wr_end = start_idx + count\<rparr>"
| "spec_to_range (Range r) start_idx = r"

fun spec_count :: "worker_range_spec \<Rightarrow> nat" where
  "spec_count (Count n) = n"
| "spec_count (Range r) = wr_len r"

fun spec_is_count_based :: "worker_range_spec \<Rightarrow> bool" where
  "spec_is_count_based (Count _) = True"
| "spec_is_count_based (Range _) = False"

section \<open>Lemmas\<close>

lemma card_wr_contains: "card {w. wr_contains r w} = wr_len r"
proof -
  have "{w. wr_contains r w} = {wr_start r..<wr_end r}" by (auto simp: wr_contains_def)
  then show ?thesis by (simp add: wr_len_def)
qed

lemma parse_show_range:
  assumes "a \<le> b" "b < 2 ^ 64"
  shows "worker_range_parse (show_nat a @ ''-'' @ show_nat b)
    = Inr \<lparr>wr_start = a, wr_end = (b + 1) mod 2 ^ 64\<rparr>"
  using assms split_on_append [OF show_nat_chars(1), of a "show_nat b"]
    split_on_none [OF show_nat_chars(1), of b]
  by (simp add: worker_range_parse_def show_nat_chars)


lemma trim_show_range: "trim (show_nat a @ ''-'' @ show_nat b) = show_nat a @ ''-'' @ show_nat b"
proof (rule trim_id)
  have "\<not> is_white (CHR ''-'')" by (simp add: is_white_def)
  moreover have "\<not> is_white c" if "c \<in> set (show_nat n)" for c n
    using that show_nat_digit digit_char_props(3) by blast
  ultimately show "list_all (\<lambda>c. \<not> is_white c) (show_nat a @ ''-'' @ show_nat b)"
    by (auto simp: list_all_iff)
qed

lemma spec_parse_range:
  assumes "worker_range_parse (show_nat a @ ''-'' @ show_nat b) = Inr r"
  shows "worker_range_spec_parse (show_nat a @ ''-'' @ show_nat b) = Inr (Range r)"
proof -
  have "split_on (CHR ''-'') (show_nat a @ ''-'' @ show_nat b) = [show_nat a, show_nat b]"
    using split_on_append [OF show_nat_chars(1), of a "show_nat b"]
      split_on_none [OF show_nat_chars(1), of b] by simp
  then show ?thesis
    using assms by (simp add: worker_range_spec_parse_def Let_def trim_show_range del: append.simps)
qed

section \<open>The properties\<close>

text \<open>Printing and parsing worker ranges are inverse. The text of a non-empty range is parsed
  back to that range, both by the range parser and by the count-or-range parser, and the decimal
  text of a positive count is parsed back to that count.\<close>

theorem worker_range_roundtrip:
  assumes "\<not> wr_is_empty r" and "wr_end r < 2 ^ 64" and "0 < n" and "n < 2 ^ 64"
  shows "worker_range_parse (worker_range_show r) = Inr r
    \<and> worker_range_spec_parse (worker_range_show r) = Inr (Range r)
    \<and> worker_range_spec_parse (show_nat n) = Inr (Count n)"
proof (intro conjI)
  have e: "wr_start r \<le> wr_end r - 1" "wr_end r - 1 < 2 ^ 64" "(wr_end r - 1 + 1) mod 2 ^ 64 = wr_end r"
    using assms(1,2) by (auto simp: wr_is_empty_def)
  show p: "worker_range_parse (worker_range_show r) = Inr r"
    unfolding worker_range_show_def if_not_P [OF assms(1)] parse_show_range [OF e(1,2)] e(3) by simp
  then show "worker_range_spec_parse (worker_range_show r) = Inr (Range r)"
    unfolding worker_range_show_def if_not_P [OF assms(1)] by (rule spec_parse_range)
  show "worker_range_spec_parse (show_nat n) = Inr (Count n)"
    using assms(3,4) by (simp add: worker_range_spec_parse_def Let_def show_nat_chars)
qed

theorem worker_range_roundtrip_witness:
  "worker_range_parse (worker_range_show \<lparr>wr_start = 4, wr_end = 12\<rparr>) = Inr \<lparr>wr_start = 4, wr_end = 12\<rparr>
   \<and> worker_range_spec_parse (worker_range_show \<lparr>wr_start = 4, wr_end = 12\<rparr>)
     = Inr (Range \<lparr>wr_start = 4, wr_end = 12\<rparr>)
   \<and> worker_range_spec_parse (show_nat 10) = Inr (Count 10)"
  by (rule worker_range_roundtrip) (simp_all add: wr_is_empty_def)

text \<open>What the count-or-range parser accepts denotes the workers the user wrote: a count is
  positive; a range \<open>a-b\<close> contains exactly the workers from \<open>a\<close> to \<open>b\<close> inclusive, hence
  \<open>b - a + 1\<close> of them, except that the end \<open>2 ^ 64 - 1\<close> wraps around to the empty range.\<close>

theorem worker_range_parse_denotes:
  assumes "worker_range_spec_parse s = Inr spec"
  shows "case spec of
      Count n \<Rightarrow> 0 < n
    | Range r \<Rightarrow> \<exists>a b. split_on (CHR ''-'') (trim s) = [a, b]
        \<and> parse_usize (trim a) = Some (wr_start r)
        \<and> (\<exists>e. parse_usize (trim b) = Some e \<and> wr_start r \<le> e
            \<and> (if e = 2 ^ 64 - 1 then wr_is_empty r
               else (\<forall>w. wr_contains r w \<longleftrightarrow> wr_start r \<le> w \<and> w \<le> e)
                 \<and> spec_count spec = e - wr_start r + 1))"
proof (cases spec)
  case (Count n)
  then show ?thesis
    using assms by (auto simp: worker_range_spec_parse_def Let_def rbind_def
        split: if_splits option.splits sum.splits)
next
  case (Range r)
  then have "worker_range_parse (trim s) = Inr r"
    using assms by (auto simp: worker_range_spec_parse_def Let_def rbind_def
        split: if_splits option.splits sum.splits)
  then obtain a b e where ab: "split_on (CHR ''-'') (trim s) = [a, b]"
      "parse_usize (trim a) = Some (wr_start r)" "parse_usize (trim b) = Some e"
      "wr_start r \<le> e" "wr_end r = (e + 1) mod 2 ^ 64"
    by (auto simp: worker_range_parse_def split: list.splits option.splits if_splits)
  have "e < 2 ^ 64" using parse_usize_bound [OF ab(3)] .
  then have e: "if e = 2 ^ 64 - 1 then wr_end r = 0 else wr_end r = e + 1"
    using ab(5) by (cases "e = 2 ^ 64 - 1") simp_all
  show ?thesis
    unfolding Range worker_range_spec.case
  proof (intro exI conjI)
    show "if e = 2 ^ 64 - 1 then wr_is_empty r
      else (\<forall>w. wr_contains r w \<longleftrightarrow> wr_start r \<le> w \<and> w \<le> e)
        \<and> spec_count (Range r) = e - wr_start r + 1"
      using e ab(4) by (auto simp: wr_is_empty_def wr_contains_def wr_len_def split: if_splits)
  qed (use ab in auto)
qed

theorem worker_range_parse_denotes_witness:
  "\<exists>a b. split_on (CHR ''-'') (trim ''0-7'') = [a, b] \<and> parse_usize (trim a) = Some 0
     \<and> (\<exists>e. parse_usize (trim b) = Some e \<and> 0 \<le> e \<and> (if e = 2 ^ 64 - 1 then wr_is_empty \<lparr>wr_start = 0, wr_end = 8\<rparr>
         else (\<forall>w. wr_contains \<lparr>wr_start = 0, wr_end = 8\<rparr> w \<longleftrightarrow> 0 \<le> w \<and> w \<le> e)
           \<and> spec_count (Range \<lparr>wr_start = 0, wr_end = 8\<rparr>) = e - 0 + 1))"
proof -
  have "worker_range_spec_parse ''0-7'' = Inr (Range \<lparr>wr_start = 0, wr_end = 8\<rparr>)"
    by (simp add: worker_range_spec_parse_def worker_range_parse_def parse_usize_def digit_val_def
        trim_def is_white_def Let_def)
  from worker_range_parse_denotes [OF this] show ?thesis
    unfolding worker_range_spec.case worker_range.select_convs .
qed

end
