(* ===== verification/Graph_Struct.thy ===== *)
theory Graph_Struct
  imports Cm_Types Worker_Range
begin

text \<open>
  The graph's data model, \<^verbatim>\<open>tomii-core/src/graph_struct.rs\<close>: arguments, predecessors, nodes and
  conditions, and the pure functions on them that both the dependency counting
  (\<^theory_text>\<open>Graph_Model\<close>) and the routing tables (\<^theory_text>\<open>Routing\<close>) are built from. Signed index
  offsets (\<^verbatim>\<open>isize\<close>) are \<^typ>\<open>int\<close>, and every \<^verbatim>\<open>as usize\<close> is written out as \<open>as_usize\<close>;
  the arithmetic wraps as in the release profile of the workspace.
\<close>

section \<open>Signed indexes as usize\<close>

definition as_usize :: "int \<Rightarrow> nat" where
  "as_usize i = nat (i mod 2 ^ 64)"

lemma as_usize_nonneg [simp]: "0 \<le> i \<Longrightarrow> i < 2 ^ 64 \<Longrightarrow> as_usize i = nat i"
  by (simp add: as_usize_def)

lemma as_usize_of_nat [simp]: "n < 2 ^ 64 \<Longrightarrow> as_usize (int n) = n"
  by (simp add: as_usize_def flip: zmod_int)

lemma as_usize_neg: "i < 0 \<Longrightarrow> - (2 ^ 64) \<le> i \<Longrightarrow> as_usize i = nat (2 ^ 64 + i)"
proof -
  assume "i < 0" "- (2 ^ 64) \<le> i"
  then have "i mod 2 ^ 64 = (i + 2 ^ 64) mod 2 ^ 64" "0 \<le> i + 2 ^ 64" "i + 2 ^ 64 < 2 ^ 64"
    by simp_all
  then have "i mod 2 ^ 64 = i + 2 ^ 64" by (simp only: mod_pos_pos_trivial)
  then show ?thesis by (simp add: as_usize_def add.commute)
qed

text \<open>Rust's \<^verbatim>\<open>%\<close> on signed integers truncates towards zero; \<^verbatim>\<open>rem_euclid\<close> is \<^term>\<open>(mod)\<close>.\<close>

definition rust_rem :: "int \<Rightarrow> int \<Rightarrow> int" where
  "rust_rem a b = sgn a * (\<bar>a\<bar> mod \<bar>b\<bar>)"

lemma rust_rem_nonneg [simp]: "0 \<le> a \<Longrightarrow> 0 < b \<Longrightarrow> rust_rem a b = a mod b"
  by (cases "a = 0") (simp_all add: rust_rem_def)

definition find_pred_index :: "nat \<Rightarrow> int \<Rightarrow> nat \<Rightarrow> nat result" where
  "find_pred_index node_idx pred_idx pred_factor =
     (if pred_factor = 0 then Inl ExplicitPanic
      else Inr (as_usize (rust_rem (int node_idx + pred_idx) (int pred_factor))))"

section \<open>Data\<close>

datatype cond_op = Eq | Neq | Gt | Lt

datatype node_priority = High | Normal | Low

record init_condition =
  ic_operation :: cond_op
  ic_eval_value :: cm_types

record predecessor =
  pred_id :: node_id
  pred_indexes :: "int list"
  pred_group_by :: "nat option"

record arg =
  arg_type :: cm_types
  arg_init_condition :: "init_condition option"
  arg_predecessor :: "predecessor option"

record node_condition =
  nc_operation :: cond_op
  nc_eval_value :: cm_types
  nc_func_name :: string
  nc_args :: "arg list"

record loop_target =
  loop_name :: string
  loop_factor :: nat

record node =
  node_name :: string
  node_args :: "arg list"
  node_ident :: node_id
  node_loop_args :: "arg list option"
  node_factor :: nat
  node_group_size :: "nat option"
  node_func_name :: string
  node_loop :: "loop_target option"
  node_condition :: "node_condition option"
  node_prio :: node_priority
  node_use_workers :: "worker_range_spec option"

definition priority_parse :: "string \<Rightarrow> node_priority" where
  "priority_parse s =
     (if s = ''high'' then High else if s = ''low'' then Low else Normal)"

definition cond_op_parse :: "string \<Rightarrow> cond_op option" where
  "cond_op_parse s =
     (if s = ''Eq'' then Some Eq else if s = ''Neq'' then Some Neq
      else if s = ''Gt'' then Some Gt else if s = ''Lt'' then Some Lt else None)"

section \<open>Conditions\<close>

definition init_condition_evaluate :: "init_condition \<Rightarrow> cm_types \<Rightarrow> bool" where
  "init_condition_evaluate c arg_value =
     (case ic_operation c of
        Eq \<Rightarrow> cm_eq arg_value (ic_eval_value c)
      | Neq \<Rightarrow> \<not> cm_eq arg_value (ic_eval_value c)
      | _ \<Rightarrow> False)"

definition node_condition_evaluate :: "node_condition \<Rightarrow> cm_types \<Rightarrow> bool" where
  "node_condition_evaluate c result_value =
     (case nc_operation c of
        Eq \<Rightarrow> cm_eq result_value (nc_eval_value c)
      | Neq \<Rightarrow> \<not> cm_eq result_value (nc_eval_value c)
      | Gt \<Rightarrow> False
      | Lt \<Rightarrow> False)"

definition is_condition :: "arg \<Rightarrow> bool" where
  "is_condition a = (arg_init_condition a \<noteq> None)"

definition is_barrier :: "arg \<Rightarrow> bool" where
  "is_barrier a = cm_is_barrier (arg_type a)"

definition condition_args :: "node \<Rightarrow> arg list" where
  "condition_args n = filter is_condition (node_args n)"

section \<open>Predecessor filters\<close>

text \<open>
  \<^verbatim>\<open>Predecessor::index_filter\<close>: the range of predecessor instances that drive the successor,
  when only a part of them does. \<open>min\<close> and \<open>max\<close> are taken on \<^verbatim>\<open>isize\<close> and then cast.
\<close>

definition index_filter :: "predecessor \<Rightarrow> nat \<Rightarrow> nat \<Rightarrow> (nat \<times> nat) option" where
  "index_filter p pred_factor succ_factor =
     (if pred_indexes p = [] then None
      else
        let min_idx = as_usize (Min (set (pred_indexes p)));
            max_idx = as_usize (Max (set (pred_indexes p)));
            range_len = as_usize (int max_idx - int min_idx + 1);
            should_filter =
              (if pred_group_by p \<noteq> None then True
               else range_len < pred_factor \<and> range_len = length (pred_indexes p)
                 \<and> (range_len = succ_factor \<or> succ_factor = 1))
        in if should_filter then Some (min_idx, as_usize (int max_idx + 1)) else None)"

definition contributing_instances :: "predecessor \<Rightarrow> nat \<Rightarrow> nat \<Rightarrow> nat" where
  "contributing_instances p pred_factor succ_factor =
     (case index_filter p pred_factor succ_factor of
        Some _ \<Rightarrow> length (pred_indexes p)
      | None \<Rightarrow> pred_factor)"

section \<open>Ambiguous multi-argument predecessors\<close>

definition reads_pred :: "node_id \<Rightarrow> arg \<Rightarrow> bool" where
  "reads_pred pid a = (case arg_predecessor a of Some p \<Rightarrow> pred_id p = pid | None \<Rightarrow> False)"

definition args_on_pred :: "node \<Rightarrow> node_id \<Rightarrow> arg list" where
  "args_on_pred n pid = filter (reads_pred pid) (node_args n)"

definition same_edge :: "arg \<Rightarrow> arg \<Rightarrow> bool" where
  "same_edge a b =
     (case (arg_predecessor a, arg_predecessor b) of
        (Some p, Some q) \<Rightarrow> pred_indexes p = pred_indexes q \<and> pred_group_by p = pred_group_by q
      | _ \<Rightarrow> False)"

definition pred_is_ambiguous_multi_arg :: "node \<Rightarrow> node_id \<Rightarrow> bool" where
  "pred_is_ambiguous_multi_arg n pid =
     (case args_on_pred n pid of
        first # second # rest \<Rightarrow>
          \<not> list_ex is_barrier (first # second # rest)
          \<and> list_ex (\<lambda>a. \<not> same_edge a first) (second # rest)
      | _ \<Rightarrow> False)"

text \<open>The loop over the arguments, skipping predecessors already seen.\<close>

fun ambiguous_loop :: "node \<Rightarrow> node_id list \<Rightarrow> arg list \<Rightarrow> bool" where
  "ambiguous_loop n seen [] = False"
| "ambiguous_loop n seen (a # as) =
     (case arg_predecessor a of
        None \<Rightarrow> ambiguous_loop n seen as
      | Some p \<Rightarrow>
          if pred_id p \<in> set seen then ambiguous_loop n seen as
          else if pred_is_ambiguous_multi_arg n (pred_id p) then True
          else ambiguous_loop n (seen @ [pred_id p]) as)"

definition node_has_ambiguous_multi_res_args :: "node \<Rightarrow> bool" where
  "node_has_ambiguous_multi_res_args n = ambiguous_loop n [] (node_args n)"

lemma ambiguous_loop_iff:
  "(\<forall>q \<in> set seen. \<not> pred_is_ambiguous_multi_arg n q) \<Longrightarrow>
   ambiguous_loop n seen as \<longleftrightarrow>
     (\<exists>a \<in> set as. \<exists>p. arg_predecessor a = Some p \<and> pred_is_ambiguous_multi_arg n (pred_id p))"
  by (induction n seen as rule: ambiguous_loop.induct) (auto split: option.splits)

lemma args_on_pred_reads: "a \<in> set (args_on_pred n pid) \<Longrightarrow>
  a \<in> set (node_args n) \<and> (\<exists>p. arg_predecessor a = Some p \<and> pred_id p = pid)"
  by (auto simp: args_on_pred_def reads_pred_def split: option.splits)

lemma ambiguous_reads:
  assumes "pred_is_ambiguous_multi_arg n pid"
  shows "\<exists>a \<in> set (node_args n). \<exists>p. arg_predecessor a = Some p \<and> pred_id p = pid"
proof -
  from assms have "args_on_pred n pid \<noteq> []"
    by (auto simp: pred_is_ambiguous_multi_arg_def)
  then show ?thesis
    using args_on_pred_reads [of "hd (args_on_pred n pid)" n pid] by auto
qed

lemma node_ambiguous_iff:
  "node_has_ambiguous_multi_res_args n \<longleftrightarrow> (\<exists>pid. pred_is_ambiguous_multi_arg n pid)"
proof -
  have "node_has_ambiguous_multi_res_args n \<longleftrightarrow>
      (\<exists>a \<in> set (node_args n). \<exists>p. arg_predecessor a = Some p
        \<and> pred_is_ambiguous_multi_arg n (pred_id p))"
    unfolding node_has_ambiguous_multi_res_args_def by (rule ambiguous_loop_iff) simp
  then show ?thesis using ambiguous_reads by blast
qed

section \<open>What the filter selects\<close>

text \<open>
  The indexes that are sound for a filter: non-negative and within \<^verbatim>\<open>isize\<close>. On them the casts
  are exact.
\<close>

definition plain_indexes :: "int list \<Rightarrow> bool" where
  "plain_indexes is = list_all (\<lambda>i. 0 \<le> i \<and> i < 2 ^ 63) is"

lemma plain_Min_Max:
  assumes "plain_indexes is" "is \<noteq> []"
  shows "0 \<le> Min (set is)" "Min (set is) \<le> Max (set is)" "Max (set is) < 2 ^ 63"
  using assms by (auto simp: plain_indexes_def list_all_iff)

lemma index_filter_plain:
  assumes "plain_indexes (pred_indexes p)" "pred_indexes p \<noteq> []"
  defines "lo \<equiv> nat (Min (set (pred_indexes p)))" and "hi \<equiv> nat (Max (set (pred_indexes p)))"
  shows "index_filter p pf sf =
    (if pred_group_by p \<noteq> None \<or> (hi - lo + 1 < pf \<and> hi - lo + 1 = length (pred_indexes p)
        \<and> (hi - lo + 1 = sf \<or> sf = 1))
     then Some (lo, hi + 1) else None)"
proof -
  note mm = plain_Min_Max [OF assms(1,2)]
  have lohi: "lo \<le> hi" "int lo = Min (set (pred_indexes p))" "int hi = Max (set (pred_indexes p))"
    "hi < 2 ^ 63"
    using mm by (auto simp: lo_def hi_def)
  have "as_usize (Min (set (pred_indexes p))) = lo" "as_usize (Max (set (pred_indexes p))) = hi"
    using lohi by (simp_all flip: lohi(2,3))
  moreover have "as_usize (int hi - int lo + 1) = hi - lo + 1"
    using lohi by (simp add: as_usize_nonneg)
  moreover have "as_usize (int hi + 1) = hi + 1"
    using lohi by (simp add: as_usize_nonneg)
  ultimately show ?thesis
    using assms(2) by (auto simp: index_filter_def Let_def)
qed

lemma contiguous_set:
  assumes "finite S" "S \<noteq> {}" "card S = nat (Max S - Min S) + 1"
  shows "S = {Min S..Max S :: int}"
proof (rule card_subset_eq)
  show "S \<subseteq> {Min S..Max S}" using assms(1) by auto
  have "Min S \<le> Max S" using assms(1,2) by simp
  then show "card S = card {Min S..Max S}"
    using assms(3) by (simp add: nat_add_distrib)
qed simp

lemma index_filter_empty [simp]: "pred_indexes p = [] \<Longrightarrow> index_filter p pf sf = None"
  by (simp add: index_filter_def)

lemma index_filter_less:
  assumes "plain_indexes (pred_indexes p)" "index_filter p pf sf = Some (lo, hi)"
  shows "lo < hi"
proof -
  have ne: "pred_indexes p \<noteq> []" using assms(2) by force
  then have "nat (Min (set (pred_indexes p))) \<le> nat (Max (set (pred_indexes p)))"
    by (intro nat_mono plain_Min_Max assms(1))
  with assms ne show ?thesis
    by (auto simp: index_filter_plain split: if_splits)
qed

section \<open>Sample nodes\<close>

text \<open>Node and argument builders for the concrete instances below, as the tests of
  \<^verbatim>\<open>graph.rs\<close> have them.\<close>

definition make_node :: "node_id \<Rightarrow> nat \<Rightarrow> arg list \<Rightarrow> node" where
  "make_node nid factor as =
     \<lparr>node_name = ''n'' @ show_nat nid, node_args = as, node_ident = nid, node_loop_args = None,
      node_factor = factor, node_group_size = None, node_func_name = '''', node_loop = None,
      node_condition = None, node_prio = Normal, node_use_workers = None\<rparr>"

definition make_node_grouped :: "node_id \<Rightarrow> nat \<Rightarrow> nat \<Rightarrow> arg list \<Rightarrow> node" where
  "make_node_grouped nid factor gs as = (make_node nid factor as)\<lparr>node_group_size := Some gs\<rparr>"

definition res_arg :: "node_id \<Rightarrow> int list \<Rightarrow> arg" where
  "res_arg pid is = \<lparr>arg_type = CmRes pid, arg_init_condition = None,
     arg_predecessor = Some \<lparr>pred_id = pid, pred_indexes = is, pred_group_by = None\<rparr>\<rparr>"

definition barrier_arg :: "node_id \<Rightarrow> int list \<Rightarrow> nat option \<Rightarrow> arg" where
  "barrier_arg pid is gb = \<lparr>arg_type = CmBarrier '''', arg_init_condition = None,
     arg_predecessor = Some \<lparr>pred_id = pid, pred_indexes = is, pred_group_by = gb\<rparr>\<rparr>"

end
