(* ===== verification/Node_Dep.thy ===== *)
theory Node_Dep
  imports Gen_Word Graph_Struct
begin

text \<open>
  The dependency counters of one node in one slot (\<^verbatim>\<open>NodeDependencyEntry\<close> of
  \<^verbatim>\<open>tomii-core/src/buffers/node_dep.rs\<close>). Every counter is a generation-tagged 64-bit cell.
  An atomic \<^verbatim>\<open>fetch_update\<close> is one step; the compare-and-swap loop that claims an instance is
  one step as well (it retries until it either sees the flag set or sets it), so each operation
  below is the sequence of those steps, in the code's order. What concurrent callers may do
  between them is the subject of \<^theory_text>\<open>Dep_Concurrent\<close>.
\<close>

section \<open>State\<close>

record dep_entry =
  remaining_deps :: "u64 list"
  instances_sent :: "u64 list"
  e_factor :: nat
  e_group_size :: nat
  e_num_groups :: nat
  deps_per_group :: u32
  deps_per_instance :: nat
  e_has_barrier :: bool
  e_is_condition :: bool

definition entry_new :: "nat \<Rightarrow> nat \<Rightarrow> bool \<Rightarrow> nat option \<Rightarrow> bool \<Rightarrow> dep_entry" where
  "entry_new factor total_deps has_barrier group_size_opt is_cond =
     (let (gs, ng) =
        (case group_size_opt of
           Some gs \<Rightarrow> if 0 < gs \<and> gs < factor then (gs, factor div gs) else (factor, 1)
         | None \<Rightarrow> (factor, 1));
        dpg = unwrap_or (checked_div total_deps ng) 0;
        dpi = unwrap_or (checked_div dpg gs) 0
      in \<lparr>remaining_deps = replicate ng (gen_pack 0 (as_u32 dpg)),
          instances_sent = replicate factor (gen_pack 0 0),
          e_factor = factor, e_group_size = gs, e_num_groups = ng,
          deps_per_group = as_u32 dpg, deps_per_instance = dpi,
          e_has_barrier = has_barrier, e_is_condition = is_cond\<rparr>)"

section \<open>Operations\<close>

definition threshold_for_instance_in_group :: "dep_entry \<Rightarrow> nat \<Rightarrow> nat" where
  "threshold_for_instance_in_group e idx_in_group =
     (if e_group_size e \<le> idx_in_group then 2 ^ 64 - 1
      else (e_group_size e - idx_in_group - 1) * deps_per_instance e)"

text \<open>The atomic decrement of one group's counter: the new entry, the old and the new value.\<close>

definition group_dec :: "u32 \<Rightarrow> nat \<Rightarrow> nat \<Rightarrow> dep_entry \<Rightarrow> dep_entry \<times> nat \<times> nat" where
  "group_dec slot_gen g count e =
     (let init_val = deps_per_group e;
          f = (\<lambda>current. saturating_sub current (as_u32 count));
          prev_packed = remaining_deps e ! g;
          old_val = lazy_val init_val slot_gen prev_packed;
          new_val = saturating_sub old_val (as_u32 count)
      in (e\<lparr>remaining_deps := (remaining_deps e)[g := lazy_update init_val slot_gen f prev_packed]\<rparr>,
          unat old_val, unat new_val))"

text \<open>The compare-and-swap loop on one sent flag: the new entry and the index, if claimed.\<close>

definition claim_instance :: "u32 \<Rightarrow> nat \<Rightarrow> dep_entry \<Rightarrow> dep_entry \<times> nat list" where
  "claim_instance slot_gen idx e =
     (let cur = instances_sent e ! idx;
          cur_gen = gen_unpack_gen cur;
          cur_sent = (gen_unpack_val cur \<noteq> 0)
      in if cur_gen = slot_gen \<and> cur_sent then (e, [])
         else (e\<lparr>instances_sent := (instances_sent e)[idx := gen_pack slot_gen 1]\<rparr>, [idx]))"

fun claim_all :: "u32 \<Rightarrow> nat list \<Rightarrow> dep_entry \<Rightarrow> dep_entry \<times> nat list" where
  "claim_all slot_gen [] e = (e, [])"
| "claim_all slot_gen (idx # idxs) e =
     (let (e1, r1) = claim_instance slot_gen idx e;
          (e2, r2) = claim_all slot_gen idxs e1
      in (e2, r1 @ r2))"

definition group_start :: "dep_entry \<Rightarrow> nat \<Rightarrow> nat" where
  "group_start e g = g * e_group_size e"

definition group_end :: "dep_entry \<Rightarrow> nat \<Rightarrow> nat" where
  "group_end e g = min (group_start e g + e_group_size e) (e_factor e)"

text \<open>The three dispatch paths after the decrement of group \<open>g\<close>.\<close>

definition group_publish ::
  "u32 \<Rightarrow> nat \<Rightarrow> nat option \<Rightarrow> nat \<Rightarrow> nat \<Rightarrow> dep_entry \<Rightarrow> dep_entry \<times> nat list" where
  "group_publish slot_gen g specific_succ_idx old_remaining new_remaining e =
     (let start = group_start e g; end' = group_end e g in
      if e_has_barrier e then
        (if 0 < old_remaining \<and> new_remaining = 0 then
           (if \<not> e_is_condition e then (e, [start..<end'])
            else claim_all slot_gen [start..<end'] e)
         else (e, []))
      else
        (case specific_succ_idx of
           Some specific_idx \<Rightarrow>
             if specific_idx < e_factor e then claim_all slot_gen [specific_idx] e else (e, [])
         | None \<Rightarrow>
             if new_remaining \<le> e_group_size e * deps_per_instance e then
               claim_all slot_gen
                 (filter (\<lambda>idx. new_remaining \<le> threshold_for_instance_in_group e (idx - start))
                    [start..<end']) e
             else (e, [])))"

definition decrease_group ::
  "u32 \<Rightarrow> nat \<Rightarrow> nat option \<Rightarrow> nat \<Rightarrow> dep_entry \<Rightarrow> dep_entry \<times> nat list" where
  "decrease_group slot_gen count specific_succ_idx g e =
     (let (e1, old_remaining, new_remaining) = group_dec slot_gen g count e
      in group_publish slot_gen g specific_succ_idx old_remaining new_remaining e1)"

fun decrease_groups ::
  "u32 \<Rightarrow> nat \<Rightarrow> nat option \<Rightarrow> nat list \<Rightarrow> dep_entry \<Rightarrow> dep_entry \<times> nat list" where
  "decrease_groups slot_gen count specific_succ_idx [] e = (e, [])"
| "decrease_groups slot_gen count specific_succ_idx (g # gs) e =
     (let (e1, r1) = decrease_group slot_gen count specific_succ_idx g e;
          (e2, r2) = decrease_groups slot_gen count specific_succ_idx gs e1
      in (e2, r1 @ r2))"

definition decrease_and_get_ready_into ::
  "u32 \<Rightarrow> nat option \<Rightarrow> nat \<Rightarrow> nat option \<Rightarrow> dep_entry \<Rightarrow> dep_entry \<times> nat list" where
  "decrease_and_get_ready_into slot_gen grp count specific_succ_idx e =
     (case grp of
        Some g \<Rightarrow>
          if g < e_num_groups e
          then decrease_groups slot_gen count specific_succ_idx [g..<g + 1] e
          else (e, [])
      | None \<Rightarrow> decrease_groups slot_gen count specific_succ_idx [0..<e_num_groups e] e)"

text \<open>
  \<^verbatim>\<open>increment_dependency\<close> divides by the group size, which is zero only for a node of factor
  zero. The stored value saturates, the returned one is \<^verbatim>\<open>(old_val + 1) as usize\<close> on \<^verbatim>\<open>u32\<close>.
\<close>

definition entry_increment_dependency ::
  "u32 \<Rightarrow> nat option \<Rightarrow> dep_entry \<Rightarrow> (dep_entry \<times> nat) result" where
  "entry_increment_dependency slot_gen instance_idx e =
     (let bump = (\<lambda>g.
        let init_val = deps_per_group e;
            prev = remaining_deps e ! g;
            old_val = lazy_val init_val slot_gen prev
        in (e\<lparr>remaining_deps := (remaining_deps e)
                [g := lazy_update init_val slot_gen (\<lambda>current. saturating_add current 1) prev]\<rparr>,
            unat (old_val + 1)))
      in case instance_idx of
           Some idx \<Rightarrow>
             if e_group_size e = 0 then Inl DivideByZero
             else Inr (bump (min (idx div e_group_size e) (e_num_groups e - 1)))
         | None \<Rightarrow> Inr (bump 0))"

definition entry_reset_sent_flag :: "u32 \<Rightarrow> nat \<Rightarrow> dep_entry \<Rightarrow> dep_entry" where
  "entry_reset_sent_flag slot_gen instance_idx e =
     (if instance_idx < length (instances_sent e)
      then e\<lparr>instances_sent := (instances_sent e)[instance_idx := gen_pack slot_gen 0]\<rparr>
      else e)"

definition entry_reset_epoch :: "u32 \<Rightarrow> dep_entry \<Rightarrow> dep_entry" where
  "entry_reset_epoch new_gen e =
     e\<lparr>remaining_deps := map (\<lambda>_. gen_pack new_gen (deps_per_group e)) (remaining_deps e),
       instances_sent := map (\<lambda>_. gen_pack new_gen 0) (instances_sent e)\<rparr>"

section \<open>Well-formed entries\<close>

text \<open>
  What \<^const>\<open>entry_new\<close> establishes and every operation keeps; it implies that no index the
  operations use is out of range.
\<close>

definition wf_entry :: "dep_entry \<Rightarrow> bool" where
  "wf_entry e \<longleftrightarrow>
     length (remaining_deps e) = e_num_groups e \<and>
     length (instances_sent e) = e_factor e \<and>
     0 < e_num_groups e \<and>
     e_num_groups e * e_group_size e \<le> e_factor e \<and>
     (e_group_size e = 0 \<longrightarrow> e_factor e = 0)"

lemma wf_entry_new: "wf_entry (entry_new factor total_deps b gs c)"
  by (auto simp: wf_entry_def entry_new_def Let_def div_greater_zero_iff split: option.splits)

lemma group_in_range:
  assumes "wf_entry e" "g < e_num_groups e"
  shows "group_end e g = group_start e g + e_group_size e" "group_end e g \<le> e_factor e"
proof -
  have "Suc g * e_group_size e \<le> e_num_groups e * e_group_size e"
    using assms(2) by (intro mult_le_mono1) simp
  then have "g * e_group_size e + e_group_size e \<le> e_factor e"
    using assms(1) by (simp add: wf_entry_def)
  then show "group_end e g = group_start e g + e_group_size e" "group_end e g \<le> e_factor e"
    by (simp_all add: group_end_def group_start_def)
qed

text \<open>The fields no operation writes.\<close>

definition meta :: "dep_entry \<Rightarrow> nat \<times> nat \<times> nat \<times> u32 \<times> nat \<times> bool \<times> bool" where
  "meta e = (e_factor e, e_group_size e, e_num_groups e, deps_per_group e, deps_per_instance e,
     e_has_barrier e, e_is_condition e)"

lemma meta_eqD:
  assumes "meta e = meta e'"
  shows "e_factor e = e_factor e'" "e_group_size e = e_group_size e'"
    "e_num_groups e = e_num_groups e'" "deps_per_group e = deps_per_group e'"
    "deps_per_instance e = deps_per_instance e'" "e_has_barrier e = e_has_barrier e'"
    "e_is_condition e = e_is_condition e'" "group_start e = group_start e'"
    "group_end e = group_end e'"
    "threshold_for_instance_in_group e = threshold_for_instance_in_group e'"
  using assms
  by (simp_all add: meta_def fun_eq_iff group_start_def group_end_def
      threshold_for_instance_in_group_def)

lemma meta_updates [simp]:
  "meta (e\<lparr>remaining_deps := r\<rparr>) = meta e" "meta (e\<lparr>instances_sent := s\<rparr>) = meta e"
  by (simp_all add: meta_def)

text \<open>What the two kinds of cells read as in a generation.\<close>

definition remaining :: "u32 \<Rightarrow> nat \<Rightarrow> dep_entry \<Rightarrow> u32" where
  "remaining gen g e = lazy_val (deps_per_group e) gen (remaining_deps e ! g)"

definition sent :: "u32 \<Rightarrow> dep_entry \<Rightarrow> nat \<Rightarrow> bool" where
  "sent gen e i \<longleftrightarrow> lazy_val 0 gen (instances_sent e ! i) \<noteq> 0"

lemma claim_instance_sent:
  "claim_instance gen i e =
     (if sent gen e i then (e, [])
      else (e\<lparr>instances_sent := (instances_sent e)[i := gen_pack gen 1]\<rparr>, [i]))"
  by (auto simp: claim_instance_def sent_def lazy_val_def Let_def)

lemma sent_after_claim:
  "i < length (instances_sent e) \<Longrightarrow>
   sent gen (fst (claim_instance gen i e)) j \<longleftrightarrow> sent gen e j \<or> j = i"
  by (cases "j = i") (auto simp: claim_instance_sent sent_def)

lemma remaining_after_claim [simp]:
  "remaining_deps (fst (claim_instance gen i e)) = remaining_deps e"
  "meta (fst (claim_instance gen i e)) = meta e"
  "length (instances_sent (fst (claim_instance gen i e))) = length (instances_sent e)"
  by (simp_all add: claim_instance_sent)

lemma claim_all_frame [simp]:
  "remaining_deps (fst (claim_all gen is e)) = remaining_deps e"
  "meta (fst (claim_all gen is e)) = meta e"
  "length (instances_sent (fst (claim_all gen is e))) = length (instances_sent e)"
proof (induction "is" arbitrary: e)
  case (Cons i "is")
  { case 1 show ?case using Cons(1) [of "fst (claim_instance gen i e)"]
      by (simp add: Let_def case_prod_beta) }
  { case 2 show ?case using Cons(2) [of "fst (claim_instance gen i e)"]
      by (simp add: Let_def case_prod_beta) }
  { case 3 show ?case using Cons(3) [of "fst (claim_instance gen i e)"]
      by (simp add: Let_def case_prod_beta) }
qed simp_all

text \<open>Claiming a list of distinct instances returns exactly those not yet sent, in order.\<close>

lemma sent_after_claim_all:
  "set is \<subseteq> {..<length (instances_sent e)} \<Longrightarrow>
   sent gen (fst (claim_all gen is e)) j \<longleftrightarrow> sent gen e j \<or> j \<in> set is"
proof (induction "is" arbitrary: e)
  case (Cons i "is")
  have "sent gen (fst (claim_all gen is (fst (claim_instance gen i e)))) j
      \<longleftrightarrow> sent gen (fst (claim_instance gen i e)) j \<or> j \<in> set is"
    using Cons.prems by (intro Cons.IH) simp
  moreover have "sent gen (fst (claim_instance gen i e)) j \<longleftrightarrow> sent gen e j \<or> j = i"
    using Cons.prems by (intro sent_after_claim) simp
  ultimately show ?case by (auto simp: Let_def case_prod_beta)
qed simp

lemma claim_all_ready:
  "distinct is \<Longrightarrow> set is \<subseteq> {..<length (instances_sent e)} \<Longrightarrow>
   snd (claim_all gen is e) = filter (\<lambda>i. \<not> sent gen e i) is"
proof (induction "is" arbitrary: e)
  case (Cons i "is")
  let ?e1 = "fst (claim_instance gen i e)"
  have "snd (claim_all gen is ?e1) = filter (\<lambda>i. \<not> sent gen ?e1 i) is"
    using Cons.prems by (intro Cons.IH) simp_all
  also have "\<dots> = filter (\<lambda>i. \<not> sent gen e i) is"
    using Cons.prems by (intro filter_cong) (auto simp: sent_after_claim)
  finally show ?case by (simp add: Let_def case_prod_beta claim_instance_sent)
qed simp

lemma group_dec_simps [dep_simps]:
  "remaining gen g' (fst (group_dec gen g count e)) =
     (if g' = g \<and> g < length (remaining_deps e)
      then saturating_sub (remaining gen g e) (as_u32 count) else remaining gen g' e)"
  "fst (snd (group_dec gen g count e)) = unat (remaining gen g e)"
  "snd (snd (group_dec gen g count e)) = unat (remaining gen g e) - unat (as_u32 count)"
  "meta (fst (group_dec gen g count e)) = meta e"
  "instances_sent (fst (group_dec gen g count e)) = instances_sent e"
  "length (remaining_deps (fst (group_dec gen g count e))) = length (remaining_deps e)"
  by (auto simp: group_dec_def remaining_def Let_def unat_saturating_sub list_update_beyond)

end
