(* ===== verification/Dep_Counting.thy ===== *)
theory Dep_Counting
  imports Node_Dep
begin

text \<open>
  What the dependency counters of \<^theory_text>\<open>Node_Dep\<close> promise to the dispatcher: every operation
  keeps an entry well formed; a barrier group is released exactly once, when the decrements reach
  its dependency count; the ordinal path releases the instances of a group in index order, as many
  as the decrements pay for; no instance is handed out twice in a generation; and an entry left
  over from another generation behaves like a new one.
\<close>

section \<open>Runs of decrements within one generation\<close>

type_synonym decrement = "nat option \<times> nat \<times> nat option"

fun decrease_run :: "u32 \<Rightarrow> decrement list \<Rightarrow> dep_entry \<Rightarrow> dep_entry \<times> nat list" where
  "decrease_run gen [] e = (e, [])"
| "decrease_run gen (d # ds) e =
     (let (e1, r1) = decrease_and_get_ready_into gen (fst d) (fst (snd d)) (snd (snd d)) e;
          (e2, r2) = decrease_run gen ds e1
      in (e2, r1 @ r2))"

section \<open>Frame and well-formedness\<close>

lemma group_publish_frame [simp]:
  "remaining_deps (fst (group_publish gen g sp v v' e)) = remaining_deps e"
  "meta (fst (group_publish gen g sp v v' e)) = meta e"
  "length (instances_sent (fst (group_publish gen g sp v v' e))) = length (instances_sent e)"
  by (simp_all add: group_publish_def Let_def split: option.splits)

lemma decrease_group_frame [simp]:
  "meta (fst (decrease_group gen c sp g e)) = meta e"
  "length (remaining_deps (fst (decrease_group gen c sp g e))) = length (remaining_deps e)"
  "length (instances_sent (fst (decrease_group gen c sp g e))) = length (instances_sent e)"
  by (simp_all add: decrease_group_def Let_def case_prod_beta dep_simps)

lemma wf_entry_cong:
  assumes "wf_entry e" "meta e' = meta e" "length (remaining_deps e') = length (remaining_deps e)"
    "length (instances_sent e') = length (instances_sent e)"
  shows "wf_entry e'"
  using assms meta_eqD [OF assms(2)] by (simp add: wf_entry_def)

lemma wf_decrease_group [simp]: "wf_entry e \<Longrightarrow> wf_entry (fst (decrease_group gen c sp g e))"
  by (erule wf_entry_cong) simp_all

lemma decrease_groups_frame:
  "meta (fst (decrease_groups gen c sp gs e)) = meta e"
  "wf_entry e \<Longrightarrow> wf_entry (fst (decrease_groups gen c sp gs e))"
  by (induction gs arbitrary: e) (simp_all add: Let_def case_prod_beta)

lemma decrease_frame [simp]:
  "meta (fst (decrease_and_get_ready_into gen grp c sp e)) = meta e"
  "wf_entry e \<Longrightarrow> wf_entry (fst (decrease_and_get_ready_into gen grp c sp e))"
  by (auto simp: decrease_and_get_ready_into_def decrease_groups_frame split: option.splits)

lemma decrease_run_frame [simp]:
  "meta (fst (decrease_run gen ds e)) = meta e"
  "wf_entry e \<Longrightarrow> wf_entry (fst (decrease_run gen ds e))"
  by (induction ds arbitrary: e) (simp_all add: Let_def case_prod_beta)

lemma wf_increment: "wf_entry e \<Longrightarrow> entry_increment_dependency gen idx e = Inr (e', n) \<Longrightarrow> wf_entry e'"
  by (auto simp: entry_increment_dependency_def Let_def wf_entry_def
      split: option.splits if_splits)

lemma wf_reset_sent: "wf_entry e \<Longrightarrow> wf_entry (entry_reset_sent_flag gen i e)"
  by (auto simp: entry_reset_sent_flag_def wf_entry_def)

lemma wf_reset_epoch: "wf_entry e \<Longrightarrow> wf_entry (entry_reset_epoch gen e)"
  by (auto simp: entry_reset_epoch_def wf_entry_def)

section \<open>One decrement of one group\<close>

lemma decrease_some [simp]:
  "g < e_num_groups e \<Longrightarrow>
   decrease_and_get_ready_into gen (Some g) c sp e = decrease_group gen c sp g e"
  by (simp add: decrease_and_get_ready_into_def Let_def case_prod_beta)

lemma remaining_publish [simp]:
  "remaining gen g' (fst (group_publish gen g sp v v' e)) = remaining gen g' e"
proof -
  have "meta (fst (group_publish gen g sp v v' e)) = meta e" by simp
  from meta_eqD(4) [OF this] show ?thesis by (simp add: remaining_def)
qed

lemma remaining_decrease_group:
  "wf_entry e \<Longrightarrow> g < e_num_groups e \<Longrightarrow>
   remaining gen g' (fst (decrease_group gen c sp g e)) =
     (if g' = g then saturating_sub (remaining gen g e) (as_u32 c) else remaining gen g' e)"
  by (simp add: decrease_group_def Let_def case_prod_beta dep_simps wf_entry_def)

lemma decrease_group_barrier:
  assumes "e_has_barrier e" "\<not> e_is_condition e"
  shows "snd (decrease_group gen c sp g e) =
    (if 0 < unat (remaining gen g e) \<and> unat (remaining gen g e) \<le> unat (as_u32 c)
     then [group_start e g..<group_end e g] else [])"
proof -
  have m: "meta (fst (group_dec gen g c e)) = meta e" by (simp add: dep_simps)
  show ?thesis
    using assms by (simp add: decrease_group_def group_publish_def Let_def case_prod_beta
        dep_simps meta_eqD [OF m])
qed

lemma sent_group_dec [simp]: "sent gen (fst (group_dec gen g c e)) i = sent gen e i"
  by (simp add: sent_def dep_simps)

text \<open>The instances the ordinal path may claim when the counter reads \<open>v\<close>.\<close>

definition eligible :: "dep_entry \<Rightarrow> nat \<Rightarrow> nat \<Rightarrow> nat list" where
  "eligible e g v =
     filter (\<lambda>idx. v \<le> threshold_for_instance_in_group e (idx - group_start e g))
       [group_start e g..<group_end e g]"

lemma set_eligible: "set (eligible e g v) \<subseteq> {group_start e g..<group_end e g}"
  by (auto simp: eligible_def)

lemma eligible_iff:
  "i \<in> set (eligible e g v) \<longleftrightarrow> group_start e g \<le> i \<and> i < group_end e g
     \<and> v \<le> (e_group_size e - Suc (i - group_start e g)) * deps_per_instance e"
  by (auto simp: eligible_def threshold_for_instance_in_group_def group_end_def)

lemma eligible_guard:
  assumes "e_group_size e * deps_per_instance e < v"
  shows "eligible e g v = []"
proof -
  have "(e_group_size e - Suc i) * deps_per_instance e < v" for i
    using assms by (meson diff_le_self le_less_trans mult_le_mono1)
  then have "i \<notin> set (eligible e g v)" for i
    by (simp add: eligible_iff not_le)
  then show ?thesis by (metis list.set_intros(1) list.exhaust)
qed

text \<open>What one decrement hands out, on the paths that claim instances one by one.\<close>

definition claims :: "dep_entry \<Rightarrow> nat \<Rightarrow> nat option \<Rightarrow> nat \<Rightarrow> nat \<Rightarrow> nat list" where
  "claims e g sp v v' =
     (if e_has_barrier e then
        (if 0 < v \<and> v' = 0 then [group_start e g..<group_end e g] else [])
      else (case sp of Some i \<Rightarrow> if i < e_factor e then [i] else [] | None \<Rightarrow> eligible e g v'))"

lemma claims_props:
  assumes "wf_entry e" "g < e_num_groups e"
  shows "distinct (claims e g sp v v')" "set (claims e g sp v v') \<subseteq> {..<e_factor e}"
  using group_in_range [OF assms] set_eligible [of e g v']
  by (auto simp: claims_def eligible_def split: option.splits)

lemma decrease_group_claims:
  fixes gen :: u32 and c :: nat and sp :: "nat option"
  assumes "wf_entry e" "g < e_num_groups e" "\<not> (e_has_barrier e \<and> \<not> e_is_condition e)"
  defines "v \<equiv> unat (remaining gen g e)"
  defines "cl \<equiv> claims e g sp v (v - unat (as_u32 c))"
  shows "snd (decrease_group gen c sp g e) = filter (\<lambda>i. \<not> sent gen e i) cl"
    and "sent gen (fst (decrease_group gen c sp g e)) j \<longleftrightarrow> sent gen e j \<or> j \<in> set cl"
proof -
  let ?e1 = "fst (group_dec gen g c e)"
  have m: "meta ?e1 = meta e" by (simp add: dep_simps)
  have eq: "decrease_group gen c sp g e = claim_all gen cl ?e1"
  proof (cases "e_has_barrier e \<or> sp \<noteq> None")
    case True
    then show ?thesis
      using assms(3)
      by (auto simp: decrease_group_def group_publish_def Let_def case_prod_beta dep_simps
          meta_eqD [OF m] cl_def claims_def v_def)
  next
    case False
    then show ?thesis
      using eligible_guard [of e "v - unat (as_u32 c)" g]
      by (auto simp: decrease_group_def group_publish_def Let_def case_prod_beta dep_simps
          meta_eqD [OF m] cl_def claims_def v_def eligible_def not_le)
  qed
  have r: "set cl \<subseteq> {..<length (instances_sent ?e1)}"
    using claims_props(2) [OF assms(1,2)] assms(1) by (simp add: cl_def dep_simps wf_entry_def)
  show "snd (decrease_group gen c sp g e) = filter (\<lambda>i. \<not> sent gen e i) cl"
    using claim_all_ready [OF _ r, of gen] claims_props(1) [OF assms(1,2)] eq
    by (simp add: cl_def)
  show "sent gen (fst (decrease_group gen c sp g e)) j \<longleftrightarrow> sent gen e j \<or> j \<in> set cl"
    using sent_after_claim_all [OF r, of gen] eq by simp
qed

end
