(* ===== verification/Dep_Properties.thy ===== *)
theory Dep_Properties
  imports Dep_Counting
begin

text \<open>
  The properties of one dependency counter, over arbitrary sequences of decrements within a
  generation and across a change of generation.
\<close>

section \<open>Barrier release\<close>

text \<open>Decrements of group \<open>g\<close> with the given counts and dispatch hints.\<close>

definition on_group :: "nat \<Rightarrow> (nat \<times> nat option) list \<Rightarrow> decrement list" where
  "on_group g cs = map (\<lambda>(c, sp). (Some g, c, sp)) cs"

lemma on_group_simps [simp]:
  "on_group g [] = []" "on_group g ((c, sp) # cs) = (Some g, c, sp) # on_group g cs"
  by (simp_all add: on_group_def)

lemma barrier_run:
  assumes "wf_entry e" "g < e_num_groups e" "e_has_barrier e" "\<not> e_is_condition e"
    and "list_all (\<lambda>(c, sp). c < 2 ^ 32) cs"
  shows "snd (decrease_run gen (on_group g cs) e) =
    (if 0 < unat (remaining gen g e) \<and> unat (remaining gen g e) \<le> sum_list (map fst cs)
     then [group_start e g..<group_end e g] else [])"
  using assms
proof (induction cs arbitrary: e)
  case Nil
  then show ?case by simp
next
  case (Cons c cs)
  obtain n sp where c: "c = (n, sp)" by fastforce
  define e1 where "e1 = fst (decrease_group gen n sp g e)"
  have m: "meta e1 = meta e" by (simp add: e1_def)
  have n: "unat (as_u32 n) = n" using Cons.prems(5) c by simp
  have r1: "unat (remaining gen g e1) = unat (remaining gen g e) - n"
    using Cons.prems(1,2) n by (simp add: e1_def remaining_decrease_group unat_saturating_sub)
  have "snd (decrease_run gen (on_group g cs) e1) =
    (if 0 < unat (remaining gen g e1) \<and> unat (remaining gen g e1) \<le> sum_list (map fst cs)
     then [group_start e1 g..<group_end e1 g] else [])"
    using Cons.prems meta_eqD [OF m] by (intro Cons.IH) (simp_all add: e1_def)
  moreover have "snd (decrease_group gen n sp g e) =
    (if 0 < unat (remaining gen g e) \<and> unat (remaining gen g e) \<le> n
     then [group_start e g..<group_end e g] else [])"
    using decrease_group_barrier [OF Cons.prems(3,4), of gen n sp g] n by simp
  moreover have "snd (decrease_run gen (on_group g (c # cs)) e) =
      snd (decrease_group gen n sp g e) @ snd (decrease_run gen (on_group g cs) e1)"
    using Cons.prems(2) by (simp add: c Let_def case_prod_beta e1_def)
  ultimately show ?case
    using r1 by (auto simp: c meta_eqD [OF m])
qed

section \<open>Ordinal release\<close>

lemma eligible_prefix:
  assumes "wf_entry e" "g < e_num_groups e" "0 < deps_per_instance e"
  shows "eligible e g v = [group_start e g..<group_start e g
    + (e_group_size e - (v + deps_per_instance e - 1) div deps_per_instance e)]"
proof -
  let ?d = "deps_per_instance e" and ?s = "group_start e g" and ?n = "e_group_size e"
  let ?k = "(v + ?d - 1) div ?d"
  have key: "v \<le> m * ?d \<longleftrightarrow> ?k \<le> m" for m
  proof -
    have "?k \<le> m \<longleftrightarrow> v + ?d - 1 < Suc m * ?d"
      using assms(3) div_less_iff_less_mult [of ?d "v + ?d - 1" "Suc m"] by auto
    then show ?thesis using assms(3) by auto
  qed
  have "eligible e g v = filter (\<lambda>i. i < ?s + (?n - ?k)) [?s..<?s + ?n]"
    unfolding eligible_def group_in_range(1) [OF assms(1,2)]
    by (rule filter_cong) (auto simp: threshold_for_instance_in_group_def key)
  also have "\<dots> = [?s..<?s + (?n - ?k)]"
    by (subst filter_upt_less) (auto simp: min_def)
  finally show ?thesis .
qed

text \<open>
  In the invariant of the ordinal path the sent flags of a group are exactly the instances that
  the counter's value pays for.
\<close>

definition ordinal_inv :: "u32 \<Rightarrow> nat \<Rightarrow> dep_entry \<Rightarrow> bool" where
  "ordinal_inv gen g e \<longleftrightarrow>
     (\<forall>i \<in> {group_start e g..<group_end e g}.
        sent gen e i \<longleftrightarrow> i \<in> set (eligible e g (unat (remaining gen g e))))"

lemma eligible_mono: "v' \<le> v \<Longrightarrow> set (eligible e g v) \<subseteq> set (eligible e g v')"
  by (auto simp: eligible_iff)

lemma eligible_meta:
  assumes "meta e' = meta e"
  shows "eligible e' g v = eligible e g v"
  using meta_eqD [OF assms] by (simp add: eligible_def)

lemma filter_eligible_mono:
  assumes "wf_entry e" "g < e_num_groups e" "0 < deps_per_instance e" "v' \<le> v"
  shows "eligible e g v @ filter (\<lambda>i. i \<notin> set (eligible e g v)) (eligible e g v')
    = eligible e g v'"
  unfolding eligible_prefix [OF assms(1-3)]
  by (intro upt_append_filter diff_le_mono2 div_le_mono diff_le_mono add_le_mono1 assms(4))

lemma ordinal_run:
  assumes "wf_entry e" "g < e_num_groups e" "\<not> e_has_barrier e" "0 < deps_per_instance e"
    and "ordinal_inv gen g e" and "list_all (\<lambda>c. c < 2 ^ 32) cs"
  shows "eligible e g (unat (remaining gen g e))
       @ snd (decrease_run gen (on_group g (map (\<lambda>c. (c, None)) cs)) e)
     = eligible e g (unat (remaining gen g e) - sum_list cs)"
  using assms
proof (induction cs arbitrary: e)
  case Nil
  then show ?case by simp
next
  case (Cons c cs)
  define v where "v = unat (remaining gen g e)"
  define e1 where "e1 = fst (decrease_group gen c None g e)"
  have m: "meta e1 = meta e" by (simp add: e1_def)
  note mm = meta_eqD [OF m]
  have c: "unat (as_u32 c) = c" using Cons.prems(6) by simp
  have r1: "unat (remaining gen g e1) = v - c"
    using Cons.prems(1,2) c by (simp add: e1_def remaining_decrease_group unat_saturating_sub v_def)
  have cl: "claims e g None v (v - c) = eligible e g (v - c)"
    using Cons.prems(3) by (simp add: claims_def)
  have nb: "\<not> (e_has_barrier e \<and> \<not> e_is_condition e)" using Cons.prems(3) by simp
  note dg = decrease_group_claims [OF Cons.prems(1,2) nb, where gen = gen and c = c and sp = None,
      folded v_def, unfolded c cl]
  have "ordinal_inv gen g e1"
    using Cons.prems(5) eligible_mono [of "v - c" v e g]
    by (auto simp: ordinal_inv_def r1 dg(2) [folded e1_def] mm eligible_meta [OF m]
        v_def [symmetric])
  then have IH: "eligible e1 g (v - c) @ snd (decrease_run gen (on_group g (map (\<lambda>c. (c, None)) cs)) e1)
      = eligible e1 g (v - c - sum_list cs)"
    using Cons.IH [of e1] Cons.prems mm r1 by (simp add: e1_def)
  have "snd (decrease_group gen c None g e)
      = filter (\<lambda>i. i \<notin> set (eligible e g v)) (eligible e g (v - c))"
    unfolding dg(1) using Cons.prems(5) set_eligible [of e g "v - c"]
    by (intro filter_cong) (auto simp: ordinal_inv_def v_def [symmetric])
  then have "eligible e g v @ snd (decrease_group gen c None g e) = eligible e g (v - c)"
    using filter_eligible_mono [OF Cons.prems(1,2,4), of "v - c" v]
    by (simp only: diff_le_self simp_thms)
  then show ?case
    using IH Cons.prems(2)
    by (simp add: Let_def case_prod_beta e1_def [symmetric] v_def [symmetric] eligible_meta [OF m]
        diff_diff_eq flip: append_assoc)
qed

section \<open>No instance twice\<close>

text \<open>
  What a run has handed out is recorded in the entry: by the sent flags, or, for an unconditional
  barrier, by the group counter standing at zero.
\<close>

definition handed_out :: "u32 \<Rightarrow> nat set \<Rightarrow> dep_entry \<Rightarrow> bool" where
  "handed_out gen F e \<longleftrightarrow>
     (\<forall>i \<in> F.
        if e_has_barrier e \<and> \<not> e_is_condition e
        then 0 < e_group_size e \<and> remaining gen (i div e_group_size e) e = 0
        else sent gen e i)"

lemma group_of_index:
  assumes "wf_entry e" "g < e_num_groups e" "i \<in> {group_start e g..<group_end e g}"
  shows "i div e_group_size e = g" "0 < e_group_size e"
proof -
  have i: "g * e_group_size e \<le> i" "i < Suc g * e_group_size e"
    using assms(3) group_in_range(1) [OF assms(1,2)] by (simp_all add: group_start_def)
  then show "0 < e_group_size e" by (cases "e_group_size e") simp_all
  show "i div e_group_size e = g"
    using i by (intro div_nat_eqI) (simp_all add: mult.commute)
qed

lemma saturating_sub_eq_0: "saturating_sub w d = 0 \<longleftrightarrow> unat w \<le> unat d"
  by (metis diff_is_0_eq unat_eq_zero unat_saturating_sub)

lemma barrier_fresh:
  assumes "wf_entry e" "g < e_num_groups e" "handed_out gen F e"
    and b: "e_has_barrier e" "\<not> e_is_condition e"
  shows "distinct (snd (decrease_group gen c sp g e))"
    and "set (snd (decrease_group gen c sp g e)) \<inter> F = {}"
    and "handed_out gen (F \<union> set (snd (decrease_group gen c sp g e)))
           (fst (decrease_group gen c sp g e))"
proof -
  define r where "r = snd (decrease_group gen c sp g e)"
  define e' where "e' = fst (decrease_group gen c sp g e)"
  have m: "meta e' = meta e" by (simp add: e'_def)
  have r: "r = (if 0 < unat (remaining gen g e) \<and> unat (remaining gen g e) \<le> unat (as_u32 c)
      then [group_start e g..<group_end e g] else [])"
    unfolding r_def by (rule decrease_group_barrier [OF b])
  have rem: "remaining gen g' e' = (if g' = g then saturating_sub (remaining gen g e) (as_u32 c)
      else remaining gen g' e)" for g'
    unfolding e'_def by (rule remaining_decrease_group [OF assms(1,2)])
  have F: "0 < e_group_size e" "remaining gen (i div e_group_size e) e = 0" if "i \<in> F" for i
    using assms(3) that b by (auto simp: handed_out_def)
  have ri: "i div e_group_size e = g" "0 < e_group_size e" "0 < unat (remaining gen g e)"
    "unat (remaining gen g e) \<le> unat (as_u32 c)" if "i \<in> set r" for i
  proof -
    have "i \<in> {group_start e g..<group_end e g}" "0 < unat (remaining gen g e)"
      "unat (remaining gen g e) \<le> unat (as_u32 c)"
      using that by (simp_all add: r split: if_splits)
    then show "i div e_group_size e = g" "0 < e_group_size e" "0 < unat (remaining gen g e)"
      "unat (remaining gen g e) \<le> unat (as_u32 c)"
      using group_of_index [OF assms(1,2)] by simp_all
  qed
  show "distinct (snd (decrease_group gen c sp g e))" unfolding r_def [symmetric] r by simp
  show "set (snd (decrease_group gen c sp g e)) \<inter> F = {}"
    unfolding r_def [symmetric] using F ri by fastforce
  show "handed_out gen (F \<union> set (snd (decrease_group gen c sp g e)))
      (fst (decrease_group gen c sp g e))"
    unfolding r_def [symmetric] e'_def [symmetric] handed_out_def
  proof
    fix i assume "i \<in> F \<union> set r"
    then have "0 < e_group_size e \<and> remaining gen (i div e_group_size e) e' = 0"
    proof
      assume "i \<in> F"
      then have "0 < e_group_size e" "remaining gen (i div e_group_size e) e = 0"
        using F by simp_all
      then show ?thesis
        by (cases "i div e_group_size e = g") (simp_all add: rem saturating_sub_eq_0)
    next
      assume "i \<in> set r"
      then show ?thesis using ri by (simp add: rem saturating_sub_eq_0)
    qed
    then show "if e_has_barrier e' \<and> \<not> e_is_condition e'
        then 0 < e_group_size e' \<and> remaining gen (i div e_group_size e') e' = 0
        else sent gen e' i"
      using b meta_eqD [OF m] by simp
  qed
qed

lemma claimed_fresh:
  assumes "wf_entry e" "g < e_num_groups e" "handed_out gen F e"
    and nb: "\<not> (e_has_barrier e \<and> \<not> e_is_condition e)"
  shows "distinct (snd (decrease_group gen c sp g e))"
    and "set (snd (decrease_group gen c sp g e)) \<inter> F = {}"
    and "handed_out gen (F \<union> set (snd (decrease_group gen c sp g e)))
           (fst (decrease_group gen c sp g e))"
proof -
  define e' where "e' = fst (decrease_group gen c sp g e)"
  have m: "meta e' = meta e" by (simp add: e'_def)
  note dg = decrease_group_claims [OF assms(1,2) nb, where gen = gen and c = c and sp = sp]
  have F: "sent gen e i" if "i \<in> F" for i
    using assms(3) that nb by (auto simp: handed_out_def split: if_splits)
  show "distinct (snd (decrease_group gen c sp g e))"
    unfolding dg(1) by (intro distinct_filter claims_props(1) assms(1,2))
  show "set (snd (decrease_group gen c sp g e)) \<inter> F = {}"
    unfolding dg(1) using F by auto
  have "sent gen e' i" if "i \<in> F \<union> set (snd (decrease_group gen c sp g e))" for i
    unfolding e'_def dg(2) using that F by (auto simp: dg(1))
  then show "handed_out gen (F \<union> set (snd (decrease_group gen c sp g e)))
      (fst (decrease_group gen c sp g e))"
    using nb meta_eqD(6,7) [OF m] unfolding e'_def [symmetric] handed_out_def by auto
qed

lemma decrease_group_fresh:
  assumes "wf_entry e" "g < e_num_groups e" "handed_out gen F e"
  shows "distinct (snd (decrease_group gen c sp g e))"
    and "set (snd (decrease_group gen c sp g e)) \<inter> F = {}"
    and "handed_out gen (F \<union> set (snd (decrease_group gen c sp g e)))
           (fst (decrease_group gen c sp g e))"
  using barrier_fresh [OF assms] claimed_fresh [OF assms] by blast+

lemma decrease_groups_fresh:
  assumes "wf_entry e" "set gs \<subseteq> {..<e_num_groups e}" "handed_out gen F e"
  shows "distinct (snd (decrease_groups gen c sp gs e))
    \<and> set (snd (decrease_groups gen c sp gs e)) \<inter> F = {}
    \<and> handed_out gen (F \<union> set (snd (decrease_groups gen c sp gs e)))
         (fst (decrease_groups gen c sp gs e))"
  using assms
proof (induction gs arbitrary: e F)
  case (Cons g gs)
  let ?e1 = "fst (decrease_group gen c sp g e)" and ?r1 = "snd (decrease_group gen c sp g e)"
  have m: "meta ?e1 = meta e" by simp
  have g: "g < e_num_groups e" using Cons.prems(2) by simp
  note fr = decrease_group_fresh [OF Cons.prems(1) g Cons.prems(3), of c sp]
  have "distinct (snd (decrease_groups gen c sp gs ?e1))
    \<and> set (snd (decrease_groups gen c sp gs ?e1)) \<inter> (F \<union> set ?r1) = {}
    \<and> handed_out gen (F \<union> set ?r1 \<union> set (snd (decrease_groups gen c sp gs ?e1)))
         (fst (decrease_groups gen c sp gs ?e1))"
    using Cons.prems(1,2) meta_eqD(3) [OF m] fr(3) by (intro Cons.IH) simp_all
  then show ?case
    using fr(1,2) by (simp add: Let_def case_prod_beta Un_assoc) blast
qed simp

lemma decrease_fresh:
  assumes "wf_entry e" "handed_out gen F e"
  shows "distinct (snd (decrease_and_get_ready_into gen grp c sp e))
    \<and> set (snd (decrease_and_get_ready_into gen grp c sp e)) \<inter> F = {}
    \<and> handed_out gen (F \<union> set (snd (decrease_and_get_ready_into gen grp c sp e)))
         (fst (decrease_and_get_ready_into gen grp c sp e))"
proof (cases grp)
  case None
  then show ?thesis
    using decrease_groups_fresh [OF assms(1) _ assms(2), of "[0..<e_num_groups e]" c sp]
    by (simp add: decrease_and_get_ready_into_def lessThan_atLeast0)
next
  case (Some g)
  show ?thesis
  proof (cases "g < e_num_groups e")
    case True
    then show ?thesis
      using Some decrease_group_fresh [OF assms(1) True assms(2), of c sp] by simp
  next
    case False
    then show ?thesis using Some assms(2) by (simp add: decrease_and_get_ready_into_def)
  qed
qed

lemma decrease_run_fresh:
  assumes "wf_entry e" "handed_out gen F e"
  shows "distinct (snd (decrease_run gen ds e)) \<and> set (snd (decrease_run gen ds e)) \<inter> F = {}"
  using assms
proof (induction ds arbitrary: e F)
  case (Cons d ds)
  let ?op = "decrease_and_get_ready_into gen (fst d) (fst (snd d)) (snd (snd d)) e"
  note fr = decrease_fresh [OF Cons.prems, of "fst d" "fst (snd d)" "snd (snd d)"]
  have "distinct (snd (decrease_run gen ds (fst ?op)))
    \<and> set (snd (decrease_run gen ds (fst ?op))) \<inter> (F \<union> set (snd ?op)) = {}"
    using Cons.prems(1) fr by (intro Cons.IH) simp_all
  then show ?case
    using fr by (simp add: Let_def case_prod_beta) blast
qed simp

section \<open>Entries of another generation\<close>

text \<open>
  Two entries look the same in a generation when all their cells read the same; the operations
  of that generation cannot tell them apart.
\<close>

definition same_view :: "u32 \<Rightarrow> dep_entry \<Rightarrow> dep_entry \<Rightarrow> bool" where
  "same_view gen e f \<longleftrightarrow> wf_entry e \<and> wf_entry f \<and> meta e = meta f
     \<and> (\<forall>g < e_num_groups e. remaining gen g e = remaining gen g f)
     \<and> (\<forall>i < e_factor e. sent gen e i = sent gen f i)"

lemma claims_meta:
  assumes "meta e = meta f"
  shows "claims e g sp v v' = claims f g sp v v'"
  using meta_eqD [OF assms] eligible_meta [OF assms] by (simp add: claims_def cong: option.case_cong)

lemma same_view_group:
  assumes sv: "same_view gen e f" and g: "g < e_num_groups e"
  shows "snd (decrease_group gen c sp g e) = snd (decrease_group gen c sp g f)"
    and "same_view gen (fst (decrease_group gen c sp g e)) (fst (decrease_group gen c sp g f))"
proof -
  from sv have wf: "wf_entry e" "wf_entry f" and m: "meta e = meta f"
    and rem: "\<And>g. g < e_num_groups e \<Longrightarrow> remaining gen g e = remaining gen g f"
    and se: "\<And>i. i < e_factor e \<Longrightarrow> sent gen e i = sent gen f i"
    by (simp_all add: same_view_def)
  note mm = meta_eqD [OF m]
  have gf: "g < e_num_groups f" using g mm by simp
  let ?e' = "fst (decrease_group gen c sp g e)" and ?f' = "fst (decrease_group gen c sp g f)"
  have wf': "wf_entry ?e'" "wf_entry ?f'" "meta ?e' = meta ?f'" using wf m by simp_all
  have rem': "remaining gen g' ?e' = remaining gen g' ?f'" if "g' < e_num_groups e" for g'
    using rem that g by (simp add: remaining_decrease_group wf gf)
  have both: "snd (decrease_group gen c sp g e) = snd (decrease_group gen c sp g f)
      \<and> (\<forall>i < e_factor e. sent gen ?e' i = sent gen ?f' i)"
  proof (cases "e_has_barrier e \<and> \<not> e_is_condition e")
    case True
    then have bf: "e_has_barrier f" "\<not> e_is_condition f" using mm by simp_all
    have "sent gen (fst (decrease_group gen c sp g h)) i = sent gen h i"
      if "e_has_barrier h" "\<not> e_is_condition h" for h i
    proof -
      have "meta (fst (group_dec gen g c h)) = meta h" by (simp add: dep_simps)
      from meta_eqD [OF this] that show ?thesis
        by (simp add: decrease_group_def group_publish_def Let_def case_prod_beta)
    qed
    then show ?thesis
      using True bf mm rem [OF g] se by (simp add: decrease_group_barrier)
  next
    case False
    then have nf: "\<not> (e_has_barrier f \<and> \<not> e_is_condition f)" using mm by simp
    define v where "v = unat (remaining gen g e)"
    have v: "v = unat (remaining gen g f)" by (simp add: v_def rem [OF g])
    note de = decrease_group_claims [OF wf(1) g False, where gen = gen and c = c and sp = sp,
        folded v_def]
    note df = decrease_group_claims [OF wf(2) gf nf, where gen = gen and c = c and sp = sp,
        folded v, folded claims_meta [OF m]]
    have "set (claims e g sp v (v - unat (as_u32 c))) \<subseteq> {..<e_factor e}"
      by (rule claims_props(2) [OF wf(1) g])
    then show ?thesis
      unfolding de df using se by (auto intro!: filter_cong)
  qed
  then show "snd (decrease_group gen c sp g e) = snd (decrease_group gen c sp g f)" by simp
  have "e_num_groups ?e' = e_num_groups e" "e_factor ?e' = e_factor e"
    using meta_eqD [of ?e' e] by simp_all
  then show "same_view gen ?e' ?f'" unfolding same_view_def using wf' rem' both by simp
qed

lemma same_view_groups:
  "same_view gen e f \<Longrightarrow> set gs \<subseteq> {..<e_num_groups e} \<Longrightarrow>
   snd (decrease_groups gen c sp gs e) = snd (decrease_groups gen c sp gs f)
   \<and> same_view gen (fst (decrease_groups gen c sp gs e)) (fst (decrease_groups gen c sp gs f))"
proof (induction gs arbitrary: e f)
  case (Cons g gs)
  have g: "g < e_num_groups e" using Cons.prems(2) by simp
  note sg = same_view_group [OF Cons.prems(1) g, of c sp]
  have "e_num_groups (fst (decrease_group gen c sp g e)) = e_num_groups e"
    using meta_eqD(3) [of "fst (decrease_group gen c sp g e)" e] by simp
  then have "snd (decrease_groups gen c sp gs (fst (decrease_group gen c sp g e)))
        = snd (decrease_groups gen c sp gs (fst (decrease_group gen c sp g f)))
      \<and> same_view gen (fst (decrease_groups gen c sp gs (fst (decrease_group gen c sp g e))))
          (fst (decrease_groups gen c sp gs (fst (decrease_group gen c sp g f))))"
    using sg(2) Cons.prems(2) by (intro Cons.IH) simp_all
  then show ?case using sg(1) by (simp add: Let_def case_prod_beta)
qed simp

lemma same_view_decrease:
  assumes "same_view gen e f"
  shows "snd (decrease_and_get_ready_into gen grp c sp e)
       = snd (decrease_and_get_ready_into gen grp c sp f)
    \<and> same_view gen (fst (decrease_and_get_ready_into gen grp c sp e))
         (fst (decrease_and_get_ready_into gen grp c sp f))"
proof -
  have m: "meta e = meta f" using assms by (simp add: same_view_def)
  have n: "e_num_groups f = e_num_groups e" using meta_eqD(3) [OF m] by simp
  show ?thesis
    using same_view_group [OF assms, of _ c sp]
      same_view_groups [OF assms, of "[0..<e_num_groups e]" c sp] assms
    by (cases grp) (auto simp: decrease_and_get_ready_into_def n lessThan_atLeast0 Let_def
        case_prod_beta)
qed

lemma same_view_run:
  "same_view gen e f \<Longrightarrow> snd (decrease_run gen ds e) = snd (decrease_run gen ds f)"
proof (induction ds arbitrary: e f)
  case (Cons d ds)
  show ?case
    using same_view_decrease [OF Cons.prems, of "fst d" "fst (snd d)" "snd (snd d)"] Cons.IH
    by (simp add: Let_def case_prod_beta)
qed simp

definition untouched :: "u32 \<Rightarrow> dep_entry \<Rightarrow> bool" where
  "untouched gen e \<longleftrightarrow>
     list_all (\<lambda>p. gen_unpack_gen p \<noteq> gen) (remaining_deps e) \<and>
     list_all (\<lambda>p. gen_unpack_gen p \<noteq> gen) (instances_sent e)"

lemma reset_epoch_reads:
  assumes "wf_entry e"
  shows "g < e_num_groups e \<Longrightarrow> remaining gen g (entry_reset_epoch gen e) = deps_per_group e"
    and "i < e_factor e \<Longrightarrow> \<not> sent gen (entry_reset_epoch gen e) i"
  using assms by (simp_all add: remaining_def sent_def entry_reset_epoch_def wf_entry_def)

lemma untouched_reads:
  assumes "wf_entry e" "untouched gen e"
  shows "g < e_num_groups e \<Longrightarrow> remaining gen g e = deps_per_group e"
    and "i < e_factor e \<Longrightarrow> \<not> sent gen e i"
  using assms
  by (simp_all add: remaining_def sent_def untouched_def wf_entry_def list_all_length
      gw.read_stale)

lemma meta_reset_epoch [simp]: "meta (entry_reset_epoch gen e) = meta e"
  by (simp add: entry_reset_epoch_def meta_def)

lemma untouched_same_view:
  "wf_entry e \<Longrightarrow> untouched gen e \<Longrightarrow> same_view gen e (entry_reset_epoch gen e)"
  by (simp add: same_view_def wf_reset_epoch reset_epoch_reads untouched_reads)

section \<open>The properties\<close>

text \<open>C3: An unconditional barrier group is released exactly once. Whatever sequence of decrements
  reaches the group within a generation, the instances handed out altogether are the whole group,
  in order, as soon as the counts add up to what the group still waits for, and nothing before
  that; the dispatch hint of the calls is ignored.\<close>

theorem barrier_released_exactly_once:
  assumes "wf_entry e" and "g < e_num_groups e"
    and "e_has_barrier e" and "\<not> e_is_condition e"
    and "0 < unat (remaining gen g e)"
    and "list_all (\<lambda>(c, sp). c < 2 ^ 32) cs"
  shows "snd (decrease_run gen (on_group g cs) e) =
    (if unat (remaining gen g e) \<le> sum_list (map fst cs)
     then [g * e_group_size e..<g * e_group_size e + e_group_size e] else [])"
  using barrier_run [OF assms(1-4,6), of gen] assms(5) group_in_range(1) [OF assms(1,2)]
  by (simp add: group_start_def)

theorem barrier_released_exactly_once_witness:
  "snd (decrease_run 7 (on_group 1 [(2, None), (1, Some 4)]) (entry_new 6 6 True (Some 3) False))
   = [3, 4, 5]"
proof -
  let ?e = "entry_new 6 6 True (Some 3) False" and ?cs = "[(2, None), (1, Some 4)] :: (nat \<times> nat option) list"
  have "snd (decrease_run 7 (on_group 1 ?cs) ?e) =
    (if unat (remaining 7 1 ?e) \<le> sum_list (map fst ?cs)
     then [1 * e_group_size ?e..<1 * e_group_size ?e + e_group_size ?e] else [])"
  proof (rule barrier_released_exactly_once [OF wf_entry_new])
    show "list_all (\<lambda>(c, sp). c < 2 ^ 32) ?cs" by simp
  qed (code_simp+)
  also have "\<dots> = [3, 4, 5]" by code_simp
  finally show ?thesis .
qed

text \<open>C6: The ordinal path releases a group's instances in index order and exactly as fast as
  the decrements pay for them: of a group whose counter covers all its instances, a run of
  decrements hands out the first \<open>n - ceil(left / d)\<close> instances, where \<open>left\<close> is what the
  counter still reads afterwards and \<open>d\<close> the dependencies per instance.\<close>

theorem ordinal_release_in_order:
  assumes "wf_entry e" and "g < e_num_groups e"
    and "\<not> e_has_barrier e" and "0 < deps_per_instance e"
    and "e_group_size e * deps_per_instance e \<le> unat (remaining gen g e)"
    and "\<forall>i \<in> {g * e_group_size e..<g * e_group_size e + e_group_size e}. \<not> sent gen e i"
    and "list_all (\<lambda>c. c < 2 ^ 32) cs"
  shows "snd (decrease_run gen (on_group g (map (\<lambda>c. (c, None)) cs)) e) =
    [g * e_group_size e..<g * e_group_size e
       + (e_group_size e
          - (unat (remaining gen g e) - sum_list cs + deps_per_instance e - 1)
            div deps_per_instance e)]"
proof -
  let ?n = "e_group_size e" and ?d = "deps_per_instance e" and ?v = "unat (remaining gen g e)"
  note ep = eligible_prefix [OF assms(1,2,4)]
  have "?n \<le> (?v + ?d - 1) div ?d"
    using assms(4,5) by (simp add: less_eq_div_iff_mult_less_eq)
  then have e0: "eligible e g ?v = []" by (simp add: ep)
  have "ordinal_inv gen g e"
    using assms(6) e0 group_in_range(1) [OF assms(1,2)]
    by (simp add: ordinal_inv_def group_start_def)
  from ordinal_run [OF assms(1-4) this assms(7)] show ?thesis
    unfolding e0 append_Nil unfolding ep group_start_def .
qed

theorem ordinal_release_in_order_witness:
  "snd (decrease_run 0 (on_group 0 (map (\<lambda>c. (c, None)) [1, 1, 1, 2]))
     (entry_new 4 8 False None False)) = [0, 1]"
proof -
  let ?e = "entry_new 4 8 False None False" and ?cs = "[1, 1, 1, 2] :: nat list"
  have "snd (decrease_run 0 (on_group 0 (map (\<lambda>c. (c, None)) ?cs)) ?e) =
    [0 * e_group_size ?e..<0 * e_group_size ?e + (e_group_size ?e
       - (unat (remaining 0 0 ?e) - sum_list ?cs + deps_per_instance ?e - 1)
         div deps_per_instance ?e)]"
  proof (rule ordinal_release_in_order)
    show "wf_entry ?e" by (rule wf_entry_new)
    show "list_all (\<lambda>c. c < 2 ^ 32) ?cs" by simp
    show "\<forall>i \<in> {0 * e_group_size ?e..<0 * e_group_size ?e + e_group_size ?e}. \<not> sent 0 ?e i"
      by (simp add: entry_new_def sent_def lazy_val_def Let_def)
  qed (code_simp+)
  also have "\<dots> = [0, 1]" by code_simp
  finally show ?thesis .
qed

text \<open>C9: Within a generation no instance is handed out twice, whatever decrements are applied
  to whichever groups, with whatever counts and dispatch hints, barrier or not.\<close>

theorem no_instance_released_twice:
  assumes "wf_entry e"
  shows "distinct (snd (decrease_run gen ds e))"
  using decrease_run_fresh [OF assms, of gen "{}" ds] by (simp add: handed_out_def)

theorem no_instance_released_twice_witness:
  "distinct (snd (decrease_run 3 [(Some 0, 2, Some 1), (None, 9, None), (Some 1, 1, Some 1)]
     (entry_new 4 4 False (Some 2) False)))"
  by (rule no_instance_released_twice) (rule wf_entry_new)

text \<open>C11: Lazy reinitialisation is equivalent to an eager reset. An entry none of whose cells
  carries the current generation answers every sequence of decrements of that generation exactly
  as the entry that the eager sweep would have produced, so bumping the slot generation resets the
  counters without touching them.\<close>

theorem lazy_reinit_equals_eager_reset:
  assumes "wf_entry e" and "untouched gen e"
  shows "snd (decrease_run gen ds e) = snd (decrease_run gen ds (entry_reset_epoch gen e))"
  by (intro same_view_run untouched_same_view assms)

theorem lazy_reinit_equals_eager_reset_witness:
  "snd (decrease_run 2 [(None, 1, None), (None, 1, None)]
     (fst (decrease_run 1 [(None, 4, None)] (entry_new 2 4 False None False))))
   = snd (decrease_run 2 [(None, 1, None), (None, 1, None)]
     (entry_reset_epoch 2 (fst (decrease_run 1 [(None, 4, None)] (entry_new 2 4 False None False)))))"
proof (rule lazy_reinit_equals_eager_reset)
  show "wf_entry (fst (decrease_run 1 [(None, 4, None)] (entry_new 2 4 False None False)))"
    by (simp add: wf_entry_new)
  show "untouched 2 (fst (decrease_run 1 [(None, 4, None)] (entry_new 2 4 False None False)))"
    by code_simp
qed

end
