(* ===== verification/Dep_Counter.thy ===== *)
theory Dep_Counter
  imports Dep_Properties
begin

text \<open>
  The per-slot, per-node table of dependency entries (\<^verbatim>\<open>NodeDepMap\<close>,
  \<^verbatim>\<open>tomii-core/src/buffers/node_dep.rs\<close>) and the counter the runtime shares between threads
  (\<^verbatim>\<open>MultiThreadedCounter\<close>, \<^verbatim>\<open>tomii-core/src/dependency_counter.rs\<close>). The Rust trait
  \<^verbatim>\<open>DependencyCounter\<close> is the locale \<^theory_text>\<open>dependency_counter\<close>, interpreted on the model of
  \<^verbatim>\<open>MultiThreadedCounter\<close>.
\<close>

unbundle bit_operations_syntax

section \<open>NodeDepMap\<close>

definition dep_has_barrier :: "node \<Rightarrow> bool" where
  "dep_has_barrier n \<longleftrightarrow>
     list_ex is_barrier (node_args n) \<or> node_has_ambiguous_multi_res_args n"

fun max_group_by :: "arg list \<Rightarrow> nat option \<Rightarrow> nat option" where
  "max_group_by [] acc = acc"
| "max_group_by (a # as) acc =
     max_group_by as
       (if is_barrier a then
          (case arg_predecessor a of
             Some p \<Rightarrow>
               (case pred_group_by p of
                  Some gb \<Rightarrow> Some (max (unwrap_or acc 0) gb)
                | None \<Rightarrow> acc)
           | None \<Rightarrow> acc)
        else acc)"

fun num_pred_packets :: "arg list \<Rightarrow> nat \<Rightarrow> nat" where
  "num_pred_packets [] acc = acc"
| "num_pred_packets (a # as) acc =
     num_pred_packets as
       (if is_barrier a then
          (case arg_predecessor a of
             Some p \<Rightarrow> if pred_group_by p \<noteq> None then max acc (length (pred_indexes p)) else acc
           | None \<Rightarrow> acc)
        else acc)"

definition effective_group_size :: "node \<Rightarrow> nat option" where
  "effective_group_size n =
     (if dep_has_barrier n then
        (case max_group_by (node_args n) None of
           Some gb \<Rightarrow>
             let packets = num_pred_packets (node_args n) 0;
                 num_barrier_groups = (if 0 < packets \<and> 0 < gb then packets div gb else 1)
             in Some (unwrap_or (checked_div (node_factor n) num_barrier_groups) (node_factor n))
         | None \<Rightarrow> node_group_size n)
      else node_group_size n)"

definition node_entry :: "node \<Rightarrow> nat \<Rightarrow> dep_entry" where
  "node_entry n total_deps =
     entry_new (node_factor n) total_deps (dep_has_barrier n) (effective_group_size n)
       (node_condition n \<noteq> None)"

definition dep_map_new :: "node list \<Rightarrow> nat \<Rightarrow> nat list \<Rightarrow> dep_entry list list result" where
  "dep_map_new nodes slots dep_counts =
     (if 0 < slots \<and> length dep_counts < length nodes then Inl IndexOutOfBounds
      else Inr (replicate slots
        (map (\<lambda>node_id. node_entry (nodes ! node_id) (dep_counts ! node_id)) [0..<length nodes])))"

definition in_map :: "dep_entry list list \<Rightarrow> nat \<Rightarrow> nat \<Rightarrow> bool" where
  "in_map m slot nid \<longleftrightarrow> slot < length m \<and> nid < length (m ! slot)"

definition put_entry :: "dep_entry list list \<Rightarrow> nat \<Rightarrow> nat \<Rightarrow> dep_entry \<Rightarrow> dep_entry list list" where
  "put_entry m slot nid e = m[slot := (m ! slot)[nid := e]]"

definition map_decrease ::
  "nat \<Rightarrow> nat \<Rightarrow> u32 \<Rightarrow> nat option \<Rightarrow> nat \<Rightarrow> nat option \<Rightarrow> dep_entry list list
     \<Rightarrow> dep_entry list list \<times> nat list" where
  "map_decrease slot nid slot_gen grp count specific m =
     (if in_map m slot nid then
        (let (e, ready) = decrease_and_get_ready_into slot_gen grp count specific (m ! slot ! nid)
         in (put_entry m slot nid e, ready))
      else (m, []))"

definition map_increment ::
  "nat \<Rightarrow> nat \<Rightarrow> u32 \<Rightarrow> nat option \<Rightarrow> dep_entry list list
     \<Rightarrow> (dep_entry list list \<times> nat option) result" where
  "map_increment slot nid slot_gen instance_idx m =
     (if in_map m slot nid then
        rbind (entry_increment_dependency slot_gen instance_idx (m ! slot ! nid))
          (\<lambda>(e, n). Inr (put_entry m slot nid e, Some n))
      else Inr (m, None))"

definition map_reset_sent_flag ::
  "nat \<Rightarrow> nat \<Rightarrow> u32 \<Rightarrow> nat \<Rightarrow> dep_entry list list \<Rightarrow> dep_entry list list" where
  "map_reset_sent_flag slot nid slot_gen instance_idx m =
     (if in_map m slot nid
      then put_entry m slot nid (entry_reset_sent_flag slot_gen instance_idx (m ! slot ! nid))
      else m)"

definition map_reset_slot_epoch :: "nat \<Rightarrow> u32 \<Rightarrow> dep_entry list list \<Rightarrow> dep_entry list list" where
  "map_reset_slot_epoch slot new_gen m =
     (if slot < length m then m[slot := map (entry_reset_epoch new_gen) (m ! slot)] else m)"

section \<open>MultiThreadedCounter\<close>

record multi_threaded_counter =
  node_dep_map :: "dep_entry list list"
  completed_slots :: u64

text \<open>\<^verbatim>\<open>1u64 << slot\<close>: the shift distance is taken modulo the width.\<close>

definition slot_bit :: "nat \<Rightarrow> u64" where
  "slot_bit slot = push_bit (slot mod 64) 1"

lemma bit_slot_bit [simp]: "bit (slot_bit s) t \<longleftrightarrow> t = s mod 64"
  by (auto simp: slot_bit_def bit_simps)

lemma and_slot_bit: "s < 64 \<Longrightarrow> w AND slot_bit s = 0 \<longleftrightarrow> \<not> bit w s"
proof
  assume s: "s < 64" and "w AND slot_bit s = 0"
  then have "\<not> bit (w AND slot_bit s) s" by simp
  then show "\<not> bit w s" using s by (simp add: bit_and_iff)
next
  assume "s < 64" "\<not> bit w s"
  then show "w AND slot_bit s = 0"
    by (intro bit_word_eqI) (auto simp: bit_and_iff)
qed

definition counter_new :: "nat \<Rightarrow> nat list \<Rightarrow> node list \<Rightarrow> multi_threaded_counter result" where
  "counter_new slots dependency_count_vec nodes =
     rbind (dep_map_new nodes slots dependency_count_vec)
       (\<lambda>m. Inr \<lparr>node_dep_map = m, completed_slots = 0\<rparr>)"

definition reset_sent ::
  "nat \<Rightarrow> nat \<Rightarrow> nat \<Rightarrow> u32 \<Rightarrow> multi_threaded_counter \<Rightarrow> multi_threaded_counter" where
  "reset_sent slot nid index slot_gen c =
     c\<lparr>node_dep_map := map_reset_sent_flag slot nid slot_gen index (node_dep_map c)\<rparr>"

definition unmark_slot_completed :: "nat \<Rightarrow> multi_threaded_counter \<Rightarrow> multi_threaded_counter" where
  "unmark_slot_completed slot c =
     c\<lparr>completed_slots := completed_slots c AND NOT (slot_bit slot)\<rparr>"

definition try_complete_slot ::
  "nat \<Rightarrow> multi_threaded_counter \<Rightarrow> multi_threaded_counter \<times> bool" where
  "try_complete_slot slot c =
     (let prev = completed_slots c
      in (c\<lparr>completed_slots := prev OR slot_bit slot\<rparr>, prev AND slot_bit slot = 0))"

definition increment_dependency ::
  "nat \<Rightarrow> nat \<Rightarrow> nat \<Rightarrow> u32 \<Rightarrow> multi_threaded_counter
     \<Rightarrow> (multi_threaded_counter \<times> nat option) result" where
  "increment_dependency slot nid index slot_gen c =
     rbind (map_increment slot nid slot_gen (Some index) (node_dep_map c))
       (\<lambda>(m, n). Inr (c\<lparr>node_dep_map := m\<rparr>, n))"

definition counter_decrease ::
  "nat \<Rightarrow> nat \<Rightarrow> u32 \<Rightarrow> nat option \<Rightarrow> nat \<Rightarrow> nat option \<Rightarrow> multi_threaded_counter
     \<Rightarrow> multi_threaded_counter \<times> nat list" where
  "counter_decrease slot nid slot_gen grp count specific c =
     (let (m, ready) = map_decrease slot nid slot_gen grp count specific (node_dep_map c)
      in (c\<lparr>node_dep_map := m\<rparr>, ready))"

definition reset_slot_epoch :: "nat \<Rightarrow> u32 \<Rightarrow> multi_threaded_counter \<Rightarrow> multi_threaded_counter" where
  "reset_slot_epoch slot new_gen c =
     c\<lparr>node_dep_map := map_reset_slot_epoch slot new_gen (node_dep_map c)\<rparr>"

definition slot_completed :: "multi_threaded_counter \<Rightarrow> nat \<Rightarrow> bool" where
  "slot_completed c slot = bit (completed_slots c) slot"

section \<open>The DependencyCounter trait\<close>

locale dependency_counter =
  fixes try_complete :: "nat \<Rightarrow> 'c \<Rightarrow> 'c \<times> bool"
    and unmark :: "nat \<Rightarrow> 'c \<Rightarrow> 'c"
    and completed :: "'c \<Rightarrow> nat \<Rightarrow> bool"
    and decrease :: "nat \<Rightarrow> nat \<Rightarrow> u32 \<Rightarrow> nat option \<Rightarrow> nat \<Rightarrow> nat option \<Rightarrow> 'c \<Rightarrow> 'c \<times> nat list"
    and sweep :: "nat \<Rightarrow> u32 \<Rightarrow> 'c \<Rightarrow> 'c"
  assumes try_result: "s < 64 \<Longrightarrow> snd (try_complete s c) \<longleftrightarrow> \<not> completed c s"
    and try_completed: "s < 64 \<Longrightarrow> completed (fst (try_complete s c)) t \<longleftrightarrow> completed c t \<or> t = s"
    and unmark_completed: "s < 64 \<Longrightarrow> completed (unmark s c) t \<longleftrightarrow> completed c t \<and> t \<noteq> s"
    and decrease_completed: "completed (fst (decrease s n g grp k sp c)) t = completed c t"
    and sweep_completed: "completed (sweep s g c) t = completed c t"
    and decrease_other_slot: "s \<noteq> t \<Longrightarrow>
      snd (decrease t n g grp k sp (fst (decrease s m g' grp' k' sp' c))) = snd (decrease t n g grp k sp c)"
    and decrease_after_try: "snd (decrease t n g grp k sp (fst (try_complete s c)))
      = snd (decrease t n g grp k sp c)"
    and decrease_after_unmark: "snd (decrease t n g grp k sp (unmark s c)) = snd (decrease t n g grp k sp c)"
begin

lemma second_try_fails:
  "s < 64 \<Longrightarrow> \<not> snd (try_complete s (fst (try_complete s c)))"
  by (simp add: try_result try_completed)

lemma try_after_unmark: "s < 64 \<Longrightarrow> snd (try_complete s (unmark s c))"
  by (simp add: try_result unmark_completed)

text \<open>Of any number of threads racing for the same completion exactly one wins.\<close>

lemma one_winner:
  assumes "s < 64"
  defines "step \<equiv> \<lambda>(c, wins). (fst (try_complete s c), if snd (try_complete s c) then Suc wins else wins)"
  shows "snd ((step ^^ Suc n) (c, k)) = k + (if completed c s then 0 else 1)
    \<and> completed (fst ((step ^^ Suc n) (c, k))) s"
proof (induction n)
  case 0
  show ?case using assms(1) by (simp add: step_def try_result try_completed)
next
  case (Suc n)
  obtain c' k' where ck: "(step ^^ Suc n) (c, k) = (c', k')" by fastforce
  have "(step ^^ Suc (Suc n)) (c, k) = step (c', k')"
    using ck by simp
  then show ?case using Suc.IH assms(1) unfolding ck
    by (simp add: step_def try_result try_completed)
qed

end

lemma put_entry_other [simp]:
  "s \<noteq> t \<Longrightarrow> put_entry m s n e ! t = m ! t" "length (put_entry m s n e) = length m"
  by (simp_all add: put_entry_def)

lemma map_decrease_other:
  assumes "s \<noteq> t"
  shows "snd (map_decrease t n g grp k sp (fst (map_decrease s n' g' grp' k' sp' m)))
    = snd (map_decrease t n g grp k sp m)"
  using assms by (auto simp: map_decrease_def in_map_def case_prod_beta Let_def)

interpretation mtc: dependency_counter try_complete_slot unmark_slot_completed slot_completed
  counter_decrease reset_slot_epoch
proof unfold_locales
  fix s t :: nat and c :: multi_threaded_counter
  assume s: "s < 64"
  show "snd (try_complete_slot s c) \<longleftrightarrow> \<not> slot_completed c s"
    using s by (simp add: try_complete_slot_def slot_completed_def and_slot_bit Let_def)
  show "slot_completed (fst (try_complete_slot s c)) t \<longleftrightarrow> slot_completed c t \<or> t = s"
    using s by (auto simp: try_complete_slot_def slot_completed_def Let_def bit_or_iff)
  show "slot_completed (unmark_slot_completed s c) t \<longleftrightarrow> slot_completed c t \<and> t \<noteq> s"
    using s bit_imp_le_length [of "completed_slots c" t]
    by (auto simp: unmark_slot_completed_def slot_completed_def bit_and_iff bit_not_iff)
qed (simp_all add: slot_completed_def counter_decrease_def reset_slot_epoch_def Let_def
    case_prod_beta map_decrease_other try_complete_slot_def unmark_slot_completed_def)

section \<open>Reachable counters\<close>

text \<open>Every operation of the counter as a step; the panic of an increment is no step.\<close>

inductive counter_step :: "multi_threaded_counter \<Rightarrow> multi_threaded_counter \<Rightarrow> bool" where
  reset_sent: "counter_step c (reset_sent slot nid index gen c)"
| unmark: "counter_step c (unmark_slot_completed slot c)"
| try_complete: "counter_step c (fst (try_complete_slot slot c))"
| increment: "increment_dependency slot nid index gen c = Inr (c', n) \<Longrightarrow> counter_step c c'"
| decrease: "counter_step c (fst (counter_decrease slot nid gen grp count specific c))"
| reset_epoch: "counter_step c (reset_slot_epoch slot gen c)"

text \<open>Well-formed entries whose static fields are those of the construction.\<close>

definition map_ok :: "node list \<Rightarrow> nat list \<Rightarrow> dep_entry list list \<Rightarrow> bool" where
  "map_ok nodes counts m \<longleftrightarrow>
     list_all (\<lambda>row. length row = length nodes \<and> list_all wf_entry row
       \<and> (\<forall>nid < length nodes. meta (row ! nid) = meta (node_entry (nodes ! nid) (counts ! nid)))) m"

lemma map_ok_new:
  "dep_map_new nodes slots counts = Inr m \<Longrightarrow> map_ok nodes counts m \<and> length m = slots"
  by (auto simp: dep_map_new_def map_ok_def node_entry_def wf_entry_new list_all_iff split: if_splits)

lemma map_ok_put:
  assumes "map_ok nodes counts m" "in_map m slot nid" "wf_entry e" "meta e = meta (m ! slot ! nid)"
  shows "map_ok nodes counts (put_entry m slot nid e)"
  using assms
  by (auto simp: map_ok_def put_entry_def in_map_def list_all_length nth_list_update)

lemma map_ok_entry: "map_ok nodes counts m \<Longrightarrow> in_map m slot nid \<Longrightarrow> wf_entry (m ! slot ! nid)"
  by (auto simp: map_ok_def in_map_def list_all_length)

lemma increment_meta: "entry_increment_dependency gen idx e = Inr (e', n) \<Longrightarrow> meta e' = meta e"
  by (auto simp: entry_increment_dependency_def Let_def split: option.splits if_splits)

lemma reset_sent_meta [simp]: "meta (entry_reset_sent_flag gen i e) = meta e"
  by (simp add: entry_reset_sent_flag_def)

lemma map_ok_increment:
  assumes "map_ok nodes counts m" "map_increment slot nid gen idx m = Inr (m', n)"
  shows "map_ok nodes counts m'"
  using assms map_ok_entry [OF assms(1)]
  by (auto simp: map_increment_def rbind_eq_Inr split: if_splits
      intro!: map_ok_put intro: wf_increment dest: increment_meta)

lemma length_map_ops [simp]:
  "length (fst (map_decrease slot nid gen grp count specific m)) = length m"
  "length (map_reset_sent_flag slot nid gen i m) = length m"
  "length (map_reset_slot_epoch slot gen m) = length m"
  "map_increment slot nid gen idx m = Inr (m', n) \<Longrightarrow> length m' = length m"
  by (auto simp: map_decrease_def map_reset_sent_flag_def map_reset_slot_epoch_def map_increment_def
      case_prod_beta Let_def rbind_eq_Inr split: if_splits)

lemma map_ok_reset_epoch: "map_ok nodes counts m \<Longrightarrow> map_ok nodes counts (map_reset_slot_epoch slot gen m)"
  by (auto simp: map_ok_def map_reset_slot_epoch_def list_all_length nth_list_update wf_reset_epoch)

lemma map_ok_step:
  "counter_step c c' \<Longrightarrow> map_ok nodes counts (node_dep_map c) \<Longrightarrow>
   map_ok nodes counts (node_dep_map c') \<and> length (node_dep_map c') = length (node_dep_map c)"
proof (induction rule: counter_step.induct)
  case (reset_sent c slot nid index gen)
  then show ?case
    using map_ok_entry [OF reset_sent]
    by (auto simp: reset_sent_def map_reset_sent_flag_def intro!: map_ok_put wf_reset_sent)
next
  case (increment slot nid index gen c c' n)
  then show ?case
    by (auto simp: increment_dependency_def rbind_eq_Inr intro: map_ok_increment)
next
  case (decrease c slot nid gen grp count specific)
  then show ?case
    using map_ok_entry [OF decrease]
    by (auto simp: counter_decrease_def map_decrease_def case_prod_beta Let_def intro!: map_ok_put)
next
  case (reset_epoch c slot gen)
  then show ?case by (simp add: reset_slot_epoch_def map_ok_reset_epoch)
qed (simp_all add: unmark_slot_completed_def try_complete_slot_def Let_def)

lemma map_ok_steps:
  "counter_step\<^sup>*\<^sup>* c c' \<Longrightarrow> map_ok nodes counts (node_dep_map c) \<Longrightarrow>
   map_ok nodes counts (node_dep_map c') \<and> length (node_dep_map c') = length (node_dep_map c)"
  by (induction rule: rtranclp_induct) (auto dest: map_ok_step)

section \<open>Reopening one instance\<close>

lemma remaining_put: "remaining gen g' (e\<lparr>remaining_deps := (remaining_deps e)[g := c]\<rparr>)
  = (if g' = g \<and> g < length (remaining_deps e) then lazy_val (deps_per_group e) gen c
     else remaining gen g' e)"
  by (auto simp: remaining_def list_update_beyond)

lemma increment_in_group:
  assumes "wf_entry e" "g < e_num_groups e" "group_start e g \<le> i" "i < group_end e g"
  shows "min (i div e_group_size e) (e_num_groups e - 1) = g" "0 < e_group_size e"
proof -
  note r = group_in_range [OF assms(1,2)]
  show "0 < e_group_size e" using assms(3,4) r(1) by simp
  have "i div e_group_size e = g"
    using assms(3,4) r(1) by (intro div_nat_eqI) (simp_all add: group_start_def algebra_simps)
  then show "min (i div e_group_size e) (e_num_groups e - 1) = g" using assms(2) by simp
qed

lemma reopen_entry:
  assumes wf: "wf_entry e" and g: "g < e_num_groups e"
    and cond: "e_has_barrier e" "e_is_condition e"
    and i: "group_start e g \<le> i" "i < group_end e g"
    and fired: "remaining gen g e = 0" "\<forall>j \<in> {group_start e g..<group_end e g}. sent gen e j"
    and e1: "entry_increment_dependency gen (Some i) e = Inr (e1, n)"
  shows "snd (decrease_and_get_ready_into gen (Some g) 1 sp (entry_reset_sent_flag gen i e1)) = [i]"
    and "n = 1"
proof -
  note ig = increment_in_group [OF wf g i]
  have gl: "g < length (remaining_deps e)" using wf g by (simp add: wf_entry_def)
  have e1': "e1 = e\<lparr>remaining_deps := (remaining_deps e)
      [g := lazy_update (deps_per_group e) gen (\<lambda>c. saturating_add c 1) (remaining_deps e ! g)]\<rparr>"
    and n: "n = unat (remaining gen g e + 1)"
    using e1 ig by (auto simp: entry_increment_dependency_def Let_def remaining_def)
  show "n = 1" using n fired(1) by simp
  let ?e2 = "entry_reset_sent_flag gen i e1"
  have il: "i < length (instances_sent e)"
    using group_in_range(2) [OF wf g] i(2) wf by (simp add: wf_entry_def)
  have m: "meta ?e2 = meta e" by (simp add: e1')
  note mm = meta_eqD [OF m]
  have wf2: "wf_entry ?e2"
    using wf_increment [OF wf e1] by (rule wf_reset_sent)
  have "remaining gen g ?e2 = remaining gen g e1"
    by (simp add: entry_reset_sent_flag_def remaining_def)
  also have "\<dots> = 1"
    using gl fired(1) by (simp add: e1' remaining_put saturating_add_def remaining_def [symmetric])
  finally have r2: "remaining gen g ?e2 = 1" .
  have s2: "sent gen ?e2 j \<longleftrightarrow> sent gen e j \<and> j \<noteq> i" if "j < length (instances_sent e)" for j
    using that il by (cases "j = i") (simp_all add: e1' sent_def entry_reset_sent_flag_def)
  have nb: "\<not> (e_has_barrier ?e2 \<and> \<not> e_is_condition ?e2)" using cond mm by simp
  have "snd (decrease_group gen 1 sp g ?e2)
      = filter (\<lambda>j. \<not> sent gen ?e2 j) [group_start e g..<group_end e g]"
    using decrease_group_claims(1) [OF wf2 _ nb, of g gen 1 sp] g mm cond r2
    by (simp add: claims_def as_u32_def)
  also have "\<dots> = filter (\<lambda>j. j = i) [group_start e g..<group_end e g]"
  proof (rule filter_cong)
    fix j assume j: "j \<in> set [group_start e g..<group_end e g]"
    then have "j < length (instances_sent e)"
      using group_in_range(2) [OF wf g] wf by (simp add: wf_entry_def)
    with j fired(2) show "(\<not> sent gen ?e2 j) = (j = i)" by (simp add: s2)
  qed simp
  also have "\<dots> = [i]" using i by (simp add: filter_upt_eq)
  finally show "snd (decrease_and_get_ready_into gen (Some g) 1 sp ?e2) = [i]"
    using g mm by simp
qed

lemma counter_after_increment:
  assumes "in_map (node_dep_map c) slot nid"
    and "increment_dependency slot nid i gen c = Inr (c1, k)"
  obtains e1 n where "entry_increment_dependency gen (Some i) (node_dep_map c ! slot ! nid) = Inr (e1, n)"
    and "k = Some n" and "node_dep_map c1 = put_entry (node_dep_map c) slot nid e1"
  using assms by (auto simp: increment_dependency_def map_increment_def rbind_eq_Inr)

lemma put_entry_same [simp]:
  "in_map m slot nid \<Longrightarrow> put_entry m slot nid e ! slot ! nid = e"
  "in_map (put_entry m slot nid e) slot' nid' \<longleftrightarrow> in_map m slot' nid'"
  by (simp add: in_map_def put_entry_def, cases "slot' = slot") (auto simp: in_map_def put_entry_def)

section \<open>The properties\<close>



text \<open>A failed condition reopens exactly one instance. After the barrier of a condition node
  has fired for a group, incrementing the dependency of one of its instances and resetting that
  instance's sent flag makes the group wait for exactly one more dependency, and the next decrement
  hands out exactly that instance, although the whole group is published.\<close>

theorem failed_condition_reopens_one_instance:
  assumes "in_map (node_dep_map c) slot nid"
    and "wf_entry (node_dep_map c ! slot ! nid)" and "g < e_num_groups (node_dep_map c ! slot ! nid)"
    and "e_has_barrier (node_dep_map c ! slot ! nid)" and "e_is_condition (node_dep_map c ! slot ! nid)"
    and "group_start (node_dep_map c ! slot ! nid) g \<le> i" and "i < group_end (node_dep_map c ! slot ! nid) g"
    and "remaining gen g (node_dep_map c ! slot ! nid) = 0"
    and "\<forall>j \<in> {group_start (node_dep_map c ! slot ! nid) g..<group_end (node_dep_map c ! slot ! nid) g}.
      sent gen (node_dep_map c ! slot ! nid) j"
    and "increment_dependency slot nid i gen c = Inr (c1, k)"
  shows "k = Some 1 \<and> snd (counter_decrease slot nid gen (Some g) 1 specific (reset_sent slot nid i gen c1)) = [i]"
proof -
  obtain e1 n where e1: "entry_increment_dependency gen (Some i) (node_dep_map c ! slot ! nid) = Inr (e1, n)"
    "k = Some n" "node_dep_map c1 = put_entry (node_dep_map c) slot nid e1"
    by (rule counter_after_increment [OF assms(1,10)])
  note re = reopen_entry [OF assms(2-9) e1(1)]
  have "node_dep_map (reset_sent slot nid i gen c1) ! slot ! nid = entry_reset_sent_flag gen i e1"
    using assms(1) by (simp add: reset_sent_def map_reset_sent_flag_def e1(3))
  then have "snd (counter_decrease slot nid gen (Some g) 1 specific (reset_sent slot nid i gen c1))
      = snd (decrease_and_get_ready_into gen (Some g) 1 specific (entry_reset_sent_flag gen i e1))"
    using assms(1)
    by (simp add: counter_decrease_def map_decrease_def case_prod_beta Let_def reset_sent_def
        map_reset_sent_flag_def e1(3))
  then show ?thesis using re by (simp add: e1(2))
qed

definition sample_condition_counter :: multi_threaded_counter where
  "sample_condition_counter =
     \<lparr>node_dep_map = [[fst (decrease_and_get_ready_into 0 None 2 None (entry_new 2 2 True None True))]],
      completed_slots = 0\<rparr>"

theorem failed_condition_reopens_one_instance_witness:
  "\<exists>c1 k. increment_dependency 0 0 1 0 sample_condition_counter = Inr (c1, k) \<and> k = Some 1
     \<and> snd (counter_decrease 0 0 0 (Some 0) 1 None (reset_sent 0 0 1 0 c1)) = [1]"
proof -
  let ?c = "sample_condition_counter"
  have im: "in_map (node_dep_map ?c) 0 0" by code_simp
  have wf: "wf_entry (node_dep_map ?c ! 0 ! 0)"
    by (simp add: sample_condition_counter_def wf_entry_new)
  have "e_group_size (node_dep_map ?c ! 0 ! 0) \<noteq> 0" by code_simp
  then obtain c1 k where ck: "increment_dependency 0 0 1 0 ?c = Inr (c1, k)"
    using im by (auto simp: increment_dependency_def map_increment_def entry_increment_dependency_def Let_def)
  have "k = Some 1 \<and> snd (counter_decrease 0 0 0 (Some 0) 1 None (reset_sent 0 0 1 0 c1)) = [1]"
    by (rule failed_condition_reopens_one_instance [OF im wf _ _ _ _ _ _ _ ck]) code_simp+
  with ck show ?thesis by blast
qed

text \<open>Of any number of threads that try to complete a slot exactly one wins, and none if the
  slot is already marked; clearing the mark lets the next frame be completed again.\<close>

theorem one_thread_completes_a_slot:
  assumes "slot < 64" and "0 < tries"
  shows "snd (((\<lambda>(c, wins). (fst (try_complete_slot slot c),
              if snd (try_complete_slot slot c) then Suc wins else wins)) ^^ tries) (c, 0))
           = (if slot_completed c slot then 0 else 1)
    \<and> snd (try_complete_slot slot (unmark_slot_completed slot c))"
  using mtc.one_winner [OF assms(1), of "tries - 1" c 0] mtc.try_after_unmark [OF assms(1)] assms(2)
  by simp

theorem one_thread_completes_a_slot_witness:
  "snd (((\<lambda>(c, wins). (fst (try_complete_slot 3 c),
              if snd (try_complete_slot 3 c) then Suc wins else wins)) ^^ 5) (sample_condition_counter, 0))
     = (if slot_completed sample_condition_counter 3 then 0 else 1)
   \<and> snd (try_complete_slot 3 (unmark_slot_completed 3 sample_condition_counter))"
  by (rule one_thread_completes_a_slot) simp_all

end
