(* ===== verification/Graph_Model.thy ===== *)
theory Graph_Model
  imports Graph_Struct
begin

text \<open>
  The task graph of \<^verbatim>\<open>tomii-core/src/graph.rs\<close>: construction by \<^verbatim>\<open>add_node\<close>, the successor
  lists, and the dependency counts. Hash sets that the code iterates are lists without duplicates
  here; that the result does not depend on the order is proved where it matters.
\<close>

record graph =
  g_nodes :: "node list"
  initial_nodes :: "node_id list"
  successors :: "node_id list list"
  condition_nodes :: "node_id set"
  post_nodes :: "node list option"

definition graph_new :: graph where
  "graph_new = \<lparr>g_nodes = [], initial_nodes = [], successors = [], condition_nodes = {},
     post_nodes = None\<rparr>"

section \<open>Construction\<close>

definition arg_preds :: "arg list \<Rightarrow> node_id list" where
  "arg_preds as = List.map_filter (\<lambda>a. map_option pred_id (arg_predecessor a)) as"

definition has_condition :: "arg list \<Rightarrow> bool" where
  "has_condition as = list_ex (\<lambda>a. arg_init_condition a \<noteq> None) as"

text \<open>Grow the successor table up to \<open>pred_id\<close>, then append the new node to its list.\<close>

definition add_edge :: "node_id \<Rightarrow> node_id list list \<Rightarrow> node_id \<Rightarrow> node_id list list" where
  "add_edge nid succs pid =
     (let grown = succs @ replicate (Suc pid - length succs) []
      in grown[pid := grown ! pid @ [nid]])"

definition add_node :: "node \<Rightarrow> graph \<Rightarrow> graph result" where
  "add_node n g =
     (if node_ident n \<noteq> length (g_nodes g) then Inl AssertionFailed
      else
        let unique_preds = remdups (arg_preds (node_args n));
            has_preds = (arg_preds (node_args n) \<noteq> []);
            succs = foldl (add_edge (node_ident n)) (successors g) unique_preds;
            initial = (if \<not> has_preds \<and> node_name n \<noteq> ''$network''
                       then initial_nodes g @ [node_ident n] else initial_nodes g);
            conds = (if has_condition (node_args n) \<or> node_condition n \<noteq> None
                     then insert (node_ident n) (condition_nodes g) else condition_nodes g)
        in Inr (g\<lparr>g_nodes := g_nodes g @ [n], initial_nodes := initial, successors := succs,
                 condition_nodes := conds\<rparr>))"

definition add_post_node :: "node \<Rightarrow> graph \<Rightarrow> graph result" where
  "add_post_node n g =
     (case post_nodes g of
        Some ps \<Rightarrow>
          if node_ident n \<noteq> length ps then Inl AssertionFailed
          else Inr (g\<lparr>post_nodes := Some (ps @ [n])\<rparr>)
      | None \<Rightarrow>
          if node_ident n \<noteq> 0 then Inl AssertionFailed
          else Inr (g\<lparr>post_nodes := Some [n]\<rparr>))"

definition find_successors :: "node_id \<Rightarrow> graph \<Rightarrow> node_id list result" where
  "find_successors nid g =
     (if length (successors g) \<le> nid then Inl ExplicitPanic else Inr (successors g ! nid))"

fun build_graph :: "node list \<Rightarrow> graph \<Rightarrow> graph result" where
  "build_graph [] g = Inr g"
| "build_graph (n # ns) g = rbind (add_node n g) (build_graph ns)"

definition graph_has_barrier :: "graph \<Rightarrow> node_id \<Rightarrow> bool result" where
  "graph_has_barrier g nid =
     (if nid < length (g_nodes g) then Inr (list_ex is_barrier (node_args (g_nodes g ! nid)))
      else Inl IndexOutOfBounds)"

text \<open>\<^verbatim>\<open>get_pred_indexes\<close>: a barrier argument on the predecessor wins, else the last argument.\<close>

fun pred_indexes_loop :: "node_id \<Rightarrow> arg list \<Rightarrow> int list \<Rightarrow> int list" where
  "pred_indexes_loop pid [] acc = acc"
| "pred_indexes_loop pid (a # as) acc =
     (case arg_predecessor a of
        Some p \<Rightarrow>
          if pred_id p = pid then
            (if is_barrier a then pred_indexes p else pred_indexes_loop pid as (pred_indexes p))
          else pred_indexes_loop pid as acc
      | None \<Rightarrow> pred_indexes_loop pid as acc)"

definition get_pred_indexes :: "graph \<Rightarrow> node_id \<Rightarrow> node_id \<Rightarrow> int list result" where
  "get_pred_indexes g nid pid =
     (if nid < length (g_nodes g) then Inr (pred_indexes_loop pid (node_args (g_nodes g ! nid)) [])
      else Inl IndexOutOfBounds)"

section \<open>Successor lists\<close>

text \<open>The list of node \<open>p\<close>, empty beyond the table, as every reader of it treats it.\<close>

definition succs_of :: "node_id list list \<Rightarrow> node_id \<Rightarrow> node_id list" where
  "succs_of succs p = (if p < length succs then succs ! p else [])"

lemma succs_of_add_edge: "succs_of (add_edge nid succs pid) p =
  (if p = pid then succs_of succs p @ [nid] else succs_of succs p)"
  by (auto simp: succs_of_def add_edge_def Let_def nth_append nth_list_update)

lemma length_add_edge: "length (add_edge nid succs pid) = max (length succs) (Suc pid)"
  by (simp add: add_edge_def Let_def)

lemma succs_of_add_edges:
  "distinct ps \<Longrightarrow> succs_of (foldl (add_edge nid) succs ps) p =
     (if p \<in> set ps then succs_of succs p @ [nid] else succs_of succs p)"
  by (induction ps arbitrary: succs) (auto simp: succs_of_add_edge)

lemma length_add_edges:
  "length (foldl (add_edge nid) succs ps) = Max (insert (length succs) (Suc ` set ps))"
proof (induction ps arbitrary: succs)
  case (Cons p ps)
  have "Max (insert (max (length succs) (Suc p)) (Suc ` set ps))
      = Max (insert (length succs) (insert (Suc p) (Suc ` set ps)))"
    by (cases "set ps = {}") (simp_all add: max.assoc)
  then show ?case using Cons.IH by (simp add: length_add_edge)
qed simp

text \<open>The order in which the hash set yields the predecessors is irrelevant.\<close>

lemma add_edges_order:
  assumes "distinct ps" "distinct qs" "set ps = set qs"
  shows "foldl (add_edge nid) succs ps = foldl (add_edge nid) succs qs"
proof (rule nth_equalityI)
  show len: "length (foldl (add_edge nid) succs ps) = length (foldl (add_edge nid) succs qs)"
    by (simp add: length_add_edges assms(3))
  fix i assume "i < length (foldl (add_edge nid) succs ps)"
  then show "foldl (add_edge nid) succs ps ! i = foldl (add_edge nid) succs qs ! i"
    using succs_of_add_edges [OF assms(1), of nid succs i]
      succs_of_add_edges [OF assms(2), of nid succs i] len
    by (simp add: succs_of_def assms(3))
qed

lemma set_arg_preds: "p \<in> set (arg_preds as) \<longleftrightarrow> list_ex (reads_pred p) as"
  by (induction as) (auto simp: arg_preds_def List.map_filter_simps reads_pred_def split: option.splits)

section \<open>Dependency counts\<close>

definition node_num_groups :: "node \<Rightarrow> nat" where
  "node_num_groups n =
     (case node_group_size n of
        Some gs \<Rightarrow> if 0 < gs \<and> gs < node_factor n then node_factor n div gs else 1
      | None \<Rightarrow> 1)"

definition has_scattered_per_instance_res :: "graph \<Rightarrow> node \<Rightarrow> node_id \<Rightarrow> bool" where
  "has_scattered_per_instance_res g n pid =
     list_ex (\<lambda>a. is_result (arg_type a) \<and>
        (case arg_predecessor a of
           Some p \<Rightarrow> pred_id p = pid \<and> length (pred_indexes p) = node_factor n
             \<and> node_factor (g_nodes g ! pid) \<noteq> node_factor n
         | None \<Rightarrow> False)) (node_args n)"

definition barrier_group_by_for_dependency :: "graph \<Rightarrow> node \<Rightarrow> predecessor \<Rightarrow> nat option" where
  "barrier_group_by_for_dependency g n p =
     (if has_scattered_per_instance_res g n (pred_id p) then None else pred_group_by p)"

definition union_pred_indexes :: "node \<Rightarrow> node_id \<Rightarrow> int list" where
  "union_pred_indexes n pid =
     remdups (concat (map (\<lambda>a.
       case arg_predecessor a of
         Some p \<Rightarrow> if pred_id p = pid then pred_indexes p else []
       | None \<Rightarrow> []) (node_args n)))"

definition union_pred :: "node \<Rightarrow> node_id \<Rightarrow> predecessor" where
  "union_pred n pid =
     \<lparr>pred_id = pid, pred_indexes = union_pred_indexes n pid, pred_group_by = None\<rparr>"

text \<open>Pass 1: barriers with an effective group size; returns the count and the predecessors seen.\<close>

fun grouped_pass ::
  "graph \<Rightarrow> node \<Rightarrow> arg list \<Rightarrow> nat \<Rightarrow> node_id list \<Rightarrow> node_id list \<Rightarrow> nat \<times> node_id list" where
  "grouped_pass g n [] dep_count preds_seen candidates = (dep_count, preds_seen)"
| "grouped_pass g n (a # as) dep_count preds_seen candidates =
     (if \<not> is_barrier a then grouped_pass g n as dep_count preds_seen candidates
      else case arg_predecessor a of
        None \<Rightarrow> grouped_pass g n as dep_count preds_seen candidates
      | Some p \<Rightarrow>
          if pred_id p \<in> set candidates then grouped_pass g n as dep_count preds_seen candidates
          else case barrier_group_by_for_dependency g n p of
            None \<Rightarrow> grouped_pass g n as dep_count preds_seen (pred_id p # candidates)
          | Some gb \<Rightarrow>
              let num_barrier_groups = unwrap_or (checked_div (length (pred_indexes p)) gb) 1
              in grouped_pass g n as (dep_count + num_barrier_groups * gb)
                   (pred_id p # preds_seen) (pred_id p # candidates))"

fun remaining_preds :: "node_id list \<Rightarrow> arg list \<Rightarrow> node_id list \<Rightarrow> node_id list" where
  "remaining_preds preds_seen [] acc = acc"
| "remaining_preds preds_seen (a # as) acc =
     (case arg_predecessor a of
        Some p \<Rightarrow>
          if pred_id p \<notin> set preds_seen \<and> pred_id p \<notin> set acc
          then remaining_preds preds_seen as (acc @ [pred_id p])
          else remaining_preds preds_seen as acc
      | None \<Rightarrow> remaining_preds preds_seen as acc)"

text \<open>Pass 2: one remaining predecessor.\<close>

definition ungrouped_contribution :: "graph \<Rightarrow> node \<Rightarrow> node_id \<Rightarrow> nat" where
  "ungrouped_contribution g n pid =
     (let pred_factor = node_factor (g_nodes g ! pid);
          has_barrier_on_pred = list_ex (\<lambda>a. is_barrier a \<and> reads_pred pid a) (node_args n);
          ambiguous = pred_is_ambiguous_multi_arg n pid;
          contributing =
            (if ambiguous then pred_factor
             else contributing_instances (union_pred n pid) pred_factor (node_factor n))
      in if (has_barrier_on_pred \<or> ambiguous) \<and> 1 < node_num_groups n
         then contributing * node_num_groups n else contributing)"

definition node_dep_count :: "graph \<Rightarrow> node \<Rightarrow> nat" where
  "node_dep_count g n =
     (let (dep_count, preds_seen) = grouped_pass g n (node_args n) 0 [] []
      in foldl (\<lambda>acc pid. acc + ungrouped_contribution g n pid) dep_count
           (remaining_preds preds_seen (node_args n) []))"

text \<open>
  Every predecessor that an argument names is looked up in one of the passes, so an identifier
  beyond the node table is an out-of-bounds panic.
\<close>

definition preds_in_range :: "graph \<Rightarrow> bool" where
  "preds_in_range g =
     list_all (\<lambda>n. list_all (\<lambda>p. p < length (g_nodes g)) (arg_preds (node_args n))) (g_nodes g)"

definition dependency_count_vec :: "graph \<Rightarrow> nat list result" where
  "dependency_count_vec g =
     (if preds_in_range g then Inr (map (node_dep_count g) (g_nodes g)) else Inl IndexOutOfBounds)"

section \<open>The graph that construction produces\<close>

definition reads :: "node \<Rightarrow> node_id \<Rightarrow> bool" where
  "reads n p \<longleftrightarrow> list_ex (reads_pred p) (node_args n)"

definition is_initial :: "node \<Rightarrow> bool" where
  "is_initial n \<longleftrightarrow>
     list_all (\<lambda>a. arg_predecessor a = None) (node_args n) \<and> node_name n \<noteq> ''$network''"

definition is_conditional :: "node \<Rightarrow> bool" where
  "is_conditional n \<longleftrightarrow> condition_args n \<noteq> [] \<or> node_condition n \<noteq> None"

text \<open>The indices of the nodes with a property, in ascending order.\<close>

definition nodes_where :: "(node \<Rightarrow> bool) \<Rightarrow> node list \<Rightarrow> node_id list" where
  "nodes_where P ns = filter (\<lambda>i. P (ns ! i)) [0..<length ns]"

lemma nodes_where_snoc:
  "nodes_where P (ns @ [n]) = nodes_where P ns @ (if P n then [length ns] else [])"
proof -
  have "filter (\<lambda>i. P ((ns @ [n]) ! i)) [0..<length ns] = filter (\<lambda>i. P (ns ! i)) [0..<length ns]"
    by (rule filter_cong) (simp_all add: nth_append)
  then show ?thesis by (simp add: nodes_where_def)
qed

definition topology :: "graph \<Rightarrow> bool" where
  "topology g \<longleftrightarrow>
     map node_ident (g_nodes g) = [0..<length (g_nodes g)] \<and>
     (\<forall>p. succs_of (successors g) p = nodes_where (\<lambda>n. reads n p) (g_nodes g)) \<and>
     initial_nodes g = nodes_where is_initial (g_nodes g) \<and>
     condition_nodes g = set (nodes_where is_conditional (g_nodes g))"

lemma arg_preds_Nil: "arg_preds as = [] \<longleftrightarrow> list_all (\<lambda>a. arg_predecessor a = None) as"
  by (induction as) (auto simp: arg_preds_def List.map_filter_simps split: option.splits)

lemma has_condition_iff: "has_condition as \<longleftrightarrow> filter is_condition as \<noteq> []"
  by (auto simp: has_condition_def is_condition_def list_ex_iff filter_empty_conv)

lemma topology_new: "topology graph_new"
  by (simp add: topology_def graph_new_def succs_of_def nodes_where_def)

lemma topology_add_node:
  assumes "topology g" "add_node n g = Inr g'"
  shows "topology g' \<and> g_nodes g' = g_nodes g @ [n]"
proof -
  have idn: "node_ident n = length (g_nodes g)"
    using assms(2) by (auto simp: add_node_def split: if_splits)
  let ?succs = "foldl (add_edge (node_ident n)) (successors g) (remdups (arg_preds (node_args n)))"
  have g': "g' = g\<lparr>g_nodes := g_nodes g @ [n],
      initial_nodes := (if is_initial n then initial_nodes g @ [node_ident n] else initial_nodes g),
      successors := ?succs,
      condition_nodes := (if is_conditional n then insert (node_ident n) (condition_nodes g)
        else condition_nodes g)\<rparr>"
    using assms(2) idn
    by (auto simp: add_node_def Let_def is_initial_def is_conditional_def condition_args_def
        has_condition_iff arg_preds_Nil)
  have "succs_of ?succs p
      = nodes_where (\<lambda>n. reads n p) (g_nodes g) @ (if reads n p then [length (g_nodes g)] else [])"
    for p
    using assms(1) by (simp add: succs_of_add_edges set_arg_preds reads_def topology_def idn)
  then show ?thesis
    using assms(1) by (simp add: g' topology_def nodes_where_snoc idn)
qed

lemma topology_build_graph:
  "topology g \<Longrightarrow> build_graph ns g = Inr g' \<Longrightarrow> topology g' \<and> g_nodes g' = g_nodes g @ ns"
proof (induction ns arbitrary: g)
  case (Cons n ns)
  then obtain h where h: "add_node n g = Inr h" "build_graph ns h = Inr g'"
    by (auto simp: rbind_eq_Inr)
  show ?case using Cons.IH [OF _ h(2)] topology_add_node [OF Cons.prems(1) h(1)] by simp
qed simp

lemma build_graph_defined:
  "(\<exists>g'. build_graph ns g = Inr g') \<longleftrightarrow>
     map node_ident ns = [length (g_nodes g)..<length (g_nodes g) + length ns]"
proof (induction ns arbitrary: g)
  case (Cons n ns)
  show ?case
  proof (cases "node_ident n = length (g_nodes g)")
    case True
    then obtain h where h: "add_node n g = Inr h" "g_nodes h = g_nodes g @ [n]"
      by (auto simp: add_node_def Let_def)
    then show ?thesis
      using Cons.IH [of h] True by (simp add: upt_conv_Cons del: upt_Suc)
  next
    case False
    then show ?thesis by (simp add: add_node_def upt_conv_Cons del: upt_Suc)
  qed
qed simp

section \<open>The properties\<close>

text \<open>Graph construction computes the topology. It succeeds exactly on nodes numbered in
  order, and then the successor list of every predecessor consists of the nodes with an argument
  that reads it, ascending and without duplicates, the initial nodes are the nodes without a
  predecessor argument other than \<open>$network\<close>, and the condition nodes are those with a
  condition on an argument or on the node.\<close>

theorem build_graph_topology:
  "((\<exists>g. build_graph ns graph_new = Inr g) \<longleftrightarrow> map node_ident ns = [0..<length ns])
   \<and> (\<forall>g. build_graph ns graph_new = Inr g \<longrightarrow> g_nodes g = ns
      \<and> (\<forall>p. succs_of (successors g) p = filter (\<lambda>i. reads (ns ! i) p) [0..<length ns])
      \<and> initial_nodes g = filter (\<lambda>i. is_initial (ns ! i)) [0..<length ns]
      \<and> condition_nodes g = {i. i < length ns \<and> is_conditional (ns ! i)})"
proof (intro conjI allI impI)
  have e: "g_nodes graph_new = []" by (simp add: graph_new_def)
  show "(\<exists>g. build_graph ns graph_new = Inr g) \<longleftrightarrow> map node_ident ns = [0..<length ns]"
    by (simp add: build_graph_defined e)
  fix g assume g: "build_graph ns graph_new = Inr g"
  with topology_build_graph [OF topology_new g] e have t: "topology g" and ns: "g_nodes g = ns"
    by simp_all
  show "g_nodes g = ns" by (rule ns)
  show "succs_of (successors g) p = filter (\<lambda>i. reads (ns ! i) p) [0..<length ns]" for p
    using t ns by (simp add: topology_def nodes_where_def)
  show "initial_nodes g = filter (\<lambda>i. is_initial (ns ! i)) [0..<length ns]"
    "condition_nodes g = {i. i < length ns \<and> is_conditional (ns ! i)}"
    using t ns by (auto simp: topology_def nodes_where_def)
qed

theorem build_graph_topology_witness:
  "\<exists>g. build_graph [make_node 0 4 [], make_node 1 4 [res_arg 0 [0]],
       make_node 2 1 [barrier_arg 1 [0, 1, 2, 3] None, res_arg 0 [0]]] graph_new = Inr g
     \<and> succs_of (successors g) 0 = [1, 2] \<and> initial_nodes g = [0]"
proof -
  let ?ns = "[make_node 0 4 [], make_node 1 4 [res_arg 0 [0]],
    make_node 2 1 [barrier_arg 1 [0, 1, 2, 3] None, res_arg 0 [0]]]"
  have "map node_ident ?ns = [0..<length ?ns]" by (simp add: make_node_def upt_conv_Cons)
  then obtain g where g: "build_graph ?ns graph_new = Inr g"
    using build_graph_topology [of ?ns] by blast
  have "filter (\<lambda>i. reads (?ns ! i) 0) [0..<length ?ns] = [1, 2]"
    "filter (\<lambda>i. is_initial (?ns ! i)) [0..<length ?ns] = [0]"
    by (code_simp)+
  with g build_graph_topology [of ?ns] show ?thesis by (intro exI [of _ g]) simp
qed

end
