(* ===== verification/Node_Cache.thy ===== *)
theory Node_Cache
  imports Graph_Model Gen_Word
begin

text \<open>
  The per-node cache that graph compilation derives (\<^verbatim>\<open>runtime/node_cache.rs\<close> and
  \<^verbatim>\<open>build_node_cache\<close>, \<^verbatim>\<open>build_slot_counters\<close> of \<^verbatim>\<open>runtime/init.rs\<close>). Function pointers are
  the registry names they were resolved from: the registry itself is filled by plugins, so
  whether a name is registered is an argument. The iteration order of the hash set
  \<^verbatim>\<open>condition_nodes\<close> is an argument as well.
\<close>

section \<open>Data\<close>

datatype priority = PHigh | PNormal | PLow

datatype func_ref = DefaultPointer | Registered string | UncheckedTwin string

record res_pred_cache =
  rp_node_id :: node_id
  rp_res_node_id :: node_id
  rp_indexes :: "int list"
  rp_pred_factor :: nat
  rp_pred_group_size :: "nat option"
  rp_node_group_size :: "nat option"
  rp_node_factor :: nat
  rp_is_dep :: bool
  rp_node_has_barrier :: bool

record arg_cache_entry =
  ac_args :: "cm_types list"
  buffer_ref_indexes :: "nat list"
  buffer_values :: "cm_types list list"
  rt_idxs_indexes :: "nat list"
  rt_workers_indexes :: "nat list"
  res_indexes :: "nat list"
  real_res_indexes :: "nat list"
  res_predecessors :: "res_pred_cache list"

definition arg_cache_default :: arg_cache_entry where
  "arg_cache_default = \<lparr>ac_args = [], buffer_ref_indexes = [], buffer_values = [],
     rt_idxs_indexes = [], rt_workers_indexes = [], res_indexes = [], real_res_indexes = [],
     res_predecessors = []\<rparr>"

record node_condition_cache =
  ncc_operation :: cond_op
  ncc_eval_value :: cm_types
  ncc_func_ptr :: func_ref
  ncc_arg_cache :: arg_cache_entry

record cache_entry =
  ce_factor :: nat
  ce_pred_vec :: "nat list"
  ce_name :: string
  ce_func_ptr :: func_ref
  ce_arg_cache :: arg_cache_entry
  ce_is_initial :: bool
  ce_is_condition :: bool
  ce_cond_index :: nat
  ce_successor_count :: nat
  ce_node_condition :: "node_condition_cache option"
  ce_priority :: priority
  ce_affinity_group :: nat
  ce_worker_resolvable :: bool
  ce_needs_result_store :: bool
  ce_bulk_func :: "string option"
  ce_is_fanout_bulk :: bool
  ce_template_stable :: bool
  ce_func_name :: string
  ce_uses_unchecked :: bool

text \<open>What compilation reads from outside the graph.\<close>

record registry =
  has_func :: "string \<Rightarrow> bool"
  has_bulk_func :: "string \<Rightarrow> bool"

definition resolve_func :: "registry \<Rightarrow> string \<Rightarrow> func_ref result" where
  "resolve_func reg name = (if has_func reg name then Inr (Registered name) else Inl ExplicitPanic)"

definition resolve_bulk_func :: "registry \<Rightarrow> string \<Rightarrow> string option" where
  "resolve_bulk_func reg name = (if has_bulk_func reg name then Some name else None)"

section \<open>Argument caches\<close>

text \<open>The predecessor hash: how many indexes each argument declares on a predecessor.\<close>

fun hash_push :: "node_id \<Rightarrow> nat \<Rightarrow> (node_id \<times> nat list) list \<Rightarrow> (node_id \<times> nat list) list" where
  "hash_push k v [] = [(k, [v])]"
| "hash_push k v ((k', vs) # h) = (if k' = k then (k', vs @ [v]) # h else (k', vs) # hash_push k v h)"

definition cache_ref :: "cm_types list list \<Rightarrow> nat \<Rightarrow> nat \<Rightarrow> arg_cache_entry \<Rightarrow> arg_cache_entry result" where
  "cache_ref init_objects obj_id idx_count ac =
     (if obj_id = 0 then Inr (ac\<lparr>rt_idxs_indexes := rt_idxs_indexes ac @ [idx_count]\<rparr>)
      else if obj_id = 1 then Inr (ac\<lparr>rt_workers_indexes := rt_workers_indexes ac @ [idx_count]\<rparr>)
      else if length init_objects \<le> obj_id then Inl IndexOutOfBounds
      else
        let obj_vec = init_objects ! obj_id
        in if 1 < length obj_vec then
             Inr (ac\<lparr>buffer_ref_indexes := buffer_ref_indexes ac @ [idx_count],
                     buffer_values := buffer_values ac @ [obj_vec]\<rparr>)
           else if obj_vec = [] then Inl IndexOutOfBounds
           else Inr (ac\<lparr>ac_args := (ac_args ac)[idx_count := obj_vec ! 0]\<rparr>))"

definition cache_res :: "nat \<Rightarrow> nat \<Rightarrow> arg_cache_entry \<Rightarrow> arg_cache_entry" where
  "cache_res idx idx_count ac =
     ac\<lparr>res_indexes := res_indexes ac @ [idx_count], real_res_indexes := real_res_indexes ac @ [idx]\<rparr>"

definition push_pred :: "arg \<Rightarrow> (node_id \<times> nat list) list \<Rightarrow> (node_id \<times> nat list) list" where
  "push_pred a h = (case arg_predecessor a of
     Some p \<Rightarrow> hash_push (pred_id p) (length (pred_indexes p)) h | None \<Rightarrow> h)"

fun arg_cache_loop ::
  "cm_types list list \<Rightarrow> bool \<Rightarrow> arg list \<Rightarrow> nat \<Rightarrow> nat
     \<Rightarrow> arg_cache_entry \<times> (node_id \<times> nat list) list
     \<Rightarrow> (arg_cache_entry \<times> (node_id \<times> nat list) list) result" where
  "arg_cache_loop init_objects skip [] idx idx_count (ac, h) = Inr (ac, h)"
| "arg_cache_loop init_objects skip (a # as) idx idx_count (ac, h) =
     (if skip \<and> is_condition a then arg_cache_loop init_objects skip as (idx + 1) idx_count (ac, h)
      else
        rbind
          (case arg_type a of
             CmRef obj_id \<Rightarrow> rbind (cache_ref init_objects obj_id idx_count ac) (\<lambda>ac'. Inr (ac', h))
           | CmRes _ \<Rightarrow> Inr (cache_res idx idx_count ac, push_pred a h)
           | CmDep _ \<Rightarrow> Inr (cache_res idx idx_count ac, push_pred a h)
           | CmBarrier _ \<Rightarrow> Inr (ac, h)
           | v \<Rightarrow> Inr (ac\<lparr>ac_args := (ac_args ac)[idx_count := v]\<rparr>, h))
          (\<lambda>st. arg_cache_loop init_objects skip as (idx + 1) (idx_count + 1) st))"

definition build_arg_cache ::
  "arg list \<Rightarrow> cm_types list list \<Rightarrow> bool \<Rightarrow> (arg_cache_entry \<times> (node_id \<times> nat list) list) result" where
  "build_arg_cache as init_objects skip_conditions =
     arg_cache_loop init_objects skip_conditions as 0 0
       (arg_cache_default\<lparr>ac_args := replicate (length as) CmNone\<rparr>, [])"

definition build_pred_vec :: "(node_id \<times> nat list) list \<Rightarrow> nat list" where
  "build_pred_vec h =
     (let max_pred_id = foldr max (map fst h) 0
      in map (\<lambda>i. case map_of h i of Some counts \<Rightarrow> foldr max counts 0 | None \<Rightarrow> 0)
           [0..<max_pred_id + 1])"

definition build_condition_cache ::
  "registry \<Rightarrow> node \<Rightarrow> cm_types list list \<Rightarrow> node_condition_cache option result" where
  "build_condition_cache reg n init_objects =
     (case node_condition n of
        None \<Rightarrow> Inr None
      | Some c \<Rightarrow>
          rbind (build_arg_cache (nc_args c) init_objects False) (\<lambda>(ac, h).
          rbind (resolve_func reg (nc_func_name c)) (\<lambda>f.
            Inr (Some \<lparr>ncc_operation = nc_operation c, ncc_eval_value = nc_eval_value c,
                       ncc_func_ptr = f, ncc_arg_cache = ac\<rparr>))))"

fun position :: "'a \<Rightarrow> 'a list \<Rightarrow> nat option" where
  "position x [] = None"
| "position x (y # ys) = (if y = x then Some 0 else map_option Suc (position x ys))"

definition network_entry :: "node \<Rightarrow> cache_entry" where
  "network_entry n =
     \<lparr>ce_factor = node_factor n, ce_pred_vec = [], ce_name = node_name n,
      ce_func_ptr = DefaultPointer, ce_arg_cache = arg_cache_default, ce_is_initial = False,
      ce_is_condition = False, ce_cond_index = 0, ce_successor_count = 0,
      ce_node_condition = None, ce_priority = PNormal, ce_affinity_group = 0,
      ce_worker_resolvable = False, ce_needs_result_store = False, ce_bulk_func = None,
      ce_is_fanout_bulk = False, ce_template_stable = False, ce_func_name = node_func_name n,
      ce_uses_unchecked = False\<rparr>"

definition node_cache_entry ::
  "registry \<Rightarrow> node_id list \<Rightarrow> node \<Rightarrow> cm_types list list \<Rightarrow> node_id list \<Rightarrow> node_id set
     \<Rightarrow> cache_entry result" where
  "node_cache_entry reg order n init_objects initials conds =
     (if node_name n = ''$network'' then Inr (network_entry n)
      else
        rbind (build_arg_cache (node_args n) init_objects True) (\<lambda>(ac, h).
        rbind (resolve_func reg (node_func_name n)) (\<lambda>f.
        rbind (build_condition_cache reg n init_objects) (\<lambda>cc.
          Inr \<lparr>ce_factor = node_factor n, ce_pred_vec = build_pred_vec h, ce_name = node_name n,
               ce_func_ptr = f, ce_arg_cache = ac, ce_is_initial = node_ident n \<in> set initials,
               ce_is_condition = node_ident n \<in> conds,
               ce_cond_index = (if node_ident n \<in> conds then unwrap_or (position (node_ident n) order) 0 else 0),
               ce_successor_count = 0, ce_node_condition = cc, ce_priority = PNormal,
               ce_affinity_group = 0, ce_worker_resolvable = False,
               ce_needs_result_store = False,
               ce_bulk_func = resolve_bulk_func reg (node_func_name n),
               ce_is_fanout_bulk = False, ce_template_stable = False,
               ce_func_name = node_func_name n, ce_uses_unchecked = False\<rparr>))))"

section \<open>The passes over the cache\<close>

definition mapi :: "(nat \<Rightarrow> 'a \<Rightarrow> 'b) \<Rightarrow> 'a list \<Rightarrow> 'b list" where
  "mapi f xs = map (\<lambda>i. f i (xs ! i)) [0..<length xs]"

lemma mapi_simps [simp]:
  "length (mapi f xs) = length xs" "i < length xs \<Longrightarrow> mapi f xs ! i = f i (xs ! i)"
  by (simp_all add: mapi_def)

definition set_successor_count :: "graph \<Rightarrow> nat \<Rightarrow> cache_entry \<Rightarrow> cache_entry" where
  "set_successor_count g nid e =
     (if nid < length (successors g) then e\<lparr>ce_successor_count := length (successors g ! nid)\<rparr> else e)"

definition is_worker_resolvable :: "graph \<Rightarrow> cache_entry list \<Rightarrow> nat \<Rightarrow> bool" where
  "is_worker_resolvable g cache nid =
     (if nid < length (successors g)
      then list_all (\<lambda>succ. ce_node_condition (cache ! succ) = None) (successors g ! nid) else True)"

definition reads_result :: "node_id \<Rightarrow> arg \<Rightarrow> bool" where
  "reads_result nid a \<longleftrightarrow> is_result (arg_type a) \<and> reads_pred nid a"

definition consumes_result :: "node_id \<Rightarrow> node \<Rightarrow> bool" where
  "consumes_result nid succ_node =
     (let main_reads = list_ex (reads_result nid) (node_args succ_node);
          cond_reads = (case node_condition succ_node of
            Some c \<Rightarrow> list_ex (reads_result nid) (nc_args c) | None \<Rightarrow> False)
      in main_reads \<or> cond_reads)"

definition has_res_consumer :: "graph \<Rightarrow> nat \<Rightarrow> bool" where
  "has_res_consumer g nid =
     (nid < length (successors g) \<and>
      list_ex (\<lambda>succ. consumes_result nid (g_nodes g ! succ)) (successors g ! nid))"

lemma consumes_result_iff:
  "consumes_result nid n \<longleftrightarrow> list_ex (reads_result nid) (node_args n)
     \<or> (\<exists>c. node_condition n = Some c \<and> list_ex (reads_result nid) (nc_args c))"
  by (auto simp: consumes_result_def split: option.splits)

definition fanout_bulk_eligible :: "graph \<Rightarrow> nat \<Rightarrow> cache_entry \<Rightarrow> bool" where
  "fanout_bulk_eligible g nid e =
     (let n = g_nodes g ! nid in
      ce_worker_resolvable e \<and> \<not> ce_is_condition e \<and> ce_name e \<noteq> ''$network''
      \<and> \<not> list_ex is_barrier (node_args n)
      \<and> (case filter (\<lambda>a. is_result (arg_type a)) (node_args n) of
           [a] \<Rightarrow>
             (case arg_predecessor a of
                Some p \<Rightarrow>
                  let pred_node = g_nodes g ! pred_id p
                  in node_factor pred_node = node_factor n \<and> 1 < node_factor n
                     \<and> node_name pred_node \<noteq> ''$network''
              | None \<Rightarrow> False)
         | _ \<Rightarrow> False))"

definition to_priority :: "node_priority \<Rightarrow> priority" where
  "to_priority p = (case p of High \<Rightarrow> PHigh | Normal \<Rightarrow> PNormal | Low \<Rightarrow> PLow)"

definition node_forced_barrier :: "node \<Rightarrow> bool" where
  "node_forced_barrier n \<longleftrightarrow>
     list_ex is_barrier (node_args n) \<or> node_has_ambiguous_multi_res_args n"

fun build_res_preds :: "graph \<Rightarrow> node_id \<Rightarrow> node \<Rightarrow> bool \<Rightarrow> arg list \<Rightarrow> res_pred_cache list result" where
  "build_res_preds g nid n skip [] = Inr []"
| "build_res_preds g nid n skip (a # as) =
     (if skip \<and> is_condition a then build_res_preds g nid n skip as
      else case arg_type a of
        CmRes res_nid \<Rightarrow>
          if length (g_nodes g) \<le> res_nid then Inl IndexOutOfBounds
          else rbind (build_res_preds g nid n skip as) (\<lambda>v. Inr (
            \<lparr>rp_node_id = nid, rp_res_node_id = res_nid,
             rp_indexes = (case arg_predecessor a of Some p \<Rightarrow> pred_indexes p | None \<Rightarrow> []),
             rp_pred_factor = node_factor (g_nodes g ! res_nid),
             rp_pred_group_size = node_group_size (g_nodes g ! res_nid),
             rp_node_group_size = node_group_size n, rp_node_factor = node_factor n,
             rp_is_dep = False, rp_node_has_barrier = node_forced_barrier n\<rparr> # v))
      | CmDep res_nid \<Rightarrow>
          rbind (build_res_preds g nid n skip as) (\<lambda>v. Inr (
            \<lparr>rp_node_id = nid, rp_res_node_id = res_nid, rp_indexes = [], rp_pred_factor = 0,
             rp_pred_group_size = None, rp_node_group_size = None, rp_node_factor = node_factor n,
             rp_is_dep = True, rp_node_has_barrier = node_forced_barrier n\<rparr> # v))
      | _ \<Rightarrow> build_res_preds g nid n skip as)"

definition install_res_preds ::
  "res_pred_cache list \<Rightarrow> res_pred_cache list option \<Rightarrow> cache_entry \<Rightarrow> cache_entry" where
  "install_res_preds main_res cond_res e =
     e\<lparr>ce_arg_cache := (ce_arg_cache e)\<lparr>res_predecessors := main_res\<rparr>,
       ce_node_condition := (case (ce_node_condition e, cond_res) of
          (Some nc, Some cp) \<Rightarrow> Some (nc\<lparr>ncc_arg_cache := (ncc_arg_cache nc)\<lparr>res_predecessors := cp\<rparr>\<rparr>)
        | (nc, _) \<Rightarrow> nc)\<rparr>"

definition set_res_preds :: "graph \<Rightarrow> nat \<Rightarrow> cache_entry \<Rightarrow> cache_entry result" where
  "set_res_preds g nid e =
     (let n = g_nodes g ! nid in
      rbind (build_res_preds g nid n True (node_args n)) (\<lambda>main_res.
      rbind (case node_condition n of
               Some c \<Rightarrow> rbind (build_res_preds g nid n False (nc_args c)) (\<lambda>v. Inr (Some v))
             | None \<Rightarrow> Inr None) (\<lambda>cond_res.
        Inr (install_res_preds main_res cond_res e))))"

definition width_one :: "res_pred_cache \<Rightarrow> bool" where
  "width_one rp \<longleftrightarrow>
     rp_is_dep rp \<or> length (rp_indexes rp) \<le> 1 \<or> length (rp_indexes rp) = rp_node_factor rp"

definition set_template_stable :: "bool \<Rightarrow> cache_entry \<Rightarrow> cache_entry" where
  "set_template_stable templates_disabled e =
     e\<lparr>ce_template_stable := \<not> templates_disabled
         \<and> list_all width_one (res_predecessors (ce_arg_cache e)) \<and> ce_name e \<noteq> ''$network''\<rparr>"

text \<open>The successor table of a built graph only holds node identifiers; the code indexes the
  cache and the nodes with them, and the nodes with every argument's predecessor.\<close>

definition succs_in_range :: "graph \<Rightarrow> bool" where
  "succs_in_range g \<longleftrightarrow>
     list_all (\<lambda>nid. list_all (\<lambda>s. s < length (g_nodes g)) (succs_of (successors g) nid))
       [0..<length (g_nodes g)]"

definition build_node_cache ::
  "registry \<Rightarrow> (worker_range_spec option \<Rightarrow> nat) \<Rightarrow> bool \<Rightarrow> node_id list \<Rightarrow> graph
     \<Rightarrow> cm_types list list \<Rightarrow> cache_entry list result" where
  "build_node_cache reg affinity templates_disabled order g init_objects =
     rbind (rmap (\<lambda>n. node_cache_entry reg order n init_objects (initial_nodes g) (condition_nodes g))
              (g_nodes g)) (\<lambda>c0.
     if \<not> (succs_in_range g \<and> preds_in_range g) then Inl IndexOutOfBounds
     else
       let c1 = mapi (set_successor_count g) c0;
           c2 = mapi (\<lambda>nid e. e\<lparr>ce_worker_resolvable := is_worker_resolvable g c1 nid\<rparr>) c1;
           c3 = mapi (\<lambda>nid e. e\<lparr>ce_needs_result_store := has_res_consumer g nid\<rparr>) c2;
           c4 = mapi (\<lambda>nid e. if fanout_bulk_eligible g nid e then e\<lparr>ce_is_fanout_bulk := True\<rparr> else e) c3;
           c5 = mapi (\<lambda>nid e. e\<lparr>ce_priority := to_priority (node_prio (g_nodes g ! nid)),
                  ce_affinity_group := affinity (node_use_workers (g_nodes g ! nid))\<rparr>) c4
       in rbind (rmap (\<lambda>nid. set_res_preds g nid (c5 ! nid)) [0..<length c5])
            (\<lambda>c6. Inr (map (set_template_stable templates_disabled) c6)))"

section \<open>Per-slot counters\<close>

definition pending_total :: "bool \<Rightarrow> cache_entry list \<Rightarrow> nat" where
  "pending_total cond cache = sum_list (map ce_factor (filter (\<lambda>e. ce_is_condition e = cond) cache))"

record slot_counters =
  sc_pending_tasks :: "nat list"
  sc_pending_cond_tasks :: "nat list"
  sc_cond_instances_to_spawn :: "u64 list list"
  sc_fanout_bulk_arrived :: "u64 list list"

definition build_slot_counters :: "nat \<Rightarrow> cache_entry list \<Rightarrow> slot_counters" where
  "build_slot_counters slots cache =
     \<lparr>sc_pending_tasks = replicate slots (pending_total False cache),
      sc_pending_cond_tasks = replicate slots (pending_total True cache),
      sc_cond_instances_to_spawn = replicate slots
        (map (\<lambda>e. if ce_is_condition e then gen_pack 0 (as_u32 (ce_factor e)) else gen_pack 0 0) cache),
      sc_fanout_bulk_arrived = replicate slots (map (\<lambda>_. gen_pack 0 0) cache)\<rparr>"

lemma pending_total_split:
  "pending_total False cache + pending_total True cache = sum_list (map ce_factor cache)"
  by (induction cache) (simp_all add: pending_total_def)

section \<open>What the flags mean\<close>

lemma node_cache_entry_basics:
  "node_cache_entry reg order n init_objects initials conds = Inr e \<Longrightarrow>
     ce_factor e = node_factor n \<and> ce_name e = node_name n
     \<and> (ce_node_condition e = None \<longleftrightarrow> node_condition n = None \<or> node_name n = ''$network'')
     \<and> (ce_is_condition e \<longleftrightarrow> node_ident n \<in> conds \<and> node_name n \<noteq> ''$network'')
     \<and> (ce_is_initial e \<longleftrightarrow> node_ident n \<in> set initials \<and> node_name n \<noteq> ''$network'')
     \<and> \<not> ce_is_fanout_bulk e"
  by (auto simp: node_cache_entry_def network_entry_def rbind_eq_Inr build_condition_cache_def
      split: if_splits option.splits)

lemma set_res_preds_keeps:
  assumes "set_res_preds g nid e = Inr e'"
  shows "e' = e\<lparr>ce_arg_cache := ce_arg_cache e', ce_node_condition := ce_node_condition e'\<rparr>"
  using assms by (auto simp: set_res_preds_def install_res_preds_def Let_def rbind_eq_Inr)

text \<open>What one entry of the finished cache is, in terms of the first pass.\<close>

definition flags_from :: "graph \<Rightarrow> cache_entry list \<Rightarrow> nat \<Rightarrow> cache_entry \<Rightarrow> bool" where
  "flags_from g c0 nid e \<longleftrightarrow>
     ce_factor e = ce_factor (c0 ! nid) \<and> ce_name e = ce_name (c0 ! nid)
     \<and> ce_is_condition e = ce_is_condition (c0 ! nid)
     \<and> ce_is_initial e = ce_is_initial (c0 ! nid)
     \<and> ce_worker_resolvable e
        = list_all (\<lambda>s. ce_node_condition (c0 ! s) = None) (succs_of (successors g) nid)
     \<and> ce_needs_result_store e = has_res_consumer g nid
     \<and> ce_is_fanout_bulk e = fanout_bulk_eligible g nid e"

lemma fanout_cong:
  assumes "ce_worker_resolvable e = ce_worker_resolvable e'" "ce_is_condition e = ce_is_condition e'"
    "ce_name e = ce_name e'"
  shows "fanout_bulk_eligible g nid e = fanout_bulk_eligible g nid e'"
  by (simp add: fanout_bulk_eligible_def assms)

lemma build_node_cache_flags:
  assumes "build_node_cache reg affinity td order g init_objects = Inr cache"
    and nid: "nid < length (g_nodes g)"
  obtains c0 where "length c0 = length (g_nodes g)" "length cache = length (g_nodes g)"
    "\<And>i. i < length (g_nodes g) \<Longrightarrow> node_cache_entry reg order (g_nodes g ! i) init_objects
        (initial_nodes g) (condition_nodes g) = Inr (c0 ! i)"
    "flags_from g c0 nid (cache ! nid)"
    "succs_in_range g"
proof -
  let ?N = "length (g_nodes g)"
  obtain c0 where c0: "rmap (\<lambda>n. node_cache_entry reg order n init_objects (initial_nodes g)
      (condition_nodes g)) (g_nodes g) = Inr c0"
    and rest: "build_node_cache reg affinity td order g init_objects = Inr cache"
    using assms(1) by (auto simp: build_node_cache_def rbind_eq_Inr)
  have l0: "length c0 = ?N" and e0: "\<And>i. i < ?N \<Longrightarrow> node_cache_entry reg order (g_nodes g ! i)
      init_objects (initial_nodes g) (condition_nodes g) = Inr (c0 ! i)"
    using c0 by (simp_all add: rmap_Inr)
  define c1 where "c1 = mapi (set_successor_count g) c0"
  define c2 where "c2 = mapi (\<lambda>nid e. e\<lparr>ce_worker_resolvable := is_worker_resolvable g c1 nid\<rparr>) c1"
  define c3 where "c3 = mapi (\<lambda>nid e. e\<lparr>ce_needs_result_store := has_res_consumer g nid\<rparr>) c2"
  define c4 where "c4 = mapi (\<lambda>nid e. if fanout_bulk_eligible g nid e
      then e\<lparr>ce_is_fanout_bulk := True\<rparr> else e) c3"
  define c5 where "c5 = mapi (\<lambda>nid e. e\<lparr>ce_priority := to_priority (node_prio (g_nodes g ! nid)),
      ce_affinity_group := affinity (node_use_workers (g_nodes g ! nid))\<rparr>) c4"
  have lens: "length c1 = ?N" "length c2 = ?N" "length c3 = ?N" "length c4 = ?N" "length c5 = ?N"
    by (simp_all add: c1_def c2_def c3_def c4_def c5_def l0)
  obtain c6 where rng: "succs_in_range g"
    and c6: "rmap (\<lambda>nid. set_res_preds g nid (c5 ! nid)) [0..<length c5] = Inr c6"
    and cache: "cache = map (set_template_stable td) c6"
    using rest c0
    by (auto simp: build_node_cache_def rbind_eq_Inr Let_def c1_def c2_def c3_def c4_def c5_def
        split: if_splits)
  have l6: "length c6 = ?N" and e6: "set_res_preds g nid (c5 ! nid) = Inr (c6 ! nid)"
    using c6 nid lens by (auto simp: rmap_Inr)
  have c1_cond: "ce_node_condition (c1 ! s) = ce_node_condition (c0 ! s)" if "s < ?N" for s
    using that by (simp add: c1_def l0 set_successor_count_def)
  have wr: "is_worker_resolvable g c1 nid
      = list_all (\<lambda>s. ce_node_condition (c0 ! s) = None) (succs_of (successors g) nid)"
  proof -
    have "\<forall>s \<in> set (succs_of (successors g) nid). s < ?N"
      using rng nid by (simp add: succs_in_range_def list_all_iff)
    then show ?thesis
      by (auto simp: is_worker_resolvable_def succs_of_def list_all_iff c1_cond)
  qed
  define e5 where "e5 = c5 ! nid"
  have f5: "ce_factor e5 = ce_factor (c0 ! nid)" "ce_name e5 = ce_name (c0 ! nid)"
    "ce_is_condition e5 = ce_is_condition (c0 ! nid)" "ce_is_initial e5 = ce_is_initial (c0 ! nid)"
    "ce_worker_resolvable e5 = is_worker_resolvable g c1 nid"
    "ce_needs_result_store e5 = has_res_consumer g nid"
    using nid by (simp_all add: e5_def c5_def c4_def c3_def c2_def lens c1_def l0 set_successor_count_def)
  have "ce_is_fanout_bulk (c3 ! nid) = False"
    using nid node_cache_entry_basics [OF e0 [OF nid]]
    by (simp add: c3_def c2_def lens c1_def l0 set_successor_count_def)
  then have fb5: "ce_is_fanout_bulk e5 = fanout_bulk_eligible g nid (c3 ! nid)"
    using nid by (simp add: e5_def c5_def c4_def lens)
  have "fanout_bulk_eligible g nid (c3 ! nid) = fanout_bulk_eligible g nid e5"
    using nid f5 by (intro fanout_cong)
      (simp_all add: c3_def c2_def lens c1_def l0 set_successor_count_def)
  note fb5 = fb5 [unfolded this]
  define e6 where "e6 = c6 ! nid"
  note k = set_res_preds_keeps [OF e6 [folded e5_def e6_def]]
  have f6: "ce_factor e6 = ce_factor e5" "ce_name e6 = ce_name e5"
    "ce_is_condition e6 = ce_is_condition e5" "ce_is_initial e6 = ce_is_initial e5"
    "ce_worker_resolvable e6 = ce_worker_resolvable e5"
    "ce_needs_result_store e6 = ce_needs_result_store e5"
    "ce_is_fanout_bulk e6 = ce_is_fanout_bulk e5"
    by (subst k, simp)+
  have "cache ! nid = set_template_stable td e6" using nid l6 by (simp add: cache e6_def)
  moreover have "fanout_bulk_eligible g nid (set_template_stable td e6) = fanout_bulk_eligible g nid e5"
    by (intro fanout_cong) (simp_all add: set_template_stable_def f6)
  ultimately have "flags_from g c0 nid (cache ! nid)"
    by (simp add: flags_from_def set_template_stable_def f5 f6 fb5 wr)
  with that l0 l6 cache e0 rng show thesis by simp
qed

lemma succs_of_topology:
  "topology g \<Longrightarrow> set (succs_of (successors g) nid) = {s. s < length (g_nodes g) \<and> reads (g_nodes g ! s) nid}"
  by (auto simp: topology_def nodes_where_def)

lemma has_res_consumer_iff:
  assumes "topology g"
  shows "has_res_consumer g nid \<longleftrightarrow>
    (\<exists>s < length (g_nodes g). reads (g_nodes g ! s) nid \<and> consumes_result nid (g_nodes g ! s))"
proof -
  have "has_res_consumer g nid \<longleftrightarrow>
    (\<exists>s \<in> set (succs_of (successors g) nid). consumes_result nid (g_nodes g ! s))"
    by (auto simp: has_res_consumer_def succs_of_def list_ex_iff)
  then show ?thesis by (auto simp: succs_of_topology [OF assms])
qed

section \<open>The properties\<close>

text \<open>The compiled node cache means what its fast paths rely on. A node is worker-resolvable
  exactly when no node that reads it carries a node condition; its result is stored exactly when a
  successor reads it through a result argument, of its own or of its condition; and the bulk
  fan-out flag is only set on an unconditional, barrier-free node with a single result argument,
  on a predecessor of the same factor above one.\<close>

theorem node_cache_flags:
  assumes "build_graph ns graph_new = Inr g"
    and "build_node_cache reg affinity td order g init_objects = Inr cache"
    and "nid < length ns"
  shows "length cache = length ns
    \<and> (ce_worker_resolvable (cache ! nid) \<longleftrightarrow>
        (\<forall>s < length ns. reads (ns ! s) nid \<longrightarrow>
           node_condition (ns ! s) = None \<or> node_name (ns ! s) = ''$network''))
    \<and> (ce_needs_result_store (cache ! nid) \<longleftrightarrow>
        (\<exists>s < length ns. reads (ns ! s) nid
           \<and> (list_ex (reads_result nid) (node_args (ns ! s))
              \<or> (\<exists>c. node_condition (ns ! s) = Some c \<and> list_ex (reads_result nid) (nc_args c)))))
    \<and> (ce_is_fanout_bulk (cache ! nid) \<longrightarrow>
        ce_worker_resolvable (cache ! nid) \<and> \<not> ce_is_condition (cache ! nid)
        \<and> \<not> list_ex is_barrier (node_args (ns ! nid)) \<and> 1 < node_factor (ns ! nid)
        \<and> (\<exists>a p. filter (\<lambda>a. is_result (arg_type a)) (node_args (ns ! nid)) = [a]
             \<and> arg_predecessor a = Some p \<and> node_factor (ns ! pred_id p) = node_factor (ns ! nid)))"
proof -
  have t: "topology g" and ns: "g_nodes g = ns"
    using topology_build_graph [OF topology_new assms(1)] by (simp_all add: graph_new_def)
  obtain c0 where l0: "length c0 = length ns" "length cache = length ns"
    and e0: "\<And>i. i < length ns \<Longrightarrow> node_cache_entry reg order (ns ! i) init_objects
        (initial_nodes g) (condition_nodes g) = Inr (c0 ! i)"
    and f: "flags_from g c0 nid (cache ! nid)"
    by (rule build_node_cache_flags [OF assms(2), of nid]) (use assms(3) ns in auto)
  have "ce_worker_resolvable (cache ! nid) \<longleftrightarrow>
      (\<forall>s \<in> set (succs_of (successors g) nid). ce_node_condition (c0 ! s) = None)"
    using f by (simp add: flags_from_def list_all_iff)
  also have "\<dots> \<longleftrightarrow> (\<forall>s < length ns. reads (ns ! s) nid \<longrightarrow> node_condition (ns ! s) = None
      \<or> node_name (ns ! s) = ''$network'')"
    using node_cache_entry_basics [OF e0] by (auto simp: succs_of_topology [OF t] ns)
  finally show ?thesis
    using l0(2) f has_res_consumer_iff [OF t, of nid]
    by (auto simp: flags_from_def ns fanout_bulk_eligible_def Let_def consumes_result_iff
        split: list.splits option.splits)
qed

definition sample_registry :: registry where
  "sample_registry = \<lparr>has_func = (\<lambda>_. True), has_bulk_func = (\<lambda>_. False)\<rparr>"

definition chain2 :: "node list" where
  "chain2 = [make_node 0 4 [], make_node 1 4 [res_arg 0 [0]]]"

theorem node_cache_flags_witness:
  "\<exists>g cache. build_graph chain2 graph_new = Inr g
     \<and> build_node_cache sample_registry (\<lambda>_. 0) False [] g [] = Inr cache
     \<and> ce_worker_resolvable (cache ! 0) \<and> ce_needs_result_store (cache ! 0)"
proof -
  obtain g where g: "build_graph chain2 graph_new = Inr g"
    using build_graph_defined [of chain2 graph_new]
    by (auto simp: chain2_def graph_new_def make_node_def)
  have "case rbind (build_graph chain2 graph_new)
      (\<lambda>g. build_node_cache sample_registry (\<lambda>_. 0) False [] g []) of Inr _ \<Rightarrow> True | _ \<Rightarrow> False"
    by code_simp
  then obtain cache where c: "build_node_cache sample_registry (\<lambda>_. 0) False [] g [] = Inr cache"
    using g by (auto split: sum.splits)
  have r: "reads (chain2 ! 1) 0" "node_condition (chain2 ! 0) = None"
    "node_condition (chain2 ! 1) = None" "list_ex (reads_result 0) (node_args (chain2 ! 1))"
    "length chain2 = 2"
    by code_simp+
  have "\<forall>s < length chain2. node_condition (chain2 ! s) = None"
    using r by (auto simp: less_2_cases_iff)
  moreover have "\<exists>s < length chain2. reads (chain2 ! s) 0
      \<and> list_ex (reads_result 0) (node_args (chain2 ! s))"
    using r by (intro exI [of _ 1]) simp
  ultimately show ?thesis
    using node_cache_flags [OF g c, of 0] g c r(5) by auto
qed

end
