(* ===== verification/Routing.thy ===== *)
theory Routing
  imports Node_Cache
begin

text \<open>
  The predecessor routing tables (\<^verbatim>\<open>build_predecessor_tables\<close>, \<^verbatim>\<open>runtime/init.rs\<close>) and the
  flattened successor-edge arena built from them (\<^verbatim>\<open>runtime/successor_arena.rs\<close>). The tables
  are \<open>[succ][pred]\<close>; \<^verbatim>\<open>TOMII_DISABLE_RANGE_1TO1\<close> is the flag \<open>range_1to1\<close>.
\<close>

section \<open>Routing tables\<close>

record route =
  rt_filter :: "(nat \<times> nat) option"
  rt_group_by :: "nat option"
  rt_offset :: "int option"

definition no_route :: route where
  "no_route = \<lparr>rt_filter = None, rt_group_by = None, rt_offset = None\<rparr>"

definition grouped_barrier :: "graph \<Rightarrow> node \<Rightarrow> arg list \<Rightarrow> (predecessor \<times> nat) option" where
  "grouped_barrier g n args =
     (case List.map_filter (\<lambda>a.
        if \<not> is_barrier a then None
        else case arg_predecessor a of
            None \<Rightarrow> None
          | Some p \<Rightarrow> map_option (\<lambda>gb. (p, gb)) (barrier_group_by_for_dependency g n p)) args
      of [] \<Rightarrow> None | x # _ \<Rightarrow> Some x)"

fun consecutive :: "int list \<Rightarrow> bool" where
  "consecutive (a # b # is) \<longleftrightarrow> b = a + 1 \<and> consecutive (b # is)"
| "consecutive is \<longleftrightarrow> True"

definition single_arg_route :: "bool \<Rightarrow> arg \<Rightarrow> predecessor \<Rightarrow> nat \<Rightarrow> nat \<Rightarrow> route" where
  "single_arg_route range_1to1 a p pred_factor succ_factor =
     (let single_1to1 = (length (pred_indexes p) = 1 \<and> succ_factor = pred_factor);
          contiguous_range_1to1 = (range_1to1 \<and> length (pred_indexes p) = succ_factor
            \<and> consecutive (pred_indexes p))
      in \<lparr>rt_filter = index_filter p pred_factor succ_factor,
          rt_group_by = None,
          rt_offset =
            (if \<not> is_barrier a \<and> pred_group_by p = None \<and> (single_1to1 \<or> contiguous_range_1to1)
                \<and> 1 < succ_factor
             then Some (pred_indexes p ! 0) else None)\<rparr>)"

definition union_route :: "node \<Rightarrow> node_id \<Rightarrow> nat \<Rightarrow> nat \<Rightarrow> route" where
  "union_route n pid pred_factor succ_factor =
     (if list_ex (\<lambda>i. i < 0) (union_pred_indexes n pid) then no_route
      else no_route\<lparr>rt_filter := index_filter (union_pred n pid) pred_factor succ_factor\<rparr>)"

definition route_for :: "bool \<Rightarrow> graph \<Rightarrow> node \<Rightarrow> node_id \<Rightarrow> route" where
  "route_for range_1to1 g n pid =
     (let pred_factor = node_factor (g_nodes g ! pid);
          succ_factor = node_factor n;
          args = args_on_pred n pid
      in case grouped_barrier g n args of
           Some (p, gb) \<Rightarrow>
             \<lparr>rt_filter = index_filter p pred_factor succ_factor, rt_group_by = Some gb, rt_offset = None\<rparr>
         | None \<Rightarrow>
             (case args of
                first # rest \<Rightarrow>
                  if list_all (\<lambda>a. same_edge a first) rest then
                    (case arg_predecessor first of
                       Some p \<Rightarrow> single_arg_route range_1to1 first p pred_factor succ_factor
                     | None \<Rightarrow> no_route)
                  else if list_ex is_barrier args then union_route n pid pred_factor succ_factor
                  else no_route
              | [] \<Rightarrow> no_route))"

record pred_tables =
  pred_index_filter :: "(nat \<times> nat) option list list"
  tbl_group_by :: "nat option list list"
  pred_succ_1to1_offset :: "int option list list"

definition set2 :: "'a list list \<Rightarrow> nat \<Rightarrow> nat \<Rightarrow> 'a \<Rightarrow> 'a list list" where
  "set2 t s p v = t[s := (t ! s)[p := v]]"

definition put_some :: "'a option list list \<Rightarrow> nat \<Rightarrow> nat \<Rightarrow> 'a option \<Rightarrow> 'a option list list result" where
  "put_some t s p v =
     (case v of
        None \<Rightarrow> Inr t
      | Some x \<Rightarrow> if s < length t \<and> p < length (t ! s) then Inr (set2 t s p (Some x)) else Inl IndexOutOfBounds)"

definition write_route :: "node_id \<Rightarrow> node_id \<Rightarrow> route \<Rightarrow> pred_tables \<Rightarrow> pred_tables result" where
  "write_route s p r T =
     rbind (put_some (pred_index_filter T) s p (rt_filter r)) (\<lambda>f.
     rbind (put_some (tbl_group_by T) s p (rt_group_by r)) (\<lambda>gb.
     rbind (put_some (pred_succ_1to1_offset T) s p (rt_offset r)) (\<lambda>off.
       Inr \<lparr>pred_index_filter = f, tbl_group_by = gb, pred_succ_1to1_offset = off\<rparr>)))"

fun route_preds :: "bool \<Rightarrow> graph \<Rightarrow> node \<Rightarrow> node_id list \<Rightarrow> pred_tables \<Rightarrow> pred_tables result" where
  "route_preds range_1to1 g n [] T = Inr T"
| "route_preds range_1to1 g n (pid # ps) T =
     (if length (g_nodes g) \<le> pid then Inl IndexOutOfBounds
      else rbind (write_route (node_ident n) pid (route_for range_1to1 g n pid) T)
             (route_preds range_1to1 g n ps))"

text \<open>\<open>preds_on_node\<close>: the predecessors of a node in order of first mention.\<close>

definition preds_on_node :: "node \<Rightarrow> node_id list" where
  "preds_on_node n = remaining_preds [] (node_args n) []"

fun route_nodes :: "bool \<Rightarrow> graph \<Rightarrow> node list \<Rightarrow> pred_tables \<Rightarrow> pred_tables result" where
  "route_nodes range_1to1 g [] T = Inr T"
| "route_nodes range_1to1 g (n # ns) T =
     rbind (route_preds range_1to1 g n (preds_on_node n) T) (route_nodes range_1to1 g ns)"

definition build_predecessor_tables :: "bool \<Rightarrow> graph \<Rightarrow> pred_tables result" where
  "build_predecessor_tables range_1to1 g =
     (let num_nodes = length (g_nodes g)
      in route_nodes range_1to1 g (g_nodes g)
           \<lparr>pred_index_filter = replicate num_nodes (replicate num_nodes None),
            tbl_group_by = replicate num_nodes (replicate num_nodes None),
            pred_succ_1to1_offset = replicate num_nodes (replicate num_nodes None)\<rparr>)"

section \<open>The successor-edge arena\<close>

definition NO_FILTER :: u32 where
  "NO_FILTER = - 1"

definition NO_GROUP :: u32 where
  "NO_GROUP = 0"

record succ_edge =
  succ_id :: node_id
  has_condition_flag :: bool
  se_is_fanout_bulk :: bool
  se_succ_factor :: u32
  filter_start :: u32
  filter_end :: u32
  se_group_by :: u32
  one_to_one_offset :: int
  has_one_to_one :: bool

definition succ_factor :: "succ_edge \<Rightarrow> nat" where
  "succ_factor e = unat (se_succ_factor e)"

definition passes_filter :: "succ_edge \<Rightarrow> nat \<Rightarrow> bool" where
  "passes_filter e pred_index \<longleftrightarrow>
     filter_end e = NO_FILTER
     \<or> (unat (filter_start e) \<le> pred_index \<and> pred_index < unat (filter_end e))"

definition filter_bounds :: "succ_edge \<Rightarrow> (nat \<times> nat) option" where
  "filter_bounds e =
     (if filter_end e = NO_FILTER then None else Some (unat (filter_start e), unat (filter_end e)))"

text \<open>The subtraction is on \<^verbatim>\<open>usize\<close>: below the filter start it wraps.\<close>

definition pred_group :: "succ_edge \<Rightarrow> nat \<Rightarrow> nat option" where
  "pred_group e pred_index =
     (if se_group_by e = NO_GROUP then None
      else
        let relative_idx = as_usize (int pred_index - int (unat (filter_start e)))
        in Some (relative_idx div unat (se_group_by e)))"

definition one_to_one_succ_idx :: "succ_edge \<Rightarrow> nat \<Rightarrow> nat option" where
  "one_to_one_succ_idx e pred_index =
     (if has_one_to_one e
      then Some (as_usize ((int pred_index - one_to_one_offset e) mod int (unat (se_succ_factor e))))
      else None)"

record successor_arena =
  arena_edges :: "succ_edge list"
  arena_ranges :: "(u32 \<times> u32) list"

text \<open>A slice whose bounds are out of order or out of range panics.\<close>

definition edges_for :: "successor_arena \<Rightarrow> nat \<Rightarrow> succ_edge list result" where
  "edges_for arena pred =
     (if pred < length (arena_ranges arena) then
        (let (start, stop) = arena_ranges arena ! pred
         in if unat start \<le> unat stop \<and> unat stop \<le> length (arena_edges arena)
            then Inr (take (unat stop - unat start) (drop (unat start) (arena_edges arena)))
            else Inl IndexOutOfBounds)
      else Inr [])"

text \<open>\<^verbatim>\<open>k as i32\<close> keeps the low 32 bits, read as a signed number.\<close>

definition as_i32 :: "int \<Rightarrow> int" where
  "as_i32 k = sint (word_of_int k :: u32)"

text \<open>One edge from its routing entries; the tables are read at \<open>[succ][pred]\<close>.\<close>

definition edge_of_route :: "cache_entry \<Rightarrow> node_id \<Rightarrow> route \<Rightarrow> succ_edge" where
  "edge_of_route entry succ r =
     (let (fs, fe) = (case rt_filter r of Some (s, e) \<Rightarrow> (as_u32 s, as_u32 e) | None \<Rightarrow> (0, NO_FILTER));
          gb = (case rt_group_by r of Some gb \<Rightarrow> as_u32 gb | None \<Rightarrow> NO_GROUP);
          (one, off) = (case rt_offset r of Some k \<Rightarrow> (True, as_i32 k) | None \<Rightarrow> (False, 0))
      in \<lparr>succ_id = succ, has_condition_flag = ce_is_condition entry,
          se_is_fanout_bulk = ce_is_fanout_bulk entry, se_succ_factor = as_u32 (ce_factor entry),
          filter_start = fs, filter_end = fe, se_group_by = gb, one_to_one_offset = off,
          has_one_to_one = one\<rparr>)"

definition route_at :: "pred_tables \<Rightarrow> node_id \<Rightarrow> node_id \<Rightarrow> route" where
  "route_at T s p = \<lparr>rt_filter = pred_index_filter T ! s ! p, rt_group_by = tbl_group_by T ! s ! p,
     rt_offset = pred_succ_1to1_offset T ! s ! p\<rparr>"

definition make_edge :: "cache_entry list \<Rightarrow> pred_tables \<Rightarrow> node_id \<Rightarrow> node_id \<Rightarrow> succ_edge" where
  "make_edge cache T pid succ = edge_of_route (cache ! succ) succ (route_at T succ pid)"

fun build_arena_loop ::
  "node_id list list \<Rightarrow> cache_entry list \<Rightarrow> pred_tables \<Rightarrow> node_id list \<Rightarrow> successor_arena \<Rightarrow> successor_arena" where
  "build_arena_loop succs cache T [] arena = arena"
| "build_arena_loop succs cache T (pid # pids) arena =
     (let start = as_u32 (length (arena_edges arena));
          edges = arena_edges arena @ map (make_edge cache T pid) (succs_of succs pid)
      in build_arena_loop succs cache T pids
           \<lparr>arena_edges = edges,
            arena_ranges = arena_ranges arena @ [(start, as_u32 (length edges))]\<rparr>)"

definition build_arena ::
  "node_id list list \<Rightarrow> nat \<Rightarrow> cache_entry list \<Rightarrow> pred_tables \<Rightarrow> successor_arena result" where
  "build_arena succs num_nodes cache T =
     (if list_all (\<lambda>pid. list_all (\<lambda>s. s < length cache \<and> s < length (pred_index_filter T)
           \<and> pid < length (pred_index_filter T ! s)
           \<and> s < length (tbl_group_by T) \<and> pid < length (tbl_group_by T ! s)
           \<and> s < length (pred_succ_1to1_offset T) \<and> pid < length (pred_succ_1to1_offset T ! s))
         (succs_of succs pid)) [0..<num_nodes]
      then Inr (build_arena_loop succs cache T [0..<num_nodes] \<lparr>arena_edges = [], arena_ranges = []\<rparr>)
      else Inl IndexOutOfBounds)"

section \<open>The tables hold the routes\<close>

definition tables_ok :: "nat \<Rightarrow> pred_tables \<Rightarrow> bool" where
  "tables_ok N T \<longleftrightarrow>
     length (pred_index_filter T) = N \<and> length (tbl_group_by T) = N
     \<and> length (pred_succ_1to1_offset T) = N
     \<and> (\<forall>s < N. length (pred_index_filter T ! s) = N \<and> length (tbl_group_by T ! s) = N
          \<and> length (pred_succ_1to1_offset T ! s) = N)"

lemma set2_simps:
  assumes "s < length t" "p < length (t ! s)"
  shows "set2 t s p v ! s' ! p' = (if s' = s \<and> p' = p then v else t ! s' ! p')"
    and "length (set2 t s p v) = length t" "length (set2 t s p v ! s') = length (t ! s')"
  using assms by (auto simp: set2_def nth_list_update)

lemma put_some_ok:
  assumes "s < length t" "p < length (t ! s)" "t ! s ! p = None"
  shows "\<exists>t'. put_some t s p v = Inr t' \<and> length t' = length t \<and> (\<forall>s'. length (t' ! s') = length (t ! s'))
    \<and> (\<forall>s' p'. t' ! s' ! p' = (if s' = s \<and> p' = p then v else t ! s' ! p'))"
  using assms by (cases v) (auto simp: put_some_def set2_simps)

lemma write_route_ok:
  assumes T: "tables_ok N T" and sp: "s < N" "p < N" and none: "route_at T s p = no_route"
  shows "\<exists>T'. write_route s p r T = Inr T' \<and> tables_ok N T'
    \<and> (\<forall>s' p'. route_at T' s' p' = (if s' = s \<and> p' = p then r else route_at T s' p'))"
proof -
  have b: "s < length (pred_index_filter T)" "p < length (pred_index_filter T ! s)"
    "s < length (tbl_group_by T)" "p < length (tbl_group_by T ! s)"
    "s < length (pred_succ_1to1_offset T)" "p < length (pred_succ_1to1_offset T ! s)"
    using T sp by (simp_all add: tables_ok_def)
  have n: "pred_index_filter T ! s ! p = None" "tbl_group_by T ! s ! p = None"
    "pred_succ_1to1_offset T ! s ! p = None"
    using none by (simp_all add: route_at_def no_route_def)
  obtain f where f: "put_some (pred_index_filter T) s p (rt_filter r) = Inr f"
    "length f = length (pred_index_filter T)" "\<forall>s'. length (f ! s') = length (pred_index_filter T ! s')"
    "\<forall>s' p'. f ! s' ! p' = (if s' = s \<and> p' = p then rt_filter r else pred_index_filter T ! s' ! p')"
    using put_some_ok [OF b(1,2) n(1)] by blast
  obtain h where h: "put_some (tbl_group_by T) s p (rt_group_by r) = Inr h"
    "length h = length (tbl_group_by T)" "\<forall>s'. length (h ! s') = length (tbl_group_by T ! s')"
    "\<forall>s' p'. h ! s' ! p' = (if s' = s \<and> p' = p then rt_group_by r else tbl_group_by T ! s' ! p')"
    using put_some_ok [OF b(3,4) n(2)] by blast
  obtain k where k: "put_some (pred_succ_1to1_offset T) s p (rt_offset r) = Inr k"
    "length k = length (pred_succ_1to1_offset T)" "\<forall>s'. length (k ! s') = length (pred_succ_1to1_offset T ! s')"
    "\<forall>s' p'. k ! s' ! p' = (if s' = s \<and> p' = p then rt_offset r else pred_succ_1to1_offset T ! s' ! p')"
    using put_some_ok [OF b(5,6) n(3)] by blast
  show ?thesis
    using T by (auto simp: write_route_def f h k tables_ok_def route_at_def)
qed

lemma remaining_preds_props:
  assumes "distinct acc"
  shows "distinct (remaining_preds seen as acc)
    \<and> set (remaining_preds seen as acc) = set acc \<union> {p. p \<notin> set seen \<and> list_ex (reads_pred p) as}"
  using assms
proof (induction seen as acc rule: remaining_preds.induct)
  case (2 seen a as acc)
  then show ?case by (auto simp: reads_pred_def split: option.splits if_splits)
qed simp

lemma preds_on_node_props:
  "distinct (preds_on_node n)" "set (preds_on_node n) = {p. reads n p}"
  using remaining_preds_props [of "[]" "[]" "node_args n"]
  by (simp_all add: preds_on_node_def reads_def)

lemma route_preds_ok:
  assumes "tables_ok N T" "node_ident n < N" "N = length (g_nodes g)" "distinct ps" "\<forall>p \<in> set ps. p < N"
    and "\<forall>p \<in> set ps. route_at T (node_ident n) p = no_route"
  shows "\<exists>T'. route_preds b g n ps T = Inr T' \<and> tables_ok N T'
    \<and> (\<forall>s' p'. route_at T' s' p' =
         (if s' = node_ident n \<and> p' \<in> set ps then route_for b g n p' else route_at T s' p'))"
  using assms
proof (induction ps arbitrary: T)
  case (Cons p ps)
  obtain T1 where T1: "write_route (node_ident n) p (route_for b g n p) T = Inr T1" "tables_ok N T1"
    "\<forall>s' p'. route_at T1 s' p' = (if s' = node_ident n \<and> p' = p then route_for b g n p else route_at T s' p')"
    using write_route_ok [OF Cons.prems(1,2), of p "route_for b g n p"] Cons.prems(5,6) by auto
  have "\<forall>q \<in> set ps. route_at T1 (node_ident n) q = no_route"
    using T1(3) Cons.prems(4,6) by auto
  then obtain T' where T': "route_preds b g n ps T1 = Inr T'" "tables_ok N T'"
    "\<forall>s' p'. route_at T' s' p' =
       (if s' = node_ident n \<and> p' \<in> set ps then route_for b g n p' else route_at T1 s' p')"
    using Cons.IH [OF T1(2) Cons.prems(2,3)] Cons.prems(4,5) by auto
  show ?case
    using T1 T' Cons.prems(3-5) by (intro exI [of _ T']) (auto simp: not_le)
qed simp

lemma route_nodes_ok:
  assumes "tables_ok N T" "N = length (g_nodes g)" "distinct (map node_ident ns)"
    and "\<forall>n \<in> set ns. node_ident n < N \<and> (\<forall>p. reads n p \<longrightarrow> p < N)"
    and "\<forall>n \<in> set ns. \<forall>p. p < N \<longrightarrow> route_at T (node_ident n) p = no_route"
  shows "\<exists>T'. route_nodes b g ns T = Inr T' \<and> tables_ok N T'
    \<and> (\<forall>n \<in> set ns. \<forall>p < N. route_at T' (node_ident n) p =
         (if reads n p then route_for b g n p else no_route))
    \<and> (\<forall>s p. s \<notin> node_ident ` set ns \<longrightarrow> route_at T' s p = route_at T s p)"
  using assms
proof (induction ns arbitrary: T)
  case (Cons n ns)
  have n: "node_ident n < N" "\<forall>p. reads n p \<longrightarrow> p < N" using Cons.prems(4) by simp_all
  obtain T1 where T1: "route_preds b g n (preds_on_node n) T = Inr T1" "tables_ok N T1"
    "\<forall>s' p'. route_at T1 s' p' =
       (if s' = node_ident n \<and> reads n p' then route_for b g n p' else route_at T s' p')"
    using route_preds_ok [OF Cons.prems(1) n(1) Cons.prems(2) preds_on_node_props(1), of n b]
      n(2) Cons.prems(5) preds_on_node_props(2) [of n] by auto
  have keep: "\<forall>s p. s \<noteq> node_ident n \<longrightarrow> route_at T1 s p = route_at T s p" using T1(3) by simp
  have ni: "node_ident n \<notin> node_ident ` set ns" using Cons.prems(3) by auto
  obtain T' where T': "route_nodes b g ns T1 = Inr T'" "tables_ok N T'"
    "\<forall>m \<in> set ns. \<forall>p < N. route_at T' (node_ident m) p =
       (if reads m p then route_for b g m p else no_route)"
    "\<forall>s p. s \<notin> node_ident ` set ns \<longrightarrow> route_at T' s p = route_at T1 s p"
    using Cons.IH [OF T1(2) Cons.prems(2)] Cons.prems(3-5) keep ni by (force simp: image_iff)
  show ?case
    using T1(1,3) T' Cons.prems(5) ni by (intro exI [of _ T']) auto
qed simp

lemma preds_in_range_reads:
  "preds_in_range g \<longleftrightarrow> (\<forall>n \<in> set (g_nodes g). \<forall>p. reads n p \<longrightarrow> p < length (g_nodes g))"
  by (auto simp: preds_in_range_def list_all_iff set_arg_preds reads_def)

lemma build_predecessor_tables_ok:
  assumes t: "topology g" and pr: "preds_in_range g"
  defines "N \<equiv> length (g_nodes g)"
  obtains T where "build_predecessor_tables b g = Inr T" "tables_ok N T"
    "\<And>s p. s < N \<Longrightarrow> p < N \<Longrightarrow>
       route_at T s p = (if reads (g_nodes g ! s) p then route_for b g (g_nodes g ! s) p else no_route)"
proof -
  let ?T = "\<lparr>pred_index_filter = replicate N (replicate N None), tbl_group_by = replicate N (replicate N None),
    pred_succ_1to1_offset = replicate N (replicate N None)\<rparr>"
  have ids: "map node_ident (g_nodes g) = [0..<N]" using t by (simp add: topology_def N_def)
  then have id: "node_ident (g_nodes g ! s) = s" if "s < N" for s
    using that by (metis N_def add_0 nth_map nth_upt)
  have T0: "tables_ok N ?T" by (simp add: tables_ok_def)
  have "route_at ?T s p = no_route" if "s < N" "p < N" for s p
    using that by (simp add: route_at_def no_route_def)
  moreover have "\<forall>n \<in> set (g_nodes g). node_ident n < N"
    using ids by (metis atLeastLessThan_iff image_eqI list.set_map set_upt)
  ultimately obtain T where T: "route_nodes b g (g_nodes g) ?T = Inr T" "tables_ok N T"
    "\<forall>n \<in> set (g_nodes g). \<forall>p < N. route_at T (node_ident n) p =
       (if reads n p then route_for b g n p else no_route)"
    using route_nodes_ok [OF T0, of g "g_nodes g" b] pr ids by (auto simp: N_def preds_in_range_reads)
  show thesis
  proof (rule that [OF _ T(2)])
    show "build_predecessor_tables b g = Inr T"
      using T(1) by (simp add: build_predecessor_tables_def Let_def N_def)
    show "route_at T s p = (if reads (g_nodes g ! s) p then route_for b g (g_nodes g ! s) p else no_route)"
      if "s < N" "p < N" for s p
      using T(3) [rule_format, of "g_nodes g ! s" p] id [OF that(1)] that by (simp add: N_def)
  qed
qed

section \<open>The arena holds the edges\<close>

definition edges_of :: "node_id list list \<Rightarrow> cache_entry list \<Rightarrow> pred_tables \<Rightarrow> node_id \<Rightarrow> succ_edge list" where
  "edges_of succs cache T pid = map (make_edge cache T pid) (succs_of succs pid)"

lemma build_arena_loop_ok:
  assumes "length (arena_edges a) + length (concat (map (edges_of succs cache T) pids)) < 2 ^ 32"
  shows "arena_edges (build_arena_loop succs cache T pids a)
      = arena_edges a @ concat (map (edges_of succs cache T) pids)
    \<and> length (arena_ranges (build_arena_loop succs cache T pids a)) = length (arena_ranges a) + length pids
    \<and> (\<forall>i < length (arena_ranges a).
         arena_ranges (build_arena_loop succs cache T pids a) ! i = arena_ranges a ! i)
    \<and> (\<forall>i < length pids.
         arena_ranges (build_arena_loop succs cache T pids a) ! (length (arena_ranges a) + i) =
           (as_u32 (length (arena_edges a) + length (concat (map (edges_of succs cache T) (take i pids)))),
            as_u32 (length (arena_edges a) + length (concat (map (edges_of succs cache T) (take (Suc i) pids))))))"
  using assms
proof (induction pids arbitrary: a)
  case (Cons pid pids)
  let ?a = "\<lparr>arena_edges = arena_edges a @ edges_of succs cache T pid,
     arena_ranges = arena_ranges a @ [(as_u32 (length (arena_edges a)),
       as_u32 (length (arena_edges a @ edges_of succs cache T pid)))]\<rparr>"
  have step: "build_arena_loop succs cache T (pid # pids) a = build_arena_loop succs cache T pids ?a"
    by (simp add: Let_def edges_of_def)
  note IH = Cons.IH [of ?a]
  have lt: "length (arena_edges ?a) + length (concat (map (edges_of succs cache T) pids)) < 2 ^ 32"
    using Cons.prems by simp
  note IH = IH [OF lt]
  show ?case
    unfolding step
  proof (intro conjI allI impI)
    fix i assume i: "i < length (pid # pids)"
    show "arena_ranges (build_arena_loop succs cache T pids ?a) ! (length (arena_ranges a) + i) =
           (as_u32 (length (arena_edges a) + length (concat (map (edges_of succs cache T) (take i (pid # pids))))),
            as_u32 (length (arena_edges a) + length (concat (map (edges_of succs cache T) (take (Suc i) (pid # pids))))))"
    proof (cases i)
      case 0
      then show ?thesis using IH by (auto simp: nth_append)
    next
      case (Suc j)
      then show ?thesis using IH i by (auto simp: add.assoc)
    qed
  qed (use IH in \<open>auto simp: nth_append\<close>)
qed simp

lemma edges_for_build:
  assumes "build_arena succs N cache T = Inr arena"
    and "length (concat (map (edges_of succs cache T) [0..<N])) < 2 ^ 32"
  shows "edges_for arena pid = Inr (if pid < N then edges_of succs cache T pid else [])"
proof -
  let ?E = "edges_of succs cache T"
  have a: "arena = build_arena_loop succs cache T [0..<N] \<lparr>arena_edges = [], arena_ranges = []\<rparr>"
    using assms(1) by (simp add: build_arena_def split: if_splits)
  note ok = build_arena_loop_ok [of "\<lparr>arena_edges = [], arena_ranges = []\<rparr>" succs cache T "[0..<N]",
      simplified, OF assms(2) [simplified], folded a]
  show ?thesis
  proof (cases "pid < N")
    case True
    define pre where "pre = concat (map ?E [0..<pid])"
    define post where "post = concat (map ?E [Suc pid..<N])"
    have split: "[0..<N] = [0..<pid] @ pid # [Suc pid..<N]"
      using True upt_split [of 0 pid N] upt_conv_Cons [OF True] by simp
    then have e: "arena_edges arena = pre @ ?E pid @ post"
      using ok by (simp add: pre_def post_def)
    have tk: "take pid [0..<N] = [0..<pid]" "take (Suc pid) [0..<N] = [0..<Suc pid]"
      using True by simp_all
    have r: "arena_ranges arena ! pid = (as_u32 (length pre), as_u32 (length pre + length (?E pid)))"
      "length (arena_ranges arena) = N"
      using ok True tk by (auto simp: pre_def)
    have b: "length pre + length (?E pid) + length post < 2 ^ 32"
      using assms(2) unfolding split by (simp add: pre_def post_def)
    show ?thesis
      using True b by (simp add: edges_for_def r e)
  next
    case False
    then show ?thesis using ok by (auto simp: edges_for_def)
  qed
qed

section \<open>What an edge answers\<close>

text \<open>The answers of a route, before they are packed into the 28 bytes of an edge.\<close>

definition route_passes :: "route \<Rightarrow> nat \<Rightarrow> bool" where
  "route_passes r i \<longleftrightarrow> (case rt_filter r of None \<Rightarrow> True | Some (lo, hi) \<Rightarrow> lo \<le> i \<and> i < hi)"

text \<open>A route whose numbers survive the casts: the filter end is below the sentinel, the divisor
  and the factor fit, the offset is a 32-bit number.\<close>

definition route_fits :: "cache_entry \<Rightarrow> route \<Rightarrow> bool" where
  "route_fits entry r \<longleftrightarrow>
     ce_factor entry < 2 ^ 32
     \<and> (case rt_filter r of None \<Rightarrow> True | Some (lo, hi) \<Rightarrow> lo \<le> hi \<and> hi < 2 ^ 32 - 1)
     \<and> (case rt_group_by r of None \<Rightarrow> True | Some gb \<Rightarrow> 0 < gb \<and> gb < 2 ^ 32)
     \<and> (case rt_offset r of None \<Rightarrow> True | Some k \<Rightarrow> - (2 ^ 31) \<le> k \<and> k < 2 ^ 31)"

lemma unat_NO_FILTER: "unat NO_FILTER = 2 ^ 32 - 1"
  by (simp add: NO_FILTER_def unsigned_minus_1_eq_mask mask_eq_exp_minus_1)

lemma as_u32_NO_FILTER: "hi < 2 ^ 32 - 1 \<Longrightarrow> as_u32 hi \<noteq> NO_FILTER"
  using unat_NO_FILTER unat_as_u32_small [of hi] by fastforce

lemma as_i32_id: "- (2 ^ 31) \<le> k \<Longrightarrow> k < 2 ^ 31 \<Longrightarrow> as_i32 k = k"
  by (simp add: as_i32_def int_word_sint)

lemma edge_filter_none: "rt_filter r = None \<Longrightarrow> filter_bounds (edge_of_route entry s r) = None"
  by (simp add: filter_bounds_def edge_of_route_def case_prod_beta Let_def)

lemma edge_filter_some:
  assumes "rt_filter r = Some (lo, hi)" "lo \<le> hi" "hi < 2 ^ 32 - 1"
  shows "filter_bounds (edge_of_route entry s r) = Some (lo, hi)"
proof -
  have "lo < 2 ^ 32" "hi < 2 ^ 32" using assms by linarith+
  then show ?thesis
    using as_u32_NO_FILTER [OF assms(3)] assms(1)
    by (simp add: filter_bounds_def edge_of_route_def case_prod_beta Let_def)
qed

lemma edge_filter_bounds: "route_fits entry r \<Longrightarrow> filter_bounds (edge_of_route entry s r) = rt_filter r"
  by (cases "rt_filter r") (auto simp: route_fits_def edge_filter_none edge_filter_some)

lemma passes_filter_bounds:
  "passes_filter e i \<longleftrightarrow> (case filter_bounds e of None \<Rightarrow> True | Some (lo, hi) \<Rightarrow> lo \<le> i \<and> i < hi)"
  by (simp add: passes_filter_def filter_bounds_def)

lemma edge_passes: "route_fits entry r \<Longrightarrow> passes_filter (edge_of_route entry s r) i \<longleftrightarrow> route_passes r i"
  by (simp add: passes_filter_bounds edge_filter_bounds route_passes_def)

lemma edge_pred_group:
  assumes "route_fits entry r" "route_passes r i" "i < 2 ^ 64"
  shows "pred_group (edge_of_route entry s r) i =
    map_option (\<lambda>gb. (i - (case rt_filter r of Some (lo, _) \<Rightarrow> lo | None \<Rightarrow> 0)) div gb) (rt_group_by r)"
proof (cases "rt_group_by r")
  case None
  then show ?thesis by (simp add: pred_group_def edge_of_route_def case_prod_beta Let_def)
next
  case (Some gb)
  then have gb: "0 < gb" "gb < 2 ^ 32" using assms(1) by (simp_all add: route_fits_def)
  have gbw: "unat (as_u32 gb) = gb" by (rule unat_as_u32_small [OF gb(2)])
  then have gbn: "as_u32 gb \<noteq> NO_GROUP" using gb(1) by (metis NO_GROUP_def less_irrefl unsigned_0)
  define lo where "lo = (case rt_filter r of Some (lo, _) \<Rightarrow> lo | None \<Rightarrow> 0)"
  have lo: "lo \<le> i" "lo < 2 ^ 32"
    using assms(1,2) by (auto simp: lo_def route_passes_def route_fits_def split: option.splits)
  have "filter_start (edge_of_route entry s r) = as_u32 lo"
    by (auto simp: edge_of_route_def lo_def as_u32_def case_prod_beta Let_def split: option.splits)
  moreover have "as_usize (int i - int lo) = i - lo"
    using lo assms(3) by (simp add: as_usize_nonneg nat_diff_distrib flip: of_nat_diff)
  moreover have "se_group_by (edge_of_route entry s r) = as_u32 gb"
    by (simp add: edge_of_route_def Some case_prod_beta Let_def)
  ultimately show ?thesis
    using gbw gbn lo(2) by (simp add: pred_group_def Some lo_def [symmetric])
qed

lemma edge_one_to_one:
  assumes "route_fits entry r" "0 < ce_factor entry"
  shows "one_to_one_succ_idx (edge_of_route entry s r) i =
    map_option (\<lambda>k. nat ((int i - k) mod int (ce_factor entry))) (rt_offset r)"
proof (cases "rt_offset r")
  case (Some k)
  then have k: "as_i32 k = k" using assms(1) by (intro as_i32_id) (auto simp: route_fits_def)
  have f: "unat (as_u32 (ce_factor entry)) = ce_factor entry" "int (ce_factor entry) < 2 ^ 64"
    using assms(1) by (auto simp: route_fits_def)
  have "0 \<le> (int i - k) mod int (ce_factor entry)"
    "(int i - k) mod int (ce_factor entry) < int (ce_factor entry)"
    using assms(2) by simp_all
  then have "as_usize ((int i - k) mod int (ce_factor entry)) = nat ((int i - k) mod int (ce_factor entry))"
    using f(2) by (intro as_usize_nonneg) linarith+
  then show ?thesis
    by (simp add: one_to_one_succ_idx_def edge_of_route_def Some k f(1) case_prod_beta Let_def)
qed (simp add: one_to_one_succ_idx_def edge_of_route_def case_prod_beta Let_def)

lemma edge_fields [simp]:
  "succ_id (edge_of_route entry s r) = s"
  "has_condition_flag (edge_of_route entry s r) = ce_is_condition entry"
  "se_is_fanout_bulk (edge_of_route entry s r) = ce_is_fanout_bulk entry"
  by (simp_all add: edge_of_route_def case_prod_beta Let_def)

section \<open>The properties\<close>

text \<open>C17: Compilation of the routing tables and the arena is faithful. For a built graph whose
  arguments name nodes of the graph, the table construction succeeds, the arena lists for every
  predecessor one edge per node reading it, in successor order, and each edge answers the
  questions of the dispatch loop as the route of that pair says: its filter, its group divisor
  relative to the filter start, and its one-to-one successor.\<close>

theorem arena_edges_are_the_routes:
  assumes "build_graph ns graph_new = Inr g" and "preds_in_range g"
    and "length cache = length ns"
    and "length ns * length ns < 2 ^ 32"
  shows "\<exists>T arena. build_predecessor_tables b g = Inr T
    \<and> build_arena (successors g) (length ns) cache T = Inr arena
    \<and> (\<forall>p < length ns. \<exists>es. edges_for arena p = Inr es
        \<and> map succ_id es = filter (\<lambda>s. reads (ns ! s) p) [0..<length ns]
        \<and> (\<forall>e \<in> set es. \<forall>i < 2 ^ 64. let r = route_for b g (ns ! succ_id e) p in
             route_fits (cache ! succ_id e) r \<longrightarrow>
               (passes_filter e i \<longleftrightarrow> route_passes r i)
               \<and> (route_passes r i \<longrightarrow> pred_group e i = map_option
                     (\<lambda>gb. (i - (case rt_filter r of Some (lo, _) \<Rightarrow> lo | None \<Rightarrow> 0)) div gb) (rt_group_by r))
               \<and> (0 < ce_factor (cache ! succ_id e) \<longrightarrow> one_to_one_succ_idx e i = map_option
                     (\<lambda>k. nat ((int i - k) mod int (ce_factor (cache ! succ_id e)))) (rt_offset r))))"
proof -
  let ?N = "length ns"
  have t: "topology g" and ns: "g_nodes g = ns"
    using topology_build_graph [OF topology_new assms(1)] by (simp_all add: graph_new_def)
  obtain T where T: "build_predecessor_tables b g = Inr T" "tables_ok ?N T"
    "\<And>s p. s < ?N \<Longrightarrow> p < ?N \<Longrightarrow> route_at T s p = (if reads (ns ! s) p then route_for b g (ns ! s) p else no_route)"
    using build_predecessor_tables_ok [OF t assms(2), of b] ns by metis
  have succs: "succs_of (successors g) p = filter (\<lambda>s. reads (ns ! s) p) [0..<?N]" for p
    using t by (simp add: topology_def nodes_where_def ns)
  have "build_arena (successors g) ?N cache T \<noteq> Inl IndexOutOfBounds"
    using T(2) assms(3) by (auto simp: build_arena_def list_all_iff succs tables_ok_def)
  then obtain arena where arena: "build_arena (successors g) ?N cache T = Inr arena"
    by (auto simp: build_arena_def split: if_splits)
  let ?E = "edges_of (successors g) cache T"
  have lE: "length (?E p) \<le> ?N" for p
    using length_filter_le [of "\<lambda>s. reads (ns ! s) p" "[0..<?N]"] by (simp add: edges_of_def succs)
  have "length (concat (map ?E [0..<m])) \<le> m * ?N" for m
  proof (induction m)
    case (Suc m)
    then show ?case using lE [of m] by (simp add: add_le_mono)
  qed simp
  then have small: "length (concat (map ?E [0..<?N])) < 2 ^ 32"
    using assms(4) le_less_trans by blast
  have edges: "edges_for arena p = Inr (?E p)" if "p < ?N" for p
    using edges_for_build [OF arena small, of p] that by simp
  show ?thesis
  proof (intro exI [of _ T] exI [of _ arena] conjI allI impI T(1) arena)
    fix p assume p: "p < ?N"
    have Ep: "?E p = map (\<lambda>s. edge_of_route (cache ! s) s (route_for b g (ns ! s) p))
        (filter (\<lambda>s. reads (ns ! s) p) [0..<?N])"
      unfolding edges_of_def succs by (rule map_cong) (auto simp: make_edge_def T(3) p)
    have ids: "map succ_id (?E p) = filter (\<lambda>s. reads (ns ! s) p) [0..<?N]"
      unfolding Ep by (simp add: comp_def)
    have "let r = route_for b g (ns ! succ_id e) p in route_fits (cache ! succ_id e) r \<longrightarrow>
        (passes_filter e i \<longleftrightarrow> route_passes r i)
        \<and> (route_passes r i \<longrightarrow> pred_group e i = map_option
              (\<lambda>gb. (i - (case rt_filter r of Some (lo, _) \<Rightarrow> lo | None \<Rightarrow> 0)) div gb) (rt_group_by r))
        \<and> (0 < ce_factor (cache ! succ_id e) \<longrightarrow> one_to_one_succ_idx e i = map_option
              (\<lambda>k. nat ((int i - k) mod int (ce_factor (cache ! succ_id e)))) (rt_offset r))"
      if "e \<in> set (?E p)" "i < 2 ^ 64" for e i
    proof -
      from that(1) obtain s where e: "e = edge_of_route (cache ! s) s (route_for b g (ns ! s) p)"
        by (auto simp: Ep)
      show ?thesis
        unfolding e Let_def edge_fields
        using edge_passes edge_pred_group [OF _ _ that(2)] edge_one_to_one by blast
    qed
    with ids show "\<exists>es. edges_for arena p = Inr es
        \<and> map succ_id es = filter (\<lambda>s. reads (ns ! s) p) [0..<?N]
        \<and> (\<forall>e \<in> set es. \<forall>i < 2 ^ 64. let r = route_for b g (ns ! succ_id e) p in
             route_fits (cache ! succ_id e) r \<longrightarrow>
               (passes_filter e i \<longleftrightarrow> route_passes r i)
               \<and> (route_passes r i \<longrightarrow> pred_group e i = map_option
                     (\<lambda>gb. (i - (case rt_filter r of Some (lo, _) \<Rightarrow> lo | None \<Rightarrow> 0)) div gb) (rt_group_by r))
               \<and> (0 < ce_factor (cache ! succ_id e) \<longrightarrow> one_to_one_succ_idx e i = map_option
                     (\<lambda>k. nat ((int i - k) mod int (ce_factor (cache ! succ_id e)))) (rt_offset r)))"
      using edges [OF p] by blast
  qed
qed

definition fan_in :: "node list" where
  "fan_in = [make_node 0 4 [], make_node 1 1 [res_arg 0 [1, 2]]]"

lemma fan_in_graph:
  obtains g where "build_graph fan_in graph_new = Inr g" "preds_in_range g"
proof -
  obtain g where g: "build_graph fan_in graph_new = Inr g"
    using build_graph_defined [of fan_in graph_new]
    by (auto simp: fan_in_def graph_new_def make_node_def)
  have "case build_graph fan_in graph_new of Inr g \<Rightarrow> preds_in_range g | Inl _ \<Rightarrow> False" by code_simp
  then have "preds_in_range g" using g by simp
  with g that show thesis by blast
qed

theorem arena_edges_are_the_routes_witness:
  "\<exists>g T arena es. build_graph fan_in graph_new = Inr g \<and> build_predecessor_tables True g = Inr T
     \<and> build_arena (successors g) 2 (map network_entry fan_in) T = Inr arena
     \<and> edges_for arena 0 = Inr es \<and> map succ_id es = [1]"
proof -
  obtain g where g: "build_graph fan_in graph_new = Inr g" "preds_in_range g" by (rule fan_in_graph)
  have l: "length fan_in = 2" "filter (\<lambda>s. reads (fan_in ! s) 0) [0..<2] = [1]" by code_simp+
  show ?thesis
    using arena_edges_are_the_routes [OF g, of "map network_entry fan_in" True] g(1) l by fastforce
qed

end
