(* ===== verification/Successor.thy ===== *)
theory Successor
  imports Routing Dep_Counter "HOL-Library.Multiset"
begin

text \<open>
  Task identities (\<^verbatim>\<open>buffers/node_info.rs\<close>) and the successor helpers that the batch path and
  the worker path share (\<^verbatim>\<open>runtime/successor.rs\<close>): chunked dispatch of ready instances, the
  intersection of a bulk completion with an edge's filter, and the decrement of the counter
  behind an edge.
\<close>

section \<open>NodeInfo\<close>

record node_info =
  ni_id :: node_id
  ni_gen :: u32
  ni_slot :: nat
  ni_index :: nat
  bulk_count :: nat
  ni_pred_index :: nat
  post_node :: bool

definition node_info_new :: "node_id \<Rightarrow> nat \<Rightarrow> nat \<Rightarrow> nat \<Rightarrow> node_info" where
  "node_info_new nid slot index pred_index =
     \<lparr>ni_id = nid, ni_gen = 0, ni_slot = slot, ni_index = index, bulk_count = 1,
      ni_pred_index = pred_index, post_node = False\<rparr>"

definition set_post_node :: "bool \<Rightarrow> node_info \<Rightarrow> node_info" where
  "set_post_node b ni = ni\<lparr>post_node := b\<rparr>"

definition node_info_eq :: "node_info \<Rightarrow> node_info \<Rightarrow> bool" where
  "node_info_eq a b \<longleftrightarrow>
     ni_id a = ni_id b \<and> ni_slot a = ni_slot b \<and> ni_index a = ni_index b
     \<and> ni_pred_index a = ni_pred_index b \<and> post_node a = post_node b"

text \<open>The instances a task covers.\<close>

definition instances :: "node_info \<Rightarrow> nat list" where
  "instances ni = [ni_index ni..<ni_index ni + bulk_count ni]"

section \<open>Chunked dispatch\<close>

definition chunk_infos :: "node_id \<Rightarrow> nat \<Rightarrow> nat \<Rightarrow> u32 \<Rightarrow> (nat \<times> nat) list \<Rightarrow> node_info list" where
  "chunk_infos succ slot pred_index gen cs =
     map (\<lambda>(offset, cnt). (node_info_new succ slot offset pred_index)
            \<lparr>bulk_count := cnt, ni_gen := gen\<rparr>) cs"

definition push_ready_chunked ::
  "nat list \<Rightarrow> node_id \<Rightarrow> nat \<Rightarrow> nat \<Rightarrow> nat \<Rightarrow> bool \<Rightarrow> node_info list \<Rightarrow> node_info list" where
  "push_ready_chunked ready succ slot pred_index num_workers coalesce sched =
     (if ready = [] then sched
      else
        let start = ready ! 0;
            contiguous = list_all (\<lambda>i. ready ! i = start + i) [0..<length ready]
        in if coalesce \<and> contiguous \<and> 0 < num_workers \<and> num_workers < length ready
           then sched @ chunk_infos succ slot pred_index 0 (chunks start (length ready) num_workers)
           else sched @ map (\<lambda>idx. node_info_new succ slot idx pred_index) ready)"

section \<open>Bulk completions and filters\<close>

text \<open>\<^verbatim>\<open>saturating_add\<close> on \<^verbatim>\<open>usize\<close>.\<close>

definition filter_overlap :: "nat \<Rightarrow> nat \<Rightarrow> nat \<Rightarrow> nat \<Rightarrow> (nat \<times> nat) option" where
  "filter_overlap pred_index cnt filter_lo filter_hi =
     (let lo = max pred_index filter_lo;
          hi = min (min (pred_index + max cnt 1) (2 ^ 64 - 1)) filter_hi
      in if lo < hi then Some (lo, hi) else None)"

fun decrement_cells ::
  "nat \<Rightarrow> succ_edge \<Rightarrow> u32 \<Rightarrow> nat list \<Rightarrow> multi_threaded_counter \<Rightarrow> multi_threaded_counter \<times> nat list" where
  "decrement_cells slot edge slot_gen [] c = (c, [])"
| "decrement_cells slot edge slot_gen (cell # cells) c =
     (let (c1, r1) = counter_decrease slot (succ_id edge) slot_gen (pred_group edge cell) 1
            (one_to_one_succ_idx edge cell) c;
          (c2, r2) = decrement_cells slot edge slot_gen cells c1
      in (c2, r1 @ r2))"

definition decrement_and_collect_ready ::
  "nat \<Rightarrow> nat \<Rightarrow> succ_edge \<Rightarrow> nat \<Rightarrow> u32 \<Rightarrow> multi_threaded_counter \<Rightarrow> multi_threaded_counter \<times> nat list" where
  "decrement_and_collect_ready slot pred_index edge bulk slot_gen c =
     (case filter_bounds edge of
        None \<Rightarrow>
          let specific = (if 1 < bulk then None else one_to_one_succ_idx edge pred_index)
          in counter_decrease slot (succ_id edge) slot_gen (pred_group edge pred_index) bulk specific c
      | Some (filter_lo, filter_hi) \<Rightarrow>
          (case filter_overlap pred_index bulk filter_lo filter_hi of
             None \<Rightarrow> (c, [])
           | Some (lo, hi) \<Rightarrow>
               if hi - lo = 1 then
                 counter_decrease slot (succ_id edge) slot_gen (pred_group edge lo) 1
                   (one_to_one_succ_idx edge lo) c
               else decrement_cells slot edge slot_gen [lo..<hi] c))"

section \<open>Lemmas\<close>

lemma instances_chunk_infos:
  "concat (map instances (chunk_infos succ slot pi gen cs)) = covered cs"
  by (induction cs) (auto simp: chunk_infos_def instances_def node_info_new_def)

lemma instances_single [simp]: "instances (node_info_new succ slot i pi) = [i]"
  by (simp add: instances_def node_info_new_def)

lemma contiguous_upt:
  assumes "list_all (\<lambda>i. xs ! i = s + i) [0..<length xs]"
  shows "xs = [s..<s + length xs]"
  using assms by (intro nth_equalityI) (auto simp: list_all_iff)

lemma filter_overlap_cells:
  assumes "pred_index + max cnt 1 < 2 ^ 64"
  shows "(case filter_overlap pred_index cnt flo fhi of None \<Rightarrow> [] | Some (lo, hi) \<Rightarrow> [lo..<hi])
    = filter (\<lambda>i. flo \<le> i \<and> i < fhi) [pred_index..<pred_index + max cnt 1]"
proof -
  let ?hi = "pred_index + max cnt 1"
  have e: "filter_overlap pred_index cnt flo fhi =
      (if max pred_index flo < min ?hi fhi then Some (max pred_index flo, min ?hi fhi) else None)"
    using assms by (simp add: filter_overlap_def Let_def min.absorb1)
  note f = filter_upt_between [of flo fhi pred_index ?hi]
  show ?thesis
  proof (cases "max pred_index flo < min ?hi fhi")
    case True
    show ?thesis unfolding e if_P [OF True] f by simp
  next
    case False
    then have "[max pred_index flo..<min ?hi fhi] = []" by (simp only: upt_conv_Nil not_less)
    then show ?thesis unfolding e if_not_P [OF False] f option.case by (rule sym)
  qed
qed

section \<open>Bulk decrements of an unconditional barrier\<close>

text \<open>The entry after \<open>cnt\<close> has been subtracted from every group, and the instances this
  releases.\<close>

definition sub_all :: "u32 \<Rightarrow> nat \<Rightarrow> dep_entry \<Rightarrow> dep_entry" where
  "sub_all gen cnt e = e\<lparr>remaining_deps := map (lazy_update (deps_per_group e) gen
     (\<lambda>v. saturating_sub v (as_u32 cnt))) (remaining_deps e)\<rparr>"

definition fires :: "u32 \<Rightarrow> nat \<Rightarrow> dep_entry \<Rightarrow> nat \<Rightarrow> bool" where
  "fires gen cnt e g \<longleftrightarrow> 0 < unat (remaining gen g e) \<and> unat (remaining gen g e) \<le> cnt"

definition fired :: "u32 \<Rightarrow> nat \<Rightarrow> dep_entry \<Rightarrow> nat list" where
  "fired gen cnt e =
     concat (map (\<lambda>g. if fires gen cnt e g then [group_start e g..<group_end e g] else []) [0..<e_num_groups e])"

definition plain_barrier :: "dep_entry \<Rightarrow> bool" where
  "plain_barrier e \<longleftrightarrow> wf_entry e \<and> e_has_barrier e \<and> \<not> e_is_condition e"

lemma decrease_group_plain:
  assumes "plain_barrier e" "g < e_num_groups e" "c < 2 ^ 32"
  shows "decrease_group gen c sp g e =
    (e\<lparr>remaining_deps := (remaining_deps e)[g := lazy_update (deps_per_group e) gen
        (\<lambda>v. saturating_sub v (as_u32 c)) (remaining_deps e ! g)]\<rparr>,
     if fires gen c e g then [group_start e g..<group_end e g] else [])"
proof -
  have b: "e_has_barrier e" "\<not> e_is_condition e" using assms(1) by (simp_all add: plain_barrier_def)
  have "fst (decrease_group gen c sp g e) = fst (group_dec gen g c e)"
  proof -
    have "meta (fst (group_dec gen g c e)) = meta e" by (simp add: dep_simps)
    from meta_eqD [OF this] b show ?thesis
      by (simp add: decrease_group_def group_publish_def Let_def case_prod_beta)
  qed
  moreover have "fst (group_dec gen g c e) = e\<lparr>remaining_deps := (remaining_deps e)[g :=
      lazy_update (deps_per_group e) gen (\<lambda>v. saturating_sub v (as_u32 c)) (remaining_deps e ! g)]\<rparr>"
    by (simp add: group_dec_def Let_def)
  moreover have "snd (decrease_group gen c sp g e)
      = (if fires gen c e g then [group_start e g..<group_end e g] else [])"
    using decrease_group_barrier [OF b, of gen c sp g] assms(3) by (simp add: fires_def)
  ultimately show ?thesis by (metis prod.collapse)
qed

lemma plain_barrier_cong: "meta e' = meta e \<Longrightarrow> length (remaining_deps e') = length (remaining_deps e)
    \<Longrightarrow> instances_sent e' = instances_sent e \<Longrightarrow> plain_barrier e' = plain_barrier e"
  using wf_entry_cong [of e e'] wf_entry_cong [of e' e] meta_eqD [of e' e]
  by (auto simp: plain_barrier_def)

lemma decrease_groups_plain:
  assumes "plain_barrier e" "distinct gs" "set gs \<subseteq> {..<e_num_groups e}" "c < 2 ^ 32"
  shows "decrease_groups gen c sp gs e =
    (e\<lparr>remaining_deps := map (\<lambda>g. if g \<in> set gs then lazy_update (deps_per_group e) gen
          (\<lambda>v. saturating_sub v (as_u32 c)) (remaining_deps e ! g) else remaining_deps e ! g)
          [0..<e_num_groups e]\<rparr>,
     concat (map (\<lambda>g. if fires gen c e g then [group_start e g..<group_end e g] else []) gs))"
  using assms
proof (induction gs arbitrary: e)
  case Nil
  then have "map ((!) (remaining_deps e)) [0..<e_num_groups e] = remaining_deps e"
    by (intro nth_equalityI) (auto simp: plain_barrier_def wf_entry_def)
  then show ?case by simp
next
  case (Cons g gs)
  define upd where "upd = lazy_update (deps_per_group e) gen (\<lambda>v. saturating_sub v (as_u32 c))"
  define e1 where "e1 = e\<lparr>remaining_deps := (remaining_deps e)[g := upd (remaining_deps e ! g)]\<rparr>"
  have g: "g < e_num_groups e" "g \<notin> set gs" using Cons.prems by auto
  have len: "length (remaining_deps e) = e_num_groups e"
    using Cons.prems(1) by (simp add: plain_barrier_def wf_entry_def)
  have m: "meta e1 = meta e" by (simp add: e1_def)
  note mm = meta_eqD [OF m]
  have pb: "plain_barrier e1"
    using Cons.prems(1) plain_barrier_cong [OF m] by (simp add: e1_def)
  have step: "decrease_group gen c sp g e
      = (e1, if fires gen c e g then [group_start e g..<group_end e g] else [])"
    using decrease_group_plain [OF Cons.prems(1) g(1) Cons.prems(4), of gen sp]
    by (simp add: e1_def upd_def)
  have same: "fires gen c e1 h = fires gen c e h" if "h \<in> set gs" for h
  proof -
    have "h \<noteq> g" using that g(2) by auto
    then show ?thesis by (simp add: fires_def e1_def remaining_put)
  qed
  have "decrease_groups gen c sp gs e1 =
    (e1\<lparr>remaining_deps := map (\<lambda>h. if h \<in> set gs then upd (remaining_deps e1 ! h)
          else remaining_deps e1 ! h) [0..<e_num_groups e]\<rparr>,
     concat (map (\<lambda>h. if fires gen c e1 h then [group_start e h..<group_end e h] else []) gs))"
    using Cons.IH [OF pb _ _ Cons.prems(4), unfolded mm, folded upd_def] Cons.prems(2,3)
    by simp
  also have "map (\<lambda>h. if fires gen c e1 h then [group_start e h..<group_end e h] else []) gs
      = map (\<lambda>h. if fires gen c e h then [group_start e h..<group_end e h] else []) gs"
    using same by (intro map_cong) auto
  also have "map (\<lambda>h. if h \<in> set gs then upd (remaining_deps e1 ! h) else remaining_deps e1 ! h)
        [0..<e_num_groups e]
      = map (\<lambda>h. if h \<in> set (g # gs) then upd (remaining_deps e ! h) else remaining_deps e ! h)
        [0..<e_num_groups e]"
    using g len by (intro map_cong) (auto simp: e1_def nth_list_update)
  finally show ?case
    by (simp add: step Let_def e1_def upd_def)
qed

lemma decrease_all_plain:
  assumes "plain_barrier e" "c < 2 ^ 32"
  shows "decrease_and_get_ready_into gen None c sp e = (sub_all gen c e, fired gen c e)"
proof -
  have len: "length (remaining_deps e) = e_num_groups e"
    using assms(1) by (simp add: plain_barrier_def wf_entry_def)
  have "map (\<lambda>g. lazy_update (deps_per_group e) gen (\<lambda>v. saturating_sub v (as_u32 c)) (remaining_deps e ! g))
      [0..<e_num_groups e] = map (lazy_update (deps_per_group e) gen (\<lambda>v. saturating_sub v (as_u32 c)))
      (remaining_deps e)"
    by (intro nth_equalityI) (simp_all add: len)
  moreover have "map (\<lambda>g. if g \<in> set [0..<e_num_groups e] then lazy_update (deps_per_group e) gen
          (\<lambda>v. saturating_sub v (as_u32 c)) (remaining_deps e ! g) else remaining_deps e ! g)
          [0..<e_num_groups e]
      = map (\<lambda>g. lazy_update (deps_per_group e) gen (\<lambda>v. saturating_sub v (as_u32 c)) (remaining_deps e ! g))
      [0..<e_num_groups e]"
    by (rule map_cong) simp_all
  ultimately show ?thesis
    using decrease_groups_plain [OF assms(1), of "[0..<e_num_groups e]" c gen sp] assms(2)
    by (simp add: decrease_and_get_ready_into_def sub_all_def fired_def lessThan_atLeast0)
qed

lemma plain_sub_all: "plain_barrier e \<Longrightarrow> plain_barrier (sub_all gen c e)"
  using plain_barrier_cong [of "sub_all gen c e" e] by (simp add: sub_all_def)

lemma saturating_sub_add:
  fixes v :: u32
  assumes "c + d < 2 ^ 32"
  shows "saturating_sub (saturating_sub v (as_u32 c)) (as_u32 d) = saturating_sub v (as_u32 (c + d))"
proof -
  have "unat (as_u32 c) = c" "unat (as_u32 d) = d" "unat (as_u32 (c + d)) = c + d"
    using assms by simp_all
  then show ?thesis by (simp add: word_unat_eq_iff unat_saturating_sub)
qed

lemma sub_all_add: "c + d < 2 ^ 32 \<Longrightarrow> sub_all gen d (sub_all gen c e) = sub_all gen (c + d) e"
  by (simp add: sub_all_def gw.update_as_store saturating_sub_add gw.read_store)

lemma remaining_sub_all:
  "plain_barrier e \<Longrightarrow> g < e_num_groups e \<Longrightarrow>
   remaining gen g (sub_all gen c e) = saturating_sub (remaining gen g e) (as_u32 c)"
  by (simp add: remaining_def sub_all_def plain_barrier_def wf_entry_def)

lemma fired_sub_all:
  assumes "plain_barrier e" "c < 2 ^ 32"
  shows "mset (fired gen c e) + mset (fired gen d (sub_all gen c e)) = mset (fired gen (c + d) e)"
proof -
  have m: "meta (sub_all gen c e) = meta e" by (simp add: sub_all_def)
  note mm = meta_eqD [OF m]
  let ?R = "\<lambda>g. [group_start e g..<group_end e g]"
  have "mset (concat (map (\<lambda>g. if fires gen c e g then ?R g else []) gs))
      + mset (concat (map (\<lambda>g. if fires gen d (sub_all gen c e) g then ?R g else []) gs))
      = mset (concat (map (\<lambda>g. if fires gen (c + d) e g then ?R g else []) gs))"
    if "set gs \<subseteq> {..<e_num_groups e}" for gs
    using that
  proof (induction gs)
    case (Cons g gs)
    have "unat (remaining gen g (sub_all gen c e)) = unat (remaining gen g e) - c"
      using Cons.prems assms by (simp add: remaining_sub_all unat_saturating_sub)
    then show ?case using Cons by (auto simp: fires_def ac_simps)
  qed simp
  from this [of "[0..<e_num_groups e]"] show ?thesis
    unfolding fired_def mm by (simp add: lessThan_atLeast0)
qed

text \<open>A run of \<open>n\<close> single decrements of all groups.\<close>

lemma single_decrements_plain:
  assumes "plain_barrier e" "length sps = Suc n" "Suc n < 2 ^ 32"
  shows "\<exists>r. decrease_run gen (map (\<lambda>sp. (None, 1, sp)) sps) e = (sub_all gen (Suc n) e, r)
    \<and> mset r = mset (fired gen (Suc n) e)"
  using assms
proof (induction n arbitrary: e sps)
  case 0
  then obtain sp where "sps = [sp]" by (auto simp: length_Suc_conv)
  then show ?case using 0 by (simp add: decrease_all_plain)
next
  case (Suc n)
  obtain sp sps' where s: "sps = sp # sps'" "length sps' = Suc n"
    using Suc.prems(2) by (auto simp: length_Suc_conv)
  have pb: "plain_barrier (sub_all gen 1 e)" using Suc.prems(1) by (rule plain_sub_all)
  obtain r where r: "decrease_run gen (map (\<lambda>sp. (None, 1, sp)) sps') (sub_all gen 1 e)
      = (sub_all gen (Suc n) (sub_all gen 1 e), r)" "mset r = mset (fired gen (Suc n) (sub_all gen 1 e))"
    using Suc.IH [OF pb s(2)] Suc.prems(3) by auto
  have "sub_all gen (Suc n) (sub_all gen 1 e) = sub_all gen (Suc (Suc n)) e"
    using sub_all_add [of 1 "Suc n" gen e] Suc.prems(3) by simp
  moreover have "mset (fired gen 1 e) + mset r = mset (fired gen (Suc (Suc n)) e)"
    using fired_sub_all [OF Suc.prems(1), of 1 gen "Suc n"] r(2) by simp
  ultimately show ?case
    using r(1) by (simp add: s(1) decrease_all_plain [OF Suc.prems(1)])
qed

section \<open>Completions one by one\<close>

fun complete_singly ::
  "nat \<Rightarrow> succ_edge \<Rightarrow> u32 \<Rightarrow> nat list \<Rightarrow> multi_threaded_counter \<Rightarrow> multi_threaded_counter \<times> nat list" where
  "complete_singly slot edge slot_gen [] c = (c, [])"
| "complete_singly slot edge slot_gen (i # is) c =
     (let (c1, r1) = decrement_and_collect_ready slot i edge 1 slot_gen c;
          (c2, r2) = complete_singly slot edge slot_gen is c1
      in (c2, r1 @ r2))"

lemma single_filtered:
  assumes "filter_bounds edge = Some (lo, hi)" "i < 2 ^ 64 - 1"
  shows "decrement_and_collect_ready slot i edge 1 gen c =
    (if lo \<le> i \<and> i < hi then decrement_cells slot edge gen [i] c else (c, []))"
  using assms by (auto simp: decrement_and_collect_ready_def filter_overlap_def Let_def case_prod_beta
      split: option.splits if_splits)

lemma singly_filtered:
  assumes "filter_bounds edge = Some (lo, hi)" "\<forall>i \<in> set is. i < 2 ^ 64 - 1"
  shows "complete_singly slot edge gen is c
    = decrement_cells slot edge gen (filter (\<lambda>i. lo \<le> i \<and> i < hi) is) c"
  using assms(2)
proof (induction "is" arbitrary: c)
  case (Cons i "is")
  then show ?case
    by (simp add: single_filtered [OF assms(1)] Let_def case_prod_beta del: One_nat_def)
qed simp

lemma bulk_filtered:
  assumes "filter_bounds edge = Some (lo, hi)" "0 < n" "p + n < 2 ^ 64"
  shows "decrement_and_collect_ready slot p edge n gen c = complete_singly slot edge gen [p..<p + n] c"
proof -
  have m: "max n 1 = n" using assms(2) by simp
  have cells: "(case filter_overlap p n lo hi of None \<Rightarrow> [] | Some (l, h) \<Rightarrow> [l..<h])
      = filter (\<lambda>i. lo \<le> i \<and> i < hi) [p..<p + n]"
    using filter_overlap_cells [of p n lo hi] assms(3) m by simp
  have "decrement_and_collect_ready slot p edge n gen c
      = decrement_cells slot edge gen (case filter_overlap p n lo hi of None \<Rightarrow> [] | Some (l, h) \<Rightarrow> [l..<h]) c"
  proof (cases "filter_overlap p n lo hi")
    case (Some lh)
    obtain l h where lh: "lh = (l, h)" by fastforce
    show ?thesis
    proof (cases "h - l = 1")
      case True
      then have "[l..<h] = [l]" by (simp add: upt_conv_Cons)
      then show ?thesis
        using Some True by (simp add: decrement_and_collect_ready_def assms(1) lh Let_def case_prod_beta)
    next
      case False
      then show ?thesis using Some by (simp add: decrement_and_collect_ready_def assms(1) lh)
    qed
  qed (simp add: decrement_and_collect_ready_def assms(1))
  also have "\<dots> = complete_singly slot edge gen [p..<p + n] c"
    unfolding cells by (rule singly_filtered [OF assms(1), symmetric]) (use assms(3) in auto)
  finally show ?thesis .
qed

text \<open>An unfiltered, ungrouped edge decrements every group of the successor's entry.\<close>

lemma counter_decrease_at:
  "in_map (node_dep_map c) slot nid \<Longrightarrow>
   counter_decrease slot nid gen grp cnt sp c =
     (c\<lparr>node_dep_map := put_entry (node_dep_map c) slot nid
         (fst (decrease_and_get_ready_into gen grp cnt sp (node_dep_map c ! slot ! nid)))\<rparr>,
      snd (decrease_and_get_ready_into gen grp cnt sp (node_dep_map c ! slot ! nid)))"
  by (simp add: counter_decrease_def map_decrease_def case_prod_beta Let_def)

lemma put_entry_twice: "put_entry (put_entry m slot nid e) slot nid e' = put_entry m slot nid e'"
  by (cases "slot < length m") (simp_all add: put_entry_def list_update_beyond)

lemma singly_unfiltered:
  assumes "filter_bounds edge = None" "se_group_by edge = NO_GROUP"
    and "in_map (node_dep_map c) slot (succ_id edge)"
  shows "complete_singly slot edge gen is c =
    (c\<lparr>node_dep_map := put_entry (node_dep_map c) slot (succ_id edge)
        (fst (decrease_run gen (map (\<lambda>i. (None, 1, one_to_one_succ_idx edge i)) is)
           (node_dep_map c ! slot ! succ_id edge)))\<rparr>,
     snd (decrease_run gen (map (\<lambda>i. (None, 1, one_to_one_succ_idx edge i)) is)
           (node_dep_map c ! slot ! succ_id edge)))"
  using assms(3)
proof (induction "is" arbitrary: c)
  case Nil
  then have "put_entry (node_dep_map c) slot (succ_id edge) (node_dep_map c ! slot ! succ_id edge) = node_dep_map c"
    by (simp add: put_entry_def in_map_def)
  then show ?case by simp
next
  case (Cons i "is")
  have "decrement_and_collect_ready slot i edge 1 gen c =
      counter_decrease slot (succ_id edge) gen None 1 (one_to_one_succ_idx edge i) c"
    by (simp add: decrement_and_collect_ready_def assms(1) pred_group_def assms(2))
  then show ?case
    using Cons by (simp add: counter_decrease_at Let_def case_prod_beta put_entry_twice del: One_nat_def)
qed


definition sample_barrier_counter :: multi_threaded_counter where
  "sample_barrier_counter =
     \<lparr>node_dep_map = [[entry_new 1 0 False None False, entry_new 2 4 True None False]], completed_slots = 0\<rparr>"

definition sample_edge :: succ_edge where
  "sample_edge = edge_of_route (network_entry (make_node 1 2 [])) 1 no_route"


text \<open>Chunked dispatch neither loses nor duplicates an instance. The tasks pushed for a list of
  ready instances cover exactly these instances in order; when the chunked path is taken there is
  one task per worker, none is empty, and their sizes differ by at most one.\<close>

theorem push_ready_chunked_covers:
  "concat (map instances (push_ready_chunked ready succ slot pi workers coalesce sched))
     = concat (map instances sched) @ ready
   \<and> (let new = drop (length sched) (push_ready_chunked ready succ slot pi workers coalesce sched)
      in list_all (\<lambda>ni. ni_id ni = succ \<and> ni_slot ni = slot \<and> ni_pred_index ni = pi \<and> 0 < bulk_count ni) new
         \<and> (length new = length ready \<or> length new = workers
             \<and> (\<forall>a \<in> set new. \<forall>b \<in> set new. bulk_count a \<le> bulk_count b + 1)))"
proof -
  define s where "s = ready ! 0"
  show ?thesis
  proof (cases "ready \<noteq> [] \<and> coalesce \<and> list_all (\<lambda>i. ready ! i = s + i) [0..<length ready]
      \<and> 0 < workers \<and> workers < length ready")
    case True
    then have r: "ready = [s..<s + length ready]" using contiguous_upt by blast
    let ?new = "chunk_infos succ slot pi 0 (chunks s (length ready) workers)"
    have p: "push_ready_chunked ready succ slot pi workers coalesce sched = sched @ ?new"
      using True by (simp add: push_ready_chunked_def s_def Let_def)
    have "concat (map instances ?new) = ready"
      using True covered_chunks [of workers s "length ready"] r by (simp add: instances_chunk_infos)
    moreover have "list_all (\<lambda>ni. ni_id ni = succ \<and> ni_slot ni = slot \<and> ni_pred_index ni = pi
        \<and> 0 < bulk_count ni) ?new"
      using True chunks_positive [of workers "length ready"]
      by (auto simp: list_all_iff chunk_infos_def node_info_new_def)
    moreover have "bulk_count a \<le> bulk_count b + 1" if "a \<in> set ?new" "b \<in> set ?new" for a b
      using that chunks_balanced by (fastforce simp: chunk_infos_def)
    ultimately show ?thesis unfolding p by (simp add: chunk_infos_def)
  next
    case False
    then have p: "push_ready_chunked ready succ slot pi workers coalesce sched
        = sched @ map (\<lambda>idx. node_info_new succ slot idx pi) ready"
      by (auto simp: push_ready_chunked_def s_def Let_def)
    have "concat (map instances (map (\<lambda>idx. node_info_new succ slot idx pi) ready)) = ready"
      by (induction ready) simp_all
    then show ?thesis unfolding p by (auto simp: list_all_iff node_info_new_def)
  qed
qed

theorem push_ready_chunked_covers_witness:
  "concat (map instances (push_ready_chunked [5, 6, 7] 1 0 9 2 True [])) = concat (map instances []) @ [5, 6, 7]
   \<and> (let new = drop (length ([] :: node_info list)) (push_ready_chunked [5, 6, 7] 1 0 9 2 True [])
      in list_all (\<lambda>ni. ni_id ni = 1 \<and> ni_slot ni = 0 \<and> ni_pred_index ni = 9 \<and> 0 < bulk_count ni) new
         \<and> (length new = length [5, 6, 7 :: nat] \<or> length new = 2
             \<and> (\<forall>a \<in> set new. \<forall>b \<in> set new. bulk_count a \<le> bulk_count b + 1)))"
  by (rule push_ready_chunked_covers)

end
