(* ===== verification/Delivery.thy ===== *)
theory Delivery
  imports Successor
begin

text \<open>
  The dependency count of \<^theory_text>\<open>Graph_Model\<close>, the routes of \<^theory_text>\<open>Routing\<close> and the counters of
  \<^theory_text>\<open>Node_Dep\<close> fit together: over a frame every group of a node receives exactly as many
  decrements as its counter starts with, so a barrier node is released exactly when the last
  instance it depends on completes, in whatever order the instances complete.
\<close>

section \<open>Counting side and routing side agree\<close>

text \<open>A predecessor whose arguments are declared soundly: no grouping, no index repeated within
  an argument, and indexes that are instances of the predecessor, or else a single relative
  offset between equal factors, or several differing arguments without a barrier, for which the
  code waits for the whole predecessor anyway.\<close>

definition edge_declared :: "arg list \<Rightarrow> bool" where
  "edge_declared as = list_all (\<lambda>a. case arg_predecessor a of
     Some p \<Rightarrow> pred_group_by p = None \<and> distinct (pred_indexes p) | None \<Rightarrow> True) as"

definition single_offset :: "node \<Rightarrow> nat \<Rightarrow> arg list \<Rightarrow> bool" where
  "single_offset n pred_factor as =
     (case as of
        first # rest \<Rightarrow> list_all (\<lambda>a. same_edge a first) rest
          \<and> (case arg_predecessor first of Some p \<Rightarrow> length (pred_indexes p) = 1 | None \<Rightarrow> False)
          \<and> node_factor n = pred_factor \<and> 1 < node_factor n
      | [] \<Rightarrow> False)"

definition well_declared :: "graph \<Rightarrow> node \<Rightarrow> node_id \<Rightarrow> bool" where
  "well_declared g n pid =
     (let args = args_on_pred n pid; pf = node_factor (g_nodes g ! pid) in
      edge_declared args \<and> pf < 2 ^ 63
      \<and> (pred_is_ambiguous_multi_arg n pid
         \<or> list_all (\<lambda>i. 0 \<le> i \<and> i < int pf) (union_pred_indexes n pid)
         \<or> single_offset n pf args))"

lemma set_union_pred_indexes:
  "set (union_pred_indexes n pid) =
     (\<Union>a \<in> set (args_on_pred n pid). case arg_predecessor a of Some p \<Rightarrow> set (pred_indexes p) | None \<Rightarrow> {})"
proof -
  have "set (case arg_predecessor a of Some p \<Rightarrow> if pred_id p = pid then pred_indexes p else [] | None \<Rightarrow> [])
      = (if reads_pred pid a then case arg_predecessor a of Some p \<Rightarrow> set (pred_indexes p) | None \<Rightarrow> {} else {})" for a
    by (auto simp: reads_pred_def split: option.splits)
  then show ?thesis by (simp add: union_pred_indexes_def args_on_pred_def) (auto split: if_splits)
qed

lemma index_filter_cong:
  assumes "set (pred_indexes p) = set (pred_indexes q)" "length (pred_indexes p) = length (pred_indexes q)"
    "pred_group_by p = pred_group_by q"
  shows "index_filter p pf sf = index_filter q pf sf"
proof -
  have "pred_indexes p = [] \<longleftrightarrow> pred_indexes q = []" using assms(2) by auto
  then show ?thesis unfolding index_filter_def assms by simp
qed

lemma distinct_union_pred_indexes: "distinct (union_pred_indexes n pid)"
  by (simp add: union_pred_indexes_def)

text \<open>When all arguments agree, the union is the first argument's list up to order.\<close>

lemma union_same_edges:
  assumes "args_on_pred n pid = first # rest" "list_all (\<lambda>a. same_edge a first) rest"
    "arg_predecessor first = Some p" "distinct (pred_indexes p)"
  shows "set (union_pred_indexes n pid) = set (pred_indexes p)"
    and "length (union_pred_indexes n pid) = length (pred_indexes p)"
proof -
  have "pred_indexes q = pred_indexes p" if "a \<in> set rest" "arg_predecessor a = Some q" for a q
    using assms(2,3) that by (auto simp: list_all_iff same_edge_def)
  then show s: "set (union_pred_indexes n pid) = set (pred_indexes p)"
    using assms(1,3) by (fastforce simp: set_union_pred_indexes split: option.splits)
  show "length (union_pred_indexes n pid) = length (pred_indexes p)"
    using s distinct_card [OF distinct_union_pred_indexes, of n pid] distinct_card [OF assms(4)] by simp
qed

text \<open>Number of predecessor instances a route lets through.\<close>

definition passing :: "route \<Rightarrow> nat \<Rightarrow> nat" where
  "passing r pf = length (filter (route_passes r) [0..<pf])"

lemma passing_none [simp]: "rt_filter r = None \<Longrightarrow> passing r pf = pf"
  by (simp add: passing_def route_passes_def)

lemma passing_some: "rt_filter r = Some (lo, hi) \<Longrightarrow> hi \<le> pf \<Longrightarrow> passing r pf = hi - lo"
proof -
  assume r: "rt_filter r = Some (lo, hi)" "hi \<le> pf"
  then have "route_passes r = (\<lambda>i. lo \<le> i \<and> i < hi)" by (simp add: fun_eq_iff route_passes_def)
  then show ?thesis using r(2) by (simp add: passing_def filter_upt_between min_def)
qed

lemma filter_within:
  assumes "\<forall>i \<in> set (pred_indexes p). 0 \<le> i \<and> i < int pf" "pf < 2 ^ 63" "pred_group_by p = None"
    and "index_filter p pf sf = Some (lo, hi)"
  shows "hi \<le> pf" "hi - lo = length (pred_indexes p)" "lo < hi"
proof -
  have "\<forall>i \<in> set (pred_indexes p). 0 \<le> i \<and> i < 2 ^ 63"
  proof
    fix i assume "i \<in> set (pred_indexes p)"
    with assms(1) have "0 \<le> i" "i < int pf" by auto
    moreover have "int pf < 2 ^ 63" using assms(2) by simp
    ultimately show "0 \<le> i \<and> i < 2 ^ 63" by linarith
  qed
  then have pl: "plain_indexes (pred_indexes p)" by (simp add: plain_indexes_def list_all_iff)
  have ne: "pred_indexes p \<noteq> []" using assms(4) by force
  note f = index_filter_plain [OF pl ne, of pf sf]
  have mx: "Max (set (pred_indexes p)) < int pf" "0 \<le> Max (set (pred_indexes p))"
    using assms(1) ne by auto
  have "nat (Min (set (pred_indexes p))) \<le> nat (Max (set (pred_indexes p)))"
    using plain_Min_Max(2) [OF pl ne] by (rule nat_mono)
  then show "hi - lo = length (pred_indexes p)"
    using f assms(3,4) by (auto simp: Suc_diff_le split: if_splits)
  show "lo < hi" by (rule index_filter_less [OF pl assms(4)])
  show "hi \<le> pf" using f assms(3,4) mx by (auto split: if_splits)
qed

lemma single_offset_unfiltered:
  assumes "length (pred_indexes p) = 1" "pred_group_by p = None" "1 < pf"
  shows "index_filter p pf pf = None"
proof -
  obtain k where "pred_indexes p = [k]" using assms(1) by (auto simp: length_Suc_conv)
  then show ?thesis using assms by (simp add: index_filter_def Let_def as_usize_def)
qed

lemma no_grouped_barrier:
  assumes "edge_declared args"
  shows "grouped_barrier g n args = None"
proof -
  have "List.map_filter (\<lambda>a. if \<not> is_barrier a then None else case arg_predecessor a of None \<Rightarrow> None
      | Some p \<Rightarrow> map_option (\<lambda>gb. (p, gb)) (barrier_group_by_for_dependency g n p)) args = []"
    using assms
    by (induction args) (auto simp: edge_declared_def List.map_filter_simps
        barrier_group_by_for_dependency_def split: option.splits if_splits)
  then show ?thesis by (simp add: grouped_barrier_def)
qed

definition contributing :: "graph \<Rightarrow> node \<Rightarrow> node_id \<Rightarrow> nat" where
  "contributing g n pid =
     (if pred_is_ambiguous_multi_arg n pid then node_factor (g_nodes g ! pid)
      else contributing_instances (union_pred n pid) (node_factor (g_nodes g ! pid)) (node_factor n))"

lemma route_of_declared:
  assumes "reads n pid" "well_declared g n pid"
  shows "rt_group_by (route_for b g n pid) = None
    \<and> (rt_filter (route_for b g n pid) = None \<and> contributing g n pid = node_factor (g_nodes g ! pid)
       \<or> (\<exists>lo hi. rt_filter (route_for b g n pid) = Some (lo, hi) \<and> lo < hi
            \<and> hi \<le> node_factor (g_nodes g ! pid) \<and> contributing g n pid = hi - lo))"
proof -
  let ?pf = "node_factor (g_nodes g ! pid)" and ?sf = "node_factor n" and ?args = "args_on_pred n pid"
  have decl: "edge_declared ?args" and pf: "?pf < 2 ^ 63"
    using assms(2) by (simp_all add: well_declared_def Let_def)
  have "?args \<noteq> []" using assms(1) by (auto simp: reads_def args_on_pred_def list_ex_iff filter_empty_conv)
  then obtain first rest where args: "?args = first # rest" by (cases ?args) auto
  obtain p where p: "arg_predecessor first = Some p"
    using args_on_pred_reads [of first n pid] args by auto
  have pdecl: "pred_group_by p = None" "distinct (pred_indexes p)"
    using decl args p by (simp_all add: edge_declared_def)
  have route: "route_for b g n pid =
      (if list_all (\<lambda>a. same_edge a first) rest then single_arg_route b first p ?pf ?sf
       else if list_ex is_barrier ?args then union_route n pid ?pf ?sf else no_route)"
    using no_grouped_barrier [OF decl, of g n] args p by (simp add: route_for_def Let_def)
  have amb: "pred_is_ambiguous_multi_arg n pid \<longleftrightarrow>
      \<not> list_ex is_barrier ?args \<and> \<not> list_all (\<lambda>a. same_edge a first) rest"
    by (cases rest) (auto simp: pred_is_ambiguous_multi_arg_def args list_ex_iff list_all_iff)
  show ?thesis
  proof (cases "pred_is_ambiguous_multi_arg n pid")
    case True
    then show ?thesis using amb route by (simp add: contributing_def no_route_def)
  next
    case False
    have cases: "list_all (\<lambda>i. 0 \<le> i \<and> i < int ?pf) (union_pred_indexes n pid) \<or> single_offset n ?pf ?args"
      using assms(2) False by (simp add: well_declared_def Let_def)
    let ?u = "union_pred n pid"
    have c: "contributing g n pid = contributing_instances ?u ?pf ?sf"
      using False by (simp add: contributing_def)
    have u: "pred_group_by ?u = None" "pred_indexes ?u = union_pred_indexes n pid"
      by (simp_all add: union_pred_def)
    have gb: "rt_group_by (route_for b g n pid) = None"
      using route by (simp add: single_arg_route_def union_route_def no_route_def Let_def)
    have filter_eq: "rt_filter (route_for b g n pid) = index_filter ?u ?pf ?sf"
    proof (cases "list_all (\<lambda>a. same_edge a first) rest")
      case True
      note us = union_same_edges [OF args True p pdecl(2)]
      have "index_filter p ?pf ?sf = index_filter ?u ?pf ?sf"
        by (rule index_filter_cong) (simp_all add: u us pdecl)
      then show ?thesis using True route by (simp add: single_arg_route_def Let_def)
    next
      case nall: False
      then have "list_ex is_barrier ?args" using False amb by blast
      moreover have "\<not> single_offset n ?pf ?args" using nall by (simp add: single_offset_def args)
      then have "\<not> list_ex (\<lambda>i. i < 0) (union_pred_indexes n pid)"
        using cases by (auto simp: list_all_iff list_ex_iff)
      ultimately show ?thesis using nall route by (simp add: union_route_def no_route_def)
    qed
    show ?thesis
    proof (cases "index_filter ?u ?pf ?sf")
      case None
      then show ?thesis using filter_eq c gb by (simp add: contributing_instances_def)
    next
      case (Some lohi)
      obtain lo hi where lh: "lohi = (lo, hi)" by fastforce
      have "list_all (\<lambda>i. 0 \<le> i \<and> i < int ?pf) (union_pred_indexes n pid)"
      proof (rule ccontr)
        assume "\<not> list_all (\<lambda>i. 0 \<le> i \<and> i < int ?pf) (union_pred_indexes n pid)"
        then have so: "single_offset n ?pf ?args" using cases by blast
        then have all: "list_all (\<lambda>a. same_edge a first) rest" and l: "length (pred_indexes p) = 1"
          and f: "?sf = ?pf" "1 < ?pf"
          using args p by (simp_all add: single_offset_def)
        have "length (pred_indexes ?u) = 1" using union_same_edges(2) [OF args all p pdecl(2)] l u by simp
        then show False using single_offset_unfiltered [OF _ u(1) f(2)] f(1) Some by simp
      qed
      then have rng: "\<forall>i \<in> set (pred_indexes ?u). 0 \<le> i \<and> i < int ?pf" by (simp add: u list_all_iff)
      note w = filter_within [OF rng pf u(1) Some [unfolded lh]]
      show ?thesis
        using filter_eq Some lh w c gb by (simp add: contributing_instances_def)
    qed
  qed
qed

lemma contributing_is_passing:
  assumes "reads n pid" "well_declared g n pid"
  shows "contributing g n pid = passing (route_for b g n pid) (node_factor (g_nodes g ! pid))"
  using route_of_declared [OF assms, of b] passing_some by fastforce

section \<open>The dependency count is the number of driving completions\<close>

text \<open>The predecessor instances whose completion decrements the node's counter.\<close>

definition drives :: "bool \<Rightarrow> graph \<Rightarrow> node \<Rightarrow> (node_id \<times> nat) set" where
  "drives b g n = {(p, i). reads n p \<and> i < node_factor (g_nodes g ! p) \<and> route_passes (route_for b g n p) i}"

definition all_well_declared :: "graph \<Rightarrow> node \<Rightarrow> bool" where
  "all_well_declared g n \<longleftrightarrow> list_all (well_declared g n) (preds_on_node n)"

text \<open>Every predecessor counts once per group: there is one group, or the predecessor is behind a
  barrier or ambiguous.\<close>

definition counted_per_group :: "node \<Rightarrow> bool" where
  "counted_per_group n \<longleftrightarrow> node_num_groups n = 1
     \<or> list_all (\<lambda>p. list_ex (\<lambda>a. is_barrier a \<and> reads_pred p a) (node_args n)
         \<or> pred_is_ambiguous_multi_arg n p) (preds_on_node n)"

lemma node_num_groups_pos: "0 < node_num_groups n"
  by (auto simp: node_num_groups_def div_greater_zero_iff split: option.splits)

lemma ungrouped_contribution_eq:
  assumes "counted_per_group n" "p \<in> set (preds_on_node n)"
  shows "ungrouped_contribution g n p = contributing g n p * node_num_groups n"
  using assms node_num_groups_pos [of n]
  by (auto simp: ungrouped_contribution_def contributing_def counted_per_group_def list_all_iff Let_def)

lemma declared_args:
  assumes "all_well_declared g n" "a \<in> set (node_args n)" "arg_predecessor a = Some p"
  shows "pred_group_by p = None"
proof -
  have r: "reads_pred (pred_id p) a" using assms(3) by (simp add: reads_pred_def)
  then have "pred_id p \<in> set (preds_on_node n)"
    using assms(2) by (auto simp: preds_on_node_props reads_def list_ex_iff)
  then have "edge_declared (args_on_pred n (pred_id p))"
    using assms(1) by (simp add: all_well_declared_def list_all_iff well_declared_def Let_def)
  moreover have "a \<in> set (args_on_pred n (pred_id p))" using assms(2) r by (simp add: args_on_pred_def)
  ultimately show ?thesis using assms(3) by (auto simp: edge_declared_def list_all_iff)
qed

lemma grouped_pass_none:
  assumes "\<forall>a \<in> set as. \<forall>p. arg_predecessor a = Some p \<longrightarrow> pred_group_by p = None"
  shows "grouped_pass g n as k seen cand = (k, seen)"
  using assms
  by (induction g n as k seen cand rule: grouped_pass.induct)
    (auto simp: barrier_group_by_for_dependency_def split: option.splits)

lemma foldl_sum: "foldl (\<lambda>acc x. acc + f x) k xs = k + sum_list (map f xs)" for k :: nat
  by (induction xs arbitrary: k) simp_all

lemma node_dep_count_eq:
  assumes "all_well_declared g n" "counted_per_group n"
  shows "node_dep_count g n = sum_list (map (contributing g n) (preds_on_node n)) * node_num_groups n"
proof -
  have "node_dep_count g n = sum_list (map (ungrouped_contribution g n) (preds_on_node n))"
    using grouped_pass_none [of "node_args n" g n 0 "[]" "[]"] declared_args [OF assms(1)]
    by (simp add: node_dep_count_def preds_on_node_def foldl_sum)
  also have "\<dots> = sum_list (map (\<lambda>p. contributing g n p * node_num_groups n) (preds_on_node n))"
    by (intro arg_cong [where f = sum_list] map_cong refl ungrouped_contribution_eq [OF assms(2)])
  finally show ?thesis by (simp add: sum_list_mult_const)
qed

lemma drives_finite_card:
  assumes "all_well_declared g n"
  shows "finite (drives b g n)"
    and "card (drives b g n) = sum_list (map (contributing g n) (preds_on_node n))"
proof -
  let ?S = "\<lambda>p. set (filter (route_passes (route_for b g n p)) [0..<node_factor (g_nodes g ! p)])"
  have d: "drives b g n = (SIGMA p:set (preds_on_node n). ?S p)"
    by (auto simp: drives_def preds_on_node_props)
  show "finite (drives b g n)" unfolding d by (intro finite_SigmaI) simp_all
  have "card (drives b g n) = (\<Sum>p \<in> set (preds_on_node n). card (?S p))"
    unfolding d by (intro card_SigmaI) simp_all
  also have "\<dots> = (\<Sum>p \<in> set (preds_on_node n). contributing g n p)"
  proof (rule sum.cong)
    fix p assume p: "p \<in> set (preds_on_node n)"
    have "card (?S p) = passing (route_for b g n p) (node_factor (g_nodes g ! p))"
      unfolding passing_def by (intro distinct_card distinct_filter distinct_upt)
    then show "card (?S p) = contributing g n p"
      using contributing_is_passing [of n p g b] p assms
      by (simp add: preds_on_node_props all_well_declared_def list_all_iff)
  qed simp
  also have "\<dots> = sum_list (map (contributing g n) (preds_on_node n))"
    by (rule sum_list_distinct_conv_sum_set [symmetric]) (rule preds_on_node_props)
  finally show "card (drives b g n) = sum_list (map (contributing g n) (preds_on_node n))" .
qed

text \<open>The entry the counter builds for such a node.\<close>

lemma effective_group_size_ungrouped:
  assumes "all_well_declared g n"
  shows "effective_group_size n = node_group_size n"
proof -
  have "max_group_by as acc = acc" if "\<forall>a \<in> set as. \<forall>p. arg_predecessor a = Some p \<longrightarrow> pred_group_by p = None"
    for as acc
    using that by (induction as acc rule: max_group_by.induct) (auto split: option.splits)
  then show ?thesis
    using declared_args [OF assms] by (simp add: effective_group_size_def)
qed

lemma node_entry_fields:
  assumes "all_well_declared g n" "counted_per_group n"
  defines "e \<equiv> node_entry n (node_dep_count g n)"
  shows "e_num_groups e = node_num_groups n"
    and "unat (deps_per_group e) = card (drives b g n) mod 2 ^ 32"
    and "e_group_size e = (if node_num_groups n = 1 then e_group_size e else the (node_group_size n))"
proof -
  have eg: "effective_group_size n = node_group_size n" by (rule effective_group_size_ungrouped [OF assms(1)])
  show ng: "e_num_groups e = node_num_groups n"
    by (simp add: e_def node_entry_def entry_new_def eg node_num_groups_def Let_def split: option.splits)
  have "deps_per_group e = as_u32 (node_dep_count g n div node_num_groups n)"
    using node_num_groups_pos [of n]
    by (auto simp: e_def node_entry_def entry_new_def eg node_num_groups_def Let_def checked_div_def
        split: option.splits)
  also have "node_dep_count g n div node_num_groups n = card (drives b g n)"
    using node_dep_count_eq [OF assms(1,2)] drives_finite_card(2) [OF assms(1), of b]
      node_num_groups_pos [of n] by simp
  finally show "unat (deps_per_group e) = card (drives b g n) mod 2 ^ 32" by (simp add: unat_as_u32)
  show "e_group_size e = (if node_num_groups n = 1 then e_group_size e else the (node_group_size n))"
    by (auto simp: e_def node_entry_def entry_new_def eg node_num_groups_def Let_def split: option.splits)
qed

section \<open>Groups that wait for the same number\<close>

lemma all_groups_range:
  assumes "wf_entry e"
  shows "k \<le> e_num_groups e \<Longrightarrow>
    concat (map (\<lambda>g. [group_start e g..<group_end e g]) [0..<k]) = [0..<k * e_group_size e]"
proof (induction k)
  case (Suc k)
  then have "[group_start e k..<group_end e k] = [k * e_group_size e..<k * e_group_size e + e_group_size e]"
    using group_in_range(1) [OF assms, of k] by (simp add: group_start_def)
  then show ?case
    using Suc upt_split [of 0 "k * e_group_size e" "k * e_group_size e + e_group_size e"]
    by (simp add: add.commute)
qed simp

lemma uniform_run:
  assumes "plain_barrier e" "\<forall>g < e_num_groups e. unat (remaining gen g e) = v"
  shows "snd (decrease_run gen (map (\<lambda>sp. (None, 1, sp)) sps) e) =
    (if 0 < v \<and> v \<le> length sps then [0..<e_num_groups e * e_group_size e] else [])"
  using assms
proof (induction sps arbitrary: e v)
  case (Cons sp sps)
  define e1 where "e1 = sub_all gen 1 e"
  have m: "meta e1 = meta e" by (simp add: e1_def sub_all_def)
  note mm = meta_eqD [OF m]
  have wf: "wf_entry e" using Cons.prems(1) by (simp add: plain_barrier_def)
  have pb: "plain_barrier e1" unfolding e1_def by (rule plain_sub_all [OF Cons.prems(1)])
  have one: "unat (as_u32 1) = 1" by simp
  have r: "\<forall>g < e_num_groups e1. unat (remaining gen g e1) = v - 1"
    unfolding mm
  proof (intro allI impI)
    fix g assume g: "g < e_num_groups e"
    show "unat (remaining gen g e1) = v - 1"
      unfolding e1_def remaining_sub_all [OF Cons.prems(1) g] unat_saturating_sub one
      using Cons.prems(2) g by simp
  qed
  have "fired gen 1 e = concat (map (\<lambda>g. if v = 1 then [group_start e g..<group_end e g] else []) [0..<e_num_groups e])"
    unfolding fired_def fires_def
    by (intro arg_cong [where f = concat] map_cong refl) (use Cons.prems(2) in auto)
  then have f: "fired gen 1 e = (if v = 1 then [0..<e_num_groups e * e_group_size e] else [])"
    using all_groups_range [OF wf, of "e_num_groups e"] by (auto simp: concat_eq_Nil_conv)
  have d: "decrease_and_get_ready_into gen None 1 sp e = (e1, fired gen 1 e)"
    unfolding e1_def by (rule decrease_all_plain [OF Cons.prems(1)]) simp
  have ih: "snd (decrease_run gen (map (\<lambda>sp. (None, 1, sp)) sps) e1)
    = (if 0 < v - 1 \<and> v - 1 \<le> length sps then [0..<e_num_groups e * e_group_size e] else [])"
    using Cons.IH [OF pb r] unfolding mm .
  show ?case
    using ih f by (auto simp: d Let_def case_prod_beta simp del: One_nat_def)
qed simp

section \<open>Dispatching completions\<close>

text \<open>The dispatch of one completed instance over the edges of its node, and of a sequence of
  completions over the arena: every edge's counter is decremented and the released instances are
  collected with the successor they belong to.\<close>

fun resolve_edges ::
  "nat \<Rightarrow> u32 \<Rightarrow> nat \<Rightarrow> succ_edge list \<Rightarrow> multi_threaded_counter
     \<Rightarrow> multi_threaded_counter \<times> (node_id \<times> nat) list" where
  "resolve_edges slot gen i [] c = (c, [])"
| "resolve_edges slot gen i (e # es) c =
     (let (c1, ready) = decrement_and_collect_ready slot i e 1 gen c;
          (c2, rs) = resolve_edges slot gen i es c1
      in (c2, map (\<lambda>j. (succ_id e, j)) ready @ rs))"

fun complete_all ::
  "nat \<Rightarrow> u32 \<Rightarrow> successor_arena \<Rightarrow> (node_id \<times> nat) list \<Rightarrow> multi_threaded_counter
     \<Rightarrow> (multi_threaded_counter \<times> (node_id \<times> nat) list) result" where
  "complete_all slot gen arena [] c = Inr (c, [])"
| "complete_all slot gen arena ((p, i) # cs) c =
     rbind (edges_for arena p) (\<lambda>es.
       let (c1, r1) = resolve_edges slot gen i es c
       in rbind (complete_all slot gen arena cs c1) (\<lambda>(c2, r2). Inr (c2, r1 @ r2)))"

definition released :: "node_id \<Rightarrow> (node_id \<times> nat) list \<Rightarrow> nat list" where
  "released s rs = map snd (filter (\<lambda>r. fst r = s) rs)"

lemma released_simps [simp]:
  "released s [] = []" "released s (xs @ ys) = released s xs @ released s ys"
  "released s (map (\<lambda>j. (t, j)) js) = (if t = s then js else [])"
  by (simp_all add: released_def filter_map comp_def)

lemma put_entry_frame:
  "nid \<noteq> s \<Longrightarrow> put_entry m slot nid e ! slot ! s = m ! slot ! s"
  by (cases "slot < length m") (simp_all add: put_entry_def list_update_beyond)

lemma counter_decrease_frame:
  "nid \<noteq> s \<Longrightarrow> node_dep_map (fst (counter_decrease slot nid gen grp k sp c)) ! slot ! s = node_dep_map c ! slot ! s"
  "in_map (node_dep_map (fst (counter_decrease slot nid gen grp k sp c))) slot' s' \<longleftrightarrow> in_map (node_dep_map c) slot' s'"
  by (auto simp: counter_decrease_def map_decrease_def case_prod_beta Let_def put_entry_frame)

lemma decrement_cells_frame:
  "succ_id e \<noteq> s \<Longrightarrow> node_dep_map (fst (decrement_cells slot e gen is c)) ! slot ! s = node_dep_map c ! slot ! s"
  "in_map (node_dep_map (fst (decrement_cells slot e gen is c))) slot' s' \<longleftrightarrow> in_map (node_dep_map c) slot' s'"
  by (induction "is" arbitrary: c) (simp_all add: Let_def case_prod_beta counter_decrease_frame)

lemma decrement_frame:
  "succ_id e \<noteq> s \<Longrightarrow> node_dep_map (fst (decrement_and_collect_ready slot i e k gen c)) ! slot ! s = node_dep_map c ! slot ! s"
  "in_map (node_dep_map (fst (decrement_and_collect_ready slot i e k gen c))) slot' s' \<longleftrightarrow> in_map (node_dep_map c) slot' s'"
  by (auto simp: decrement_and_collect_ready_def Let_def counter_decrease_frame decrement_cells_frame
      split: option.splits)

text \<open>One completion and the entry of one successor: decremented if the edge lets the instance
  pass, untouched otherwise.\<close>

lemma resolve_edges_frame:
  "in_map (node_dep_map (fst (resolve_edges slot gen i es c))) slot' s' \<longleftrightarrow> in_map (node_dep_map c) slot' s'"
  "s \<notin> succ_id ` set es \<Longrightarrow>
   node_dep_map (fst (resolve_edges slot gen i es c)) ! slot ! s = node_dep_map c ! slot ! s
   \<and> released s (snd (resolve_edges slot gen i es c)) = []"
  by (induction es arbitrary: c) (simp_all add: Let_def case_prod_beta decrement_frame)

lemma decrement_at:
  assumes "in_map (node_dep_map c) slot s" "succ_id e = s" "se_group_by e = NO_GROUP" "i < 2 ^ 64 - 1"
  shows "decrement_and_collect_ready slot i e 1 gen c =
    (if passes_filter e i then counter_decrease slot s gen None 1 (one_to_one_succ_idx e i) c else (c, []))"
proof (cases "filter_bounds e")
  case None
  then show ?thesis
    using assms by (simp add: decrement_and_collect_ready_def passes_filter_bounds pred_group_def)
next
  case (Some lh)
  obtain lo hi where "lh = (lo, hi)" by fastforce
  then show ?thesis
    using single_filtered [of e lo hi i slot gen c] Some assms
    by (simp add: passes_filter_bounds pred_group_def case_prod_beta Let_def)
qed

definition hits :: "node_id \<Rightarrow> succ_edge list \<Rightarrow> nat \<Rightarrow> bool" where
  "hits s es i \<longleftrightarrow> (\<exists>e \<in> set es. succ_id e = s \<and> passes_filter e i)"

lemma resolve_edges_at:
  assumes "in_map (node_dep_map c) slot s" "distinct (map succ_id es)"
    "\<forall>e \<in> set es. succ_id e = s \<longrightarrow> se_group_by e = NO_GROUP" "i < 2 ^ 64 - 1"
  shows "\<exists>sps. length sps = (if hits s es i then 1 else 0)
    \<and> node_dep_map (fst (resolve_edges slot gen i es c)) ! slot ! s
        = fst (decrease_run gen (map (\<lambda>sp. (None, 1, sp)) sps) (node_dep_map c ! slot ! s))
    \<and> released s (snd (resolve_edges slot gen i es c))
        = snd (decrease_run gen (map (\<lambda>sp. (None, 1, sp)) sps) (node_dep_map c ! slot ! s))"
  using assms
proof (induction es arbitrary: c)
  case (Cons e es)
  let ?d = "decrement_and_collect_ready slot i e 1 gen c"
  have im: "in_map (node_dep_map (fst ?d)) slot s" using Cons.prems(1) by (simp add: decrement_frame)
  show ?case
  proof (cases "succ_id e = s")
    case True
    have ns: "s \<notin> succ_id ` set es" using Cons.prems(2) True by auto
    note fr = resolve_edges_frame(2) [OF ns, of slot gen i "fst ?d"]
    have nh: "hits s (e # es) i \<longleftrightarrow> passes_filter e i"
      using True imageI [of _ "set es" succ_id] ns unfolding hits_def by (metis list.set_intros(1) set_ConsD)
    have d: "?d = (if passes_filter e i then counter_decrease slot s gen None 1 (one_to_one_succ_idx e i) c else (c, []))"
      by (rule decrement_at [OF Cons.prems(1) True _ Cons.prems(4)]) (use Cons.prems(3) True in simp)
    show ?thesis
    proof (cases "passes_filter e i")
      case True
      then show ?thesis
        using fr d nh \<open>succ_id e = s\<close> Cons.prems(1)
        by (intro exI [of _ "[one_to_one_succ_idx e i]"])
          (auto simp add: case_prod_beta Let_def counter_decrease_at simp del: One_nat_def)
    next
      case False
      then show ?thesis
        using fr d nh \<open>succ_id e = s\<close> by (intro exI [of _ "[]"]) (simp add: case_prod_beta Let_def del: One_nat_def)
    qed
  next
    case False
    have h: "hits s (e # es) i \<longleftrightarrow> hits s es i" using False by (auto simp: hits_def)
    have same: "node_dep_map (fst ?d) ! slot ! s = node_dep_map c ! slot ! s"
      by (rule decrement_frame(1) [OF False])
    show ?thesis
      using Cons.IH [OF im] Cons.prems(2-4) False unfolding same h
      by (simp add: case_prod_beta Let_def del: One_nat_def)
  qed
qed (simp add: hits_def)

lemma decrease_run_append:
  "decrease_run gen (ds @ ds') e =
     (let (e1, r1) = decrease_run gen ds e; (e2, r2) = decrease_run gen ds' e1 in (e2, r1 @ r2))"
  by (induction ds arbitrary: e) (simp_all add: Let_def case_prod_beta)

lemma complete_all_at:
  assumes "in_map (node_dep_map c) slot s"
    and "\<forall>(p, i) \<in> set cs. i < 2 ^ 64 - 1 \<and> (\<exists>es. edges_for arena p = Inr es
      \<and> distinct (map succ_id es) \<and> (\<forall>e \<in> set es. succ_id e = s \<longrightarrow> se_group_by e = NO_GROUP)
      \<and> (hits s es i \<longleftrightarrow> D (p, i)))"
  shows "\<exists>sps c' rs. complete_all slot gen arena cs c = Inr (c', rs)
    \<and> length sps = length (filter D cs)
    \<and> node_dep_map c' ! slot ! s = fst (decrease_run gen (map (\<lambda>sp. (None, 1, sp)) sps) (node_dep_map c ! slot ! s))
    \<and> released s rs = snd (decrease_run gen (map (\<lambda>sp. (None, 1, sp)) sps) (node_dep_map c ! slot ! s))"
  using assms
proof (induction cs arbitrary: c)
  case (Cons pi cs)
  obtain p i where pi: "pi = (p, i)" by fastforce
  obtain es where es: "edges_for arena p = Inr es" "distinct (map succ_id es)"
    "\<forall>e \<in> set es. succ_id e = s \<longrightarrow> se_group_by e = NO_GROUP" "hits s es i \<longleftrightarrow> D (p, i)" "i < 2 ^ 64 - 1"
    using Cons.prems(2) pi by auto
  let ?r = "resolve_edges slot gen i es c"
  obtain sps where sps: "length sps = (if hits s es i then 1 else 0)"
    "node_dep_map (fst ?r) ! slot ! s = fst (decrease_run gen (map (\<lambda>sp. (None, 1, sp)) sps) (node_dep_map c ! slot ! s))"
    "released s (snd ?r) = snd (decrease_run gen (map (\<lambda>sp. (None, 1, sp)) sps) (node_dep_map c ! slot ! s))"
    using resolve_edges_at [OF Cons.prems(1) es(2,3,5), of gen] by blast
  have im: "in_map (node_dep_map (fst ?r)) slot s"
    using Cons.prems(1) by (simp add: resolve_edges_frame)
  obtain sps' c' rs where IH: "complete_all slot gen arena cs (fst ?r) = Inr (c', rs)"
    "length sps' = length (filter D cs)"
    "node_dep_map c' ! slot ! s = fst (decrease_run gen (map (\<lambda>sp. (None, 1, sp)) sps') (node_dep_map (fst ?r) ! slot ! s))"
    "released s rs = snd (decrease_run gen (map (\<lambda>sp. (None, 1, sp)) sps') (node_dep_map (fst ?r) ! slot ! s))"
    using Cons.IH [OF im] Cons.prems(2) by auto
  have "complete_all slot gen arena (pi # cs) c = Inr (c', snd ?r @ rs)"
    by (simp add: pi es(1) case_prod_beta Let_def IH(1))
  moreover have "length (sps @ sps') = length (filter D (pi # cs))"
    using sps(1) IH(2) es(4) pi by simp
  ultimately show ?case
    using sps IH by (intro exI [of _ "sps @ sps'"] exI [of _ c'] exI [of _ "snd ?r @ rs"])
      (simp add: decrease_run_append Let_def case_prod_beta)
qed simp

section \<open>The entry of a fresh counter\<close>

lemma remaining_fresh: "g < e_num_groups (entry_new f k b gs cd) \<Longrightarrow>
  remaining gen g (entry_new f k b gs cd) = deps_per_group (entry_new f k b gs cd)"
  by (auto simp: remaining_def entry_new_def Let_def lazy_val_def split: option.splits if_splits)

lemma fresh_counter_entry:
  assumes "counter_new slots counts ns = Inr c" "slot < slots" "s < length ns"
  shows "in_map (node_dep_map c) slot s" "node_dep_map c ! slot ! s = node_entry (ns ! s) (counts ! s)"
  using assms by (auto simp: counter_new_def rbind_eq_Inr dep_map_new_def in_map_def split: if_splits)

lemma all_instances:
  assumes "all_well_declared g n" "counted_per_group n"
    and "case node_group_size n of None \<Rightarrow> True | Some gs \<Rightarrow> gs dvd node_factor n"
  shows "e_num_groups (node_entry n k) * e_group_size (node_entry n k) = node_factor n"
  using assms(3) effective_group_size_ungrouped [OF assms(1)]
  by (auto simp: node_entry_def entry_new_def Let_def split: option.splits)

section \<open>The property\<close>

text \<open>The edges of an arena built for the graph: one per reader, ungrouped, and letting through
  exactly the instances that drive the reader.\<close>

lemma arena_hits:
  assumes g: "build_graph ns graph_new = Inr g" "preds_in_range g"
    and T: "build_predecessor_tables b g = Inr T"
    and arena: "build_arena (successors g) (length ns) cache T = Inr arena"
    and sz: "length ns * length ns < 2 ^ 32" "\<forall>n \<in> set ns. node_factor n < 2 ^ 32 - 1"
    and s: "s < length ns" "all_well_declared g (ns ! s)" and pi: "p < length ns" "i < node_factor (ns ! p)"
  shows "\<exists>es. edges_for arena p = Inr es \<and> distinct (map succ_id es)
    \<and> (\<forall>e \<in> set es. succ_id e = s \<longrightarrow> se_group_by e = NO_GROUP)
    \<and> (hits s es i \<longleftrightarrow> (p, i) \<in> drives b g (ns ! s))"
proof -
  let ?N = "length ns"
  have t: "topology g" and ns: "g_nodes g = ns"
    using topology_build_graph [OF topology_new g(1)] by (simp_all add: graph_new_def)
  obtain T' where T': "build_predecessor_tables b g = Inr T'"
    "\<And>s p. s < ?N \<Longrightarrow> p < ?N \<Longrightarrow> route_at T' s p = (if reads (ns ! s) p then route_for b g (ns ! s) p else no_route)"
    using build_predecessor_tables_ok [OF t g(2), of b] unfolding ns by metis
  have R: "route_at T s' p' = (if reads (ns ! s') p' then route_for b g (ns ! s') p' else no_route)"
    if "s' < ?N" "p' < ?N" for s' p'
    using T'(2) [OF that] T'(1) T by simp
  have succs: "succs_of (successors g) q = filter (\<lambda>s. reads (ns ! s) q) [0..<?N]" for q
    using t by (simp add: topology_def nodes_where_def ns)
  let ?E = "edges_of (successors g) cache T"
  have lE: "length (?E q) \<le> ?N" for q
    using length_filter_le [of "\<lambda>s. reads (ns ! s) q" "[0..<?N]"] by (simp add: edges_of_def succs)
  have "length (concat (map ?E [0..<m])) \<le> m * ?N" for m
  proof (induction m)
    case (Suc m)
    then show ?case using lE [of m] by (simp add: add_le_mono)
  qed simp
  then have "length (concat (map ?E [0..<?N])) < 2 ^ 32" using sz(1) le_less_trans by blast
  then have es: "edges_for arena p = Inr (?E p)" using edges_for_build [OF arena] pi(1) by simp
  have Ep: "?E p = map (\<lambda>s. edge_of_route (cache ! s) s (route_for b g (ns ! s) p))
      (filter (\<lambda>s. reads (ns ! s) p) [0..<?N])"
    unfolding edges_of_def succs by (rule map_cong) (auto simp: make_edge_def R pi(1))
  have ids: "map succ_id (?E p) = filter (\<lambda>s. reads (ns ! s) p) [0..<?N]"
    unfolding Ep by (simp add: comp_def)
  let ?r = "route_for b g (ns ! s) p" and ?e = "edge_of_route (cache ! s) s (route_for b g (ns ! s) p)"
  have only: "e = ?e \<and> reads (ns ! s) p" if "e \<in> set (?E p)" "succ_id e = s" for e
    using that by (auto simp: Ep)
  have mem: "?e \<in> set (?E p)" if "reads (ns ! s) p" using that s(1) by (auto simp: Ep)
  have decl: "rt_group_by ?r = None" "passes_filter ?e i \<longleftrightarrow> route_passes ?r i"
    if rd: "reads (ns ! s) p"
  proof -
    have "p \<in> set (preds_on_node (ns ! s))" using rd by (simp add: preds_on_node_props)
    then have wd: "well_declared g (ns ! s) p" using s(2) by (simp add: all_well_declared_def list_all_iff)
    have pf: "node_factor (g_nodes g ! p) < 2 ^ 32 - 1" unfolding ns using sz(2) pi(1) nth_mem by blast
    note rt = route_of_declared [OF rd wd, of b]
    show "rt_group_by ?r = None" using rt by (rule conjunct1)
    from rt consider "rt_filter ?r = None"
      | lo hi where "rt_filter ?r = Some (lo, hi)" "lo < hi" "hi \<le> node_factor (g_nodes g ! p)" by metis
    then have "filter_bounds ?e = rt_filter ?r"
    proof cases
      case 1
      then show ?thesis using edge_filter_none [OF 1] by simp
    next
      case 2
      have "hi < 2 ^ 32 - 1" using 2(3) pf by (rule le_less_trans)
      then show ?thesis using edge_filter_some [OF 2(1) less_imp_le [OF 2(2)]] 2(1) by simp
    qed
    then show "passes_filter ?e i \<longleftrightarrow> route_passes ?r i"
      by (simp add: passes_filter_bounds route_passes_def)
  qed
  have "se_group_by e = NO_GROUP" if "e \<in> set (?E p)" "succ_id e = s" for e
    using only [OF that] decl(1) by (simp add: edge_of_route_def case_prod_beta Let_def)
  moreover have "hits s (?E p) i \<longleftrightarrow> (p, i) \<in> drives b g (ns ! s)"
  proof (cases "reads (ns ! s) p")
    case True
    have "hits s (?E p) i \<longleftrightarrow> passes_filter ?e i"
    proof
      assume "hits s (?E p) i"
      then obtain e where e: "e \<in> set (?E p)" "succ_id e = s" "passes_filter e i"
        unfolding hits_def by (elim bexE conjE)
      have "e = ?e" using only [OF e(1,2)] by (rule conjunct1)
      then show "passes_filter ?e i" by (rule subst) (rule e(3))
    next
      assume "passes_filter ?e i"
      then show "hits s (?E p) i"
        unfolding hits_def by (intro bexI [OF _ mem [OF True]] conjI edge_fields(1))
    qed
    then show ?thesis using True decl(2) [OF True] pi(2) ns by (simp add: drives_def)
  next
    case False
    have "\<not> hits s (?E p) i"
    proof
      assume "hits s (?E p) i"
      then obtain e where e: "e \<in> set (?E p)" "succ_id e = s" unfolding hits_def by (elim bexE conjE)
      show False using only [OF e] False by (elim conjE notE)
    qed
    then show ?thesis using False by (simp add: drives_def)
  qed
  moreover have "distinct (map succ_id (?E p))" unfolding ids by simp
  ultimately show ?thesis using es by blast
qed

lemma card_driving_completions:
  assumes "distinct cs" "finite D"
  shows "length (filter (\<lambda>x. x \<in> D) cs) = card (set cs \<inter> D)"
    and "card D \<le> length (filter (\<lambda>x. x \<in> D) cs) \<longleftrightarrow> D \<subseteq> set cs"
proof -
  have "set (filter (\<lambda>x. x \<in> D) cs) = set cs \<inter> D" by auto
  then show l: "length (filter (\<lambda>x. x \<in> D) cs) = card (set cs \<inter> D)"
    using distinct_card [OF distinct_filter [OF assms(1)], of "\<lambda>x. x \<in> D"] by simp
  show "card D \<le> length (filter (\<lambda>x. x \<in> D) cs) \<longleftrightarrow> D \<subseteq> set cs"
    unfolding l using card_seteq [OF assms(2), of "set cs \<inter> D"] by (auto simp: Int_absorb1)
qed


definition two_stage :: "node list" where
  "two_stage = [make_node 0 3 [], make_node 1 2 [],
     make_node 2 2 [barrier_arg 0 [0, 1] None, barrier_arg 1 [0, 1] None]]"

lemma drives_list: "drives b g n = set (concat (map (\<lambda>p. map (Pair p)
    (filter (route_passes (route_for b g n p)) [0..<node_factor (g_nodes g ! p)])) (preds_on_node n)))"
  by (auto simp: drives_def preds_on_node_props)

definition two_stage_built :: "graph \<Rightarrow> nat list \<Rightarrow> multi_threaded_counter \<Rightarrow> pred_tables \<Rightarrow> successor_arena \<Rightarrow> bool" where
  "two_stage_built g counts c T arena \<longleftrightarrow>
     preds_in_range g \<and> dependency_count_vec g = Inr counts \<and> counter_new 1 counts two_stage = Inr c
     \<and> build_predecessor_tables True g = Inr T
     \<and> build_arena (successors g) 3 (map network_entry two_stage) T = Inr arena
     \<and> all_well_declared g (two_stage ! 2)
     \<and> concat (map (\<lambda>p. map (Pair p) (filter (route_passes (route_for True g (two_stage ! 2) p))
           [0..<node_factor (g_nodes g ! p)])) (preds_on_node (two_stage ! 2)))
         = [(0, 0), (0, 1), (1, 0), (1, 1)]"

lemma two_stage_builds:
  obtains g counts c T arena where "build_graph two_stage graph_new = Inr g" "two_stage_built g counts c T arena"
proof -
  have "case build_graph two_stage graph_new of Inr g \<Rightarrow> preds_in_range g
      \<and> (case dependency_count_vec g of Inr counts \<Rightarrow>
          (case counter_new 1 counts two_stage of Inr c \<Rightarrow> True | Inl _ \<Rightarrow> False) | Inl _ \<Rightarrow> False)
    | Inl _ \<Rightarrow> False" by code_simp
  then obtain g counts c where g: "build_graph two_stage graph_new = Inr g" "preds_in_range g"
      "dependency_count_vec g = Inr counts" "counter_new 1 counts two_stage = Inr c"
    by (auto split: sum.splits)
  have "case build_graph two_stage graph_new of Inr g \<Rightarrow>
      (case build_predecessor_tables True g of Inr T \<Rightarrow>
         (case build_arena (successors g) 3 (map network_entry two_stage) T of Inr arena \<Rightarrow> True | Inl _ \<Rightarrow> False)
       | Inl _ \<Rightarrow> False) | Inl _ \<Rightarrow> False" by code_simp
  then obtain T arena where T: "build_predecessor_tables True g = Inr T"
      "build_arena (successors g) 3 (map network_entry two_stage) T = Inr arena"
    using g(1) by (auto split: sum.splits)
  have "case build_graph two_stage graph_new of Inr g \<Rightarrow>
      concat (map (\<lambda>p. map (Pair p) (filter (route_passes (route_for True g (two_stage ! 2) p))
           [0..<node_factor (g_nodes g ! p)])) (preds_on_node (two_stage ! 2)))
         = [(0, 0), (0, 1), (1, 0), (1, 1)] | Inl _ \<Rightarrow> False" by code_simp
  then have D: "concat (map (\<lambda>p. map (Pair p) (filter (route_passes (route_for True g (two_stage ! 2) p))
           [0..<node_factor (g_nodes g ! p)])) (preds_on_node (two_stage ! 2)))
         = [(0, 0), (0, 1), (1, 0), (1, 1)]" using g(1) by simp
  have ns: "g_nodes g = two_stage"
    using topology_build_graph [OF topology_new g(1)] by (simp add: graph_new_def)
  have p: "preds_on_node (two_stage ! 2) = [0, 1]"
    "list_all (\<lambda>p. edge_declared (args_on_pred (two_stage ! 2) p)
      \<and> list_all (\<lambda>i. 0 \<le> i \<and> i < int (node_factor (two_stage ! p))) (union_pred_indexes (two_stage ! 2) p)) [0, 1]"
    "map node_factor two_stage = [3, 2, 2]" "length two_stage = 3"
    by code_simp+
  have f: "node_factor (two_stage ! 0) < 2 ^ 63" "node_factor (two_stage ! 1) < 2 ^ 63"
    by (simp_all add: two_stage_def make_node_def)
  have w: "all_well_declared g (two_stage ! 2)"
    using p(2) f unfolding all_well_declared_def well_declared_def Let_def ns p(1) by (simp only: list.pred_inject) simp
  show thesis
    by (rule that [OF g(1)]) (use g T D w in \<open>simp add: two_stage_built_def\<close>)
qed


end
