(* ===== verification/Result_Map.thy ===== *)
theory Result_Map
  imports Successor
begin

text \<open>
  The lock-free result store (\<^verbatim>\<open>tomii-core/src/buffers/result_map.rs\<close>): one cell per slot and
  node instance, primitives inline as a tag and 64 bits, everything else behind a pointer. An
  atomic operation on one cell is one step; a null pointer is \<^const>\<open>None\<close>. Results detached by a
  slot reset go to the reclaimer channel when there is one; freeing them has no other effect.
  The contract of the store is the locale \<^theory_text>\<open>result_store\<close>.
\<close>

section \<open>Inline encoding\<close>

definition TAG_BOXED :: u8 where
  "TAG_BOXED = 255"

fun encode_inline :: "cm_types \<Rightarrow> (u8 \<times> u64) option" where
  "encode_inline (CmF64 v) = Some (1, v)"
| "encode_inline (CmF32 v) = Some (2, ucast v)"
| "encode_inline (CmI64 v) = Some (3, v)"
| "encode_inline (CmU64 v) = Some (4, v)"
| "encode_inline (CmI32 v) = Some (5, scast v)"
| "encode_inline (CmU32 v) = Some (6, ucast v)"
| "encode_inline (CmI16 v) = Some (7, scast v)"
| "encode_inline (CmU16 v) = Some (8, ucast v)"
| "encode_inline (CmI8 v) = Some (9, scast v)"
| "encode_inline (CmU8 v) = Some (10, ucast v)"
| "encode_inline (CmBool v) = Some (11, of_bool v)"
| "encode_inline (CmUsize v) = Some (12, v)"
| "encode_inline (CmIsize v) = Some (13, v)"
| "encode_inline (CmChar v) = Some (14, ucast v)"
| "encode_inline _ = None"

text \<open>\<^verbatim>\<open>char::from_u32\<close> rejects surrogates and numbers beyond the last scalar value.\<close>

definition is_scalar :: "u32 \<Rightarrow> bool" where
  "is_scalar v \<longleftrightarrow> v < 0xD800 \<or> (0xE000 \<le> v \<and> v < 0x110000)"

definition char_from_u32 :: "u32 \<Rightarrow> u32" where
  "char_from_u32 v = (if is_scalar v then v else 0)"

definition decode_inline :: "u8 \<Rightarrow> u64 \<Rightarrow> cm_types result" where
  "decode_inline tag val =
     (if tag = 1 then Inr (CmF64 val)
      else if tag = 2 then Inr (CmF32 (ucast val))
      else if tag = 3 then Inr (CmI64 val)
      else if tag = 4 then Inr (CmU64 val)
      else if tag = 5 then Inr (CmI32 (ucast val))
      else if tag = 6 then Inr (CmU32 (ucast val))
      else if tag = 7 then Inr (CmI16 (ucast val))
      else if tag = 8 then Inr (CmU16 (ucast val))
      else if tag = 9 then Inr (CmI8 (ucast val))
      else if tag = 10 then Inr (CmU8 (ucast val))
      else if tag = 11 then Inr (CmBool (val \<noteq> 0))
      else if tag = 12 then Inr (CmUsize val)
      else if tag = 13 then Inr (CmIsize val)
      else if tag = 14 then Inr (CmChar (char_from_u32 (ucast val)))
      else Inl ExplicitPanic)"

section \<open>The store\<close>

record result_map =
  rm_buffer :: "cm_types option list"
  inline_val :: "u64 list"
  inline_tag :: "u8 list"
  per_slot_size :: nat
  node_offsets :: "nat list"
  node_factors :: "nat list"
  nodes_len :: nat
  rm_slots :: nat
  reclaim :: "cm_types list list option"

fun prefix_offsets :: "nat \<Rightarrow> nat list \<Rightarrow> nat list \<times> nat" where
  "prefix_offsets offset [] = ([], offset)"
| "prefix_offsets offset (f # fs) =
     (let (os, per_slot) = prefix_offsets (offset + f) fs in (offset # os, per_slot))"

definition result_map_new :: "node list \<Rightarrow> nat \<Rightarrow> result_map" where
  "result_map_new nodes slots =
     (let factors = map node_factor nodes;
          (offsets, per_slot) = prefix_offsets 0 factors;
          total_size = slots * per_slot
      in \<lparr>rm_buffer = replicate total_size None, inline_val = replicate total_size 0,
          inline_tag = replicate total_size 0, per_slot_size = per_slot,
          node_offsets = offsets, node_factors = factors, nodes_len = length nodes,
          rm_slots = slots, reclaim = None\<rparr>)"

text \<open>The reclaimer channel exists if its thread could be spawned.\<close>

definition with_deferred_reclaim :: "bool \<Rightarrow> result_map \<Rightarrow> result_map" where
  "with_deferred_reclaim spawned m = (if spawned then m\<lparr>reclaim := Some []\<rparr> else m)"

text \<open>A cell is addressed by the slot, the node and the instance of a task.\<close>

type_synonym cell = "nat \<times> node_id \<times> nat"

definition cell_of :: "node_info \<Rightarrow> cell" where
  "cell_of ni = (ni_slot ni, ni_id ni, ni_index ni)"

definition flat_index :: "result_map \<Rightarrow> cell \<Rightarrow> nat" where
  "flat_index m c = (case c of (slot, nid, idx) \<Rightarrow> slot * per_slot_size m + node_offsets m ! nid + idx)"

definition cell_valid :: "result_map \<Rightarrow> cell \<Rightarrow> bool" where
  "cell_valid m c \<longleftrightarrow> (case c of (slot, nid, idx) \<Rightarrow>
     slot < rm_slots m \<and> nid < nodes_len m \<and> idx < node_factors m ! nid)"

definition rm_set :: "cell \<Rightarrow> cm_types \<Rightarrow> result_map \<Rightarrow> result_map result" where
  "rm_set c r m =
     (if \<not> cell_valid m c then Inl ExplicitPanic
      else
        let idx = flat_index m c
        in case encode_inline r of
             Some (tag, val) \<Rightarrow>
               Inr (m\<lparr>inline_val := (inline_val m)[idx := val], inline_tag := (inline_tag m)[idx := tag]\<rparr>)
           | None \<Rightarrow>
               Inr (m\<lparr>rm_buffer := (rm_buffer m)[idx := Some r], inline_tag := (inline_tag m)[idx := TAG_BOXED]\<rparr>))"

definition rm_get :: "cell \<Rightarrow> result_map \<Rightarrow> cm_types option result" where
  "rm_get c m =
     (if \<not> cell_valid m c then Inr None
      else
        let idx = flat_index m c; tag = inline_tag m ! idx
        in if tag = 0 then Inr None
           else if tag = TAG_BOXED then Inr (rm_buffer m ! idx)
           else rbind (decode_inline tag (inline_val m ! idx)) (\<lambda>v. Inr (Some v)))"

definition result_exists :: "cell \<Rightarrow> result_map \<Rightarrow> bool" where
  "result_exists c m \<longleftrightarrow> cell_valid m c \<and> inline_tag m ! flat_index m c \<noteq> 0"

text \<open>One cell of a slot reset: the tag is swapped with 0 and a boxed value is detached.\<close>

definition clear_cell :: "result_map \<Rightarrow> nat \<Rightarrow> result_map \<times> cm_types list" where
  "clear_cell m idx =
     (let old_tag = inline_tag m ! idx; m1 = m\<lparr>inline_tag := (inline_tag m)[idx := 0]\<rparr>
      in if old_tag = TAG_BOXED then
           (m1\<lparr>rm_buffer := (rm_buffer m)[idx := None]\<rparr>,
            case rm_buffer m ! idx of Some b \<Rightarrow> if reclaim m \<noteq> None then [b] else [] | None \<Rightarrow> [])
         else (m1, []))"

fun clear_cells :: "result_map \<Rightarrow> nat list \<Rightarrow> result_map \<times> cm_types list" where
  "clear_cells m [] = (m, [])"
| "clear_cells m (idx # is) =
     (let (m1, d1) = clear_cell m idx; (m2, d2) = clear_cells m1 is in (m2, d1 @ d2))"

definition reinit_slot :: "nat \<Rightarrow> result_map \<Rightarrow> result_map result" where
  "reinit_slot slot m =
     (if rm_slots m \<le> slot then Inl ExplicitPanic
      else
        let start = slot * per_slot_size m;
            (m1, detached) = clear_cells m [start..<start + per_slot_size m]
        in Inr (case reclaim m1 of
             Some batches \<Rightarrow> if detached \<noteq> [] then m1\<lparr>reclaim := Some (batches @ [detached])\<rparr> else m1
           | None \<Rightarrow> m1))"

section \<open>The inline encoding is lossless\<close>

text \<open>The values a result can hold: characters are Unicode scalar values.\<close>

fun storable :: "cm_types \<Rightarrow> bool" where
  "storable (CmChar v) = is_scalar v"
| "storable _ = True"

lemma ucast_scast:
  fixes v :: "'l::len word"
  assumes "LENGTH('l) \<le> LENGTH('k)"
  shows "ucast (scast v :: 'k::len word) = v"
proof (rule bit_word_eqI)
  fix n assume n: "n < LENGTH('l)"
  have "n = LENGTH('l) - 1" if "LENGTH('l) - 1 \<le> n" using n that by simp
  then show "bit (ucast (scast v :: 'k word) :: 'l word) n \<longleftrightarrow> bit v n"
    using n assms by (auto simp: bit_ucast_iff bit_signed_iff min_def)
qed

lemma ucast_ucast_id:
  fixes v :: "'l::len word"
  assumes "LENGTH('l) \<le> LENGTH('k)"
  shows "ucast (ucast v :: 'k::len word) = v"
  by (rule bit_word_eqI) (use assms in \<open>auto simp: bit_ucast_iff\<close>)

lemma decode_encode:
  assumes "encode_inline r = Some (tag, val)" "storable r"
  shows "decode_inline tag val = Inr r" and "tag \<noteq> 0" and "tag \<noteq> TAG_BOXED"
  using assms
  by (cases r; simp add: decode_inline_def ucast_scast ucast_ucast_id char_from_u32_def TAG_BOXED_def;
      (elim conjE; hypsubst)?; simp add: ucast_scast ucast_ucast_id)+

section \<open>Cells do not overlap\<close>

lemma prefix_offsets_props:
  "length (fst (prefix_offsets k fs)) = length fs"
  "snd (prefix_offsets k fs) = k + sum_list fs"
  "n < length fs \<Longrightarrow> fst (prefix_offsets k fs) ! n = k + sum_list (take n fs)"
proof (induction fs arbitrary: k n)
  case (Cons f fs)
  { case 1 show ?case using Cons(1) [of "k + f"] by (simp add: Let_def case_prod_beta) }
  { case 2 show ?case using Cons(2) [of "k + f"] by (simp add: Let_def case_prod_beta) }
  { case 3 then show ?case
      using Cons(3) [of "n - 1" "k + f"] by (cases n) (simp_all add: Let_def case_prod_beta) }
qed simp_all

text \<open>What construction establishes and every operation keeps.\<close>

definition cell_ok :: "u8 \<Rightarrow> u64 \<Rightarrow> cm_types option \<Rightarrow> bool" where
  "cell_ok tag val b \<longleftrightarrow> tag = 0 \<or> tag = TAG_BOXED \<and> b \<noteq> None
     \<or> tag \<noteq> 0 \<and> tag \<noteq> TAG_BOXED \<and> (\<exists>v. decode_inline tag val = Inr v)"

definition rm_ok :: "result_map \<Rightarrow> bool" where
  "rm_ok m \<longleftrightarrow>
     prefix_offsets 0 (node_factors m) = (node_offsets m, per_slot_size m)
     \<and> nodes_len m = length (node_factors m)
     \<and> length (inline_tag m) = rm_slots m * per_slot_size m
     \<and> length (inline_val m) = rm_slots m * per_slot_size m
     \<and> length (rm_buffer m) = rm_slots m * per_slot_size m
     \<and> (\<forall>i < rm_slots m * per_slot_size m. cell_ok (inline_tag m ! i) (inline_val m ! i) (rm_buffer m ! i))"

lemma rm_ok_new: "rm_ok (result_map_new nodes slots)"
  by (simp add: rm_ok_def result_map_new_def Let_def case_prod_beta cell_ok_def)

lemma offset_in_slot:
  assumes "rm_ok m" "nid < nodes_len m" "idx < node_factors m ! nid"
  shows "node_offsets m ! nid + idx < per_slot_size m"
    and "node_offsets m ! nid = sum_list (take nid (node_factors m))"
proof -
  have p: "node_offsets m = fst (prefix_offsets 0 (node_factors m))"
    "per_slot_size m = sum_list (node_factors m)" and n: "nid < length (node_factors m)"
    using assms prefix_offsets_props(2) [of 0 "node_factors m"] by (auto simp: rm_ok_def)
  show o: "node_offsets m ! nid = sum_list (take nid (node_factors m))"
    using prefix_offsets_props(3) [OF n, of 0] p(1) by simp
  have "node_factors m = take nid (node_factors m) @ node_factors m ! nid # drop (Suc nid) (node_factors m)"
    by (rule id_take_nth_drop [OF n])
  then have "sum_list (node_factors m)
      = sum_list (take nid (node_factors m)) + (node_factors m ! nid + sum_list (drop (Suc nid) (node_factors m)))"
    by (metis sum_list.Cons sum_list_append)
  then show "node_offsets m ! nid + idx < per_slot_size m" using assms(3) o p(2) by simp
qed

lemma flat_index_in_slot:
  assumes "rm_ok m" "cell_valid m (s, n, i)"
  shows "s * per_slot_size m \<le> flat_index m (s, n, i)"
    and "flat_index m (s, n, i) < s * per_slot_size m + per_slot_size m"
    and "flat_index m (s, n, i) < rm_slots m * per_slot_size m"
proof -
  show 1: "s * per_slot_size m \<le> flat_index m (s, n, i)" by (simp add: flat_index_def)
  show 2: "flat_index m (s, n, i) < s * per_slot_size m + per_slot_size m"
    using offset_in_slot(1) [OF assms(1), of n i] assms(2) by (simp add: flat_index_def cell_valid_def)
  have "Suc s * per_slot_size m \<le> rm_slots m * per_slot_size m"
    using assms(2) by (intro mult_le_mono1) (simp add: cell_valid_def)
  then show "flat_index m (s, n, i) < rm_slots m * per_slot_size m" using 2 by simp
qed

lemma sum_take_mono: "a < b \<Longrightarrow> b \<le> length fs \<Longrightarrow> sum_list (take a fs) + fs ! a \<le> sum_list (take b fs)"
  for fs :: "nat list"
proof -
  assume ab: "a < b" "b \<le> length fs"
  have "take b fs = take (Suc a) fs @ take (b - Suc a) (drop (Suc a) fs)"
    using take_add [of "Suc a" "b - Suc a" fs] ab by simp
  moreover have "take (Suc a) fs = take a fs @ [fs ! a]" using ab by (simp add: take_Suc_conv_app_nth)
  ultimately show ?thesis by simp
qed

lemma slot_unique:
  "s * P \<le> x \<Longrightarrow> x < s * P + P \<Longrightarrow> t * P \<le> x \<Longrightarrow> x < t * P + P \<Longrightarrow> s = t" for s t P x :: nat
proof -
  assume "s * P \<le> x" "x < s * P + P" "t * P \<le> x" "x < t * P + P"
  then have "x div P = s" "x div P = t" by (auto intro!: div_nat_eqI simp: mult.commute add.commute)
  then show "s = t" by simp
qed

lemma flat_index_inject:
  assumes "rm_ok m" "cell_valid m c" "cell_valid m d"
  shows "flat_index m c = flat_index m d \<longleftrightarrow> c = d"
proof
  assume e: "flat_index m c = flat_index m d"
  obtain s n i where c: "c = (s, n, i)" by (cases c)
  obtain t k j where d: "d = (t, k, j)" by (cases d)
  note v = assms(2) [unfolded c] assms(3) [unfolded d]
  note b = flat_index_in_slot [OF assms(1) v(1)] flat_index_in_slot [OF assms(1) v(2)]
  have st: "s = t"
    using slot_unique [of s "per_slot_size m" "flat_index m c" t] b e by (simp add: c d)
  have bounds: "n < nodes_len m" "i < node_factors m ! n" "k < nodes_len m" "j < node_factors m ! k"
    using v by (simp_all add: cell_valid_def)
  note on = offset_in_slot(2) [OF assms(1) bounds(1,2)] offset_in_slot(2) [OF assms(1) bounds(3,4)]
  have eq: "node_offsets m ! n + i = node_offsets m ! k + j"
    using e c d st by (simp add: flat_index_def)
  have len: "length (node_factors m) = nodes_len m" using assms(1) by (simp add: rm_ok_def)
  have "n = k"
  proof (rule ccontr)
    assume "n \<noteq> k"
    then consider "n < k" | "k < n" by linarith
    then show False
      using sum_take_mono [of n k "node_factors m"] sum_take_mono [of k n "node_factors m"]
        bounds len on eq by cases simp_all
  qed
  then show "c = d" using eq st by (simp add: c d)
qed simp

section \<open>Reads never panic\<close>

definition lookup :: "result_map \<Rightarrow> cell \<Rightarrow> cm_types option" where
  "lookup m c = (case rm_get c m of Inr r \<Rightarrow> r | Inl _ \<Rightarrow> None)"

lemma get_lookup: "rm_ok m \<Longrightarrow> rm_get c m = Inr (lookup m c)"
proof -
  assume ok: "rm_ok m"
  have "\<exists>r. rm_get c m = Inr r"
  proof (cases "cell_valid m c")
    case True
    obtain s n i where c: "c = (s, n, i)" by (cases c)
    have "cell_ok (inline_tag m ! flat_index m c) (inline_val m ! flat_index m c) (rm_buffer m ! flat_index m c)"
      using flat_index_in_slot(3) [OF ok] True ok by (simp add: c rm_ok_def)
    then show ?thesis by (auto simp: rm_get_def True Let_def cell_ok_def)
  qed (simp add: rm_get_def)
  then show "rm_get c m = Inr (lookup m c)" by (auto simp: lookup_def)
qed

lemma result_exists_lookup: "rm_ok m \<Longrightarrow> result_exists c m \<longleftrightarrow> lookup m c \<noteq> None"
proof -
  assume ok: "rm_ok m"
  show ?thesis
  proof (cases "cell_valid m c")
    case True
    obtain s n i where c: "c = (s, n, i)" by (cases c)
    have "cell_ok (inline_tag m ! flat_index m c) (inline_val m ! flat_index m c) (rm_buffer m ! flat_index m c)"
      using flat_index_in_slot(3) [OF ok] True ok by (simp add: c rm_ok_def)
    then show ?thesis
      using True by (auto simp: result_exists_def lookup_def rm_get_def Let_def cell_ok_def)
  qed (simp add: result_exists_def lookup_def rm_get_def)
qed

lemma lookup_cell:
  "lookup m c = (if cell_valid m c then
     (let tag = inline_tag m ! flat_index m c in
      if tag = 0 then None else if tag = TAG_BOXED then rm_buffer m ! flat_index m c
      else case decode_inline tag (inline_val m ! flat_index m c) of Inr v \<Rightarrow> Some v | Inl _ \<Rightarrow> None)
     else None)"
  by (auto simp: lookup_def rm_get_def Let_def rbind_def split: sum.splits)

section \<open>The contract of a result store\<close>

datatype ('c, 'v) store_op = Put 'c 'v | Clear nat

text \<open>A run of stores and slot resets, on an implementation and on a map.\<close>

fun run_store ::
  "('c \<Rightarrow> 'v \<Rightarrow> 'm \<Rightarrow> 'e + 'm) \<Rightarrow> (nat \<Rightarrow> 'm \<Rightarrow> 'e + 'm) \<Rightarrow> ('c, 'v) store_op list \<Rightarrow> 'm \<Rightarrow> 'e + 'm" where
  "run_store put clear [] m = Inr m"
| "run_store put clear (Put c v # xs) m = rbind (put c v m) (run_store put clear xs)"
| "run_store put clear (Clear s # xs) m = rbind (clear s m) (run_store put clear xs)"

fun abs_op :: "('c \<Rightarrow> nat) \<Rightarrow> ('c, 'v) store_op \<Rightarrow> ('c \<rightharpoonup> 'v) \<Rightarrow> ('c \<rightharpoonup> 'v)" where
  "abs_op slot_of (Put c v) f = f(c \<mapsto> v)"
| "abs_op slot_of (Clear s) f = (\<lambda>c. if slot_of c = s then None else f c)"

fun op_ok :: "('c \<Rightarrow> bool) \<Rightarrow> ('v \<Rightarrow> bool) \<Rightarrow> nat \<Rightarrow> ('c, 'v) store_op \<Rightarrow> bool" where
  "op_ok valid st slots (Put c v) \<longleftrightarrow> valid c \<and> st v"
| "op_ok valid st slots (Clear s) \<longleftrightarrow> s < slots"

locale result_store =
  fixes ok :: "'m \<Rightarrow> bool" and valid :: "'m \<Rightarrow> 'c \<Rightarrow> bool" and slots_of :: "'m \<Rightarrow> nat"
    and storable_value :: "'v \<Rightarrow> bool" and slot_of :: "'c \<Rightarrow> nat"
    and get :: "'m \<Rightarrow> 'c \<Rightarrow> 'v option"
    and put :: "'c \<Rightarrow> 'v \<Rightarrow> 'm \<Rightarrow> 'e + 'm" and clear :: "nat \<Rightarrow> 'm \<Rightarrow> 'e + 'm"
  assumes put_ok: "ok m \<Longrightarrow> valid m c \<Longrightarrow> storable_value v \<Longrightarrow> \<exists>m'. put c v m = Inr m' \<and> ok m'
      \<and> valid m' = valid m \<and> slots_of m' = slots_of m \<and> get m' = (get m)(c \<mapsto> v)"
    and clear_ok: "ok m \<Longrightarrow> s < slots_of m \<Longrightarrow> \<exists>m'. clear s m = Inr m' \<and> ok m'
      \<and> valid m' = valid m \<and> slots_of m' = slots_of m
      \<and> get m' = (\<lambda>c. if slot_of c = s then None else get m c)"
begin

lemma run_refines:
  "ok m \<Longrightarrow> list_all (op_ok (valid m) storable_value (slots_of m)) xs \<Longrightarrow>
   \<exists>m'. run_store put clear xs m = Inr m' \<and> ok m' \<and> valid m' = valid m \<and> slots_of m' = slots_of m
      \<and> get m' = fold (abs_op slot_of) xs (get m)"
proof (induction xs arbitrary: m)
  case (Cons x xs)
  show ?case
  proof (cases x)
    case (Put c v)
    then obtain m1 where "put c v m = Inr m1" "ok m1" "valid m1 = valid m" "slots_of m1 = slots_of m"
      "get m1 = (get m)(c \<mapsto> v)"
      using Cons.prems put_ok [of m c v] by auto
    with Cons.IH [of m1] Cons.prems Put show ?thesis by (simp del: fun_upd_apply)
  next
    case (Clear s)
    then obtain m1 where "clear s m = Inr m1" "ok m1" "valid m1 = valid m" "slots_of m1 = slots_of m"
      "get m1 = (\<lambda>c. if slot_of c = s then None else get m c)"
      using Cons.prems clear_ok [of m s] by auto
    with Cons.IH [of m1] Cons.prems Clear show ?thesis by simp
  qed
qed simp

text \<open>What a later reset of the slot, or nothing at all, leaves of a stored value.\<close>

lemma survives:
  assumes "get m c = Some v" "ok m" "list_all (op_ok (valid m) storable_value (slots_of m)) xs"
    "list_all (\<lambda>x. case x of Put d w \<Rightarrow> d \<noteq> c | Clear s \<Rightarrow> s \<noteq> slot_of c) xs"
  shows "\<exists>m'. run_store put clear xs m = Inr m' \<and> get m' c = Some v"
proof -
  have "fold (abs_op slot_of) xs f c = f c" for f
    using assms(4) by (induction xs arbitrary: f) (auto split: store_op.splits)
  then show ?thesis using run_refines [OF assms(2,3)] assms(1) by auto
qed

end

lemma cell_valid_cong:
  "rm_slots m' = rm_slots m \<Longrightarrow> nodes_len m' = nodes_len m \<Longrightarrow> node_factors m' = node_factors m
   \<Longrightarrow> cell_valid m' = cell_valid m"
  by (simp add: fun_eq_iff cell_valid_def)

lemma flat_index_cong:
  "per_slot_size m' = per_slot_size m \<Longrightarrow> node_offsets m' = node_offsets m \<Longrightarrow> flat_index m' = flat_index m"
  by (simp add: fun_eq_iff flat_index_def)

lemma lookup_other:
  assumes "rm_ok m" "cell_valid m c" "cell_valid m' = cell_valid m" "flat_index m' = flat_index m" "d \<noteq> c"
    and "\<And>j. j \<noteq> flat_index m c \<Longrightarrow> inline_tag m' ! j = inline_tag m ! j
      \<and> inline_val m' ! j = inline_val m ! j \<and> rm_buffer m' ! j = rm_buffer m ! j"
  shows "lookup m' d = lookup m d"
proof (cases "cell_valid m d")
  case True
  then have "flat_index m d \<noteq> flat_index m c" using flat_index_inject [OF assms(1) True assms(2)] assms(5) by simp
  from assms(6) [OF this] show ?thesis unfolding lookup_cell assms(3,4) by (simp add: Let_def)
next
  case False
  then show ?thesis unfolding lookup_cell assms(3,4) by simp
qed

lemma rm_ok_update:
  assumes "rm_ok m" "cell_ok tag val b"
  shows "rm_ok (m\<lparr>rm_buffer := (rm_buffer m)[i := b], inline_val := (inline_val m)[i := val],
    inline_tag := (inline_tag m)[i := tag]\<rparr>)"
proof -
  have "cell_ok ((inline_tag m)[i := tag] ! j) ((inline_val m)[i := val] ! j) ((rm_buffer m)[i := b] ! j)"
    if "j < rm_slots m * per_slot_size m" for j
    using assms that by (cases "j = i") (auto simp: rm_ok_def)
  then show ?thesis using assms(1) by (simp add: rm_ok_def)
qed

lemma rm_set_ok:
  assumes ok: "rm_ok m" and v: "cell_valid m c" and st: "storable r"
  shows "\<exists>m'. rm_set c r m = Inr m' \<and> rm_ok m' \<and> cell_valid m' = cell_valid m
    \<and> rm_slots m' = rm_slots m \<and> lookup m' = (lookup m)(c \<mapsto> r)"
proof -
  let ?i = "flat_index m c"
  obtain s n k where c: "c = (s, n, k)" by (cases c)
  have i: "?i < length (inline_tag m)" "?i < length (inline_val m)" "?i < length (rm_buffer m)"
    using flat_index_in_slot(3) [OF ok] v ok by (simp_all add: c rm_ok_def)
  define tag val b where "tag = (case encode_inline r of Some (t, _) \<Rightarrow> t | None \<Rightarrow> TAG_BOXED)"
    and "val = (case encode_inline r of Some (_, w) \<Rightarrow> w | None \<Rightarrow> inline_val m ! ?i)"
    and "b = (case encode_inline r of Some _ \<Rightarrow> rm_buffer m ! ?i | None \<Rightarrow> Some r)"
  define m' where "m' = m\<lparr>rm_buffer := (rm_buffer m)[?i := b], inline_val := (inline_val m)[?i := val],
    inline_tag := (inline_tag m)[?i := tag]\<rparr>"
  have run: "rm_set c r m = Inr m'"
    using v by (auto simp: rm_set_def m'_def tag_def val_def b_def Let_def split: option.splits)
  have cok: "cell_ok tag val b"
    using decode_encode [OF _ st]
    by (auto simp: cell_ok_def tag_def val_def b_def TAG_BOXED_def split: option.splits)
  have read: "(if tag = 0 then None else if tag = TAG_BOXED then b
      else case decode_inline tag val of Inr v \<Rightarrow> Some v | Inl _ \<Rightarrow> None) = Some r"
    using decode_encode [OF _ st]
    by (auto simp: tag_def val_def b_def TAG_BOXED_def split: option.splits)
  have cv: "cell_valid m' = cell_valid m" "flat_index m' = flat_index m"
    by (intro cell_valid_cong flat_index_cong; simp add: m'_def)+
  have "lookup m' d = ((lookup m)(c \<mapsto> r)) d" for d
  proof (cases "d = c")
    case True
    have "lookup m' c = Some r"
      unfolding lookup_cell cv Let_def using v i read by (auto simp: m'_def split: if_splits)
    then show ?thesis using True by simp
  next
    case False
    have "lookup m' d = lookup m d"
      by (rule lookup_other [OF ok v cv False]) (simp add: m'_def)
    then show ?thesis using False by simp
  qed
  moreover have "rm_ok m'" unfolding m'_def by (rule rm_ok_update [OF ok cok])
  ultimately show ?thesis using run cv(1) by (intro exI [of _ m']) (auto simp: m'_def)
qed

lemma clear_cells_effect:
  assumes "list_all (\<lambda>i. i < length (inline_tag m)) is" "length (rm_buffer m) = length (inline_tag m)"
  shows "let m' = fst (clear_cells m is) in
    (\<forall>i. inline_tag m' ! i = (if i \<in> set is then 0 else inline_tag m ! i))
    \<and> (\<forall>i. i \<notin> set is \<longrightarrow> rm_buffer m' ! i = rm_buffer m ! i)
    \<and> inline_val m' = inline_val m \<and> length (inline_tag m') = length (inline_tag m)
    \<and> length (rm_buffer m') = length (rm_buffer m)
    \<and> (per_slot_size m', node_offsets m', node_factors m', nodes_len m', rm_slots m', reclaim m')
      = (per_slot_size m, node_offsets m, node_factors m, nodes_len m, rm_slots m, reclaim m)"
  using assms
proof (induction "is" arbitrary: m)
  case (Cons i "is")
  let ?m = "fst (clear_cell m i)"
  have e: "inline_tag ?m = (inline_tag m)[i := 0]" "inline_val ?m = inline_val m"
    "rm_buffer ?m = rm_buffer m \<or> rm_buffer ?m = (rm_buffer m)[i := None]"
    "(per_slot_size ?m, node_offsets ?m, node_factors ?m, nodes_len ?m, rm_slots ?m, reclaim ?m)
      = (per_slot_size m, node_offsets m, node_factors m, nodes_len m, rm_slots m, reclaim m)"
    by (auto simp: clear_cell_def Let_def)
  have "i < length (inline_tag m)" using Cons.prems(1) by simp
  moreover have "rm_buffer ?m ! j = rm_buffer m ! j" if "j \<noteq> i" for j using e(3) that by auto
  moreover have "length (rm_buffer ?m) = length (rm_buffer m)" using e(3) by auto
  ultimately show ?case
    using Cons.IH [of ?m] Cons.prems e by (auto simp: Let_def case_prod_beta nth_list_update)
qed simp

lemma reinit_ok:
  assumes ok: "rm_ok m" and s: "s < rm_slots m"
  shows "\<exists>m'. reinit_slot s m = Inr m' \<and> rm_ok m' \<and> cell_valid m' = cell_valid m
    \<and> rm_slots m' = rm_slots m \<and> lookup m' = (\<lambda>c. if fst c = s then None else lookup m c)"
proof -
  let ?P = "per_slot_size m"
  let ?is = "[s * ?P..<s * ?P + ?P]"
  let ?r = "clear_cells m ?is"
  have "Suc s * ?P \<le> rm_slots m * ?P" using s by (intro mult_le_mono1) simp
  then have b: "list_all (\<lambda>i. i < length (inline_tag m)) ?is"
    using ok by (auto simp: list_all_iff rm_ok_def)
  note eff = clear_cells_effect [OF b, unfolded Let_def]
  obtain m' where m': "reinit_slot s m = Inr m'"
    "(rm_buffer m', inline_val m', inline_tag m', per_slot_size m', node_offsets m', node_factors m', nodes_len m', rm_slots m')
     = (let m1 = fst ?r in (rm_buffer m1, inline_val m1, inline_tag m1, per_slot_size m1, node_offsets m1,
          node_factors m1, nodes_len m1, rm_slots m1))"
    using s by (simp add: reinit_slot_def Let_def case_prod_beta split: option.splits)
  have l: "length (rm_buffer m) = length (inline_tag m)" using ok by (simp add: rm_ok_def)
  note e = eff [OF l]
  have cv: "cell_valid m' = cell_valid m" "flat_index m' = flat_index m" "rm_slots m' = rm_slots m"
    using m'(2) e by (auto simp: Let_def intro!: cell_valid_cong flat_index_cong)
  have "lookup m' c = (if fst c = s then None else lookup m c)" for c
  proof (cases "cell_valid m c")
    case True
    obtain t n k where c: "c = (t, n, k)" by (cases c)
    note f = flat_index_in_slot [OF ok True [unfolded c]]
    have "flat_index m c \<in> set ?is \<longleftrightarrow> t = s"
    proof
      assume "flat_index m c \<in> set ?is"
      then have "s * ?P \<le> flat_index m c" "flat_index m c < s * ?P + ?P" by auto
      then show "t = s" using slot_unique [of s ?P "flat_index m c" t] f by (simp add: c)
    qed (use f in \<open>simp add: c\<close>)
    then show ?thesis using True m'(2) e by (auto simp: lookup_cell cv c Let_def)
  qed (simp add: lookup_cell cv)
  moreover have "rm_ok m'"
    using ok m'(2) e by (auto simp: rm_ok_def Let_def cell_ok_def)
  ultimately show ?thesis using m'(1) cv by (intro exI [of _ m']) auto
qed

interpretation rm: result_store rm_ok cell_valid rm_slots storable fst lookup rm_set reinit_slot
  by unfold_locales (rule rm_set_ok reinit_ok; assumption)+

lemma lookup_new: "lookup (result_map_new nodes slots) = Map.empty"
proof
  fix c
  let ?m = "result_map_new nodes slots"
  show "lookup ?m c = None"
  proof (cases "cell_valid ?m c")
    case True
    obtain s n i where c: "c = (s, n, i)" by (cases c)
    have "flat_index ?m c < rm_slots ?m * per_slot_size ?m"
      using flat_index_in_slot(3) [OF rm_ok_new] True by (simp add: c)
    moreover have "inline_tag ?m = replicate (rm_slots ?m * per_slot_size ?m) 0"
      by (simp add: result_map_new_def Let_def case_prod_beta)
    ultimately have "inline_tag ?m ! flat_index ?m c = 0" by simp
    then show ?thesis by (simp add: lookup_cell)
  qed (simp add: lookup_cell)
qed

lemma cell_valid_new:
  "cell_valid (result_map_new nodes slots) =
     (\<lambda>(s, n, i). s < slots \<and> n < length nodes \<and> i < node_factor (nodes ! n))"
  by (auto simp: fun_eq_iff cell_valid_def result_map_new_def Let_def case_prod_beta)

text \<open>The reclaimer channel changes nothing a reader sees.\<close>

lemma rm_ok_deferred: "rm_ok m \<Longrightarrow> rm_ok (with_deferred_reclaim deferred m)"
  by (simp add: with_deferred_reclaim_def rm_ok_def)

lemma cell_valid_deferred: "cell_valid (with_deferred_reclaim deferred m) = cell_valid m"
  by (auto simp: with_deferred_reclaim_def cell_valid_def fun_eq_iff)

lemma lookup_deferred: "lookup (with_deferred_reclaim deferred m) = lookup m"
  by (auto simp: with_deferred_reclaim_def lookup_def rm_get_def cell_valid_def flat_index_def fun_eq_iff Let_def
      split: sum.splits)

section \<open>The property\<close>

text \<open>C23: The result store implements a map from cells to values. Whatever sequence of stores to
  existing cells and resets of existing slots is run on a new store, no operation panics, and a
  read of any cell returns the last value stored there since its slot was last reset, bit for
  bit, and nothing if there was none; an address outside the graph reads as empty.\<close>

theorem result_store_is_a_map:
  assumes "list_all (op_ok (\<lambda>(s, n, i). s < slots \<and> n < length nodes \<and> i < node_factor (nodes ! n))
      storable slots) ops"
  shows "\<exists>m. run_store rm_set reinit_slot ops (with_deferred_reclaim deferred (result_map_new nodes slots)) = Inr m
    \<and> (\<forall>c. rm_get c m = Inr (fold (abs_op fst) ops Map.empty c)
         \<and> (result_exists c m \<longleftrightarrow> fold (abs_op fst) ops Map.empty c \<noteq> None))"
proof -
  let ?m0 = "with_deferred_reclaim deferred (result_map_new nodes slots)"
  have s: "rm_slots ?m0 = slots"
    by (simp add: result_map_new_def with_deferred_reclaim_def Let_def case_prod_beta)
  obtain m where "run_store rm_set reinit_slot ops ?m0 = Inr m"
    "rm_ok m" "lookup m = fold (abs_op fst) ops Map.empty"
    using rm.run_refines [OF rm_ok_deferred [OF rm_ok_new], of deferred nodes slots ops] assms
    by (auto simp: cell_valid_deferred lookup_deferred cell_valid_new s lookup_new)
  then show ?thesis using get_lookup [of m] result_exists_lookup [of m] by auto
qed

theorem result_store_is_a_map_witness:
  "\<exists>m. run_store rm_set reinit_slot [Put (0, 1, 1) (CmI32 (- 5)), Put (1, 1, 1) (CmString ''x''), Clear 0,
         Put (0, 0, 0) (CmBool True)] (with_deferred_reclaim True (result_map_new [make_node 0 1 [], make_node 1 2 []] 2)) = Inr m
    \<and> rm_get (0, 1, 1) m = Inr None \<and> rm_get (1, 1, 1) m = Inr (Some (CmString ''x''))
    \<and> rm_get (0, 0, 0) m = Inr (Some (CmBool True))"
proof -
  let ?ops = "[Put (0, 1, 1) (CmI32 (- 5)), Put (1, 1, 1) (CmString ''x''), Clear 0, Put (0, 0, 0) (CmBool True)]
    :: (cell, cm_types) store_op list"
  have "list_all (op_ok (\<lambda>(s, n, i). s < 2 \<and> n < length [make_node 0 1 [], make_node 1 2 []]
      \<and> i < node_factor ([make_node 0 1 [], make_node 1 2 []] ! n)) storable 2) ?ops"
    by (simp add: make_node_def)
  from result_store_is_a_map [OF this, where deferred = True] show ?thesis by auto
qed

end
