(* ===== verification/Arg_Resolution.thy ===== *)
theory Arg_Resolution
  imports Result_Map "HOL-Library.Monad_Syntax"
begin

text \<open>
  Argument materialisation (\<^verbatim>\<open>runtime/arg_resolution.rs\<close>): patching the argument buffer of a
  task with buffer values, runtime indexes and the results of its predecessors, waiting for a
  result that is not there yet. The shared state a task reads changes under it, so the code runs
  against a sequence of views: one view per read of the result store, in time order. A wait that
  never ends is the value \<^const>\<open>None\<close>.
\<close>

section \<open>Views and time\<close>

record view =
  v_results :: "cell \<Rightarrow> cm_types option"
  v_shutdown :: bool
  v_generation :: "u64 list"

text \<open>A computation starts at a time and, if it returns, ends at a later one.\<close>

type_synonym 'a timed = "nat \<Rightarrow> ('a \<times> nat) result option"

definition tret :: "'a \<Rightarrow> 'a timed" where
  "tret a t = Some (Inr (a, t))"

definition tfail :: "panic \<Rightarrow> 'a timed" where
  "tfail e t = Some (Inl e)"

definition tbind :: "'a timed \<Rightarrow> ('a \<Rightarrow> 'b timed) \<Rightarrow> 'b timed" where
  "tbind m f t = (case m t of None \<Rightarrow> None | Some (Inl e) \<Rightarrow> Some (Inl e) | Some (Inr (a, t')) \<Rightarrow> f a t')"

definition tlift :: "'a result \<Rightarrow> 'a timed" where
  "tlift r t = Some (case r of Inl e \<Rightarrow> Inl e | Inr a \<Rightarrow> Inr (a, t))"

lemma timed_simps [simp]:
  "tbind (tret a) f = f a" "tbind (tfail e) f = tfail e"
  "tbind (tlift (Inr a)) f = f a" "tbind (tlift (Inl e)) f = tfail e"
  by (simp_all add: fun_eq_iff tbind_def tret_def tfail_def tlift_def)

lemma tbind_Some:
  "tbind m f t = Some (Inr r) \<longleftrightarrow> (\<exists>a t'. m t = Some (Inr (a, t')) \<and> f a t' = Some (Inr r))"
  by (auto simp: tbind_def split: option.splits sum.splits)

text \<open>The configuration the component reads.\<close>

record arg_config =
  cfg_workers :: nat
  cfg_single_slot_mode :: bool

section \<open>Waiting for a result\<close>

definition NO_EXEC :: nat where
  "NO_EXEC = 2 ^ 64 - 1"

text \<open>The result, if any, and whether the task was found to be stale. A wait outside a task
  (\<^verbatim>\<open>exec_slot == usize::MAX\<close>) does not look at generations.\<close>

definition poll :: "bool \<Rightarrow> cell \<Rightarrow> nat \<Rightarrow> u32 \<Rightarrow> view \<Rightarrow> (cm_types option \<times> bool) result option" where
  "poll single_slot c exec_slot exec_gen v =
     (case v_results v c of
        Some r \<Rightarrow> Some (Inr (Some r, False))
      | None \<Rightarrow>
          if v_shutdown v then Some (Inr (None, True))
          else if exec_slot \<noteq> NO_EXEC then
            if length (v_generation v) \<le> exec_slot then Some (Inl IndexOutOfBounds)
            else if exec_gen \<noteq> ucast (v_generation v ! exec_slot)
            then Some (Inr (None, \<not> single_slot))
            else None
          else None)"

partial_function (option) spin_wait ::
  "bool \<Rightarrow> cell \<Rightarrow> nat \<Rightarrow> u32 \<Rightarrow> (nat \<Rightarrow> view) \<Rightarrow> (cm_types option \<times> bool) timed" where
  "spin_wait single_slot c exec_slot exec_gen view t =
     (case poll single_slot c exec_slot exec_gen (view t) of
        Some (Inr r) \<Rightarrow> Some (Inr (r, Suc t))
      | Some (Inl e) \<Rightarrow> Some (Inl e)
      | None \<Rightarrow> spin_wait single_slot c exec_slot exec_gen view (Suc t))"

text \<open>A read of the store, and a wait if it is empty.\<close>

definition get_or_wait ::
  "bool \<Rightarrow> cell \<Rightarrow> nat \<Rightarrow> u32 \<Rightarrow> (nat \<Rightarrow> view) \<Rightarrow> (cm_types option \<times> bool) timed" where
  "get_or_wait single_slot c exec_slot exec_gen view t =
     (case v_results (view t) c of
        Some r \<Rightarrow> Some (Inr ((Some r, False), Suc t))
      | None \<Rightarrow> spin_wait single_slot c exec_slot exec_gen view (Suc t))"

section \<open>Which instance is read\<close>

definition single_index_dep_idx ::
  "nat \<Rightarrow> int \<Rightarrow> nat \<Rightarrow> nat option \<Rightarrow> nat option \<Rightarrow> nat result" where
  "single_index_dep_idx node_index declared pred_factor n_group_size pred_eff_group_size =
     (case n_group_size of
        Some ngs \<Rightarrow>
          (case pred_eff_group_size of
             Some eff_gs \<Rightarrow>
               if ngs = 0 then Inl DivideByZero
               else
                 let symbol = node_index div ngs
                 in Inr ((symbol * eff_gs + as_usize declared) mod 2 ^ 64)
           | None \<Rightarrow>
               if pred_factor = 0 then Inl DivideByZero
               else Inr (as_usize (declared mod int pred_factor)))
      | None \<Rightarrow> find_pred_index node_index declared pred_factor)"

definition per_instance_dep_idx ::
  "int list \<Rightarrow> nat \<Rightarrow> nat \<Rightarrow> nat \<Rightarrow> nat \<Rightarrow> bool \<Rightarrow> nat result" where
  "per_instance_dep_idx indexes node_index pred_index pred_factor n_factor has_barrier =
     (if pred_factor = n_factor \<and> \<not> has_barrier then
        if pred_factor = 0 then Inl DivideByZero else Inr (pred_index mod pred_factor)
      else if length indexes \<le> node_index then Inl IndexOutOfBounds
      else if pred_factor = 0 then Inl DivideByZero
      else Inr (as_usize ((indexes ! node_index) mod int pred_factor)))"

section \<open>Fetching results\<close>

text \<open>The reads of a task: its slot and generation, and the views.\<close>

record reader =
  rd_slot :: nat
  rd_exec_slot :: nat
  rd_exec_gen :: u32
  rd_view :: "nat \<Rightarrow> view"

definition fetch_one :: "arg_config \<Rightarrow> reader \<Rightarrow> node_id \<Rightarrow> nat result \<Rightarrow> (cm_types option \<times> bool) timed" where
  "fetch_one cfg rd res_node_id dep_idx =
     tbind (tlift dep_idx) (\<lambda>i. get_or_wait (cfg_single_slot_mode cfg) (rd_slot rd, res_node_id, i)
       (rd_exec_slot rd) (rd_exec_gen rd) (rd_view rd))"

text \<open>The collect-all path stops at the first read that yields nothing.\<close>

fun collect_all ::
  "arg_config \<Rightarrow> reader \<Rightarrow> node_id \<Rightarrow> nat \<Rightarrow> nat \<Rightarrow> int list \<Rightarrow> cm_types list
     \<Rightarrow> (cm_types list option \<times> bool) timed" where
  "collect_all cfg rd res_node_id node_index pred_factor [] acc = tret (Some acc, False)"
| "collect_all cfg rd res_node_id node_index pred_factor (k # ks) acc =
     tbind (fetch_one cfg rd res_node_id (find_pred_index node_index k pred_factor)) (\<lambda>(r, stale).
       case r of
         Some v \<Rightarrow> collect_all cfg rd res_node_id node_index pred_factor ks (acc @ [v])
       | None \<Rightarrow> tret (None, stale))"

definition fetch_res_results ::
  "arg_config \<Rightarrow> reader \<Rightarrow> node_id \<Rightarrow> int list \<Rightarrow> nat \<Rightarrow> nat \<Rightarrow> nat \<Rightarrow> nat \<Rightarrow> nat option \<Rightarrow> nat option
     \<Rightarrow> bool \<Rightarrow> (cm_types list option \<times> bool) timed" where
  "fetch_res_results cfg rd res_node_id indexes node_index pred_index n_factor pred_factor
       n_group_size pred_eff_group_size has_barrier =
     (if indexes = [] then tret (None, False)
      else if length indexes = 1 then
        tbind (fetch_one cfg rd res_node_id
            (single_index_dep_idx node_index (indexes ! 0) pred_factor n_group_size pred_eff_group_size))
          (\<lambda>(r, stale). tret (map_option (\<lambda>v. [v]) r, stale))
      else if 1 < length indexes \<and> length indexes = n_factor then
        tbind (fetch_one cfg rd res_node_id
            (per_instance_dep_idx indexes node_index pred_index pred_factor n_factor has_barrier))
          (\<lambda>(r, stale). tret (map_option (\<lambda>v. [v]) r, stale))
      else collect_all cfg rd res_node_id node_index pred_factor indexes [])"

text \<open>The routing table \<^verbatim>\<open>pred_group_by\<close> is read at \<open>[succ][pred]\<close>.\<close>

definition table_group_by :: "nat option list list \<Rightarrow> node_id \<Rightarrow> node_id \<Rightarrow> nat option result" where
  "table_group_by tbl s p =
     (if s < length tbl \<and> p < length (tbl ! s) then Inr (tbl ! s ! p) else Inl IndexOutOfBounds)"

definition or_else :: "'a option \<Rightarrow> 'a option result \<Rightarrow> 'a option result" where
  "or_else x y = (case x of Some a \<Rightarrow> Inr (Some a) | None \<Rightarrow> y)"

definition collect_res_from_cache ::
  "arg_config \<Rightarrow> nat option list list \<Rightarrow> reader \<Rightarrow> res_pred_cache \<Rightarrow> nat \<Rightarrow> nat
     \<Rightarrow> (cm_types list option \<times> bool) timed" where
  "collect_res_from_cache cfg tbl rd rp node_index pred_index =
     (if rp_is_dep rp then tret (Some [CmNone], False)
      else
        tbind (tlift (or_else (rp_pred_group_size rp) (table_group_by tbl (rp_node_id rp) (rp_res_node_id rp))))
          (\<lambda>pred_eff_gs. fetch_res_results cfg rd (rp_res_node_id rp) (rp_indexes rp) node_index pred_index
             (rp_node_factor rp) (rp_pred_factor rp) (rp_node_group_size rp) pred_eff_gs
             (rp_node_has_barrier rp)))"

section \<open>Filling the argument buffer\<close>

definition put_at :: "nat \<Rightarrow> 'a \<Rightarrow> 'a list \<Rightarrow> 'a list result" where
  "put_at i v buf = (if i < length buf then Inr (buf[i := v]) else Inl IndexOutOfBounds)"

definition get_object_value :: "cm_types list \<Rightarrow> nat \<Rightarrow> cm_types result" where
  "get_object_value obj_vec node_index =
     (if 1 < length obj_vec then Inr (obj_vec ! (node_index mod length obj_vec))
      else if obj_vec = [] then Inl IndexOutOfBounds
      else Inr (obj_vec ! 0))"

fun put_buffers :: "nat \<Rightarrow> nat list \<Rightarrow> cm_types list list \<Rightarrow> cm_types list \<Rightarrow> cm_types list result" where
  "put_buffers node_index [] vals buf = Inr buf"
| "put_buffers node_index (idx # idxs) [] buf = Inl IndexOutOfBounds"
| "put_buffers node_index (idx # idxs) (v # vals) buf =
     rbind (get_object_value v node_index) (\<lambda>x. rbind (put_at idx x buf) (put_buffers node_index idxs vals))"

definition process_buffer_refs :: "arg_cache_entry \<Rightarrow> nat \<Rightarrow> cm_types list \<Rightarrow> cm_types list result" where
  "process_buffer_refs ac node_index = put_buffers node_index (buffer_ref_indexes ac) (buffer_values ac)"

fun put_all :: "nat list \<Rightarrow> 'a \<Rightarrow> 'a list \<Rightarrow> 'a list result" where
  "put_all [] v buf = Inr buf"
| "put_all (i # is) v buf = rbind (put_at i v buf) (put_all is v)"

fun put_pairs :: "(nat \<times> nat) list \<Rightarrow> 'a \<Rightarrow> 'a \<Rightarrow> 'a list \<Rightarrow> 'a list result" where
  "put_pairs [] v w buf = Inr buf"
| "put_pairs ((i, j) # ps) v w buf =
     rbind (put_at i v buf) (\<lambda>b. rbind (put_at j w b) (put_pairs ps v w))"

definition process_runtime_refs :: "arg_cache_entry \<Rightarrow> nat \<Rightarrow> nat \<Rightarrow> cm_types list \<Rightarrow> cm_types list result" where
  "process_runtime_refs ac node_index workers buf =
     (let idx = CmUsize (word_of_nat node_index); wk = CmUsize (word_of_nat workers)
      in if length (rt_idxs_indexes ac) = length (rt_workers_indexes ac)
         then put_pairs (zip (rt_idxs_indexes ac) (rt_workers_indexes ac)) idx wk buf
         else rbind (put_all (rt_idxs_indexes ac) idx buf) (put_all (rt_workers_indexes ac) wk))"

text \<open>A single value replaces its slot; anything else is spliced in.\<close>

definition splice_at :: "nat \<Rightarrow> 'a list \<Rightarrow> 'a list \<Rightarrow> 'a list result" where
  "splice_at i vs buf =
     (case vs of
        [v] \<Rightarrow> put_at i v buf
      | _ \<Rightarrow> if i + 1 \<le> length buf then Inr (take i buf @ vs @ drop (i + 1) buf) else Inl IndexOutOfBounds)"

fun fill_results ::
  "arg_config \<Rightarrow> nat option list list \<Rightarrow> reader \<Rightarrow> nat \<Rightarrow> nat \<Rightarrow> (nat \<times> res_pred_cache) list \<Rightarrow> cm_types list
     \<Rightarrow> (cm_types list \<times> bool) timed" where
  "fill_results cfg tbl rd node_index pred_index [] buf = tret (buf, False)"
| "fill_results cfg tbl rd node_index pred_index ((res_idx, rp) # rest) buf =
     tbind (collect_res_from_cache cfg tbl rd rp node_index pred_index) (\<lambda>(r, stale).
       tbind (case r of Some vs \<Rightarrow> tlift (splice_at res_idx vs buf) | None \<Rightarrow> tret buf) (\<lambda>buf'.
         if stale then tret (buf', True)
         else fill_results cfg tbl rd node_index pred_index rest buf'))"

definition populate_dynamic_args_into ::
  "arg_config \<Rightarrow> nat option list list \<Rightarrow> reader \<Rightarrow> arg_cache_entry \<Rightarrow> nat \<Rightarrow> nat \<Rightarrow> nat \<Rightarrow> cm_types list
     \<Rightarrow> (cm_types list \<times> bool) timed" where
  "populate_dynamic_args_into cfg tbl rd ac node_index pred_index workers buf =
     tbind (tlift (rbind (process_buffer_refs ac node_index buf) (process_runtime_refs ac node_index workers)))
       (fill_results cfg tbl rd node_index pred_index (zip (res_indexes ac) (res_predecessors ac)))"

definition populate_cached_args_into ::
  "arg_config \<Rightarrow> nat option list list \<Rightarrow> reader \<Rightarrow> arg_cache_entry \<Rightarrow> nat \<Rightarrow> nat \<Rightarrow> cm_types list
     \<Rightarrow> (cm_types list \<times> bool) timed" where
  "populate_cached_args_into cfg tbl rd ac node_index pred_index buf =
     (let buf1 = buf @ ac_args ac
      in if buffer_ref_indexes ac = [] \<and> rt_idxs_indexes ac = [] \<and> rt_workers_indexes ac = []
            \<and> res_indexes ac = [] then tret (buf1, False)
         else
           let workers = (if rt_workers_indexes ac \<noteq> [] then cfg_workers cfg else 0)
           in tbind (tlift (rbind (process_buffer_refs ac node_index buf1)
                  (process_runtime_refs ac node_index workers)))
                (fill_results cfg tbl rd node_index pred_index (zip (res_indexes ac) (res_predecessors ac))))"

section \<open>The uncached path\<close>

definition handle_special_ref :: "nat \<Rightarrow> nat \<Rightarrow> nat \<Rightarrow> cm_types list option" where
  "handle_special_ref obj_id node_index workers =
     (if obj_id = 0 then Some [CmUsize (word_of_nat node_index)]
      else if obj_id = 1 then Some [CmUsize (word_of_nat workers)]
      else None)"

definition node_at :: "graph \<Rightarrow> node_id \<Rightarrow> node result" where
  "node_at g i = (if i < length (g_nodes g) then Inr (g_nodes g ! i) else Inl IndexOutOfBounds)"

definition collect_arg_result ::
  "arg_config \<Rightarrow> graph \<Rightarrow> cm_types list list \<Rightarrow> nat option list list \<Rightarrow> reader \<Rightarrow> arg \<Rightarrow> node_id \<Rightarrow> nat
     \<Rightarrow> nat \<Rightarrow> nat \<Rightarrow> cm_types option \<Rightarrow> (cm_types list option \<times> bool) timed" where
  "collect_arg_result cfg g init_objects tbl rd a nid node_index n_factor pred_index custom_res =
     (case arg_type a of
        CmRef obj_id \<Rightarrow>
          (case handle_special_ref obj_id node_index (cfg_workers cfg) of
             Some r \<Rightarrow> tret (Some r, False)
           | None \<Rightarrow>
               if length init_objects \<le> obj_id then tfail IndexOutOfBounds
               else tlift (rbind (get_object_value (init_objects ! obj_id) node_index)
                      (\<lambda>v. Inr (Some [v], False))))
      | CmDep _ \<Rightarrow> tret (Some [CmNone], False)
      | CmRes res_node_id \<Rightarrow>
          (case custom_res of
             Some c \<Rightarrow> tret (Some [c], False)
           | None \<Rightarrow>
               (case arg_predecessor a of
                  None \<Rightarrow> tret (None, False)
                | Some p \<Rightarrow>
                    tbind (tlift (rbind (node_at g res_node_id) (\<lambda>res_node.
                        rbind (node_at g nid) (\<lambda>cur.
                        rbind (or_else (node_group_size res_node) (table_group_by tbl nid res_node_id))
                          (\<lambda>eff. Inr (res_node, cur, eff))))))
                      (\<lambda>(res_node, cur, eff).
                         fetch_res_results cfg rd res_node_id (pred_indexes p) node_index pred_index n_factor
                           (node_factor res_node) (node_group_size cur) eff (node_forced_barrier cur))))
      | CmBarrier _ \<Rightarrow> tret (None, False)
      | v \<Rightarrow> tret (Some [v], False))"

text \<open>The arguments of a post-node or an index function: no consumer node, no generation check.\<close>

fun parse_args ::
  "arg_config \<Rightarrow> graph \<Rightarrow> cm_types list list \<Rightarrow> nat option list list \<Rightarrow> (nat \<Rightarrow> view) \<Rightarrow> arg list \<Rightarrow> nat
     \<Rightarrow> nat \<Rightarrow> nat \<Rightarrow> cm_types option \<Rightarrow> cm_types list \<Rightarrow> cm_types list timed" where
  "parse_args cfg g init_objects tbl view [] node_index slot pred_index custom_res acc = tret acc"
| "parse_args cfg g init_objects tbl view (a # as) node_index slot pred_index custom_res acc =
     (if is_condition a then parse_args cfg g init_objects tbl view as node_index slot pred_index custom_res acc
      else
        tbind (collect_arg_result cfg g init_objects tbl
            \<lparr>rd_slot = slot, rd_exec_slot = NO_EXEC, rd_exec_gen = 0, rd_view = view\<rparr>
            a 0 node_index 0 pred_index custom_res) (\<lambda>(r, _).
          parse_args cfg g init_objects tbl view as node_index slot pred_index custom_res
            (acc @ (case r of Some vs \<Rightarrow> vs | None \<Rightarrow> []))))"

section \<open>Conditions\<close>

text \<open>Conditions are evaluated on the resolution thread (\<^verbatim>\<open>runtime/successor.rs\<close>): the legacy form
  compares the first value of each condition argument, the node form the result of a condition
  function, which comes from a plugin.\<close>

fun conditions_met ::
  "arg_config \<Rightarrow> graph \<Rightarrow> cm_types list list \<Rightarrow> nat option list list \<Rightarrow> (nat \<Rightarrow> view) \<Rightarrow> node_info
     \<Rightarrow> nat list \<Rightarrow> bool timed" where
  "conditions_met cfg g init_objects tbl view ni [] = tret True"
| "conditions_met cfg g init_objects tbl view ni (arg_idx # rest) =
     tbind (tlift (rbind (node_at g (ni_id ni)) (\<lambda>n.
         if length (node_args n) \<le> arg_idx then Inl IndexOutOfBounds
         else case arg_init_condition (node_args n ! arg_idx) of
             None \<Rightarrow> Inl ExplicitPanic
           | Some c \<Rightarrow> Inr (n, node_args n ! arg_idx, c)))) (\<lambda>(n, a, c).
       tbind (collect_arg_result cfg g init_objects tbl
           \<lparr>rd_slot = ni_slot ni, rd_exec_slot = NO_EXEC, rd_exec_gen = 0, rd_view = view\<rparr>
           a (ni_id ni) (ni_index ni) (node_factor n) (ni_pred_index ni) None) (\<lambda>(r, _).
         case r of
           Some (v # _) \<Rightarrow>
             if init_condition_evaluate c v then conditions_met cfg g init_objects tbl view ni rest
             else tret False
         | Some [] \<Rightarrow> tfail IndexOutOfBounds
         | None \<Rightarrow> tfail ExplicitPanic))"

definition evaluate_node_condition ::
  "(func_ref \<Rightarrow> cm_types list \<Rightarrow> cm_types) \<Rightarrow> arg_config \<Rightarrow> nat option list list \<Rightarrow> (nat \<Rightarrow> view)
     \<Rightarrow> node_info \<Rightarrow> node_condition_cache \<Rightarrow> node_condition \<Rightarrow> bool timed" where
  "evaluate_node_condition plugin cfg tbl view ni cond_cache node_cond =
     tbind (populate_cached_args_into cfg tbl
         \<lparr>rd_slot = ni_slot ni, rd_exec_slot = NO_EXEC, rd_exec_gen = 0, rd_view = view\<rparr>
         (ncc_arg_cache cond_cache) (ni_index ni) (ni_pred_index ni) []) (\<lambda>(cond_args, stale).
       if stale then tret False
       else tret (node_condition_evaluate node_cond (plugin (ncc_func_ptr cond_cache) cond_args)))"

section \<open>Waiting ends\<close>

lemma spin_wait_poll:
  "poll ss c es eg (view t) = Some r \<Longrightarrow>
   spin_wait ss c es eg view t = Some (case r of Inr x \<Rightarrow> Inr (x, Suc t) | Inl e \<Rightarrow> Inl e)"
  by (subst spin_wait.simps) (simp split: sum.splits)

lemma spin_wait_skip:
  "(\<forall>k < n. poll ss c es eg (view (t + k)) = None) \<Longrightarrow>
   spin_wait ss c es eg view t = spin_wait ss c es eg view (t + n)"
proof (induction n arbitrary: t)
  case (Suc n)
  have "poll ss c es eg (view t) = None" using Suc.prems by (metis add_0_right zero_less_Suc)
  then have "spin_wait ss c es eg view t = spin_wait ss c es eg view (Suc t)"
    by (subst spin_wait.simps) simp
  also have "\<dots> = spin_wait ss c es eg view (Suc t + n)"
    using Suc.prems by (intro Suc.IH) (metis Suc_mono add_Suc_shift)
  finally show ?case by simp
qed simp

lemma spin_wait_first:
  assumes "poll ss c es eg (view (t + n)) \<noteq> None" "\<forall>k < n. poll ss c es eg (view (t + k)) = None"
  shows "\<exists>r. poll ss c es eg (view (t + n)) = Some r
    \<and> spin_wait ss c es eg view t = Some (case r of Inr x \<Rightarrow> Inr (x, Suc (t + n)) | Inl e \<Rightarrow> Inl e)"
  using spin_wait_skip [OF assms(2)] spin_wait_poll [of ss c es eg view "t + n"] assms(1) by auto

lemma spin_wait_some:
  assumes "spin_wait ss c es eg view t = Some r"
  shows "\<exists>k. poll ss c es eg (view (t + k)) \<noteq> None"
proof (rule spin_wait.raw_induct [where P = "\<lambda>ss c es eg view t r. \<exists>k. poll ss c es eg (view (t + k)) \<noteq> None",
      OF _ assms])
  fix spin ss c es eg t and view :: "nat \<Rightarrow> view" and r
  assume IH: "\<And>ss c es eg view t r. spin ss c es eg view t = Some r \<Longrightarrow> \<exists>k. poll ss c es eg (view (t + k)) \<noteq> None"
    and run: "(case poll ss c es eg (view t) of
      Some (Inr r) \<Rightarrow> Some (Inr (r, Suc t)) | Some (Inl e) \<Rightarrow> Some (Inl e)
      | None \<Rightarrow> spin ss c es eg view (Suc t)) = Some r"
  show "\<exists>k. poll ss c es eg (view (t + k)) \<noteq> None"
  proof (cases "poll ss c es eg (view t)")
    case None
    then obtain k where "poll ss c es eg (view (Suc t + k)) \<noteq> None"
      using run IH [of ss c es eg view "Suc t" r] by auto
    then show ?thesis by (intro exI [of _ "Suc k"]) simp
  next
    case (Some a)
    then show ?thesis by (intro exI [of _ 0]) simp
  qed
qed

lemma spin_wait_result:
  assumes "spin_wait ss c es eg view t = Some (Inr (r, t'))"
  shows "\<exists>k \<ge> t. t' = Suc k \<and> poll ss c es eg (view k) = Some (Inr r)"
proof -
  define n where "n = (LEAST k. poll ss c es eg (view (t + k)) \<noteq> None)"
  have n: "poll ss c es eg (view (t + n)) \<noteq> None"
    unfolding n_def using spin_wait_some [OF assms] by (rule LeastI_ex)
  have least: "\<forall>k < n. poll ss c es eg (view (t + k)) = None"
    using not_less_Least n_def by blast
  obtain p where p: "poll ss c es eg (view (t + n)) = Some p"
    "spin_wait ss c es eg view t = Some (case p of Inr x \<Rightarrow> Inr (x, Suc (t + n)) | Inl e \<Rightarrow> Inl e)"
    using spin_wait_first [OF n least] by blast
  then show ?thesis using assms by (intro exI [of _ "t + n"]) (cases p, auto)
qed

text \<open>C24: The wait for a result returns exactly if, now or later, the result is stored, the
  runtime shuts down, or the generation of the task's slot moves on (or does not exist, which
  panics). A value it returns is the one stored at the moment of the last read, and then the task
  is not stale; it gives up without a value only on a shutdown or a changed generation, and then
  reports the task as stale except in single-slot mode.\<close>

theorem spin_wait_returns_iff:
  "(spin_wait ss c es eg view t \<noteq> None \<longleftrightarrow>
      (\<exists>k \<ge> t. v_results (view k) c \<noteq> None \<or> v_shutdown (view k)
         \<or> es \<noteq> NO_EXEC \<and> (length (v_generation (view k)) \<le> es \<or> eg \<noteq> ucast (v_generation (view k) ! es))))
   \<and> (spin_wait ss c es eg view t = Some (Inr ((Some v, stale), t')) \<longrightarrow>
        (\<exists>k \<ge> t. t' = Suc k \<and> v_results (view k) c = Some v \<and> \<not> stale))
   \<and> (spin_wait ss c es eg view t = Some (Inr ((None, stale), t')) \<longrightarrow>
        (\<exists>k \<ge> t. t' = Suc k \<and> v_results (view k) c = None
           \<and> (v_shutdown (view k) \<and> stale
              \<or> es \<noteq> NO_EXEC \<and> eg \<noteq> ucast (v_generation (view k) ! es) \<and> (stale \<longleftrightarrow> \<not> ss))))"
proof (intro conjI impI)
  have poll: "poll ss c es eg v \<noteq> None \<longleftrightarrow> v_results v c \<noteq> None \<or> v_shutdown v
      \<or> es \<noteq> NO_EXEC \<and> (length (v_generation v) \<le> es \<or> eg \<noteq> ucast (v_generation v ! es))" for v
    by (auto simp: poll_def split: option.splits)
  have "spin_wait ss c es eg view t \<noteq> None \<longleftrightarrow> (\<exists>k. poll ss c es eg (view (t + k)) \<noteq> None)"
  proof
    assume ex: "\<exists>k. poll ss c es eg (view (t + k)) \<noteq> None"
    then have "poll ss c es eg (view (t + (LEAST k. poll ss c es eg (view (t + k)) \<noteq> None))) \<noteq> None"
      by (rule LeastI_ex)
    moreover have "\<forall>j < (LEAST k. poll ss c es eg (view (t + k)) \<noteq> None). poll ss c es eg (view (t + j)) = None"
      using not_less_Least by blast
    ultimately show "spin_wait ss c es eg view t \<noteq> None" using spin_wait_first by (metis option.distinct(1))
  qed (use spin_wait_some in blast)
  also have "\<dots> \<longleftrightarrow> (\<exists>k \<ge> t. poll ss c es eg (view k) \<noteq> None)"
    by (metis le_add1 le_add_diff_inverse)
  finally show "spin_wait ss c es eg view t \<noteq> None \<longleftrightarrow>
      (\<exists>k \<ge> t. v_results (view k) c \<noteq> None \<or> v_shutdown (view k)
         \<or> es \<noteq> NO_EXEC \<and> (length (v_generation (view k)) \<le> es \<or> eg \<noteq> ucast (v_generation (view k) ! es)))"
    by (simp only: poll)
next
  assume "spin_wait ss c es eg view t = Some (Inr ((Some v, stale), t'))"
  then show "\<exists>k \<ge> t. t' = Suc k \<and> v_results (view k) c = Some v \<and> \<not> stale"
    by (fastforce dest: spin_wait_result simp: poll_def split: option.splits if_splits)
next
  assume "spin_wait ss c es eg view t = Some (Inr ((None, stale), t'))"
  then show "\<exists>k \<ge> t. t' = Suc k \<and> v_results (view k) c = None
      \<and> (v_shutdown (view k) \<and> stale
         \<or> es \<noteq> NO_EXEC \<and> eg \<noteq> ucast (v_generation (view k) ! es) \<and> (stale \<longleftrightarrow> \<not> ss))"
    by (fastforce dest: spin_wait_result simp: poll_def split: option.splits if_splits)
qed

text \<open>A task of generation 3 waits on slot 0: nothing at time 0, the value at time 1.\<close>

theorem spin_wait_returns_iff_witness:
  "spin_wait True (0, 0, 0) 0 3
       (\<lambda>k. \<lparr>v_results = (\<lambda>c. if k = 0 then None else Some (CmU8 7)), v_shutdown = False, v_generation = [3]\<rparr>) 0
     = Some (Inr ((Some (CmU8 7), False), 2))
   \<and> (\<exists>k \<ge> 0. (2::nat) = Suc k \<and> (if k = 0 then None else Some (CmU8 7)) = Some (CmU8 7))"
proof -
  let ?view = "\<lambda>k. \<lparr>v_results = (\<lambda>c. if k = 0 then None else Some (CmU8 7)), v_shutdown = False, v_generation = [3]\<rparr>"
  have run: "spin_wait True (0, 0, 0) 0 3 ?view 0 = Some (Inr ((Some (CmU8 7), False), 2))"
    by (subst spin_wait.simps, subst spin_wait.simps) (simp add: poll_def)
  then show ?thesis
    using spin_wait_returns_iff [of True "(0, 0, 0)" 0 3 ?view 0 "CmU8 7" False 2] by auto
qed

section \<open>Reusing an argument buffer\<close>

text \<open>Two buffers agree outside a set of positions; a computation run on either gives related
  outcomes at the same times.\<close>

definition agree :: "('a \<Rightarrow> 'b) \<Rightarrow> nat set \<Rightarrow> 'a list \<Rightarrow> 'a list \<Rightarrow> bool" where
  "agree f D xs ys \<longleftrightarrow> length xs = length ys \<and> (\<forall>i < length xs. i \<notin> D \<longrightarrow> f (xs ! i) = f (ys ! i))"

lemma agree_refl [simp]: "agree f D xs xs"
  by (simp add: agree_def)

lemma agree_empty: "agree f {} xs ys \<longleftrightarrow> map f xs = map f ys"
  by (auto simp: agree_def list_eq_iff_nth_eq)

lemma agree_trans: "agree f D xs ys \<Longrightarrow> agree f D ys zs \<Longrightarrow> agree f D xs zs"
  by (simp add: agree_def)

lemma agree_mono: "agree f D xs ys \<Longrightarrow> D \<subseteq> E \<Longrightarrow> agree f E xs ys"
  by (auto simp: agree_def)

abbreviation same_result :: "('a \<Rightarrow> 'b \<Rightarrow> bool) \<Rightarrow> 'a result \<Rightarrow> 'b result \<Rightarrow> bool" where
  "same_result R \<equiv> rel_sum (=) R"

definition same_timed :: "('a \<Rightarrow> 'b \<Rightarrow> bool) \<Rightarrow> 'a timed \<Rightarrow> 'b timed \<Rightarrow> bool" where
  "same_timed R m1 m2 \<longleftrightarrow> (\<forall>t. rel_option (same_result (rel_prod R (=))) (m1 t) (m2 t))"

lemma rbind_same:
  "same_result R r s \<Longrightarrow> (\<And>a b. R a b \<Longrightarrow> same_result S (f a) (g b)) \<Longrightarrow> same_result S (rbind r f) (rbind s g)"
  by (cases r; cases s) auto

lemma tbind_same:
  assumes "same_timed R m1 m2" "\<And>a b. R a b \<Longrightarrow> same_timed S (f a) (g b)"
  shows "same_timed S (tbind m1 f) (tbind m2 g)"
  unfolding same_timed_def
proof
  fix t
  have "rel_option (same_result (rel_prod R (=))) (m1 t) (m2 t)" using assms(1) by (simp add: same_timed_def)
  then show "rel_option (same_result (rel_prod S (=))) (tbind m1 f t) (tbind m2 g t)"
    using assms(2) by (auto simp: tbind_def same_timed_def elim!: option.rel_cases rel_sum.cases)
qed

lemma tlift_same: "same_result R r s \<Longrightarrow> same_timed R (tlift r) (tlift s)"
  by (auto simp: same_timed_def tlift_def elim!: rel_sum.cases)

lemma tret_same: "R a b \<Longrightarrow> same_timed R (tret a) (tret b)"
  by (simp add: same_timed_def tret_def)

text \<open>A write takes its position out of the set.\<close>

lemma put_at_agree: "agree f D xs ys \<Longrightarrow> same_result (agree f (D - {i})) (put_at i v xs) (put_at i v ys)"
  by (auto simp: put_at_def agree_def nth_list_update)

lemma put_buffers_agree:
  "agree f D xs ys \<Longrightarrow> same_result (agree f (D - set idxs)) (put_buffers ni idxs vals xs) (put_buffers ni idxs vals ys)"
proof (induction idxs arbitrary: D xs ys vals)
  case (Cons idx idxs)
  show ?case
  proof (cases vals)
    case (Cons v vs)
    have "same_result (agree f (D - {idx} - set idxs))
        (rbind (put_at idx x xs) (put_buffers ni idxs vs)) (rbind (put_at idx x ys) (put_buffers ni idxs vs))" for x
      using Cons.IH Cons.prems by (intro rbind_same [OF put_at_agree]) auto
    then show ?thesis using Cons by (cases "get_object_value v ni") (simp_all add: Diff_insert2 [symmetric])
  qed simp
qed simp

lemma put_all_agree: "agree f D xs ys \<Longrightarrow> same_result (agree f (D - set is)) (put_all is v xs) (put_all is v ys)"
proof (induction "is" arbitrary: D xs ys)
  case (Cons i "is")
  have "same_result (agree f (D - {i} - set is)) (rbind (put_at i v xs) (put_all is v)) (rbind (put_at i v ys) (put_all is v))"
    using Cons.IH by (rule rbind_same [OF put_at_agree [OF Cons.prems]])
  then show ?case by (simp add: Diff_insert2 [symmetric])
qed simp

lemma put_pairs_agree:
  "agree f D xs ys \<Longrightarrow>
   same_result (agree f (D - set (map fst ps) - set (map snd ps))) (put_pairs ps v w xs) (put_pairs ps v w ys)"
proof (induction ps arbitrary: D xs ys)
  case (Cons p ps)
  obtain i j where p: "p = (i, j)" by (cases p)
  have "same_result (agree f (D - {i} - {j} - set (map fst ps) - set (map snd ps)))
      (put_pairs (p # ps) v w xs) (put_pairs (p # ps) v w ys)"
    using Cons by (auto simp: p intro!: rbind_same [OF put_at_agree [OF Cons.prems]] rbind_same [OF put_at_agree])
  moreover have "D - {i} - {j} - set (map fst ps) - set (map snd ps)
      = D - set (map fst (p # ps)) - set (map snd (p # ps))" by (auto simp: p)
  ultimately show ?case by simp
qed simp

lemma process_refs_agree:
  assumes "agree f D xs ys"
  shows "same_result (agree f (D - set (buffer_ref_indexes ac) - set (rt_idxs_indexes ac) - set (rt_workers_indexes ac)))
    (rbind (process_buffer_refs ac ni xs) (process_runtime_refs ac ni workers))
    (rbind (process_buffer_refs ac ni ys) (process_runtime_refs ac ni workers))"
proof -
  let ?B = "set (buffer_ref_indexes ac)" and ?I = "set (rt_idxs_indexes ac)" and ?W = "set (rt_workers_indexes ac)"
  have rt: "same_result (agree f (E - ?I - ?W)) (process_runtime_refs ac ni workers a) (process_runtime_refs ac ni workers b)"
    if "agree f E a b" for E a b
  proof (cases "length (rt_idxs_indexes ac) = length (rt_workers_indexes ac)")
    case True
    then have "set (map fst (zip (rt_idxs_indexes ac) (rt_workers_indexes ac))) = ?I"
      "set (map snd (zip (rt_idxs_indexes ac) (rt_workers_indexes ac))) = ?W"
      by (simp_all only: map_fst_zip map_snd_zip)
    then show ?thesis
      using put_pairs_agree [OF that, of "zip (rt_idxs_indexes ac) (rt_workers_indexes ac)"] True
      by (simp add: process_runtime_refs_def Let_def)
  next
    case False
    show ?thesis
      using rbind_same [OF put_all_agree [OF that] put_all_agree] False
      by (auto simp: process_runtime_refs_def Let_def)
  qed
  show ?thesis
    unfolding process_buffer_refs_def by (rule rbind_same [OF put_buffers_agree [OF assms] rt])
qed

text \<open>What a read of the cache can yield when every predecessor contributes one argument: one
  value, or nothing and then the task is stale, unless no instance is named at all.\<close>

definition fills :: "res_pred_cache \<Rightarrow> bool" where
  "fills rp \<longleftrightarrow> rp_is_dep rp \<or> rp_indexes rp \<noteq> []"

definition yields_one :: "res_pred_cache \<Rightarrow> cm_types list option \<times> bool \<Rightarrow> bool" where
  "yields_one rp res \<longleftrightarrow> (case fst res of
       Some vs \<Rightarrow> length vs = 1 \<and> \<not> snd res \<and> fills rp
     | None \<Rightarrow> snd res \<or> \<not> fills rp)"

lemma same_timed_refl: "(\<And>a t t'. m t = Some (Inr (a, t')) \<Longrightarrow> P a) \<Longrightarrow> same_timed (\<lambda>a b. a = b \<and> P a) m m"
  unfolding same_timed_def
proof
  fix t
  assume "\<And>a t t'. m t = Some (Inr (a, t')) \<Longrightarrow> P a"
  then show "rel_option (same_result (rel_prod (\<lambda>a b. a = b \<and> P a) (=))) (m t) (m t)"
    by (cases "m t"; cases "the (m t)") auto
qed

lemma fetch_one_result:
  assumes "fetch_one cfg rd nid d t = Some (Inr ((r, stale), t'))" "\<not> cfg_single_slot_mode cfg"
  shows "stale \<longleftrightarrow> r = None"
proof -
  obtain i where d: "d = Inr i"
    using assms(1) by (cases d) (simp_all add: fetch_one_def tfail_def)
  let ?c = "(rd_slot rd, nid, i)"
  show ?thesis
  proof (cases "v_results (rd_view rd t) ?c")
    case None
    then have "spin_wait False ?c (rd_exec_slot rd) (rd_exec_gen rd) (rd_view rd) (Suc t) = Some (Inr ((r, stale), t'))"
      using assms by (simp add: fetch_one_def d get_or_wait_def)
    then show ?thesis
      by (fastforce dest: spin_wait_result simp: poll_def split: option.splits if_splits)
  next
    case (Some a)
    then show ?thesis using assms by (cases r) (auto simp: fetch_one_def d get_or_wait_def)
  qed
qed

lemma fetch_one_yields:
  assumes "fetch_one cfg rd nid d t = Some (Inr ((r, stale), t'))" "\<not> cfg_single_slot_mode cfg" "fills rp"
  shows "yields_one rp (map_option (\<lambda>v. [v]) r, stale)"
  using fetch_one_result [OF assms(1,2)] assms(3) by (cases r) (simp_all add: yields_one_def)

lemma collect_yields_one:
  assumes "collect_res_from_cache cfg tbl rd rp ni pidx t = Some (Inr (res, t'))"
    "width_one rp" "\<not> cfg_single_slot_mode cfg"
  shows "yields_one rp res"
proof -
  consider "rp_is_dep rp" | "\<not> rp_is_dep rp" "rp_indexes rp = []" | "\<not> rp_is_dep rp" "rp_indexes rp \<noteq> []"
    by blast
  then show ?thesis
  proof cases
    case 3
    then have "length (rp_indexes rp) = 1 \<or> 1 < length (rp_indexes rp) \<and> length (rp_indexes rp) = rp_node_factor rp"
      using assms(2) by (cases "rp_indexes rp") (auto simp: width_one_def)
    then show ?thesis
      using assms(1) 3
      by (auto simp: fills_def collect_res_from_cache_def fetch_res_results_def tbind_Some tret_def
          dest!: fetch_one_yields [OF _ assms(3), where rp = rp] split: if_splits)
  qed (use assms(1) in \<open>auto simp: collect_res_from_cache_def fetch_res_results_def tbind_Some tret_def yields_one_def fills_def\<close>)
qed

text \<open>The positions a task overwrites, and the outcome of a patch: the same staleness, and the
  same buffer unless the task is stale.\<close>

definition res_positions :: "(nat \<times> res_pred_cache) list \<Rightarrow> nat set" where
  "res_positions rps = fst ` {p \<in> set rps. fills (snd p)}"

definition patched :: "(cm_types \<Rightarrow> 'b) \<Rightarrow> nat set \<Rightarrow> cm_types list \<times> bool \<Rightarrow> cm_types list \<times> bool \<Rightarrow> bool" where
  "patched f D p q \<longleftrightarrow> snd p = snd q \<and> (snd p \<or> agree f D (fst p) (fst q))"

lemma fill_agree:
  assumes "\<not> cfg_single_slot_mode cfg"
  shows "list_all (\<lambda>p. width_one (snd p)) rps \<Longrightarrow> agree f D xs ys \<Longrightarrow>
    same_timed (patched f (D - res_positions rps))
      (fill_results cfg tbl rd ni pidx rps xs) (fill_results cfg tbl rd ni pidx rps ys)"
proof (induction rps arbitrary: D xs ys)
  case Nil
  then show ?case by (auto simp: res_positions_def patched_def intro: tret_same)
next
  case (Cons p rps)
  obtain i rp where p: "p = (i, rp)" by (cases p)
  let ?P = "\<lambda>a b. a = b \<and> yields_one rp a"
  have pos: "D - res_positions ((i, rp) # rps) = D - (if fills rp then {i} else {}) - res_positions rps"
    by (auto simp: res_positions_def image_iff)
  have read: "same_timed ?P (collect_res_from_cache cfg tbl rd rp ni pidx) (collect_res_from_cache cfg tbl rd rp ni pidx)"
    using collect_yields_one [OF _ _ assms] Cons.prems(1) by (intro same_timed_refl) (auto simp: p)
  show ?case
    unfolding p fill_results.simps
  proof (rule tbind_same [OF read], clarsimp, goal_cases)
    case (1 r stale)
    consider (one) v where "r = Some [v]" "\<not> stale" "fills rp" | (gone) "r = None" "stale"
      | (skip) "r = None" "\<not> stale" "\<not> fills rp"
      using 1 by (cases r; cases "the r") (auto simp: yields_one_def split: list.splits)
    then show ?case
    proof cases
      case one
      have "same_timed (patched f (D - {i} - res_positions rps))
          (tbind (tlift (put_at i v xs)) (fill_results cfg tbl rd ni pidx rps))
          (tbind (tlift (put_at i v ys)) (fill_results cfg tbl rd ni pidx rps))"
        using Cons by (intro tbind_same [OF tlift_same [OF put_at_agree]]) auto
      then show ?thesis using one by (simp add: splice_at_def pos)
    next
      case gone
      then show ?thesis by (auto simp: patched_def intro: tret_same)
    next
      case skip
      then show ?thesis using Cons pos by simp
    qed
  qed
qed

text \<open>Every position a task can overwrite.\<close>

definition dynamic :: "arg_cache_entry \<Rightarrow> nat set" where
  "dynamic ac = set (buffer_ref_indexes ac) \<union> set (rt_idxs_indexes ac) \<union> set (rt_workers_indexes ac)
     \<union> res_positions (zip (res_indexes ac) (res_predecessors ac))"

lemma populate_agree:
  assumes "\<not> cfg_single_slot_mode cfg" "list_all width_one (res_predecessors ac)" "agree f (dynamic ac) xs ys"
  shows "same_timed (patched f {}) (populate_dynamic_args_into cfg tbl rd ac ni pidx workers xs)
    (populate_dynamic_args_into cfg tbl rd ac ni pidx workers ys)"
proof -
  let ?rps = "zip (res_indexes ac) (res_predecessors ac)"
  have w: "list_all (\<lambda>p. width_one (snd p)) ?rps"
    using assms(2) by (auto simp: list_all_iff dest: set_zip_rightD)
  let ?D = "dynamic ac - set (buffer_ref_indexes ac) - set (rt_idxs_indexes ac) - set (rt_workers_indexes ac)"
  have "same_timed (patched f (?D - res_positions ?rps)) (populate_dynamic_args_into cfg tbl rd ac ni pidx workers xs)
    (populate_dynamic_args_into cfg tbl rd ac ni pidx workers ys)"
    unfolding populate_dynamic_args_into_def
    by (rule tbind_same [OF tlift_same [OF process_refs_agree [OF assms(3)]]]) (rule fill_agree [OF assms(1) w])
  moreover have "?D - res_positions ?rps = {}" by (auto simp: dynamic_def)
  ultimately show ?thesis by simp
qed

text \<open>The static positions keep their values.\<close>

lemma put_at_static: "put_at i v xs = Inr ys \<Longrightarrow> i \<in> D \<Longrightarrow> agree f D ys xs"
  by (auto simp: put_at_def agree_def nth_list_update split: if_splits)

lemma put_buffers_static:
  "put_buffers ni idxs vals xs = Inr ys \<Longrightarrow> set idxs \<subseteq> D \<Longrightarrow> agree f D ys xs"
proof (induction ni idxs vals xs arbitrary: ys rule: put_buffers.induct)
  case (3 ni idx idxs v vals buf)
  then show ?case
    by (auto simp: rbind_eq_Inr intro: agree_trans [OF _ put_at_static])
qed auto

lemma put_all_static: "put_all is v xs = Inr ys \<Longrightarrow> set is \<subseteq> D \<Longrightarrow> agree f D ys xs"
proof (induction "is" v xs arbitrary: ys rule: put_all.induct)
  case (2 i "is" v buf)
  then show ?case by (auto simp: rbind_eq_Inr intro: agree_trans [OF _ put_at_static])
qed auto

lemma put_pairs_static:
  "put_pairs ps v w xs = Inr ys \<Longrightarrow> set (map fst ps) \<subseteq> D \<Longrightarrow> set (map snd ps) \<subseteq> D \<Longrightarrow> agree f D ys xs"
proof (induction ps v w xs arbitrary: ys rule: put_pairs.induct)
  case (2 i j ps v w buf)
  then obtain b c where "put_at i v buf = Inr b" "put_at j w b = Inr c" "put_pairs ps v w c = Inr ys"
    by (auto simp: rbind_eq_Inr)
  moreover from this have "agree f D ys c" using 2 by auto
  ultimately show ?case using 2 by (auto intro: agree_trans [OF _ agree_trans [OF put_at_static put_at_static]])
qed auto

lemma process_refs_static:
  assumes "rbind (process_buffer_refs ac ni xs) (process_runtime_refs ac ni workers) = Inr ys"
  shows "agree f (dynamic ac) ys xs"
proof -
  obtain b where b: "put_buffers ni (buffer_ref_indexes ac) (buffer_values ac) xs = Inr b"
    and rt: "process_runtime_refs ac ni workers b = Inr ys"
    using assms by (auto simp: rbind_eq_Inr process_buffer_refs_def)
  have "agree f (dynamic ac) b xs" by (rule put_buffers_static [OF b]) (auto simp: dynamic_def)
  moreover have "agree f (dynamic ac) ys b"
  proof (cases "length (rt_idxs_indexes ac) = length (rt_workers_indexes ac)")
    case True
    then show ?thesis
      using rt by (auto simp: process_runtime_refs_def Let_def dynamic_def
          intro!: put_pairs_static dest: set_zip_leftD set_zip_rightD)
  next
    case False
    then obtain c where "put_all (rt_idxs_indexes ac) (CmUsize (word_of_nat ni)) b = Inr c"
      "put_all (rt_workers_indexes ac) (CmUsize (word_of_nat workers)) c = Inr ys"
      using rt by (auto simp: process_runtime_refs_def Let_def rbind_eq_Inr)
    then show ?thesis
      by (auto simp: dynamic_def intro: agree_trans [OF put_all_static put_all_static])
  qed
  ultimately show ?thesis by (rule agree_trans [rotated])
qed

lemma fill_static:
  assumes "\<not> cfg_single_slot_mode cfg"
  shows "fill_results cfg tbl rd ni pidx rps xs t = Some (Inr ((ys, stale), t')) \<Longrightarrow>
    list_all (\<lambda>p. width_one (snd p)) rps \<Longrightarrow> res_positions rps \<subseteq> D \<Longrightarrow> agree f D ys xs"
proof (induction rps arbitrary: xs t)
  case (Cons p rps)
  obtain i rp where p: "p = (i, rp)" by (cases p)
  obtain r s t1 buf t2 where r: "collect_res_from_cache cfg tbl rd rp ni pidx t = Some (Inr ((r, s), t1))"
    and put: "(case r of Some vs \<Rightarrow> tlift (splice_at i vs xs) | None \<Rightarrow> tret xs) t1 = Some (Inr (buf, t2))"
    and rest: "(if s then tret (buf, True) else fill_results cfg tbl rd ni pidx rps buf) t2 = Some (Inr ((ys, stale), t'))"
    using Cons.prems(1) by (auto simp: p tbind_Some)
  have "yields_one rp (r, s)" using collect_yields_one [OF r _ assms] Cons.prems(2) by (simp add: p)
  moreover have "fills rp \<Longrightarrow> i \<in> D" using Cons.prems(3) by (force simp: res_positions_def p)
  ultimately have "agree f D buf xs"
    using put
    by (auto simp: yields_one_def tret_def tlift_def splice_at_def length_Suc_conv
        split: option.splits sum.splits intro: put_at_static)
  moreover have "agree f D ys buf"
    using rest Cons by (auto simp: tret_def res_positions_def split: if_splits)
  ultimately show ?case by (blast intro: agree_trans)
qed (auto simp: tret_def)

section \<open>Bounds of the instance read\<close>

lemma rust_rem_bounds:
  assumes "0 < b"
  shows "rust_rem a b < b" "- b < rust_rem a b" "rust_rem a b < 0 \<longleftrightarrow> a < 0 \<and> \<not> b dvd a"
proof -
  define c where "c = \<bar>a\<bar> mod b"
  have m: "0 \<le> c" "c < b" using assms by (simp_all add: c_def)
  have d: "b dvd a \<longleftrightarrow> c = 0" by (simp add: c_def flip: dvd_eq_mod_eq_0)
  consider "a = 0" "c = 0" "rust_rem a b = 0" | "0 < a" "rust_rem a b = c" | "a < 0" "rust_rem a b = - c"
    using assms by (cases a "0::int" rule: linorder_cases) (simp_all add: rust_rem_def c_def)
  then show "rust_rem a b < b" "- b < rust_rem a b" "rust_rem a b < 0 \<longleftrightarrow> a < 0 \<and> \<not> b dvd a"
    using m assms unfolding d by (atomize(full), cases) auto
qed

lemma find_pred_index_in_range:
  assumes "0 < pf" "pf < 2 ^ 63"
  shows "\<exists>i. find_pred_index ni k pf = Inr i \<and> (i < pf \<longleftrightarrow> 0 \<le> int ni + k \<or> int pf dvd int ni + k)"
proof -
  let ?r = "rust_rem (int ni + k) (int pf)"
  note r = rust_rem_bounds [of "int pf" "int ni + k"]
  have "as_usize ?r < pf \<longleftrightarrow> 0 \<le> ?r"
  proof (cases "0 \<le> ?r")
    case True
    then show ?thesis using r assms by (simp add: nat_less_iff)
  next
    case False
    then have "as_usize ?r = nat (2 ^ 64 + ?r)" using r assms by (intro as_usize_neg) auto
    then show ?thesis using False r assms by (simp add: nat_less_iff)
  qed
  then show ?thesis using r(3) assms by (auto simp: find_pred_index_def)
qed

text \<open>Which instance of its predecessor a task reads. A per-instance list always names an
  instance of the predecessor. A single index does so when it is a broadcast to a grouped node;
  when the predecessor is grouped with its consumer it does so as long as the offset stays inside
  the predecessor's group and the predecessor has a group for the consumer's; and otherwise, as for
  every index of a collect-all list, exactly if the index does not point before instance 0 (or
  points there at a multiple of the factor), because the remainder truncates towards zero.\<close>

theorem read_index_in_bounds:
  assumes "0 < pf" "pf < 2 ^ 63" "length idxs = nf" "ni < nf" "0 < gs" "0 < eg"
  shows "(\<exists>i < pf. per_instance_dep_idx idxs ni pidx pf nf hb = Inr i)
    \<and> (\<exists>i < pf. single_index_dep_idx ni k pf (Some gs) None = Inr i)
    \<and> (0 \<le> k \<and> k < int eg \<and> (ni div gs + 1) * eg \<le> pf \<longrightarrow>
         (\<exists>i < pf. single_index_dep_idx ni k pf (Some gs) (Some eg) = Inr i
            \<and> ni div gs * eg \<le> i \<and> i < (ni div gs + 1) * eg))
    \<and> (\<exists>i. single_index_dep_idx ni k pf None peg = Inr i \<and> find_pred_index ni k pf = Inr i
         \<and> (i < pf \<longleftrightarrow> 0 \<le> int ni + k \<or> int pf dvd int ni + k))"
proof (intro conjI impI)
  have euclid: "as_usize (d mod int pf) < pf" for d
  proof -
    have "0 \<le> d mod int pf" "d mod int pf < int pf" using assms(1) by simp_all
    then show ?thesis using assms(2) by (simp add: nat_less_iff)
  qed
  show "\<exists>i < pf. per_instance_dep_idx idxs ni pidx pf nf hb = Inr i"
    using assms euclid by (simp add: per_instance_dep_idx_def)
  show "\<exists>i < pf. single_index_dep_idx ni k pf (Some gs) None = Inr i"
    using assms euclid by (simp add: single_index_dep_idx_def)
  show "\<exists>i. single_index_dep_idx ni k pf None peg = Inr i \<and> find_pred_index ni k pf = Inr i
      \<and> (i < pf \<longleftrightarrow> 0 \<le> int ni + k \<or> int pf dvd int ni + k)"
    using find_pred_index_in_range [OF assms(1,2), of ni k] by (auto simp: single_index_dep_idx_def)
  assume g: "0 \<le> k \<and> k < int eg \<and> (ni div gs + 1) * eg \<le> pf"
  have two: "(2::nat) ^ 63 < 2 ^ 64" by simp
  have "eg \<le> (ni div gs + 1) * eg" by simp
  then have "eg < 2 ^ 64" using g assms(2) two by linarith
  then have "int eg < 2 ^ 64" by simp
  then have "as_usize k = nat k" using g by (intro as_usize_nonneg) linarith+
  moreover have "nat k < eg" using g by linarith
  moreover have "(ni div gs + 1) * eg = ni div gs * eg + eg" by (simp add: algebra_simps)
  ultimately have i: "ni div gs * eg + as_usize k < (ni div gs + 1) * eg" by linarith
  then have "(ni div gs * eg + as_usize k) mod 2 ^ 64 = ni div gs * eg + as_usize k"
    using g assms(2) two by (intro mod_less) linarith
  then show "\<exists>i < pf. single_index_dep_idx ni k pf (Some gs) (Some eg) = Inr i
      \<and> ni div gs * eg \<le> i \<and> i < (ni div gs + 1) * eg"
    using i g assms(5) by (intro exI [of _ "ni div gs * eg + as_usize k"]) (simp add: single_index_dep_idx_def)
qed

theorem read_index_in_bounds_witness:
  "(\<exists>i < 8. single_index_dep_idx 7 1 8 (Some 3) (Some 2) = Inr i \<and> 4 \<le> i \<and> i < 6)
   \<and> (\<exists>i. find_pred_index 0 (- 1) 8 = Inr i \<and> \<not> i < 8)"
proof -
  have "length (replicate 12 (0::int)) = 12" by simp
  note b = read_index_in_bounds [OF _ _ this, where pf = 8 and gs = 3 and eg = 2 and pidx = 0 and hb = False and peg = None]
  show ?thesis using b [of 7 1] b [of 0 "- 1"] by auto
qed

end
