(* ===== verification/Runtime_State.thy ===== *)
theory Runtime_State
  imports Arg_Resolution Node_Cache
begin

text \<open>
  The state the runtime threads share (\<^verbatim>\<open>runtime/shared_data.rs\<close>): configuration, the caches
  computed from the graph, and the per-slot state. Every atomic operation is one step on this
  record. The vectors with one element per slot have the same length (\<^verbatim>\<open>config.slots\<close>); an
  operation on a slot outside them panics.
\<close>

unbundle bit_operations_syntax

section \<open>Configuration\<close>

record rt_config = arg_config +
  cfg_slots :: nat
  cfg_max_frames :: nat
  cfg_frame_timeout_ms :: nat
  cfg_slot_priority :: bool
  cfg_coalesce_barriers :: bool
  cfg_inline_continuation :: bool
  cfg_no_fanout_bulk :: bool
  cfg_flush_threshold :: nat
  cfg_batch_size :: nat
  cfg_join_stream :: bool
  cfg_dispatch_chunk :: nat

text \<open>The part argument resolution reads.\<close>

definition args_of :: "rt_config \<Rightarrow> arg_config" where
  "args_of cfg = arg_config.truncate cfg"

lemma args_of_simps [simp]:
  "cfg_workers (args_of cfg) = cfg_workers cfg"
  "cfg_single_slot_mode (args_of cfg) = cfg_single_slot_mode cfg"
  by (simp_all add: args_of_def arg_config.defs)

text \<open>The network part of a graph that the runtime reads (\<^verbatim>\<open>GraphNetworkConfig\<close>): packets per
  frame and the plugin functions on packets; sockets are left out.\<close>

record net_config =
  nc_frame_packets :: nat
  nc_extract :: "func_ref option"
  nc_id_function :: "func_ref option"
  nc_index_function :: "(func_ref option \<times> arg list) option"

record graph_cache =
  gc_graph :: graph
  gc_network :: "net_config option"
  gc_node_cache :: "cache_entry list"
  gc_arena :: successor_arena
  gc_pred_group_by :: "nat option list list"
  gc_init_objects :: "cm_types list list"
  gc_total_tasks :: u64
  gc_total_cond_tasks :: u64

section \<open>Slots\<close>

datatype slot_state = Active | Buffering | Inactive

definition FRAME_SLOT_EMPTY :: u64 where
  "FRAME_SLOT_EMPTY = - 1"

record slot_data =
  generation :: "u64 list"
  pending_tasks :: "u64 list"
  pending_cond_tasks :: "u64 list"
  processing_count :: "u64 list"
  needs_check :: "bool list"
  packet_counters :: "u64 list"
  last_packet_ns :: "u64 list"
  packet_complete :: "bool list"
  frame_id :: "nat list"
  active_bitmap :: u64
  cond_instances_to_spawn :: "u64 list list"
  fanout_bulk_arrived :: "u64 list list"
  slot_states :: "slot_state list"
  running_frames :: "(nat \<times> nat) list"
  frame_slot_map :: "u64 list"
  slot_buffers :: "(node_info \<times> cm_types option) list list"
  last_assigned :: nat

text \<open>A task handed to the scheduler: what \<^verbatim>\<open>send_to_scheduler\<close> looks up for it.\<close>

record sched_task =
  st_node :: node_info
  st_func :: func_ref
  st_priority :: priority
  st_group :: nat
  st_args :: "cm_types list option"

text \<open>The calls into plugin code, in order; a plugin function has no other access to this state.\<close>

datatype plugin_call =
    Call func_ref "cm_types list"
  | BulkCall string nat nat "cm_types list"

text \<open>The network side (\<^verbatim>\<open>NetworkInfra\<close>): frames dropped, packets parked until the admission
  window reaches their frame (a map ordered by frame), and the frame numbered 0.\<close>

definition USIZE_MAX :: nat where
  "USIZE_MAX = 2 ^ 64 - 1"

record net_infra =
  frame_packets :: nat
  receive_finished :: bool
  frames_receive_counter :: nat
  dropped_frames :: nat
  frame_dropped :: "bool list"
  pending_frames :: "(nat \<times> cm_types list) list"
  pending_count :: u64
  frame_id_base :: nat

record rt_state = slot_data +
  initial_prep_done :: bool
  net :: net_infra
  resolution_state :: multi_threaded_counter
  node_results :: result_map
  scheduled :: "sched_task list"
  batch_queue :: "node_info list"
  stale_tasks_dropped :: u64
  frame_complete_counter :: nat
  shutdown_flag :: bool
  plugin_calls :: "plugin_call list"

text \<open>The vectors have one element per slot, the tables one row per slot and one cell per node.\<close>

definition slots_shape :: "nat \<Rightarrow> 'a slot_data_scheme \<Rightarrow> bool" where
  "slots_shape n s \<longleftrightarrow>
     length (generation s) = n \<and> length (pending_tasks s) = n \<and> length (pending_cond_tasks s) = n
     \<and> length (processing_count s) = n \<and> length (needs_check s) = n \<and> length (packet_counters s) = n
     \<and> length (last_packet_ns s) = n \<and> length (packet_complete s) = n \<and> length (frame_id s) = n
     \<and> length (cond_instances_to_spawn s) = n \<and> length (fanout_bulk_arrived s) = n
     \<and> length (slot_states s) = n \<and> length (slot_buffers s) = n"

definition slot_gen :: "nat \<Rightarrow> 'a slot_data_scheme \<Rightarrow> u32" where
  "slot_gen slot s = ucast (generation s ! slot)"

text \<open>What a task sees when it reads the store in this state.\<close>

definition view_of :: "rt_state \<Rightarrow> view" where
  "view_of s = \<lparr>v_results = lookup (node_results s), v_shutdown = shutdown_flag s, v_generation = generation s\<rparr>"

section \<open>Checked access to vectors\<close>

definition vec_at :: "'a list \<Rightarrow> nat \<Rightarrow> 'a result" where
  "vec_at xs i = (if i < length xs then Inr (xs ! i) else Inl IndexOutOfBounds)"

definition vec_modify :: "('a \<Rightarrow> 'a) \<Rightarrow> nat \<Rightarrow> 'a list \<Rightarrow> 'a list result" where
  "vec_modify f i xs = (if i < length xs then Inr (xs[i := f (xs ! i)]) else Inl IndexOutOfBounds)"

text \<open>\<^verbatim>\<open>fetch_add\<close> and \<^verbatim>\<open>fetch_sub\<close> wrap.\<close>

definition fetch_add :: "nat \<Rightarrow> nat \<Rightarrow> u64 list \<Rightarrow> u64 list result" where
  "fetch_add n = vec_modify (\<lambda>w. w + word_of_nat n)"

definition fetch_sub :: "nat \<Rightarrow> nat \<Rightarrow> u64 list \<Rightarrow> u64 list result" where
  "fetch_sub n = vec_modify (\<lambda>w. w - word_of_nat n)"

lemma vec_at_Inr [simp]: "vec_at xs i = Inr x \<longleftrightarrow> i < length xs \<and> xs ! i = x"
  by (auto simp: vec_at_def)

lemma vec_modify_Inr [simp]: "vec_modify f i xs = Inr ys \<longleftrightarrow> i < length xs \<and> ys = xs[i := f (xs ! i)]"
  by (auto simp: vec_modify_def)

lemma fetch_Inr [simp]:
  "fetch_add n i xs = Inr ys \<longleftrightarrow> i < length xs \<and> ys = xs[i := xs ! i + word_of_nat n]"
  "fetch_sub n i xs = Inr ys \<longleftrightarrow> i < length xs \<and> ys = xs[i := xs ! i - word_of_nat n]"
  by (auto simp: fetch_add_def fetch_sub_def)

lemma vec_at_ok: "i < length xs \<Longrightarrow> vec_at xs i = Inr (xs ! i)"
  by simp

lemma fetch_ok:
  "i < length xs \<Longrightarrow> fetch_add n i xs = Inr (xs[i := xs ! i + word_of_nat n])"
  "i < length xs \<Longrightarrow> fetch_sub n i xs = Inr (xs[i := xs ! i - word_of_nat n])"
  by simp_all

section \<open>Building the runtime\<close>

definition MAX_SLOTS :: nat where
  "MAX_SLOTS = 64"

datatype build_error =
    SlotsTooFew
  | SlotsTooMany nat
  | FramesTooFew
  | QueueCapacityZero
  | ReceiversMissing
  | BuildPanic panic

definition check_receiver_threads :: "bool \<Rightarrow> nat \<Rightarrow> build_error option" where
  "check_receiver_threads has_network receiver_threads =
     (if has_network \<and> receiver_threads = 0 then Some ReceiversMissing else None)"

text \<open>\<^verbatim>\<open>next_power_of_two\<close>: doubling from 1.\<close>

fun doubled_until :: "nat \<Rightarrow> nat \<Rightarrow> nat \<Rightarrow> nat" where
  "doubled_until 0 p n = p"
| "doubled_until (Suc fuel) p n = (if n \<le> p then p else doubled_until fuel (2 * p) n)"

definition next_power_of_two :: "nat \<Rightarrow> nat" where
  "next_power_of_two n = doubled_until n 1 n"

text \<open>The thread counts of the scheduler, and the build options outside the configuration.\<close>

record scheduler_info =
  si_workers :: nat
  si_system_threads :: nat

record build_options =
  bo_receiver_threads :: nat
  bo_batch_queue_capacity :: nat
  bo_reclaim :: "bool option"

text \<open>A run that joins a stream numbers its frames from the first one received.\<close>

definition initial_net :: "rt_config \<Rightarrow> nat \<Rightarrow> net_infra" where
  "initial_net cfg slots =
     \<lparr>frame_packets = 0, receive_finished = False, frames_receive_counter = 0, dropped_frames = 0,
      frame_dropped = replicate (cfg_max_frames cfg + slots) False,
      pending_frames = [], pending_count = 0,
      frame_id_base = (if cfg_join_stream cfg then USIZE_MAX else 0)\<rparr>"

definition initial_state :: "net_infra \<Rightarrow> nat \<Rightarrow> slot_counters \<Rightarrow> multi_threaded_counter \<Rightarrow> result_map \<Rightarrow> rt_state" where
  "initial_state infra slots sc counter results =
     \<lparr>generation = replicate slots 0,
      pending_tasks = map word_of_nat (sc_pending_tasks sc),
      pending_cond_tasks = map word_of_nat (sc_pending_cond_tasks sc),
      processing_count = replicate slots 0, needs_check = replicate slots False,
      packet_counters = replicate slots 0, last_packet_ns = replicate slots 0,
      packet_complete = replicate slots False, frame_id = replicate slots USIZE_MAX,
      active_bitmap = 0, cond_instances_to_spawn = sc_cond_instances_to_spawn sc,
      fanout_bulk_arrived = sc_fanout_bulk_arrived sc, slot_states = replicate slots Inactive,
      running_frames = [],
      frame_slot_map = replicate (next_power_of_two (2 * slots)) FRAME_SLOT_EMPTY,
      slot_buffers = replicate slots [], last_assigned = 0,
      initial_prep_done = False, net = infra,
      resolution_state = counter, node_results = results, scheduled = [], batch_queue = [],
      stale_tasks_dropped = 0, frame_complete_counter = 0, shutdown_flag = False, plugin_calls = []\<rparr>"

definition build_runtime ::
  "rt_config \<Rightarrow> graph_cache \<Rightarrow> nat list \<Rightarrow> scheduler_info \<Rightarrow> build_options
     \<Rightarrow> build_error + (rt_config \<times> rt_state)" where
  "build_runtime cfg gc dep_counts si opts =
     (let slots = min (cfg_slots cfg) (cfg_max_frames cfg)
      in if slots < 1 then Inl SlotsTooFew
         else if MAX_SLOTS < slots then Inl (SlotsTooMany slots)
         else if cfg_max_frames cfg < 1 then Inl FramesTooFew
         else if bo_batch_queue_capacity opts = 0 then Inl QueueCapacityZero
         else
           case check_receiver_threads (gc_network gc \<noteq> None) (bo_receiver_threads opts) of
             Some e \<Rightarrow> Inl e
           | None \<Rightarrow>
               let cfg' = cfg\<lparr>cfg_slots := slots, cfg_workers := si_workers si,
                              cfg_single_slot_mode := (slots = 1)\<rparr>;
                   nodes = g_nodes (gc_graph gc);
                   results = result_map_new nodes (slots + si_system_threads si + 1);
                   results' = (case bo_reclaim opts of
                       Some spawned \<Rightarrow> with_deferred_reclaim spawned results
                     | None \<Rightarrow> results)
               in case counter_new slots dep_counts nodes of
                    Inl p \<Rightarrow> Inl (BuildPanic p)
                  | Inr counter \<Rightarrow>
                      Inr (cfg', initial_state (initial_net cfg slots) slots (build_slot_counters slots (gc_node_cache gc)) counter results'))"

lemma doubled_until_props:
  assumes "0 < p" "n \<le> p * 2 ^ fuel"
  shows "\<exists>k. doubled_until fuel p n = p * 2 ^ k" "n \<le> doubled_until fuel p n"
    "p < 2 * n \<Longrightarrow> doubled_until fuel p n < 2 * n"
proof -
  have "(\<exists>k. doubled_until fuel p n = p * 2 ^ k) \<and> n \<le> doubled_until fuel p n
      \<and> (p < 2 * n \<longrightarrow> doubled_until fuel p n < 2 * n)"
    using assms
  proof (induction fuel p n rule: doubled_until.induct)
    case (1 p n)
    then show ?case by (auto intro: exI [of _ 0])
  next
    case (2 fuel p n)
    show ?case
    proof (cases "n \<le> p")
      case True
      then show ?thesis by (auto intro: exI [of _ 0])
    next
      case False
      then obtain k where "doubled_until fuel (2 * p) n = 2 * p * 2 ^ k" "n \<le> doubled_until fuel (2 * p) n"
        "2 * p < 2 * n \<longrightarrow> doubled_until fuel (2 * p) n < 2 * n"
        using "2.IH" "2.prems" by (auto simp: mult.assoc)
      then show ?thesis using False by (auto intro: exI [of _ "Suc k"])
    qed
  qed
  then show "\<exists>k. doubled_until fuel p n = p * 2 ^ k" "n \<le> doubled_until fuel p n"
    "p < 2 * n \<Longrightarrow> doubled_until fuel p n < 2 * n" by blast+
qed

lemma next_power_of_two:
  "\<exists>k. next_power_of_two n = 2 ^ k" "n \<le> next_power_of_two n"
  "0 < n \<Longrightarrow> next_power_of_two n < 2 * n"
proof -
  have "n \<le> 1 * 2 ^ n" using less_exp [of n] by simp
  note d = doubled_until_props [of 1 n n, OF _ this, folded next_power_of_two_def]
  show "\<exists>k. next_power_of_two n = 2 ^ k" "n \<le> next_power_of_two n" "0 < n \<Longrightarrow> next_power_of_two n < 2 * n"
    using d by simp_all
qed

lemma initial_state_shape:
  "slots_shape slots (initial_state infra slots (build_slot_counters slots cache) counter results)"
  by (simp add: slots_shape_def initial_state_def build_slot_counters_def)

text \<open>Building the runtime. It is refused for the first violated constraint, in the order
  slots, queue capacity, receivers; slots are clamped to the frame budget first, so a budget of no
  frames is reported as too few slots, and the error about frames is never given. A runtime that
  is built has between 1 and 64 slots, one element per slot in every per-slot vector, all slots
  inactive, an empty frame table whose length is a power of two of at least twice the slots, and
  single-slot mode exactly if it has one slot.\<close>

theorem build_runtime_checks:
  "case build_runtime cfg gc dep_counts si opts of
     Inr (cfg', s) \<Rightarrow>
       cfg_slots cfg' = min (cfg_slots cfg) (cfg_max_frames cfg) \<and> 1 \<le> cfg_slots cfg' \<and> cfg_slots cfg' \<le> 64
       \<and> (cfg_single_slot_mode cfg' \<longleftrightarrow> cfg_slots cfg' = 1) \<and> cfg_workers cfg' = si_workers si
       \<and> slots_shape (cfg_slots cfg') s \<and> set (slot_states s) = {Inactive} \<and> running_frames s = []
       \<and> set (frame_slot_map s) = {FRAME_SLOT_EMPTY} \<and> (\<exists>k. length (frame_slot_map s) = 2 ^ k)
       \<and> 2 * cfg_slots cfg' \<le> length (frame_slot_map s)
       \<and> bo_batch_queue_capacity opts \<noteq> 0 \<and> \<not> (gc_network gc \<noteq> None \<and> bo_receiver_threads opts = 0)
   | Inl e \<Rightarrow>
       e = (if cfg_slots cfg = 0 \<or> cfg_max_frames cfg = 0 then SlotsTooFew
            else if 64 < min (cfg_slots cfg) (cfg_max_frames cfg) then SlotsTooMany (min (cfg_slots cfg) (cfg_max_frames cfg))
            else if bo_batch_queue_capacity opts = 0 then QueueCapacityZero
            else if gc_network gc \<noteq> None \<and> bo_receiver_threads opts = 0 then ReceiversMissing
            else e)
       \<and> (\<forall>p. e = BuildPanic p \<longleftrightarrow>
            0 < cfg_slots cfg \<and> 0 < cfg_max_frames cfg \<and> min (cfg_slots cfg) (cfg_max_frames cfg) \<le> 64
            \<and> bo_batch_queue_capacity opts \<noteq> 0 \<and> \<not> (gc_network gc \<noteq> None \<and> bo_receiver_threads opts = 0)
            \<and> counter_new (min (cfg_slots cfg) (cfg_max_frames cfg)) dep_counts (g_nodes (gc_graph gc)) = Inl p)"
proof (cases "build_runtime cfg gc dep_counts si opts")
  case (Inl e)
  then show ?thesis
    by (auto simp: build_runtime_def check_receiver_threads_def MAX_SLOTS_def Let_def
        split: if_splits option.splits sum.splits)
next
  case (Inr r)
  obtain cfg' s where r: "r = (cfg', s)" by (cases r)
  let ?slots = "min (cfg_slots cfg) (cfg_max_frames cfg)"
  obtain infra counter results where b: "1 \<le> ?slots" "?slots \<le> 64"
    "s = initial_state infra ?slots (build_slot_counters ?slots (gc_node_cache gc)) counter results"
    "cfg' = cfg\<lparr>cfg_slots := ?slots, cfg_workers := si_workers si, cfg_single_slot_mode := (?slots = 1)\<rparr>"
    "bo_batch_queue_capacity opts \<noteq> 0" "\<not> (gc_network gc \<noteq> None \<and> bo_receiver_threads opts = 0)"
    using Inr by (auto simp: r build_runtime_def check_receiver_threads_def MAX_SLOTS_def Let_def
        split: if_splits option.splits sum.splits)
  have pos: "next_power_of_two (2 * ?slots) \<noteq> 0"
    using b(1) next_power_of_two(2) [of "2 * ?slots"] by linarith
  have "slots_shape ?slots s" unfolding b(3) by (rule initial_state_shape)
  moreover have "set (slot_states s) = {Inactive}" "running_frames s = []"
    "set (frame_slot_map s) = {FRAME_SLOT_EMPTY}" "length (frame_slot_map s) = next_power_of_two (2 * ?slots)"
    using b(1) pos by (simp_all add: b(3) initial_state_def set_replicate_conv_if)
  ultimately show ?thesis
    using b next_power_of_two(1,2) [of "2 * ?slots"] by (simp add: Inr r)
qed

end
