(* ===== verification/Task_Execution.thy ===== *)
theory Task_Execution
  imports Runtime_State Delivery
begin

text \<open>
  Task dispatch (\<^verbatim>\<open>runtime/scheduling.rs\<close>) and worker-side execution
  (\<^verbatim>\<open>runtime/task_execution.rs\<close>): the generation stamp and the stale-task guard, single and bulk
  execution, argument templates, fanout-bulk counters, and the resolution of successors on the
  worker. A task runs in one step on the state in which the results it reads are present; one that
  would have to wait is the value \<^const>\<open>None\<close>, and can run in a later state. Timing, tracing and
  the recording of jobs are left out.
\<close>

unbundle bit_operations_syntax

section \<open>Steps that may wait\<close>

type_synonym 'a step = "'a result option"

definition sbind :: "'a step \<Rightarrow> ('a \<Rightarrow> 'b step) \<Rightarrow> 'b step" where
  "sbind m f = (case m of None \<Rightarrow> None | Some (Inl e) \<Rightarrow> Some (Inl e) | Some (Inr a) \<Rightarrow> f a)"

lemma sbind_simps [simp]:
  "sbind None f = None" "sbind (Some (Inl e)) f = Some (Inl e)" "sbind (Some (Inr a)) f = f a"
  by (simp_all add: sbind_def)

lemma sbind_Some: "sbind m f = Some (Inr b) \<longleftrightarrow> (\<exists>a. m = Some (Inr a) \<and> f a = Some (Inr b))"
  by (auto simp: sbind_def split: option.splits sum.splits)

text \<open>A computation on views, run while the state stays as it is.\<close>

definition at_once :: "'a timed \<Rightarrow> 'a step" where
  "at_once m = map_option (map_sum id fst) (m 0)"

section \<open>Fanout-bulk arrivals\<close>

definition fanout_bulk_increment :: "u64 \<Rightarrow> u32 \<Rightarrow> nat \<Rightarrow> u64 \<times> nat" where
  "fanout_bulk_increment packed gen cnt =
     (let cur = lazy_val 0 gen packed
      in (lazy_update 0 gen (\<lambda>v. saturating_add v (as_u32 cnt)) packed, unat cur + cnt))"

definition fanout_chunks :: "rt_config \<Rightarrow> succ_edge \<Rightarrow> nat \<Rightarrow> nat \<Rightarrow> u32 \<Rightarrow> node_info list" where
  "fanout_chunks cfg e slot pred_index gen =
     chunk_infos (succ_id e) slot pred_index gen
       (chunks 0 (succ_factor e) (max (min (cfg_workers cfg) (succ_factor e)) 1))"

definition fanout_enabled :: "rt_config \<Rightarrow> bool" where
  "fanout_enabled cfg \<longleftrightarrow>
     \<not> cfg_no_fanout_bulk cfg \<and> (\<not> cfg_inline_continuation cfg \<or> cfg_workers cfg = 1)"

text \<open>The arrivals of ready instances at a fanout-bulk successor: the tasks to dispatch, none
  before the last instance has arrived.\<close>

definition fanout_arrive ::
  "rt_config \<Rightarrow> node_info \<Rightarrow> u32 \<Rightarrow> succ_edge \<Rightarrow> nat \<Rightarrow> rt_state \<Rightarrow> (rt_state \<times> node_info list) result" where
  "fanout_arrive cfg ni gen e cnt s =
     rbind (vec_at (fanout_bulk_arrived s) (ni_slot ni)) (\<lambda>row.
     rbind (vec_at row (succ_id e)) (\<lambda>packed.
       let (packed', arrived) = fanout_bulk_increment packed gen cnt;
           s' = s\<lparr>fanout_bulk_arrived := (fanout_bulk_arrived s)[ni_slot ni := row[succ_id e := packed']]\<rparr>
       in Inr (s', if succ_factor e \<le> arrived
                   then fanout_chunks cfg e (ni_slot ni) (ni_index ni) gen else [])))"

section \<open>Dispatch\<close>

text \<open>What the runtime calls outside itself: the plugin functions, the function registry, and the
  scheduler's table of affinity groups.\<close>

record services =
  sv_plugin :: "func_ref \<Rightarrow> cm_types list \<Rightarrow> cm_types"
  sv_registry :: registry
  sv_affinity :: "worker_range_spec option \<Rightarrow> nat"

definition priority_of_post :: "node \<Rightarrow> priority" where
  "priority_of_post n = to_priority (node_prio n)"

definition prepare_task ::
  "services \<Rightarrow> graph_cache \<Rightarrow> rt_state \<Rightarrow> node_info \<times> cm_types list option \<times> func_ref option
     \<Rightarrow> sched_task result" where
  "prepare_task sv gc s req =
     (case req of (ni, args, custom) \<Rightarrow>
        if post_node ni then
          (case post_nodes (gc_graph gc) of
             None \<Rightarrow> Inl ExplicitPanic
           | Some nodes \<Rightarrow>
               rbind (vec_at nodes (ni_id ni)) (\<lambda>n.
               rbind (case custom of Some f \<Rightarrow> Inr f | None \<Rightarrow> resolve_func (sv_registry sv) (node_func_name n)) (\<lambda>f.
                 Inr \<lparr>st_node = ni, st_func = f, st_priority = priority_of_post n,
                      st_group = sv_affinity sv (node_use_workers n), st_args = args\<rparr>)))
        else
          rbind (vec_at (gc_node_cache gc) (ni_id ni)) (\<lambda>e.
          rbind (vec_at (generation s) (ni_slot ni)) (\<lambda>g.
            Inr \<lparr>st_node = ni\<lparr>ni_gen := ucast g\<rparr>, st_func = unwrap_or custom (ce_func_ptr e),
                 st_priority = ce_priority e, st_group = ce_affinity_group e, st_args = args\<rparr>)))"

fun send_to_scheduler ::
  "services \<Rightarrow> graph_cache \<Rightarrow> (node_info \<times> cm_types list option \<times> func_ref option) list
     \<Rightarrow> rt_state \<Rightarrow> rt_state result" where
  "send_to_scheduler sv gc [] s = Inr s"
| "send_to_scheduler sv gc (req # reqs) s =
     rbind (prepare_task sv gc s req) (\<lambda>t.
       send_to_scheduler sv gc reqs (s\<lparr>scheduled := scheduled s @ [t]\<rparr>))"

text \<open>Ready nodes are submitted without arguments: the worker builds them.\<close>

definition plain_requests :: "node_info list \<Rightarrow> (node_info \<times> cm_types list option \<times> func_ref option) list" where
  "plain_requests = map (\<lambda>ni. (ni, None, None))"

section \<open>Worker-side resolution\<close>

fun worker_edges ::
  "rt_config \<Rightarrow> node_info \<Rightarrow> u32 \<Rightarrow> succ_edge list \<Rightarrow> rt_state \<Rightarrow> node_info list
     \<Rightarrow> (rt_state \<times> node_info list) result" where
  "worker_edges cfg ni gen [] s sched = Inr (s, sched)"
| "worker_edges cfg ni gen (e # es) s sched =
     (let (c, ready) = decrement_and_collect_ready (ni_slot ni) (ni_index ni) e (bulk_count ni) gen
                         (resolution_state s);
          s1 = s\<lparr>resolution_state := c\<rparr>
      in if se_is_fanout_bulk e \<and> fanout_enabled cfg \<and> ready \<noteq> [] then
           rbind (fanout_arrive cfg ni gen e (length ready) s1) (\<lambda>(s2, tasks).
             worker_edges cfg ni gen es s2 (sched @ tasks))
         else
           worker_edges cfg ni gen es s1
             (push_ready_chunked ready (succ_id e) (ni_slot ni) (ni_index ni) (cfg_workers cfg)
                (cfg_coalesce_barriers cfg) sched))"

text \<open>With inline continuation the last ready task stays on this worker.\<close>

definition reserve_inline :: "rt_config \<Rightarrow> u32 \<Rightarrow> node_info list \<Rightarrow> node_info list \<times> node_info option" where
  "reserve_inline cfg gen sched =
     (if cfg_inline_continuation cfg \<and> sched \<noteq> [] then (butlast sched, Some ((last sched)\<lparr>ni_gen := gen\<rparr>))
      else (sched, None))"

definition finish_processing :: "nat \<Rightarrow> 'a slot_data_scheme \<Rightarrow> 'a slot_data_scheme result" where
  "finish_processing slot s =
     rbind (fetch_sub 1 slot (processing_count s)) (\<lambda>pc.
     rbind (vec_modify (\<lambda>_. True) slot (needs_check s)) (\<lambda>nc.
       Inr (s\<lparr>processing_count := pc, needs_check := nc\<rparr>)))"

definition count_completed :: "cache_entry \<Rightarrow> node_info \<Rightarrow> 'a slot_data_scheme \<Rightarrow> 'a slot_data_scheme result" where
  "count_completed e ni s =
     (if ce_is_condition e then
        rbind (fetch_sub (bulk_count ni) (ni_slot ni) (pending_cond_tasks s)) (\<lambda>p.
          Inr (s\<lparr>pending_cond_tasks := p\<rparr>))
      else
        rbind (fetch_sub (bulk_count ni) (ni_slot ni) (pending_tasks s)) (\<lambda>p.
          Inr (s\<lparr>pending_tasks := p\<rparr>)))"

definition worker_resolve_successors ::
  "rt_config \<Rightarrow> graph_cache \<Rightarrow> services \<Rightarrow> node_info \<Rightarrow> rt_state \<Rightarrow> (rt_state \<times> node_info option) result" where
  "worker_resolve_successors cfg gc sv ni s =
     rbind (fetch_add 1 (ni_slot ni) (processing_count s)) (\<lambda>pc.
     let s1 = s\<lparr>processing_count := pc\<rparr> in
     rbind (vec_at (generation s1) (ni_slot ni)) (\<lambda>g.
     if ucast g \<noteq> ni_gen ni then
       rbind (finish_processing (ni_slot ni) s1) (\<lambda>s2. Inr (s2, None))
     else
       rbind (vec_at (gc_node_cache gc) (ni_id ni)) (\<lambda>entry.
       rbind (count_completed entry ni s1) (\<lambda>s2.
       rbind (edges_for (gc_arena gc) (ni_id ni)) (\<lambda>es.
       rbind (worker_edges cfg ni (ucast g) es s2 []) (\<lambda>(s3, sched).
       let (rest, inline) = reserve_inline cfg (ucast g) sched in
       rbind (send_to_scheduler sv gc (plain_requests rest) s3) (\<lambda>s4.
       rbind (finish_processing (ni_slot ni) s4) (\<lambda>s5. Inr (s5, inline)))))))))"

section \<open>Execution\<close>

definition has_dynamic :: "arg_cache_entry \<Rightarrow> bool" where
  "has_dynamic ac \<longleftrightarrow> buffer_ref_indexes ac \<noteq> [] \<or> rt_idxs_indexes ac \<noteq> []
     \<or> rt_workers_indexes ac \<noteq> [] \<or> res_indexes ac \<noteq> []"

definition workers_arg :: "rt_config \<Rightarrow> arg_cache_entry \<Rightarrow> nat" where
  "workers_arg cfg ac = (if rt_workers_indexes ac \<noteq> [] then cfg_workers cfg else 0)"

text \<open>A bulk task holds the read guards of its shared objects for the whole range.\<close>

fun hold_guard :: "cm_types \<Rightarrow> cm_types" where
  "hold_guard (CmAny h) = CmAnyHeld h"
| "hold_guard v = v"

definition reader_of :: "node_info \<Rightarrow> rt_state \<Rightarrow> reader" where
  "reader_of ni s = \<lparr>rd_slot = ni_slot ni, rd_exec_slot = ni_slot ni, rd_exec_gen = ni_gen ni,
     rd_view = (\<lambda>_. view_of s)\<rparr>"

definition call_plugin :: "services \<Rightarrow> func_ref \<Rightarrow> cm_types list \<Rightarrow> rt_state \<Rightarrow> cm_types \<times> rt_state" where
  "call_plugin sv func args s = (sv_plugin sv func args, s\<lparr>plugin_calls := plugin_calls s @ [Call func args]\<rparr>)"

definition store_result :: "cell \<Rightarrow> cm_types \<Rightarrow> rt_state \<Rightarrow> rt_state result" where
  "store_result c r s = rbind (rm_set c r (node_results s)) (\<lambda>m. Inr (s\<lparr>node_results := m\<rparr>))"

text \<open>The per-cell loop of a bulk task: the buffer is patched in place from cell to cell. The flag
  says that the task was found stale.\<close>

fun bulk_cells ::
  "rt_config \<Rightarrow> graph_cache \<Rightarrow> services \<Rightarrow> func_ref \<Rightarrow> cache_entry \<Rightarrow> node_info \<Rightarrow> nat list
     \<Rightarrow> cm_types list \<Rightarrow> rt_state \<Rightarrow> (rt_state \<times> bool) step" where
  "bulk_cells cfg gc sv func entry ni [] buf s = Some (Inr (s, False))"
| "bulk_cells cfg gc sv func entry ni (i # is) buf s =
     sbind (if has_dynamic (ce_arg_cache entry) then
              at_once (populate_dynamic_args_into (args_of cfg) (gc_pred_group_by gc) (reader_of ni s)
                (ce_arg_cache entry) i i (workers_arg cfg (ce_arg_cache entry)) buf)
            else Some (Inr (buf, False))) (\<lambda>(buf', stale).
       if stale then Some (Inr (s, True))
       else
         let (r, s1) = call_plugin sv func buf' s
         in sbind (Some (if ce_needs_result_store entry then store_result (ni_slot ni, ni_id ni, i) r s1
                         else Inr s1)) (\<lambda>s2.
              bulk_cells cfg gc sv func entry ni is buf' s2))"

definition execute_bulk_task ::
  "rt_config \<Rightarrow> graph_cache \<Rightarrow> services \<Rightarrow> func_ref \<Rightarrow> node_info \<Rightarrow> rt_state
     \<Rightarrow> (rt_state \<times> node_info option) step" where
  "execute_bulk_task cfg gc sv func ni s =
     sbind (Some (vec_at (gc_node_cache gc) (ni_id ni))) (\<lambda>entry.
       let buf = map hold_guard (ac_args (ce_arg_cache entry))
       in sbind (case ce_bulk_func entry of
              Some bulk_fn \<Rightarrow>
                if \<not> ce_needs_result_store entry then
                  Some (Inr (s\<lparr>plugin_calls := plugin_calls s
                    @ [BulkCall bulk_fn (ni_index ni) (ni_index ni + bulk_count ni) buf]\<rparr>, False))
                else bulk_cells cfg gc sv func entry ni (instances ni) buf s
            | None \<Rightarrow> bulk_cells cfg gc sv func entry ni (instances ni) buf s) (\<lambda>(s1, stale).
          if stale then Some (Inr (s1, None))
          else Some (worker_resolve_successors cfg gc sv ni s1)))"

text \<open>The argument templates of a worker thread, one per node it has run.\<close>

type_synonym templates = "cm_types list option list"

definition take_template :: "node_id \<Rightarrow> arg_cache_entry \<Rightarrow> templates \<Rightarrow> templates \<times> cm_types list" where
  "take_template nid ac tpls =
     (let tpls' = (if length tpls \<le> nid then tpls @ replicate (nid + 1 - length tpls) None else tpls)
      in (tpls', unwrap_or (tpls' ! nid) (ac_args ac)))"

text \<open>The arguments of a single task, and whether it is stale. A stale patch stays in the template.\<close>

definition single_args ::
  "rt_config \<Rightarrow> graph_cache \<Rightarrow> cache_entry \<Rightarrow> node_info \<Rightarrow> templates \<Rightarrow> rt_state
     \<Rightarrow> (templates \<times> cm_types list \<times> bool) step" where
  "single_args cfg gc entry ni tpls s =
     (if ce_template_stable entry then
        let (tpls', buf) = take_template (ni_id ni) (ce_arg_cache entry) tpls
        in sbind (at_once (populate_dynamic_args_into (args_of cfg) (gc_pred_group_by gc) (reader_of ni s)
              (ce_arg_cache entry) (ni_index ni) (ni_pred_index ni) (workers_arg cfg (ce_arg_cache entry)) buf))
             (\<lambda>(buf', stale). Some (Inr (tpls'[ni_id ni := Some buf'], buf', stale)))
      else
        sbind (at_once (populate_cached_args_into (args_of cfg) (gc_pred_group_by gc) (reader_of ni s)
            (ce_arg_cache entry) (ni_index ni) (ni_pred_index ni) []))
          (\<lambda>(buf', stale). Some (Inr (tpls, buf', stale))))"

text \<open>After the plugin function has returned: the result is stored if somebody reads it, and the
  completion is resolved here or sent to the resolution threads.\<close>

definition complete_single ::
  "rt_config \<Rightarrow> graph_cache \<Rightarrow> services \<Rightarrow> node_info \<Rightarrow> cm_types \<Rightarrow> rt_state
     \<Rightarrow> (rt_state \<times> node_info option) result" where
  "complete_single cfg gc sv ni r s =
     rbind (vec_at (gc_node_cache gc) (ni_id ni)) (\<lambda>entry.
     rbind (if post_node ni \<or> ce_needs_result_store entry then store_result (cell_of ni) r s else Inr s) (\<lambda>s1.
       if \<not> post_node ni \<and> ce_worker_resolvable entry
       then worker_resolve_successors cfg gc sv ni s1
       else Inr (s1\<lparr>batch_queue := batch_queue s1 @ [ni]\<rparr>, None)))"

definition execute_single_task ::
  "rt_config \<Rightarrow> graph_cache \<Rightarrow> services \<Rightarrow> func_ref \<Rightarrow> node_info \<Rightarrow> cm_types list option
     \<Rightarrow> templates \<Rightarrow> rt_state \<Rightarrow> (templates \<times> rt_state \<times> node_info option) step" where
  "execute_single_task cfg gc sv func ni pre_built_args tpls s =
     sbind (case pre_built_args of
         Some args \<Rightarrow> Some (Inr (tpls, args, False))
       | None \<Rightarrow> sbind (Some (vec_at (gc_node_cache gc) (ni_id ni))) (\<lambda>entry. single_args cfg gc entry ni tpls s))
       (\<lambda>(tpls', args, stale).
          if stale then Some (Inr (tpls', s, None))
          else
            let (r, s1) = call_plugin sv func args s
            in sbind (Some (complete_single cfg gc sv ni r s1)) (\<lambda>(s2, next). Some (Inr (tpls', s2, next))))"

definition execute_task ::
  "rt_config \<Rightarrow> graph_cache \<Rightarrow> services \<Rightarrow> func_ref \<Rightarrow> node_info \<Rightarrow> cm_types list option
     \<Rightarrow> templates \<Rightarrow> rt_state \<Rightarrow> (templates \<times> rt_state \<times> node_info option) step" where
  "execute_task cfg gc sv func ni pre_built_args tpls s =
     sbind (Some (if post_node ni then Inr (ni_gen ni)
                  else rbind (vec_at (generation s) (ni_slot ni)) (\<lambda>g. Inr (ucast g)))) (\<lambda>current_gen.
       if current_gen \<noteq> ni_gen ni then
         Some (Inr (tpls, s\<lparr>stale_tasks_dropped := stale_tasks_dropped s + word_of_nat (max (bulk_count ni) 1)\<rparr>, None))
       else if 1 < bulk_count ni then
         sbind (execute_bulk_task cfg gc sv func ni s) (\<lambda>(s1, next). Some (Inr (tpls, s1, next)))
       else execute_single_task cfg gc sv func ni pre_built_args tpls s)"

text \<open>A worker follows inline continuations until there is none.\<close>

partial_function (option) run_node ::
  "rt_config \<Rightarrow> graph_cache \<Rightarrow> services \<Rightarrow> func_ref \<Rightarrow> node_info \<Rightarrow> cm_types list option
     \<Rightarrow> templates \<Rightarrow> rt_state \<Rightarrow> (templates \<times> rt_state) step" where
  "run_node cfg gc sv func ni pre_built_args tpls s =
     (case execute_task cfg gc sv func ni pre_built_args tpls s of
        None \<Rightarrow> None
      | Some (Inl e) \<Rightarrow> Some (Inl e)
      | Some (Inr (tpls', s', None)) \<Rightarrow> Some (Inr (tpls', s'))
      | Some (Inr (tpls', s', Some next)) \<Rightarrow>
          (case vec_at (gc_node_cache gc) (ni_id next) of
             Inl e \<Rightarrow> Some (Inl e)
           | Inr entry \<Rightarrow> run_node cfg gc sv (ce_func_ptr entry) next None tpls' s'))"

end
