(* ===== verification/Batch_Resolution.thy ===== *)
theory Batch_Resolution
  imports Task_Execution
begin

text \<open>
  The resolution threads' batch protocol (\<^verbatim>\<open>runtime/batch_resolution.rs\<close>,
  \<^verbatim>\<open>runtime/resolution_loop.rs\<close>, \<^verbatim>\<open>runtime/resolution_strategy.rs\<close>): the stale filter on
  the batch queue, results of network packets, task counters, the walk over the successor edges
  with conditions, and the flush to the scheduler. A condition that waits for a result is the
  value \<^const>\<open>None\<close>.
\<close>

unbundle bit_operations_syntax

section \<open>Conditions\<close>

text \<open>The argument positions that carry a condition, in the order in which the set of condition
  nodes is iterated (the hash order of the map is a parameter); nodes without any are skipped.\<close>

definition condition_positions :: "node \<Rightarrow> nat list" where
  "condition_positions n = filter (\<lambda>i. arg_init_condition (node_args n ! i) \<noteq> None) [0..<length (node_args n)]"

fun get_condition_indexes :: "graph \<Rightarrow> node_id list \<Rightarrow> nat list list result" where
  "get_condition_indexes g [] = Inr []"
| "get_condition_indexes g (nid # order) =
     rbind (node_at g nid) (\<lambda>n.
     rbind (get_condition_indexes g order) (\<lambda>rest.
       Inr (if condition_positions n \<noteq> [] then condition_positions n # rest else rest)))"

definition condition_passes ::
  "rt_config \<Rightarrow> graph_cache \<Rightarrow> services \<Rightarrow> nat list list \<Rightarrow> node_info \<Rightarrow> rt_state \<Rightarrow> bool step" where
  "condition_passes cfg gc sv cond_indexes succ s =
     sbind (Some (vec_at (gc_node_cache gc) (ni_id succ))) (\<lambda>entry.
       case ce_node_condition entry of
         Some cond_cache \<Rightarrow>
           sbind (Some (rbind (node_at (gc_graph gc) (ni_id succ)) (\<lambda>n.
               case node_condition n of None \<Rightarrow> Inl ExplicitPanic | Some c \<Rightarrow> Inr c))) (\<lambda>node_cond.
             at_once (evaluate_node_condition (sv_plugin sv) (args_of cfg) (gc_pred_group_by gc)
               (\<lambda>_. view_of s) succ cond_cache node_cond))
       | None \<Rightarrow>
           sbind (Some (vec_at cond_indexes (ce_cond_index entry))) (\<lambda>idxs.
             at_once (conditions_met (args_of cfg) (gc_graph gc) (gc_init_objects gc) (gc_pred_group_by gc)
               (\<lambda>_. view_of s) succ idxs)))"

text \<open>How many instances of a condition node may still be spawned in this generation.\<close>

definition spawn_once :: "u32 \<Rightarrow> u32 \<Rightarrow> u64 \<Rightarrow> u64" where
  "spawn_once factor gen packed = lazy_update factor gen (\<lambda>v. saturating_sub v 1) packed"

definition condition_spawned :: "nat \<Rightarrow> node_id \<Rightarrow> nat \<Rightarrow> u32 \<Rightarrow> 'a slot_data_scheme \<Rightarrow> 'a slot_data_scheme result" where
  "condition_spawned slot succ factor gen s =
     rbind (vec_at (cond_instances_to_spawn s) slot) (\<lambda>row.
     rbind (vec_modify (spawn_once (as_u32 factor) gen) succ row) (\<lambda>row'.
       Inr (s\<lparr>cond_instances_to_spawn := (cond_instances_to_spawn s)[slot := row']\<rparr>)))"

text \<open>A failed instance will not run: it leaves the pending count, and its group is opened again.\<close>

definition condition_failed :: "nat \<Rightarrow> node_info \<Rightarrow> u32 \<Rightarrow> rt_state \<Rightarrow> rt_state result" where
  "condition_failed slot succ gen s =
     rbind (fetch_sub 1 (ni_slot succ) (pending_cond_tasks s)) (\<lambda>p.
     rbind (increment_dependency (ni_slot succ) (ni_id succ) (ni_index succ) gen (resolution_state s)) (\<lambda>(c, _).
       Inr (s\<lparr>pending_cond_tasks := p,
              resolution_state := reset_sent slot (ni_id succ) (ni_index succ) gen c\<rparr>)))"

definition dispatch_condition_successor ::
  "rt_config \<Rightarrow> graph_cache \<Rightarrow> services \<Rightarrow> nat list list \<Rightarrow> node_info \<Rightarrow> node_info \<Rightarrow> u32
     \<Rightarrow> node_info list \<Rightarrow> rt_state \<Rightarrow> (rt_state \<times> node_info list) step" where
  "dispatch_condition_successor cfg gc sv cond_indexes ni succ gen sched s =
     sbind (condition_passes cfg gc sv cond_indexes succ s) (\<lambda>passed.
       if passed then
         sbind (Some (rbind (vec_at (gc_node_cache gc) (ni_id succ)) (\<lambda>entry.
             condition_spawned (ni_slot ni) (ni_id succ) (ce_factor entry) gen s)))
           (\<lambda>s'. Some (Inr (s', sched @ [succ])))
       else sbind (Some (condition_failed (ni_slot ni) succ gen s)) (\<lambda>s'. Some (Inr (s', sched))))"

fun dispatch_ready ::
  "rt_config \<Rightarrow> graph_cache \<Rightarrow> services \<Rightarrow> nat list list \<Rightarrow> node_info \<Rightarrow> succ_edge \<Rightarrow> u32 \<Rightarrow> nat list
     \<Rightarrow> node_info list \<Rightarrow> rt_state \<Rightarrow> (rt_state \<times> node_info list) step" where
  "dispatch_ready cfg gc sv cond_indexes ni e gen [] sched s = Some (Inr (s, sched))"
| "dispatch_ready cfg gc sv cond_indexes ni e gen (r # ready) sched s =
     (let succ = node_info_new (succ_id e) (ni_slot ni) r (ni_index ni)
      in if has_condition_flag e then
           sbind (dispatch_condition_successor cfg gc sv cond_indexes ni succ gen sched s) (\<lambda>(s', sched').
             dispatch_ready cfg gc sv cond_indexes ni e gen ready sched' s')
         else dispatch_ready cfg gc sv cond_indexes ni e gen ready (sched @ [succ]) s)"

section \<open>The walk over the successor edges\<close>

definition condition_exhausted :: "nat \<Rightarrow> succ_edge \<Rightarrow> u32 \<Rightarrow> 'a slot_data_scheme \<Rightarrow> bool result" where
  "condition_exhausted slot e gen s =
     (if has_condition_flag e then
        rbind (vec_at (cond_instances_to_spawn s) slot) (\<lambda>row.
        rbind (vec_at row (succ_id e)) (\<lambda>packed.
          Inr (lazy_val (as_u32 (succ_factor e)) gen packed = 0)))
      else Inr False)"

fun batch_edges ::
  "rt_config \<Rightarrow> graph_cache \<Rightarrow> services \<Rightarrow> nat list list \<Rightarrow> node_info \<Rightarrow> u32 \<Rightarrow> succ_edge list
     \<Rightarrow> node_info list \<Rightarrow> rt_state \<Rightarrow> (rt_state \<times> node_info list) step" where
  "batch_edges cfg gc sv cond_indexes ni gen [] sched s = Some (Inr (s, sched))"
| "batch_edges cfg gc sv cond_indexes ni gen (e # es) sched s =
     (if \<not> passes_filter e (ni_index ni) then batch_edges cfg gc sv cond_indexes ni gen es sched s
      else
        sbind (Some (condition_exhausted (ni_slot ni) e gen s)) (\<lambda>exhausted.
          if exhausted then batch_edges cfg gc sv cond_indexes ni gen es sched s
          else
            let (c, ready) = decrement_and_collect_ready (ni_slot ni) (ni_index ni) e (bulk_count ni) gen
                               (resolution_state s);
                s1 = s\<lparr>resolution_state := c\<rparr>
            in if \<not> has_condition_flag e \<and> se_is_fanout_bulk e \<and> fanout_enabled cfg \<and> ready \<noteq> [] then
                 sbind (Some (fanout_arrive cfg ni gen e (length ready) s1)) (\<lambda>(s2, tasks).
                   batch_edges cfg gc sv cond_indexes ni gen es (sched @ tasks) s2)
               else
                 sbind (dispatch_ready cfg gc sv cond_indexes ni e gen ready sched s1) (\<lambda>(s2, sched2).
                   batch_edges cfg gc sv cond_indexes ni gen es sched2 s2)))"

section \<open>A batch\<close>

text \<open>A batch entry carries the packet of a network completion, and nothing for a compute task,
  whose result the worker has stored.\<close>

definition store_packet :: "node_info \<Rightarrow> cm_types option \<Rightarrow> rt_state \<Rightarrow> rt_state result" where
  "store_packet ni res s = (case res of Some r \<Rightarrow> store_result (cell_of ni) r s | None \<Rightarrow> Inr s)"

definition process_entry ::
  "rt_config \<Rightarrow> graph_cache \<Rightarrow> services \<Rightarrow> nat list list \<Rightarrow> node_info \<times> cm_types option \<Rightarrow> rt_state
     \<Rightarrow> (rt_state \<times> node_info list) step" where
  "process_entry cfg gc sv cond_indexes entry s =
     (case entry of (ni, res) \<Rightarrow>
        sbind (Some (store_packet ni res s)) (\<lambda>s1.
          if post_node ni then Some (Inr (s1, []))
          else
            sbind (Some (rbind (vec_at (gc_node_cache gc) (ni_id ni)) (\<lambda>ce. count_completed ce ni s1))) (\<lambda>s2.
            sbind (Some (vec_at (generation s2) (ni_slot ni))) (\<lambda>g.
            sbind (Some (edges_for (gc_arena gc) (ni_id ni))) (\<lambda>es.
              batch_edges cfg gc sv cond_indexes ni (ucast g) es [] s2)))))"

definition dispatch_nodes ::
  "services \<Rightarrow> graph_cache \<Rightarrow> node_info list \<Rightarrow> rt_state \<Rightarrow> rt_state result" where
  "dispatch_nodes sv gc nodes s = send_to_scheduler sv gc (plain_requests nodes) s"

text \<open>The accumulated tasks go to the scheduler when there are enough of them, and at the end.\<close>

fun process_batch_inner ::
  "rt_config \<Rightarrow> graph_cache \<Rightarrow> services \<Rightarrow> nat list list \<Rightarrow> (node_info \<times> cm_types option) list
     \<Rightarrow> node_info list \<Rightarrow> rt_state \<times> (nat \<rightharpoonup> bool) \<Rightarrow> (rt_state \<times> (nat \<rightharpoonup> bool)) step" where
  "process_batch_inner cfg gc sv cond_indexes [] batch_sched (s, act) =
     sbind (Some (if batch_sched \<noteq> [] then dispatch_nodes sv gc batch_sched s else Inr s))
       (\<lambda>s'. Some (Inr (s', act)))"
| "process_batch_inner cfg gc sv cond_indexes (entry # batch) batch_sched (s, act) =
     (let act' = act(ni_slot (fst entry) \<mapsto> True)
      in sbind (process_entry cfg gc sv cond_indexes entry s) (\<lambda>(s1, sched).
         if post_node (fst entry) then process_batch_inner cfg gc sv cond_indexes batch batch_sched (s1, act')
         else
           let acc = batch_sched @ sched
           in if cfg_flush_threshold cfg \<le> length acc then
                sbind (Some (dispatch_nodes sv gc acc s1)) (\<lambda>s2.
                  process_batch_inner cfg gc sv cond_indexes batch [] (s2, act'))
              else process_batch_inner cfg gc sv cond_indexes batch acc (s1, act')))"

text \<open>The slots of a batch as a bitset of 64 bits (the shift wraps), lowest first.\<close>

definition batch_slots :: "(node_info \<times> cm_types option) list \<Rightarrow> nat list" where
  "batch_slots batch = filter (\<lambda>slot. slot \<in> set (map (\<lambda>(ni, _). ni_slot ni mod 64) batch)) [0..<64]"

fun for_slots :: "(nat \<Rightarrow> 's \<Rightarrow> 's result) \<Rightarrow> nat list \<Rightarrow> 's \<Rightarrow> 's result" where
  "for_slots f [] s = Inr s"
| "for_slots f (slot # slots) s = rbind (f slot s) (for_slots f slots)"

definition begin_processing :: "nat \<Rightarrow> 'a slot_data_scheme \<Rightarrow> 'a slot_data_scheme result" where
  "begin_processing slot s = rbind (fetch_add 1 slot (processing_count s)) (\<lambda>pc. Inr (s\<lparr>processing_count := pc\<rparr>))"

definition process_batch_resolution ::
  "rt_config \<Rightarrow> graph_cache \<Rightarrow> services \<Rightarrow> nat list list \<Rightarrow> (node_info \<times> cm_types option) list
     \<Rightarrow> rt_state \<times> (nat \<rightharpoonup> bool) \<Rightarrow> (rt_state \<times> (nat \<rightharpoonup> bool)) step" where
  "process_batch_resolution cfg gc sv cond_indexes batch st =
     (if batch = [] then Some (Inr st)
      else
        sbind (Some (for_slots begin_processing (batch_slots batch) (fst st))) (\<lambda>s1.
        sbind (process_batch_inner cfg gc sv cond_indexes batch [] (s1, snd st)) (\<lambda>(s2, act).
        sbind (Some (for_slots finish_processing (batch_slots batch) s2)) (\<lambda>s3. Some (Inr (s3, act))))))"

section \<open>Draining the batch queue\<close>

text \<open>The first completions of the queue, up to the batch size (a size of 0 wraps to take them
  all); those of another generation than their slot's are dropped.\<close>

definition drain_count :: "rt_config \<Rightarrow> 'a list \<Rightarrow> nat" where
  "drain_count cfg queue = (if cfg_batch_size cfg = 0 then length queue else cfg_batch_size cfg)"

fun filter_stale :: "u64 list \<Rightarrow> node_info list \<Rightarrow> node_info list result" where
  "filter_stale gens [] = Inr []"
| "filter_stale gens (n # ns) =
     rbind (vec_at gens (ni_slot n)) (\<lambda>g.
     rbind (filter_stale gens ns) (\<lambda>rest. Inr (if ni_gen n = ucast g then n # rest else rest)))"

definition drain_and_process_batch_queue ::
  "rt_config \<Rightarrow> graph_cache \<Rightarrow> services \<Rightarrow> nat list list \<Rightarrow> rt_state \<times> (nat \<rightharpoonup> bool)
     \<Rightarrow> (rt_state \<times> (nat \<rightharpoonup> bool)) step" where
  "drain_and_process_batch_queue cfg gc sv cond_indexes st =
     (let s = fst st; n = drain_count cfg (batch_queue s); taken = take n (batch_queue s);
          s1 = s\<lparr>batch_queue := drop n (batch_queue s)\<rparr>
      in if taken = [] then Some (Inr st)
         else
           sbind (Some (filter_stale (generation s1) taken)) (\<lambda>fresh.
             process_batch_resolution cfg gc sv cond_indexes (map (\<lambda>n. (n, None)) fresh) (s1, snd st)))"

end
