(* ===== verification/Task_Properties.thy ===== *)
theory Task_Properties
  imports Task_Execution
begin

text \<open>
  What makes task execution correct: a task only ever runs in the generation it was dispatched in,
  fanout-bulk successors are dispatched exactly once and completely, and the two argument
  optimisations (persistent templates, bulk buffers) are invisible to the plugin functions.
\<close>

section \<open>Fanout-bulk arrivals\<close>

text \<open>A sequence of arrivals at one fanout-bulk edge of a slot.\<close>

fun arrivals ::
  "rt_config \<Rightarrow> node_info \<Rightarrow> u32 \<Rightarrow> succ_edge \<Rightarrow> nat list \<Rightarrow> rt_state \<Rightarrow> (rt_state \<times> node_info list list) result" where
  "arrivals cfg ni gen e [] s = Inr (s, [])"
| "arrivals cfg ni gen e (n # ns) s =
     rbind (fanout_arrive cfg ni gen e n s) (\<lambda>(s1, ts).
     rbind (arrivals cfg ni gen e ns s1) (\<lambda>(s2, tss). Inr (s2, ts # tss)))"

definition arrived_before :: "nat \<Rightarrow> u32 \<Rightarrow> succ_edge \<Rightarrow> rt_state \<Rightarrow> nat" where
  "arrived_before slot gen e s = unat (lazy_val 0 gen (fanout_bulk_arrived s ! slot ! succ_id e))"

definition fanout_cell :: "nat \<Rightarrow> succ_edge \<Rightarrow> rt_state \<Rightarrow> bool" where
  "fanout_cell slot e s \<longleftrightarrow> slot < length (fanout_bulk_arrived s) \<and> succ_id e < length (fanout_bulk_arrived s ! slot)"

lemma covered_fanout_chunks:
  "concat (map instances (fanout_chunks cfg e slot pidx gen)) = [0..<succ_factor e]"
  unfolding fanout_chunks_def instances_chunk_infos by (subst covered_chunks) simp_all

lemma fanout_arrive_step:
  assumes "fanout_cell (ni_slot ni) e s" "arrived_before (ni_slot ni) gen e s + n < 2 ^ 32"
  shows "\<exists>s'. fanout_arrive cfg ni gen e n s = Inr (s',
      if succ_factor e \<le> arrived_before (ni_slot ni) gen e s + n
      then fanout_chunks cfg e (ni_slot ni) (ni_index ni) gen else [])
    \<and> fanout_cell (ni_slot ni) e s'
    \<and> arrived_before (ni_slot ni) gen e s' = arrived_before (ni_slot ni) gen e s + n"
proof -
  let ?slot = "ni_slot ni" and ?id = "succ_id e"
  let ?row = "fanout_bulk_arrived s ! ?slot"
  let ?f = "\<lambda>v. saturating_add v (as_u32 n)"
  let ?s = "s\<lparr>fanout_bulk_arrived := (fanout_bulk_arrived s)[?slot := ?row[?id := lazy_update 0 gen ?f (?row ! ?id)]]\<rparr>"
  have b: "?slot < length (fanout_bulk_arrived s)" "?id < length ?row"
    using assms(1) by (simp_all add: fanout_cell_def)
  have n: "n < 2 ^ 32" using assms(2) by simp
  have "unat (saturating_add (lazy_val 0 gen (?row ! ?id)) (as_u32 n)) = arrived_before ?slot gen e s + n"
    using assms(2) n by (simp add: unat_saturating_add arrived_before_def)
  then have "arrived_before ?slot gen e ?s = arrived_before ?slot gen e s + n"
    using b by (simp add: arrived_before_def gw.read_update)
  then show ?thesis
    using b by (intro exI [of _ ?s])
      (simp add: fanout_arrive_def vec_at_ok fanout_bulk_increment_def fanout_cell_def arrived_before_def Let_def)
qed

lemma arrivals_run:
  assumes "fanout_cell (ni_slot ni) e s" "arrived_before (ni_slot ni) gen e s + sum_list ns < 2 ^ 32"
  shows "\<exists>s'. arrivals cfg ni gen e ns s = Inr (s', map (\<lambda>k.
      if succ_factor e \<le> arrived_before (ni_slot ni) gen e s + sum_list (take (Suc k) ns)
      then fanout_chunks cfg e (ni_slot ni) (ni_index ni) gen else []) [0..<length ns])"
  using assms
proof (induction ns arbitrary: s)
  case (Cons n ns)
  obtain s1 where s1: "fanout_arrive cfg ni gen e n s = Inr (s1,
      if succ_factor e \<le> arrived_before (ni_slot ni) gen e s + n
      then fanout_chunks cfg e (ni_slot ni) (ni_index ni) gen else [])"
    "fanout_cell (ni_slot ni) e s1"
    "arrived_before (ni_slot ni) gen e s1 = arrived_before (ni_slot ni) gen e s + n"
    using fanout_arrive_step [OF Cons.prems(1), of gen n cfg] Cons.prems(2) by auto
  obtain s2 where s2: "arrivals cfg ni gen e ns s1 = Inr (s2, map (\<lambda>k.
      if succ_factor e \<le> arrived_before (ni_slot ni) gen e s1 + sum_list (take (Suc k) ns)
      then fanout_chunks cfg e (ni_slot ni) (ni_index ni) gen else []) [0..<length ns])"
    using Cons.IH [OF s1(2)] s1(3) Cons.prems(2) by auto
  have "[0..<length (n # ns)] = 0 # map Suc [0..<length ns]"
    by (simp add: map_Suc_upt upt_conv_Cons del: upt_Suc)
  then show ?case using s1 s2 by (simp add: add.assoc comp_def del: upt_Suc)
qed simp

text \<open>C21: A fanout-bulk successor is dispatched exactly once per generation. Whatever the last
  generation left in the counter, arrivals that add up to the successor's factor dispatch nothing
  until the last of them, which dispatches chunks that cover every instance once, in order.\<close>

theorem fanout_dispatched_once:
  assumes "slot < length (fanout_bulk_arrived s)" "succ_id e < length (fanout_bulk_arrived s ! slot)"
    "gen_unpack_gen (fanout_bulk_arrived s ! slot ! succ_id e) \<noteq> gen"
    "ni_slot ni = slot" "0 < n" "sum_list ns + n = succ_factor e"
  shows "\<exists>s' ts. arrivals cfg ni gen e (ns @ [n]) s = Inr (s', replicate (length ns) [] @ [ts])
    \<and> concat (map instances ts) = [0..<succ_factor e]
    \<and> (\<forall>t \<in> set ts. ni_id t = succ_id e \<and> ni_slot t = slot \<and> ni_gen t = gen)
    \<and> (\<exists>s''. arrivals cfg ni gen e ns s = Inr (s'', replicate (length ns) []))"
proof -
  have cell: "fanout_cell (ni_slot ni) e s" using assms by (simp add: fanout_cell_def)
  have zero: "arrived_before (ni_slot ni) gen e s = 0"
    using assms by (simp add: arrived_before_def lazy_val_def)
  have f: "succ_factor e < 2 ^ 32" using unsigned_less [of "se_succ_factor e"] by (simp add: succ_factor_def)
  have early: "\<not> succ_factor e \<le> sum_list (take k ns)" for k
  proof -
    have "sum_list (take k ns) + sum_list (drop k ns) = sum_list ns"
      by (metis append_take_drop_id sum_list_append)
    then show ?thesis using assms(5,6) by linarith
  qed
  let ?chunks = "fanout_chunks cfg e slot (ni_index ni) gen"
  obtain s' where s': "arrivals cfg ni gen e (ns @ [n]) s = Inr (s', map (\<lambda>k.
      if succ_factor e \<le> sum_list (take (Suc k) (ns @ [n])) then ?chunks else []) [0..<length (ns @ [n])])"
    using arrivals_run [OF cell, of gen "ns @ [n]" cfg] zero f assms(4,6) by auto
  have "map (\<lambda>k. if succ_factor e \<le> sum_list (take (Suc k) (ns @ [n])) then ?chunks else []) [0..<length (ns @ [n])]
      = map (\<lambda>_. []) [0..<length ns] @ [?chunks]"
    using assms(6) early by (simp del: take_Suc)
  then have run: "arrivals cfg ni gen e (ns @ [n]) s = Inr (s', replicate (length ns) [] @ [?chunks])"
    using s' by (simp add: map_replicate_const del: upt_Suc)
  have "sum_list ns < 2 ^ 32" using assms(6) f by linarith
  then obtain s'' where "arrivals cfg ni gen e ns s = Inr (s'', map (\<lambda>k.
      if succ_factor e \<le> sum_list (take (Suc k) ns) then ?chunks else []) [0..<length ns])"
    using arrivals_run [OF cell, of gen ns cfg] zero assms(4) by auto
  moreover have "map (\<lambda>k. if succ_factor e \<le> sum_list (take (Suc k) ns) then ?chunks else []) [0..<length ns]
      = replicate (length ns) []"
    using early by (simp add: map_replicate_const del: take_Suc)
  moreover have "\<forall>t \<in> set ?chunks. ni_id t = succ_id e \<and> ni_slot t = slot \<and> ni_gen t = gen"
    by (auto simp: fanout_chunks_def chunk_infos_def node_info_new_def)
  ultimately show ?thesis using run covered_fanout_chunks by fastforce
qed

text \<open>A runtime of one slot over the three-node graph of the delivery example, at rest.\<close>

definition demo_cache :: "cache_entry list" where
  "demo_cache = map (\<lambda>n. (network_entry n)\<lparr>ce_factor := node_factor n\<rparr>) two_stage"

definition demo_config :: rt_config where
  "demo_config = \<lparr>cfg_workers = 2, cfg_single_slot_mode = False, cfg_slots = 1, cfg_max_frames = 3,
     cfg_frame_timeout_ms = 0, cfg_slot_priority = False, cfg_coalesce_barriers = False,
     cfg_inline_continuation = False, cfg_no_fanout_bulk = False, cfg_flush_threshold = 32,
     cfg_batch_size = 1, cfg_join_stream = False, cfg_dispatch_chunk = 0\<rparr>"

definition demo_state :: rt_state where
  "demo_state = initial_state (initial_net demo_config 1) 1 (build_slot_counters 1 demo_cache)
     \<lparr>node_dep_map = [[]], completed_slots = 0\<rparr> (result_map_new two_stage 3)"

definition demo_edge :: succ_edge where
  "demo_edge = \<lparr>succ_id = 1, has_condition_flag = False, se_is_fanout_bulk = True, se_succ_factor = 5,
     filter_start = NO_FILTER, filter_end = NO_FILTER, se_group_by = NO_GROUP, one_to_one_offset = 0,
     has_one_to_one = True\<rparr>"

definition demo_gc :: graph_cache where
  "demo_gc = \<lparr>gc_graph = graph_new\<lparr>g_nodes := two_stage\<rparr>, gc_network = None, gc_node_cache = demo_cache,
     gc_arena = \<lparr>arena_edges = [demo_edge], arena_ranges = [(0, 1)]\<rparr>,
     gc_pred_group_by = [], gc_init_objects = [], gc_total_tasks = 7, gc_total_cond_tasks = 0\<rparr>"

text \<open>A plugin that adds up its 64-bit arguments.\<close>

fun sum_plugin :: "cm_types list \<Rightarrow> u64" where
  "sum_plugin [] = 0"
| "sum_plugin (CmUsize w # vs) = w + sum_plugin vs"
| "sum_plugin (_ # vs) = sum_plugin vs"

definition demo_services :: services where
  "demo_services = \<lparr>sv_plugin = (\<lambda>_ args. CmUsize (sum_plugin args)),
     sv_registry = \<lparr>has_func = (\<lambda>_. True), has_bulk_func = (\<lambda>_. False)\<rparr>, sv_affinity = (\<lambda>_. 0)\<rparr>"

lemma demo_simps:
  "generation demo_state = [0]" "length (fanout_bulk_arrived demo_state) = 1"
  "fanout_bulk_arrived demo_state ! 0 = [gen_pack 0 0, gen_pack 0 0, gen_pack 0 0]"
  by (simp_all add: demo_state_def initial_state_def initial_net_def build_slot_counters_def demo_cache_def two_stage_def)

theorem fanout_dispatched_once_witness:
  "\<exists>s' ts. arrivals demo_config (node_info_new 0 0 2 0) 7 demo_edge ([2, 1] @ [2]) demo_state
      = Inr (s', replicate 2 [] @ [ts])
    \<and> concat (map instances ts) = [0, 1, 2, 3, 4]"
proof -
  have f: "succ_factor demo_edge = 5" "[0..<5] = [0, 1, 2, 3, 4 :: nat]"
    by (simp add: demo_edge_def succ_factor_def) code_simp
  have l: "length [2, 1::nat] = 2" by simp
  have "\<exists>s' ts. arrivals demo_config (node_info_new 0 0 2 0) 7 demo_edge ([2, 1] @ [2]) demo_state
      = Inr (s', replicate (length [2, 1::nat]) [] @ [ts])
    \<and> concat (map instances ts) = [0..<succ_factor demo_edge]
    \<and> (\<forall>t \<in> set ts. ni_id t = succ_id demo_edge \<and> ni_slot t = 0 \<and> ni_gen t = 7)
    \<and> (\<exists>s''. arrivals demo_config (node_info_new 0 0 2 0) 7 demo_edge [2, 1] demo_state
          = Inr (s'', replicate (length [2, 1::nat]) []))"
    by (rule fanout_dispatched_once) (simp_all add: f(1) demo_simps, simp_all add: demo_edge_def node_info_new_def)
  then show ?thesis unfolding f l by blast
qed

section \<open>Generations\<close>

text \<open>A task only ever runs in the generation of its slot in which it was dispatched. The
  scheduler stamps the (low 32 bits of the) generation on a task; when a worker takes it up, and the slot has another
  generation by then, the task is dropped: its instances are counted as stale, and nothing else of
  the state changes, neither a result nor a counter nor a plugin call, and there is no
  continuation. Otherwise it is executed.\<close>

theorem dropped_iff_generation_moved:
  assumes "prepare_task sv gc s (ni, args, None) = Inr t" "\<not> post_node ni"
    "ni_slot ni < length (generation s')"
  shows "execute_task cfg gc sv (st_func t) (st_node t) args tpls s' =
    (if slot_gen (ni_slot ni) s' \<noteq> slot_gen (ni_slot ni) s
     then Some (Inr (tpls, s'\<lparr>stale_tasks_dropped :=
            stale_tasks_dropped s' + word_of_nat (max (bulk_count ni) 1)\<rparr>, None))
     else if 1 < bulk_count ni
     then sbind (execute_bulk_task cfg gc sv (st_func t) (st_node t) s') (\<lambda>(s1, k). Some (Inr (tpls, s1, k)))
     else execute_single_task cfg gc sv (st_func t) (st_node t) args tpls s')"
proof -
  have "st_node t = ni\<lparr>ni_gen := slot_gen (ni_slot ni) s\<rparr>"
    using assms(1,2) by (auto simp: prepare_task_def rbind_eq_Inr slot_gen_def)
  then show ?thesis
    using assms(2,3) by (simp add: execute_task_def slot_gen_def vec_at_ok)
qed

theorem dropped_iff_generation_moved_witness:
  "\<exists>t. prepare_task demo_services demo_gc demo_state (node_info_new 1 0 0 0, None, None) = Inr t
    \<and> execute_task demo_config demo_gc demo_services (st_func t) (st_node t) None []
        (demo_state\<lparr>generation := [1]\<rparr>)
      = Some (Inr ([], demo_state\<lparr>generation := [1], stale_tasks_dropped := 1\<rparr>, None))"
proof -
  let ?s = "demo_state\<lparr>generation := [1]\<rparr>" and ?ni = "node_info_new 1 0 0 0"
  have "\<exists>t. prepare_task demo_services demo_gc demo_state (?ni, None, None) = Inr t"
    by (simp add: prepare_task_def node_info_new_def vec_at_ok demo_simps demo_gc_def demo_cache_def two_stage_def)
  then obtain t where t: "prepare_task demo_services demo_gc demo_state (?ni, None, None) = Inr t" by blast
  have moved: "slot_gen (ni_slot ?ni) ?s \<noteq> slot_gen (ni_slot ?ni) demo_state"
    by (simp add: slot_gen_def node_info_new_def demo_simps)
  have "\<not> post_node ?ni" "ni_slot ?ni < length (generation ?s)" "stale_tasks_dropped ?s = 0"
    "word_of_nat (max (bulk_count ?ni) 1) = (1 :: u64)"
    by (simp_all add: node_info_new_def demo_state_def initial_state_def)
  with dropped_iff_generation_moved [OF t this(1,2), of demo_config "[]"] moved t
  show ?thesis by auto
qed

section \<open>Argument templates\<close>

text \<open>Every template of a worker agrees with the static arguments of its node outside the
  positions a task overwrites.\<close>

definition templates_ok :: "graph_cache \<Rightarrow> templates \<Rightarrow> bool" where
  "templates_ok gc tpls \<longleftrightarrow> (\<forall>nid < length tpls. \<forall>buf. tpls ! nid = Some buf \<longrightarrow>
     nid < length (gc_node_cache gc) \<longrightarrow>
     agree id (dynamic (ce_arg_cache (gc_node_cache gc ! nid))) buf (ac_args (ce_arg_cache (gc_node_cache gc ! nid))))"

lemma templates_ok_Nil [simp]: "templates_ok gc []"
  by (simp add: templates_ok_def)

lemma take_template_ok:
  assumes "templates_ok gc tpls" "nid < length (gc_node_cache gc)"
    "take_template nid (ce_arg_cache (gc_node_cache gc ! nid)) tpls = (tpls', buf)"
  shows "templates_ok gc tpls'" "nid < length tpls'"
    "agree id (dynamic (ce_arg_cache (gc_node_cache gc ! nid))) buf (ac_args (ce_arg_cache (gc_node_cache gc ! nid)))"
proof -
  have t: "tpls' = (if length tpls \<le> nid then tpls @ replicate (nid + 1 - length tpls) None else tpls)"
    and b: "buf = unwrap_or (tpls' ! nid) (ac_args (ce_arg_cache (gc_node_cache gc ! nid)))"
    using assms(3) by (auto simp: take_template_def Let_def)
  show ok: "templates_ok gc tpls'"
    using assms(1) by (auto simp: t templates_ok_def nth_append)
  show n: "nid < length tpls'" by (simp add: t)
  show "agree id (dynamic (ce_arg_cache (gc_node_cache gc ! nid))) buf (ac_args (ce_arg_cache (gc_node_cache gc ! nid)))"
    using ok n assms(2) unfolding b templates_ok_def by (cases "tpls' ! nid") auto
qed

lemma templates_ok_update:
  "templates_ok gc tpls \<Longrightarrow>
   (nid < length (gc_node_cache gc) \<Longrightarrow>
     agree id (dynamic (ce_arg_cache (gc_node_cache gc ! nid))) buf (ac_args (ce_arg_cache (gc_node_cache gc ! nid)))) \<Longrightarrow>
   templates_ok gc (tpls[nid := Some buf])"
  by (cases "nid < length tpls") (auto simp: templates_ok_def nth_list_update list_update_beyond)

text \<open>Patching a copy of the static arguments is what the scratch path does.\<close>

lemma populate_cached_is_fresh:
  "populate_cached_args_into (args_of cfg) tbl rd ac ni pidx [] =
   populate_dynamic_args_into (args_of cfg) tbl rd ac ni pidx (workers_arg cfg ac) (ac_args ac)"
proof (cases "has_dynamic ac")
  case True
  then show ?thesis
    by (auto simp: has_dynamic_def populate_cached_args_into_def populate_dynamic_args_into_def workers_arg_def Let_def)
next
  case False
  then show ?thesis
    by (simp add: has_dynamic_def populate_cached_args_into_def populate_dynamic_args_into_def workers_arg_def Let_def
        process_buffer_refs_def process_runtime_refs_def)
qed

lemma populate_static:
  assumes "\<not> cfg_single_slot_mode cfg" "list_all width_one (res_predecessors ac)"
    "populate_dynamic_args_into cfg tbl rd ac ni pidx workers xs t = Some (Inr ((ys, stale), t'))"
  shows "agree f (dynamic ac) ys xs"
proof -
  obtain buf t1 where b: "rbind (process_buffer_refs ac ni xs) (process_runtime_refs ac ni workers) = Inr buf"
    "fill_results cfg tbl rd ni pidx (zip (res_indexes ac) (res_predecessors ac)) buf t1 = Some (Inr ((ys, stale), t'))"
    using assms(3) by (auto simp: populate_dynamic_args_into_def tbind_Some tlift_def split: sum.splits)
  have "list_all (\<lambda>p. width_one (snd p)) (zip (res_indexes ac) (res_predecessors ac))"
    using assms(2) by (auto simp: list_all_iff dest: set_zip_rightD)
  from fill_static [OF assms(1) b(2) this, of "dynamic ac"] have "agree f (dynamic ac) ys buf"
    by (simp add: dynamic_def)
  then show ?thesis using process_refs_static [OF b(1)] by (rule agree_trans)
qed

text \<open>At one state: patching an agreeing buffer gives the fresh arguments.\<close>

lemma at_once_agree:
  assumes "same_timed (patched id {}) m1 m2"
  shows "sbind (at_once m1) (\<lambda>(buf, stale). if stale then g else f buf)
       = sbind (at_once m2) (\<lambda>(buf, stale). if stale then g else f buf)"
proof -
  have "rel_option (same_result (rel_prod (patched id {}) (=))) (m1 0) (m2 0)"
    using assms by (simp add: same_timed_def)
  then show ?thesis
    by (cases rule: option.rel_cases)
      (auto simp: at_once_def sbind_def patched_def agree_empty elim!: rel_sum.cases)
qed

lemma at_once_Some: "at_once m = Some (Inr a) \<longleftrightarrow> (\<exists>t'. m 0 = Some (Inr (a, t')))"
  by (auto simp: at_once_def map_option_case split: option.splits) (case_tac x2; auto)+

lemma map_sbind: "map_option (map_sum id g) (sbind m f) = sbind m (\<lambda>x. map_option (map_sum id g) (f x))"
  by (simp add: sbind_def split: option.split sum.split)

lemma sbind_assoc: "sbind (sbind m f) g = sbind m (\<lambda>x. sbind (f x) g)"
  by (simp add: sbind_def split: option.split sum.split)

lemma single_args_fresh:
  assumes "\<not> cfg_single_slot_mode cfg" "templates_ok gc tpls" "ni_id ni < length (gc_node_cache gc)"
    "ce_template_stable (gc_node_cache gc ! ni_id ni) \<longrightarrow>
       list_all width_one (res_predecessors (ce_arg_cache (gc_node_cache gc ! ni_id ni)))"
  shows "sbind (single_args cfg gc (gc_node_cache gc ! ni_id ni) ni tpls s)
      (\<lambda>(tpls', args, stale). if stale then g else f args)
    = sbind (at_once (populate_cached_args_into (args_of cfg) (gc_pred_group_by gc) (reader_of ni s)
        (ce_arg_cache (gc_node_cache gc ! ni_id ni)) (ni_index ni) (ni_pred_index ni) []))
      (\<lambda>(args, stale). if stale then g else f args)"
proof (cases "ce_template_stable (gc_node_cache gc ! ni_id ni)")
  case True
  let ?ac = "ce_arg_cache (gc_node_cache gc ! ni_id ni)"
  obtain tpls' buf where t: "take_template (ni_id ni) ?ac tpls = (tpls', buf)" by fastforce
  have "agree id (dynamic ?ac) buf (ac_args ?ac)" using take_template_ok(3) [OF assms(2,3) t] .
  then have "same_timed (patched id {})
      (populate_dynamic_args_into (args_of cfg) (gc_pred_group_by gc) (reader_of ni s) ?ac (ni_index ni)
        (ni_pred_index ni) (workers_arg cfg ?ac) buf)
      (populate_cached_args_into (args_of cfg) (gc_pred_group_by gc) (reader_of ni s) ?ac (ni_index ni)
        (ni_pred_index ni) [])"
    unfolding populate_cached_is_fresh using assms(1,4) True by (intro populate_agree) simp_all
  from at_once_agree [OF this, of g f] show ?thesis
    by (simp add: single_args_def True t sbind_assoc case_prod_unfold cong: if_cong)
next
  case False
  then show ?thesis by (simp add: single_args_def sbind_assoc case_prod_unfold cong: if_cong)
qed

lemma single_args_templates:
  assumes "\<not> cfg_single_slot_mode cfg" "templates_ok gc tpls" "ni_id ni < length (gc_node_cache gc)"
    "ce_template_stable (gc_node_cache gc ! ni_id ni) \<longrightarrow>
       list_all width_one (res_predecessors (ce_arg_cache (gc_node_cache gc ! ni_id ni)))"
    "single_args cfg gc (gc_node_cache gc ! ni_id ni) ni tpls s = Some (Inr (tpls', args, stale))"
  shows "templates_ok gc tpls'"
proof (cases "ce_template_stable (gc_node_cache gc ! ni_id ni)")
  case True
  let ?ac = "ce_arg_cache (gc_node_cache gc ! ni_id ni)"
  obtain tpls1 buf where t: "take_template (ni_id ni) ?ac tpls = (tpls1, buf)" by fastforce
  note tt = take_template_ok [OF assms(2,3) t]
  obtain buf' t' where b: "populate_dynamic_args_into (args_of cfg) (gc_pred_group_by gc) (reader_of ni s) ?ac
      (ni_index ni) (ni_pred_index ni) (workers_arg cfg ?ac) buf 0 = Some (Inr ((buf', stale), t'))"
    "tpls' = tpls1[ni_id ni := Some buf']"
    using assms(5) by (auto simp: single_args_def True t sbind_Some at_once_Some)
  have "agree id (dynamic ?ac) buf' buf"
    using populate_static [OF _ _ b(1)] assms(1,4) True by simp
  then show ?thesis
    unfolding b(2) using tt by (intro templates_ok_update) (auto intro: agree_trans)
next
  case False
  then show ?thesis using assms(2,5) by (auto simp: single_args_def sbind_Some)
qed


text \<open>A node whose first argument is the instance index, on a worker whose template still holds
  the index of the previous task.\<close>

definition indexed_gc :: graph_cache where
  "indexed_gc = demo_gc\<lparr>gc_node_cache := demo_cache[1 := (demo_cache ! 1)\<lparr>ce_template_stable := True,
     ce_arg_cache := arg_cache_default\<lparr>ac_args := [CmNone, CmUsize 5], rt_idxs_indexes := [0]\<rparr>\<rparr>]\<rparr>"

lemma indexed_gc_simps:
  "length (gc_node_cache indexed_gc) = 3"
  "ce_arg_cache (gc_node_cache indexed_gc ! 1)
     = arg_cache_default\<lparr>ac_args := [CmNone, CmUsize 5], rt_idxs_indexes := [0]\<rparr>"
  "ce_template_stable (gc_node_cache indexed_gc ! 1)" "\<not> ce_template_stable (gc_node_cache indexed_gc ! 0)"
  "\<not> ce_template_stable (gc_node_cache indexed_gc ! 2)"
  "\<not> ce_worker_resolvable (gc_node_cache indexed_gc ! 1)" "\<not> ce_needs_result_store (gc_node_cache indexed_gc ! 1)"
  by (simp_all add: indexed_gc_def demo_gc_def demo_cache_def two_stage_def network_entry_def)


section \<open>Bulk tasks\<close>

text \<open>The cells of a bulk task as single tasks: each builds its arguments from scratch for its own
  instance, calls the function and stores the result; successors are resolved after the last one.\<close>

fun cells_one_by_one ::
  "rt_config \<Rightarrow> graph_cache \<Rightarrow> services \<Rightarrow> func_ref \<Rightarrow> cache_entry \<Rightarrow> node_info \<Rightarrow> nat list \<Rightarrow> rt_state
     \<Rightarrow> (rt_state \<times> bool) step" where
  "cells_one_by_one cfg gc sv func entry ni [] s = Some (Inr (s, False))"
| "cells_one_by_one cfg gc sv func entry ni (i # is) s =
     sbind (at_once (populate_cached_args_into (args_of cfg) (gc_pred_group_by gc) (reader_of ni s)
         (ce_arg_cache entry) i i [])) (\<lambda>(args, stale).
       if stale then Some (Inr (s, True))
       else
         let (r, s1) = call_plugin sv func args s
         in sbind (Some (if ce_needs_result_store entry then store_result (ni_slot ni, ni_id ni, i) r s1
                         else Inr s1)) (\<lambda>s2.
              cells_one_by_one cfg gc sv func entry ni is s2))"

text \<open>Two states that differ at most in whether shared arguments of calls are held.\<close>

fun held_call :: "plugin_call \<Rightarrow> plugin_call" where
  "held_call (Call f args) = Call f (map hold_guard args)"
| "held_call (BulkCall f lo hi args) = BulkCall f lo hi (map hold_guard args)"

definition same_but_guards :: "rt_state \<Rightarrow> rt_state \<Rightarrow> bool" where
  "same_but_guards s s' \<longleftrightarrow>
     s\<lparr>plugin_calls := map held_call (plugin_calls s)\<rparr> = s'\<lparr>plugin_calls := map held_call (plugin_calls s')\<rparr>"

lemma hold_guard_idem [simp]: "hold_guard (hold_guard v) = hold_guard v"
  by (cases v) simp_all

lemma same_but_guards_fields:
  assumes "same_but_guards s s'"
  shows "node_results s = node_results s'" "generation s = generation s'" "shutdown_flag s = shutdown_flag s'"
    "s' = s\<lparr>plugin_calls := plugin_calls s'\<rparr>" "map held_call (plugin_calls s) = map held_call (plugin_calls s')"
  using assms unfolding same_but_guards_def by (cases s; cases s'; simp)+

lemma same_but_guardsI:
  "map held_call cs = map held_call ds \<Longrightarrow> same_but_guards (s\<lparr>plugin_calls := cs\<rparr>) (s\<lparr>plugin_calls := ds\<rparr>)"
  by (simp add: same_but_guards_def)

lemma populate_no_dynamic:
  "\<not> has_dynamic ac \<Longrightarrow> populate_dynamic_args_into cfg tbl rd ac ni pidx workers buf = tret (buf, False)"
  by (simp add: has_dynamic_def populate_dynamic_args_into_def process_buffer_refs_def process_runtime_refs_def)

lemma store_result_guards:
  assumes "same_but_guards s s'"
  shows "same_result same_but_guards (store_result c r s) (store_result c r s')"
proof -
  have "same_but_guards (s\<lparr>node_results := m\<rparr>) (s'\<lparr>node_results := m\<rparr>)" for m
    using assms unfolding same_but_guards_def by (cases s; cases s') simp
  then show ?thesis
    unfolding store_result_def same_but_guards_fields(1) [OF assms]
    by (cases "rm_set c r (node_results s')") simp_all
qed

lemma call_plugin_guards:
  assumes "same_but_guards s s'" "map hold_guard args = map hold_guard args'"
    "\<forall>xs. sv_plugin sv func (map hold_guard xs) = sv_plugin sv func xs"
  shows "fst (call_plugin sv func args s) = fst (call_plugin sv func args' s')"
    "same_but_guards (snd (call_plugin sv func args s)) (snd (call_plugin sv func args' s'))"
proof -
  show "fst (call_plugin sv func args s) = fst (call_plugin sv func args' s')"
    using assms(2,3) by (metis call_plugin_def fst_conv)
  show "same_but_guards (snd (call_plugin sv func args s)) (snd (call_plugin sv func args' s'))"
    using assms(1,2) unfolding same_but_guards_def call_plugin_def by (cases s; cases s') simp
qed

abbreviation same_step :: "('a \<Rightarrow> 'b \<Rightarrow> bool) \<Rightarrow> 'a step \<Rightarrow> 'b step \<Rightarrow> bool" where
  "same_step R \<equiv> rel_option (same_result R)"

lemma sbind_same:
  assumes "same_step R m1 m2" "\<And>a b. R a b \<Longrightarrow> same_step S (f a) (g b)"
  shows "same_step S (sbind m1 f) (sbind m2 g)"
  using assms by (auto simp: sbind_def elim!: option.rel_cases rel_sum.cases)

lemma at_once_same: "same_timed R m1 m2 \<Longrightarrow> same_step R (at_once m1) (at_once m2)"
proof -
  assume "same_timed R m1 m2"
  then have "same_step (rel_prod R (=)) (m1 0) (m2 0)" by (simp add: same_timed_def)
  then show ?thesis by (cases rule: option.rel_cases) (auto simp: at_once_def elim!: rel_sum.cases)
qed

lemma bulk_cells_same:
  assumes "\<not> cfg_single_slot_mode cfg" "list_all width_one (res_predecessors (ce_arg_cache entry))"
    "\<forall>xs. sv_plugin sv func (map hold_guard xs) = sv_plugin sv func xs"
  shows "agree hold_guard (dynamic (ce_arg_cache entry)) buf (ac_args (ce_arg_cache entry)) \<Longrightarrow>
    same_but_guards s s' \<Longrightarrow>
    same_step (rel_prod same_but_guards (=)) (bulk_cells cfg gc sv func entry ni is buf s)
      (cells_one_by_one cfg gc sv func entry ni is s')"
proof (induction "is" arbitrary: buf s s')
  case (Cons i "is")
  let ?ac = "ce_arg_cache entry"
  let ?pop = "\<lambda>xs. populate_dynamic_args_into (args_of cfg) (gc_pred_group_by gc) (reader_of ni s) ?ac i i
    (workers_arg cfg ?ac) xs"
  let ?R = "\<lambda>p q. patched hold_guard {} p q \<and> (\<not> snd p \<longrightarrow> agree hold_guard (dynamic ?ac) (fst p) (ac_args ?ac))"
  have rd: "reader_of ni s' = reader_of ni s"
    by (simp add: reader_of_def view_of_def same_but_guards_fields(1-3) [OF Cons.prems(2)])
  have one: "(if has_dynamic ?ac then at_once (?pop buf) else Some (Inr (buf, False))) = at_once (?pop buf)"
    by (simp add: populate_no_dynamic at_once_def tret_def)
  have "same_step (patched hold_guard {}) (at_once (?pop buf)) (at_once (?pop (ac_args ?ac)))"
    using assms(1,2) Cons.prems(1) by (intro at_once_same populate_agree) simp_all
  moreover have "agree hold_guard (dynamic ?ac) buf' (ac_args ?ac)"
    if "at_once (?pop buf) = Some (Inr (buf', stale))" for buf' stale
  proof -
    have "\<exists>t'. ?pop buf 0 = Some (Inr ((buf', stale), t'))" using that by (simp add: at_once_Some)
    then obtain t' where "?pop buf 0 = Some (Inr ((buf', stale), t'))" by blast
    then have "agree hold_guard (dynamic ?ac) buf' buf" using assms(1,2) by (intro populate_static) simp_all
    then show ?thesis using Cons.prems(1) by (rule agree_trans)
  qed
  ultimately have args: "same_step ?R (at_once (?pop buf)) (at_once (?pop (ac_args ?ac)))"
    by (cases "at_once (?pop buf)"; cases "the (at_once (?pop buf))"; auto elim!: option.rel_cases rel_sum.cases)
  show ?case
    unfolding bulk_cells.simps cells_one_by_one.simps one rd populate_cached_is_fresh
  proof (rule sbind_same [OF args], goal_cases)
    case (1 p q)
    obtain xs st ys where p: "p = (xs, st)" "q = (ys, st)"
      using 1 by (cases p; cases q) (simp add: patched_def)
    show ?case
    proof (cases st)
      case True
      then show ?thesis using Cons.prems(2) by (simp add: p)
    next
      case False
      have eq: "map hold_guard xs = map hold_guard ys" and ag: "agree hold_guard (dynamic ?ac) xs (ac_args ?ac)"
        using 1 False by (simp_all add: p patched_def agree_empty)
      note c = call_plugin_guards [OF Cons.prems(2) eq assms(3)]
      have stored: "same_step same_but_guards
          (Some (if ce_needs_result_store entry then store_result k (fst (call_plugin sv func xs s)) (snd (call_plugin sv func xs s))
              else Inr (snd (call_plugin sv func xs s))))
          (Some (if ce_needs_result_store entry then store_result k (fst (call_plugin sv func ys s')) (snd (call_plugin sv func ys s'))
              else Inr (snd (call_plugin sv func ys s'))))" for k
        using c(2) store_result_guards [OF c(2)] by (simp add: c(1))
      note sbind_same [OF stored Cons.IH [OF ag]]
      then show ?thesis using False by (simp add: p case_prod_beta)
    qed
  qed
qed simp

text \<open>A bulk task is its cells. With more than one slot, results of width one, and a function
  that does not care whether a shared argument comes with its guard already held, the per-cell loop
  of a bulk task, which patches one buffer from cell to cell, calls the function once per instance
  with the arguments that instance would have been given as a task of its own, stores the same
  results, and is found stale, waits or panics where the single tasks do.\<close>

theorem bulk_loop_is_single_cells:
  assumes "\<not> cfg_single_slot_mode cfg" "list_all width_one (res_predecessors (ce_arg_cache entry))"
    "\<forall>xs. sv_plugin sv func (map hold_guard xs) = sv_plugin sv func xs"
  shows "same_step (rel_prod same_but_guards (=))
    (bulk_cells cfg gc sv func entry ni (instances ni) (map hold_guard (ac_args (ce_arg_cache entry))) s)
    (cells_one_by_one cfg gc sv func entry ni (instances ni) s)"
  using bulk_cells_same [OF assms]
  by (simp add: agree_def same_but_guards_def)

theorem bulk_loop_is_single_cells_witness:
  "same_step (rel_prod same_but_guards (=))
    (bulk_cells demo_config indexed_gc demo_services (Registered ''f'') (gc_node_cache indexed_gc ! 1)
      ((node_info_new 1 0 0 0)\<lparr>bulk_count := 2\<rparr>) [0, 1] [CmNone, CmUsize 5] demo_state)
    (cells_one_by_one demo_config indexed_gc demo_services (Registered ''f'') (gc_node_cache indexed_gc ! 1)
      ((node_info_new 1 0 0 0)\<lparr>bulk_count := 2\<rparr>) [0, 1] demo_state)
   \<and> bulk_cells demo_config indexed_gc demo_services (Registered ''f'') (gc_node_cache indexed_gc ! 1)
      ((node_info_new 1 0 0 0)\<lparr>bulk_count := 2\<rparr>) [0, 1] [CmNone, CmUsize 5] demo_state
     = Some (Inr (demo_state\<lparr>plugin_calls := [Call (Registered ''f'') [CmUsize 0, CmUsize 5],
         Call (Registered ''f'') [CmUsize 1, CmUsize 5]]\<rparr>, False))"
proof (intro conjI)
  let ?e = "gc_node_cache indexed_gc ! 1" and ?ni = "(node_info_new 1 0 0 0)\<lparr>bulk_count := 2\<rparr>"
  let ?ac = "arg_cache_default\<lparr>ac_args := [CmNone, CmUsize 5], rt_idxs_indexes := [0]\<rparr>"
  have sum: "sum_plugin (map hold_guard xs) = sum_plugin xs" for xs
    by (induction xs rule: sum_plugin.induct) simp_all
  have pre: "\<not> cfg_single_slot_mode demo_config" "list_all width_one (res_predecessors (ce_arg_cache ?e))"
    "\<forall>xs. sv_plugin demo_services (Registered ''f'') (map hold_guard xs) = sv_plugin demo_services (Registered ''f'') xs"
    by (simp_all only: indexed_gc_simps(2)) (simp_all add: demo_config_def arg_cache_default_def demo_services_def sum)
  have e: "instances ?ni = [0, 1]" "map hold_guard (ac_args ?ac) = [CmNone, CmUsize 5]"
    by (simp_all add: instances_def node_info_new_def upt_rec)
  show "same_step (rel_prod same_but_guards (=))
    (bulk_cells demo_config indexed_gc demo_services (Registered ''f'') ?e ?ni [0, 1] [CmNone, CmUsize 5] demo_state)
    (cells_one_by_one demo_config indexed_gc demo_services (Registered ''f'') ?e ?ni [0, 1] demo_state)"
    using bulk_loop_is_single_cells [OF pre, of indexed_gc ?ni demo_state] unfolding indexed_gc_simps(2) e .
  have args: "at_once (populate_dynamic_args_into (args_of demo_config) tbl rd ?ac i i w [x, CmUsize 5])
      = Some (Inr ([CmUsize (word_of_nat i), CmUsize 5], False))" for tbl rd i w x
    by (simp add: populate_dynamic_args_into_def arg_cache_default_def process_buffer_refs_def
        process_runtime_refs_def put_at_def at_once_def tret_def)
  have dyn: "has_dynamic ?ac" by (simp add: has_dynamic_def)
  show "bulk_cells demo_config indexed_gc demo_services (Registered ''f'') ?e ?ni [0, 1] [CmNone, CmUsize 5] demo_state
     = Some (Inr (demo_state\<lparr>plugin_calls := [Call (Registered ''f'') [CmUsize 0, CmUsize 5],
         Call (Registered ''f'') [CmUsize 1, CmUsize 5]]\<rparr>, False))"
    using indexed_gc_simps(7)
    by (simp only: bulk_cells.simps indexed_gc_simps(2) dyn args if_True if_False sbind_simps prod.case)
      (simp add: call_plugin_def demo_state_def initial_state_def)
qed

end
