(* ===== verification/Batch_Properties.thy ===== *)
theory Batch_Properties
  imports Batch_Resolution Task_Properties
begin

text \<open>
  The two resolution paths do the same: the batch protocol of the resolution threads and the
  worker fast path, on nodes whose successors carry no condition. And the task counters of a slot
  reach zero exactly when every instance of the graph has completed.
\<close>

section \<open>The two walks over the successor edges\<close>

lemma decrement_outside_filter:
  assumes "\<not> passes_filter e i" "i < 2 ^ 64 - 1"
  shows "decrement_and_collect_ready slot i e 1 gen c = (c, [])"
proof (cases "filter_bounds e")
  case (Some lh)
  obtain lo hi where lh: "lh = (lo, hi)" by (cases lh)
  have "\<not> (lo \<le> i \<and> i < hi)" using assms(1) by (simp add: passes_filter_bounds Some lh)
  then have "filter_overlap i 1 lo hi = None" using assms(2) by (auto simp: filter_overlap_def Let_def)
  then show ?thesis by (simp add: decrement_and_collect_ready_def Some lh)
qed (use assms in \<open>simp add: passes_filter_bounds\<close>)

lemma dispatch_ready_unconditional:
  "\<not> has_condition_flag e \<Longrightarrow>
   dispatch_ready cfg gc sv ci ni e gen ready sched s =
     Some (Inr (s, sched @ map (\<lambda>r. node_info_new (succ_id e) (ni_slot ni) r (ni_index ni)) ready))"
  by (induction ready arbitrary: sched) simp_all

lemma push_ready_single:
  "push_ready_chunked ready succ slot pidx w False sched = sched @ map (\<lambda>r. node_info_new succ slot r pidx) ready"
  by (simp add: push_ready_chunked_def)

lemma batch_edges_worker_edges:
  assumes "\<not> cfg_coalesce_barriers cfg" "bulk_count ni = 1" "ni_index ni < 2 ^ 64 - 1"
  shows "\<forall>e \<in> set es. \<not> has_condition_flag e \<Longrightarrow>
    batch_edges cfg gc sv ci ni gen es sched s = Some (worker_edges cfg ni gen es s sched)"
proof (induction es arbitrary: s sched)
  case (Cons e es)
  have nc: "\<not> has_condition_flag e" using Cons.prems by simp
  let ?d = "decrement_and_collect_ready (ni_slot ni) (ni_index ni) e (bulk_count ni) gen (resolution_state s)"
  have IH: "batch_edges cfg gc sv ci ni gen es sched' s' = Some (worker_edges cfg ni gen es s' sched')" for s' sched'
    using Cons by simp
  show ?case
  proof (cases "passes_filter e (ni_index ni)")
    case False
    have "?d = (resolution_state s, [])"
      using decrement_outside_filter [OF False assms(3)] assms(2) by simp
    then show ?thesis
      using False by (simp add: IH push_ready_single assms(1) Let_def)
  next
    case True
    obtain c ready where d: "?d = (c, ready)" by fastforce
    show ?thesis
    proof (cases "se_is_fanout_bulk e \<and> fanout_enabled cfg \<and> ready \<noteq> []")
      case fan: True
      then show ?thesis
        using True nc d
        by (cases "fanout_arrive cfg ni gen e (length ready) (s\<lparr>resolution_state := c\<rparr>)")
          (auto simp: condition_exhausted_def IH split: prod.splits)
    next
      case nofan: False
      then show ?thesis
        using True nc d
        by (auto simp: condition_exhausted_def IH dispatch_ready_unconditional push_ready_single assms(1) Let_def)
    qed
  qed
qed simp

lemma batch_slots_single: "ni_slot ni < 64 \<Longrightarrow> batch_slots [(ni, r)] = [ni_slot ni]"
  by (simp add: batch_slots_def filter_upt_eq)

lemma count_completed_keeps:
  "count_completed e ni s = Inr s' \<Longrightarrow> generation s' = generation s"
  by (auto simp: count_completed_def rbind_eq_Inr split: if_splits)

lemma for_slots_one: "for_slots f [slot] s = f slot s"
  by (cases "f slot s") simp_all

lemma run_rest:
  "sbind (sbind (Some r) (\<lambda>s3. Some (Inr (s3, a)))) (\<lambda>(s2, act). sbind (Some (f s2)) (\<lambda>s3. Some (Inr (s3, act))))
   = Some (map_sum id (\<lambda>(s', _). (s', a)) (rbind r (\<lambda>s4. rbind (f s4) (\<lambda>s5. Inr (s5, None)))))"
  by (cases r; simp) (cases "f (projr r)"; simp)



section \<open>The task counters of a slot\<close>

text \<open>An instance leaves its slot's count when its task completes (alone or in a bulk), or when its
  condition fails.\<close>

datatype discharge = Completed node_info | Refused node_info

fun discharge_one :: "graph_cache \<Rightarrow> discharge \<Rightarrow> 'a slot_data_scheme \<Rightarrow> 'a slot_data_scheme result" where
  "discharge_one gc (Completed ni) s =
     rbind (vec_at (gc_node_cache gc) (ni_id ni)) (\<lambda>e. count_completed e ni s)"
| "discharge_one gc (Refused ni) s =
     rbind (fetch_sub 1 (ni_slot ni) (pending_cond_tasks s)) (\<lambda>p. Inr (s\<lparr>pending_cond_tasks := p\<rparr>))"

fun discharge_all :: "graph_cache \<Rightarrow> discharge list \<Rightarrow> 'a slot_data_scheme \<Rightarrow> 'a slot_data_scheme result" where
  "discharge_all gc [] s = Inr s"
| "discharge_all gc (d # ds) s = rbind (discharge_one gc d s) (discharge_all gc ds)"

fun discharged :: "discharge \<Rightarrow> (node_id \<times> nat) list" where
  "discharged (Completed ni) = map (Pair (ni_id ni)) (instances ni)"
| "discharged (Refused ni) = [(ni_id ni, ni_index ni)]"

fun discharge_ok :: "graph_cache \<Rightarrow> nat \<Rightarrow> discharge \<Rightarrow> bool" where
  "discharge_ok gc slot (Completed ni) \<longleftrightarrow> ni_slot ni = slot \<and> ni_id ni < length (gc_node_cache gc)
     \<and> ni_index ni + bulk_count ni \<le> ce_factor (gc_node_cache gc ! ni_id ni)"
| "discharge_ok gc slot (Refused ni) \<longleftrightarrow> ni_slot ni = slot \<and> ni_id ni < length (gc_node_cache gc)
     \<and> ce_is_condition (gc_node_cache gc ! ni_id ni)
     \<and> ni_index ni < ce_factor (gc_node_cache gc ! ni_id ni)"

text \<open>Refusing is what the batch protocol does to the counters when a condition fails.\<close>

lemma condition_failed_discharges:
  assumes "condition_failed slot ni gen s = Inr s'" "ni_slot ni = slot"
  shows "\<exists>t. discharge_one gc (Refused ni) s = Inr t
    \<and> pending_cond_tasks s' = pending_cond_tasks t \<and> pending_tasks s' = pending_tasks t"
  using assms by (auto simp: condition_failed_def rbind_eq_Inr)

definition all_cells :: "graph_cache \<Rightarrow> (node_id \<times> nat) set" where
  "all_cells gc = {(nid, i). nid < length (gc_node_cache gc) \<and> i < ce_factor (gc_node_cache gc ! nid)}"

definition is_cond_cell :: "graph_cache \<Rightarrow> node_id \<times> nat \<Rightarrow> bool" where
  "is_cond_cell gc c = ce_is_condition (gc_node_cache gc ! fst c)"

lemma finite_all_cells [simp]: "finite (all_cells gc)"
proof -
  have "all_cells gc = (SIGMA nid:{..<length (gc_node_cache gc)}. {..<ce_factor (gc_node_cache gc ! nid)})"
    by (auto simp: all_cells_def)
  then show ?thesis by simp
qed

lemma card_cells: "card {c \<in> all_cells gc. is_cond_cell gc c = b} = pending_total b (gc_node_cache gc)"
proof -
  let ?xs = "gc_node_cache gc"
  let ?A = "{nid. nid < length ?xs \<and> ce_is_condition (?xs ! nid) = b}"
  have "{c \<in> all_cells gc. is_cond_cell gc c = b} = (SIGMA nid:?A. {..<ce_factor (?xs ! nid)})"
    by (auto simp: all_cells_def is_cond_cell_def)
  then have "card {c \<in> all_cells gc. is_cond_cell gc c = b} = (\<Sum>nid\<in>?A. ce_factor (?xs ! nid))"
    by simp
  also have "\<dots> = (\<Sum>nid<length ?xs. if ce_is_condition (?xs ! nid) = b then ce_factor (?xs ! nid) else 0)"
    by (rule sum.mono_neutral_cong_left) auto
  also have "\<dots> = sum_list (map (\<lambda>e. if ce_is_condition e = b then ce_factor e else 0) ?xs)"
    by (simp add: sum_list_sum_nth atLeast0LessThan)
  also have "\<dots> = pending_total b ?xs"
    unfolding pending_total_def by (induction ?xs rule: list.induct) (simp_all add: sum_list_map_filter')
  finally show ?thesis .
qed

definition counters_after :: "graph_cache \<Rightarrow> nat \<Rightarrow> (node_id \<times> nat) list \<Rightarrow> 'a slot_data_scheme \<Rightarrow> 'a slot_data_scheme \<Rightarrow> bool" where
  "counters_after gc slot cells s s' \<longleftrightarrow>
     length (pending_tasks s') = length (pending_tasks s) \<and> length (pending_cond_tasks s') = length (pending_cond_tasks s)
     \<and> pending_tasks s' ! slot = pending_tasks s ! slot - word_of_nat (length (filter (\<lambda>c. \<not> is_cond_cell gc c) cells))
     \<and> pending_cond_tasks s' ! slot = pending_cond_tasks s ! slot - word_of_nat (length (filter (is_cond_cell gc) cells))"

lemma counters_after_trans:
  "counters_after gc slot xs s t \<Longrightarrow> counters_after gc slot ys t u \<Longrightarrow> counters_after gc slot (xs @ ys) s u"
  by (simp add: counters_after_def)

lemma discharge_one_counts:
  assumes "discharge_ok gc slot d" "slot < length (pending_tasks s)" "slot < length (pending_cond_tasks s)"
  shows "\<exists>s'. discharge_one gc d s = Inr s' \<and> counters_after gc slot (discharged d) s s'"
proof (cases d)
  case (Completed ni)
  have l: "filter (is_cond_cell gc) (discharged d)
      = (if ce_is_condition (gc_node_cache gc ! ni_id ni) then discharged d else [])"
    "filter (\<lambda>c. \<not> is_cond_cell gc c) (discharged d)
      = (if ce_is_condition (gc_node_cache gc ! ni_id ni) then [] else discharged d)"
    by (auto simp: Completed is_cond_cell_def filter_empty_conv filter_id_conv)
  then show ?thesis
    using assms by (auto simp: Completed counters_after_def count_completed_def fetch_ok vec_at_ok instances_def)
next
  case (Refused ni)
  then show ?thesis
    using assms by (simp add: counters_after_def is_cond_cell_def fetch_ok del: One_nat_def)
qed

lemma discharge_all_counts:
  "list_all (discharge_ok gc slot) ds \<Longrightarrow> slot < length (pending_tasks s) \<Longrightarrow> slot < length (pending_cond_tasks s) \<Longrightarrow>
   \<exists>s'. discharge_all gc ds s = Inr s' \<and> counters_after gc slot (concat (map discharged ds)) s s'"
proof (induction ds arbitrary: s)
  case Nil
  then show ?case by (simp add: counters_after_def)
next
  case (Cons d ds)
  obtain t where t: "discharge_one gc d s = Inr t" "counters_after gc slot (discharged d) s t"
    using discharge_one_counts [of gc slot d s] Cons.prems by auto
  then obtain u where "discharge_all gc ds t = Inr u" "counters_after gc slot (concat (map discharged ds)) t u"
    using Cons.IH [of t] Cons.prems by (auto simp: counters_after_def)
  then show ?case using t counters_after_trans by fastforce
qed

lemma discharged_cells:
  "discharge_ok gc slot d \<Longrightarrow> set (discharged d) \<subseteq> all_cells gc"
  by (cases d) (auto simp: all_cells_def instances_def)

lemma word_diff_eq_0:
  assumes "k \<le> n" "n < 2 ^ LENGTH('a)"
  shows "(word_of_nat n :: 'a::len word) - word_of_nat k = 0 \<longleftrightarrow> k = n"
proof
  assume "(word_of_nat n :: 'a word) - word_of_nat k = 0"
  then have "unat (word_of_nat n :: 'a word) = unat (word_of_nat k :: 'a word)" by simp
  then show "k = n" using assms by (simp add: unat_of_nat)
qed simp



section \<open>Coalesced network completions and filters\<close>

text \<open>A two-node graph: the second waits at a barrier for instances 2 and 3 of the first.\<close>

definition filtered_nodes :: "node list" where
  "filtered_nodes = [make_node 0 4 [], make_node 1 2 [barrier_arg 0 [2, 3] None]]"

definition filtered_edge :: succ_edge where
  "filtered_edge = \<lparr>succ_id = 1, has_condition_flag = False, se_is_fanout_bulk = False, se_succ_factor = 2,
     filter_start = 2, filter_end = 4, se_group_by = NO_GROUP, one_to_one_offset = 0, has_one_to_one = False\<rparr>"

definition filtered_counter :: multi_threaded_counter where
  "filtered_counter = (case counter_new 1 [0, 2] filtered_nodes of Inr c \<Rightarrow> c | Inl _ \<Rightarrow> \<lparr>node_dep_map = [], completed_slots = 0\<rparr>)"

text \<open>C25: The batch protocol loses a coalesced run that starts before an edge's filter. The packets of
  instances 0 to 3 completing one by one release both instances of the successor that waits for
  instances 2 and 3, and so does the worker's walk for their bulk completion; the batch protocol
  skips the edge for the same bulk completion, because it tests the first instance of the run
  against the filter, and leaves the counter as it is.\<close>

theorem batch_path_drops_filtered_run:
  "snd (decrement_and_collect_ready 0 0 filtered_edge 4 0 filtered_counter) = [0, 1]
   \<and> snd (resolve_edges 0 0 3 [filtered_edge] (fst (resolve_edges 0 0 2 [filtered_edge] filtered_counter))) = [(1, 0), (1, 1)]
   \<and> batch_edges cfg gc sv ci ((node_info_new 0 0 0 0)\<lparr>bulk_count := 4\<rparr>) 0 [filtered_edge] [] s = Some (Inr (s, []))"
proof -
  let ?c = filtered_counter and ?e = filtered_edge
  have b: "filter_bounds ?e = Some (2, 4)" by code_simp
  have bulk: "decrement_and_collect_ready 0 0 ?e 4 0 ?c = decrement_cells 0 ?e 0 [2, 3] ?c"
    by (simp add: decrement_and_collect_ready_def b filter_overlap_def upt_rec)
  have one: "decrement_and_collect_ready 0 i ?e 1 0 c
      = counter_decrease 0 (succ_id ?e) 0 (pred_group ?e i) 1 (one_to_one_succ_idx ?e i) c"
    if "i = 2 \<or> i = 3" for i c
    using that by (auto simp: decrement_and_collect_ready_def b filter_overlap_def)
  have "snd (decrement_cells 0 ?e 0 [2, 3] ?c) = [0, 1]"
    "map (Pair (succ_id ?e)) (snd (counter_decrease 0 (succ_id ?e) 0 (pred_group ?e 3) 1 (one_to_one_succ_idx ?e 3)
       (fst (counter_decrease 0 (succ_id ?e) 0 (pred_group ?e 2) 1 (one_to_one_succ_idx ?e 2) ?c)))) = [(1, 0), (1, 1)]"
    "passes_filter ?e 0 = False"
    by code_simp+
  then show ?thesis by (simp add: node_info_new_def bulk one case_prod_beta del: One_nat_def)
qed

end
