(* ===== verification/Slot_Management.thy ===== *)
theory Slot_Management
  imports Batch_Resolution
begin

text \<open>
  Slot allocation (\<^verbatim>\<open>runtime/slot_management.rs\<close>): the frame-to-slot cache, assignment of a
  frame to a slot, release of a slot with promotion of the next buffering one, the tasks that seed
  a slot, and the generation counter with the sweep at its wrap. A function that holds the locks
  for its whole body is one step.
\<close>

unbundle bit_operations_syntax

section \<open>The frame-to-slot cache\<close>

text \<open>The length of the cache is a power of two, and the mask picks a cell.\<close>

definition frame_cell :: "nat \<Rightarrow> 'a slot_data_scheme \<Rightarrow> nat" where
  "frame_cell frame s = frame AND (length (frame_slot_map s) - 1)"

definition frame_slot_lookup :: "nat \<Rightarrow> 'a slot_data_scheme \<Rightarrow> nat option result" where
  "frame_slot_lookup frame s =
     rbind (vec_at (frame_slot_map s) (frame_cell frame s)) (\<lambda>packed.
       Inr (if packed \<noteq> FRAME_SLOT_EMPTY \<and> gen_unpack_gen packed = as_u32 frame
            then Some (unat (gen_unpack_val packed)) else None))"

definition frame_slot_publish :: "nat \<Rightarrow> nat \<Rightarrow> 'a slot_data_scheme \<Rightarrow> 'a slot_data_scheme result" where
  "frame_slot_publish frame slot s =
     rbind (vec_modify (\<lambda>_. gen_pack (as_u32 frame) (as_u32 slot)) (frame_cell frame s) (frame_slot_map s))
       (\<lambda>m. Inr (s\<lparr>frame_slot_map := m\<rparr>))"

definition frame_slot_clear :: "nat \<Rightarrow> 'a slot_data_scheme \<Rightarrow> 'a slot_data_scheme result" where
  "frame_slot_clear frame s =
     rbind (vec_at (frame_slot_map s) (frame_cell frame s)) (\<lambda>packed.
       Inr (if packed \<noteq> FRAME_SLOT_EMPTY \<and> gen_unpack_gen packed = as_u32 frame
            then s\<lparr>frame_slot_map := (frame_slot_map s)[frame_cell frame s := FRAME_SLOT_EMPTY]\<rparr> else s))"

section \<open>Generations\<close>

text \<open>At the wrap of the low 32 bits every tagged cell of the slot is rewritten.\<close>

definition sweep_cond :: "cache_entry list \<Rightarrow> u32 \<Rightarrow> nat \<Rightarrow> u64 list \<Rightarrow> u64 list" where
  "sweep_cond cache new_gen n row =
     map (\<lambda>nc. gen_pack new_gen (if ce_is_condition nc then as_u32 (ce_factor nc) else 0)) (take n cache) @ drop n row"

definition sweep_fanout :: "u32 \<Rightarrow> nat \<Rightarrow> u64 list \<Rightarrow> u64 list" where
  "sweep_fanout new_gen n row = replicate n (gen_pack new_gen 0) @ drop n row"

definition sweep_slot_generational_entries ::
  "graph_cache \<Rightarrow> nat \<Rightarrow> u32 \<Rightarrow> rt_state \<Rightarrow> rt_state result" where
  "sweep_slot_generational_entries gc slot new_gen s =
     rbind (vec_at (cond_instances_to_spawn s) slot) (\<lambda>cond_slot.
     rbind (vec_at (fanout_bulk_arrived s) slot) (\<lambda>fanout_slot.
       let cache = gc_node_cache gc; n = min (min (length cache) (length cond_slot)) (length fanout_slot)
       in Inr (s\<lparr>resolution_state := reset_slot_epoch slot new_gen (resolution_state s),
                 cond_instances_to_spawn := (cond_instances_to_spawn s)[slot := sweep_cond cache new_gen n cond_slot],
                 fanout_bulk_arrived := (fanout_bulk_arrived s)[slot := sweep_fanout new_gen n fanout_slot]\<rparr>)))"

definition bump_slot_generation :: "graph_cache \<Rightarrow> nat \<Rightarrow> rt_state \<Rightarrow> rt_state result" where
  "bump_slot_generation gc slot s =
     rbind (vec_at (generation s) slot) (\<lambda>prev.
       let s1 = s\<lparr>generation := (generation s)[slot := prev + 1]\<rparr>
       in if (ucast prev :: u32) = - 1
          then sweep_slot_generational_entries gc slot (ucast (prev + 1)) s1
          else Inr s1)"

section \<open>Assigning a frame\<close>

fun lookup_frame :: "nat \<Rightarrow> (nat \<times> nat) list \<Rightarrow> nat option" where
  "lookup_frame frame [] = None"
| "lookup_frame frame ((f, slot) # rest) = (if f = frame then Some slot else lookup_frame frame rest)"

text \<open>Marking an inactive slot: active slots are shown in the bitmap and are checked.\<close>

definition mark_active :: "nat \<Rightarrow> 'a slot_data_scheme \<Rightarrow> 'a slot_data_scheme result" where
  "mark_active slot s =
     rbind (vec_modify (\<lambda>_. Active) slot (slot_states s)) (\<lambda>states.
     rbind (vec_modify (\<lambda>_. True) slot (needs_check s)) (\<lambda>nc.
       Inr (s\<lparr>slot_states := states, active_bitmap := active_bitmap s OR slot_bit slot, needs_check := nc\<rparr>)))"

definition register_frame :: "nat \<Rightarrow> nat \<Rightarrow> 'a slot_data_scheme \<Rightarrow> 'a slot_data_scheme result" where
  "register_frame frame slot s =
     rbind (frame_slot_publish frame slot (s\<lparr>running_frames := running_frames s @ [(frame, slot)]\<rparr>)) (\<lambda>s1.
     rbind (vec_modify (\<lambda>_. frame) slot (frame_id s1)) (\<lambda>ids. Inr (s1\<lparr>frame_id := ids\<rparr>)))"

text \<open>The search for an inactive slot, round-robin after the last one assigned.\<close>

fun find_inactive :: "nat list \<Rightarrow> slot_state list \<Rightarrow> nat option result" where
  "find_inactive [] states = Inr None"
| "find_inactive (slot # slots) states =
     rbind (vec_at states slot) (\<lambda>st. if st = Inactive then Inr (Some slot) else find_inactive slots states)"

definition assign_new_frame ::
  "rt_config \<Rightarrow> graph_cache \<Rightarrow> nat \<Rightarrow> rt_state \<Rightarrow> (rt_state \<times> (nat \<times> bool) option) result" where
  "assign_new_frame cfg gc frame s =
     (let last = last_assigned s in
      rbind (vec_at (slot_states s) last) (\<lambda>st.
        if st = Inactive then
          rbind (mark_active last s) (\<lambda>s1.
          rbind (register_frame frame last s1) (\<lambda>s2.
          rbind (bump_slot_generation gc last s2) (\<lambda>s3. Inr (s3, Some (last, True)))))
        else
          rbind (find_inactive (map (\<lambda>i. (last + i) mod cfg_slots cfg) [1..<cfg_slots cfg]) (slot_states s)) (\<lambda>found.
            case found of
              None \<Rightarrow> Inr (s, None)
            | Some slot \<Rightarrow>
                if \<not> cfg_slot_priority cfg \<and> gc_network gc \<noteq> None then
                  rbind (mark_active slot s) (\<lambda>s1.
                  rbind (register_frame frame slot s1) (\<lambda>s2.
                  rbind (bump_slot_generation gc slot (s2\<lparr>last_assigned := slot\<rparr>)) (\<lambda>s3.
                    Inr (s3, Some (slot, True)))))
                else
                  rbind (vec_modify (\<lambda>_. Buffering) slot (slot_states s)) (\<lambda>states.
                  rbind (register_frame frame slot (s\<lparr>slot_states := states\<rparr>)) (\<lambda>s2.
                    Inr (s2\<lparr>last_assigned := slot\<rparr>, Some (slot, False)))))))"

text \<open>The scan under the lock, and the lock-free path before it. The flag of the result says that
  the slot was activated by this call.\<close>

definition assign_slow ::
  "rt_config \<Rightarrow> graph_cache \<Rightarrow> nat \<Rightarrow> rt_state \<Rightarrow> (rt_state \<times> (nat \<times> bool) option) result" where
  "assign_slow cfg gc frame s =
     (case lookup_frame frame (running_frames s) of
        Some slot \<Rightarrow> Inr (s, Some (slot, False))
      | None \<Rightarrow> assign_new_frame cfg gc frame s)"

definition assign_frame_to_available_slot ::
  "rt_config \<Rightarrow> graph_cache \<Rightarrow> nat \<Rightarrow> rt_state \<Rightarrow> (rt_state \<times> (nat \<times> bool) option) result" where
  "assign_frame_to_available_slot cfg gc frame s =
     rbind (frame_slot_lookup frame s) (\<lambda>hit.
       case hit of
         Some slot \<Rightarrow> Inr (s, Some (slot, False))
       | None \<Rightarrow> assign_slow cfg gc frame s)"

section \<open>Release and promotion\<close>

text \<open>The first running frame, oldest first, whose slot is buffering.\<close>

fun first_buffering :: "(nat \<times> nat) list \<Rightarrow> slot_state list \<Rightarrow> nat option result" where
  "first_buffering [] states = Inr None"
| "first_buffering ((f, slot) # rest) states =
     rbind (vec_at states slot) (\<lambda>st. if st = Buffering then Inr (Some slot) else first_buffering rest states)"

fun remove_slot :: "nat \<Rightarrow> (nat \<times> nat) list \<Rightarrow> nat option \<times> (nat \<times> nat) list" where
  "remove_slot slot [] = (None, [])"
| "remove_slot slot ((f, s) # rest) =
     (if s = slot then (Some f, rest) else let (g, r) = remove_slot slot rest in (g, (f, s) # r))"

definition release_slot :: "nat \<Rightarrow> 'a slot_data_scheme \<Rightarrow> 'a slot_data_scheme result" where
  "release_slot slot s =
     rbind (vec_modify (\<lambda>_. Inactive) slot (slot_states s)) (\<lambda>states.
     rbind (vec_modify (\<lambda>_. USIZE_MAX) slot (frame_id s)) (\<lambda>ids.
       let (frame, running) = remove_slot slot (running_frames s);
           s1 = s\<lparr>slot_states := states, active_bitmap := active_bitmap s AND NOT (slot_bit slot),
                  frame_id := ids, running_frames := running\<rparr>
       in case frame of Some f \<Rightarrow> frame_slot_clear f s1 | None \<Rightarrow> Inr s1))"

type_synonym packet_batch = "(node_info \<times> cm_types option) list"

definition promote_next ::
  "graph_cache \<Rightarrow> rt_state \<Rightarrow> (rt_state \<times> (nat \<times> packet_batch) option) result" where
  "promote_next gc s =
     rbind (first_buffering (running_frames s) (slot_states s)) (\<lambda>found.
       case found of
         None \<Rightarrow> Inr (s, None)
       | Some slot \<Rightarrow>
           rbind (mark_active slot s) (\<lambda>s1.
           rbind (vec_at (slot_buffers s1) slot) (\<lambda>buffered.
             let s2 = s1\<lparr>last_assigned := slot, slot_buffers := (slot_buffers s1)[slot := []]\<rparr>
             in rbind (bump_slot_generation gc slot s2) (\<lambda>s3. Inr (s3, Some (slot, buffered))))))"

definition release_and_activate_next ::
  "rt_config \<Rightarrow> graph_cache \<Rightarrow> nat \<Rightarrow> rt_state \<Rightarrow> (rt_state \<times> (nat \<times> packet_batch) option) result" where
  "release_and_activate_next cfg gc slot s =
     rbind (release_slot slot s) (\<lambda>s1. if cfg_slot_priority cfg then promote_next gc s1 else Inr (s1, None))"

section \<open>Seeding a slot\<close>

definition root_tasks :: "graph \<Rightarrow> nat \<Rightarrow> nat \<Rightarrow> node_id \<Rightarrow> node_info list result" where
  "root_tasks g workers slot nid =
     rbind (node_at g nid) (\<lambda>n.
       let factor = node_factor n
       in Inr (if factor = 0 then []
               else chunk_infos nid slot 0 0
                      (filter (\<lambda>(start, cnt). cnt \<noteq> 0) (chunks 0 factor (min (max workers 1) factor)))))"

definition initial_tasks :: "graph \<Rightarrow> nat list \<Rightarrow> nat \<Rightarrow> node_info list result" where
  "initial_tasks g slots workers =
     rbind (rmap (\<lambda>slot. rbind (rmap (root_tasks g workers slot) (initial_nodes g)) (\<lambda>ts. Inr (concat ts))) slots)
       (\<lambda>ts. Inr (concat ts))"

section \<open>Completion\<close>

text \<open>Whether the slot takes another frame: not when the frames completed and in flight use up the
  budget. Its results are cleared before it is released.\<close>

definition occupied :: "slot_state list \<Rightarrow> nat list" where
  "occupied states = filter (\<lambda>i. states ! i = Active \<or> states ! i = Buffering) [0..<length states]"

definition process_slot_completion :: "rt_config \<Rightarrow> nat \<Rightarrow> rt_state \<Rightarrow> (rt_state \<times> bool) result" where
  "process_slot_completion cfg slot s =
     (let active = length (filter (\<lambda>i. i \<noteq> slot) (occupied (slot_states s)));
          completed = frame_complete_counter s + 1;
          s1 = s\<lparr>frame_complete_counter := completed\<rparr>
      in if completed + active < cfg_max_frames cfg then
           rbind (reinit_slot slot (node_results s1)) (\<lambda>m. Inr (s1\<lparr>node_results := m\<rparr>, True))
         else Inr (s1, False))"

section \<open>The first frames\<close>

fun assign_all ::
  "rt_config \<Rightarrow> graph_cache \<Rightarrow> nat list \<Rightarrow> rt_state \<Rightarrow> (rt_state \<times> nat list) result" where
  "assign_all cfg gc [] s = Inr (s, [])"
| "assign_all cfg gc (frame # frames) s =
     rbind (assign_frame_to_available_slot cfg gc frame s) (\<lambda>(s1, r).
       case r of
         None \<Rightarrow> Inl ExplicitPanic
       | Some (slot, _) \<Rightarrow> rbind (assign_all cfg gc frames s1) (\<lambda>(s2, slots). Inr (s2, slot # slots)))"

definition perform_initial_preparation ::
  "rt_config \<Rightarrow> graph_cache \<Rightarrow> services \<Rightarrow> nat \<Rightarrow> rt_state \<Rightarrow> rt_state result" where
  "perform_initial_preparation cfg gc sv thread_id s =
     (if thread_id \<noteq> 0 \<or> initial_prep_done s then Inr s
      else
        let s1 = s\<lparr>initial_prep_done := True\<rparr>;
            frames = (if cfg_slot_priority cfg then [0] else [0..<cfg_slots cfg])
        in if initial_nodes (gc_graph gc) \<noteq> [] then
             rbind (assign_all cfg gc frames s1) (\<lambda>(s2, slots).
             rbind (initial_tasks (gc_graph gc) slots (cfg_workers cfg)) (\<lambda>tasks.
               if tasks \<noteq> [] then dispatch_nodes sv gc tasks s2 else Inr s2))
           else Inr s1)"

end
