(* ===== verification/Slot_Lifecycle.thy ===== *)
theory Slot_Lifecycle
  imports Slot_Management
begin

text \<open>
  The life of a slot (\<^verbatim>\<open>runtime/slot_lifecycle.rs\<close>): detection and exclusive claim of a
  completed frame, reset, release with promotion of the next frame, restart in place, and the
  eviction of frames whose packets stopped arriving. A resolution thread owns a list of the slots
  it looks at, refreshed when it is marked dirty.
\<close>

unbundle bit_operations_syntax

record thread_state =
  th_activity :: "nat \<rightharpoonup> bool"
  th_cached :: "nat list"
  th_dirty :: bool

section \<open>Completion\<close>

definition slot_idle :: "nat \<Rightarrow> 'a slot_data_scheme \<Rightarrow> bool result" where
  "slot_idle slot s =
     rbind (vec_at (pending_tasks s) slot) (\<lambda>p.
     rbind (vec_at (pending_cond_tasks s) slot) (\<lambda>c.
     rbind (vec_at (processing_count s) slot) (\<lambda>n. Inr (p = 0 \<and> c = 0 \<and> n = 0))))"

text \<open>Between the claim and the second look at the counters other threads may run: the second
  look is at the state \<open>interfere\<close> makes of this one.\<close>

definition detect_and_claim_slot_completion ::
  "(nat \<Rightarrow> rt_state \<Rightarrow> rt_state) \<Rightarrow> nat \<Rightarrow> rt_state \<Rightarrow> (rt_state \<times> bool) result" where
  "detect_and_claim_slot_completion interfere slot s =
     rbind (slot_idle slot s) (\<lambda>idle.
       if \<not> idle then Inr (s, False)
       else
         let (c, won) = try_complete_slot slot (resolution_state s);
             s1 = s\<lparr>resolution_state := c\<rparr>
         in if \<not> won then Inr (s1, False)
            else
              let s2 = interfere slot s1
              in rbind (slot_idle slot s2) (\<lambda>still.
                   if still then Inr (s2, True)
                   else Inr (s2\<lparr>resolution_state := unmark_slot_completed slot (resolution_state s2)\<rparr>, False)))"

definition reset_slot_state :: "graph_cache \<Rightarrow> nat \<Rightarrow> rt_state \<Rightarrow> rt_state result" where
  "reset_slot_state gc slot s =
     rbind (bump_slot_generation gc slot s) (\<lambda>s1.
     rbind (vec_modify (\<lambda>_. False) slot (packet_complete s1)) (\<lambda>pc.
     rbind (vec_modify (\<lambda>_. 0) slot (packet_counters s1)) (\<lambda>cnt.
     rbind (vec_modify (\<lambda>_. gc_total_tasks gc) slot (pending_tasks s1)) (\<lambda>pt.
     rbind (vec_modify (\<lambda>_. gc_total_cond_tasks gc) slot (pending_cond_tasks s1)) (\<lambda>pct.
     rbind (vec_modify (\<lambda>_. False) slot (needs_check s1)) (\<lambda>nc.
       Inr (s1\<lparr>packet_complete := pc, packet_counters := cnt, pending_tasks := pt,
               pending_cond_tasks := pct, needs_check := nc,
               resolution_state := unmark_slot_completed slot (resolution_state s1)\<rparr>)))))))"

section \<open>Release, promotion, restart\<close>

definition release_and_dispatch_next ::
  "rt_config \<Rightarrow> graph_cache \<Rightarrow> services \<Rightarrow> nat list list \<Rightarrow> nat \<Rightarrow> rt_state \<times> (nat \<rightharpoonup> bool)
     \<Rightarrow> (rt_state \<times> (nat \<rightharpoonup> bool)) step" where
  "release_and_dispatch_next cfg gc sv cond_indexes slot st =
     sbind (Some (release_and_activate_next cfg gc slot (fst st))) (\<lambda>(s1, promoted).
       case promoted of
         None \<Rightarrow> Some (Inr (s1, snd st))
       | Some (activated, buffered) \<Rightarrow>
           sbind (Some (rbind (initial_tasks (gc_graph gc) [activated] (cfg_workers cfg)) (\<lambda>tasks.
               if tasks \<noteq> [] then dispatch_nodes sv gc tasks s1 else Inr s1))) (\<lambda>s2.
             if buffered \<noteq> [] then process_batch_resolution cfg gc sv cond_indexes buffered (s2, snd st)
             else Some (Inr (s2, snd st))))"

text \<open>Without a network the slot is restarted in place, for the frame after those completed and in
  flight.\<close>

definition restart_frame :: "nat \<Rightarrow> rt_state \<Rightarrow> rt_state result" where
  "restart_frame slot s =
     (let next_frame_id = frame_complete_counter s + length (occupied (slot_states s))
      in rbind (vec_modify (\<lambda>_. Active) slot (slot_states s)) (\<lambda>states.
           register_frame next_frame_id slot
             (s\<lparr>slot_states := states, active_bitmap := active_bitmap s OR slot_bit slot\<rparr>)))"

definition restart_slot_nonnetwork ::
  "rt_config \<Rightarrow> graph_cache \<Rightarrow> services \<Rightarrow> nat \<Rightarrow> rt_state \<Rightarrow> rt_state result" where
  "restart_slot_nonnetwork cfg gc sv slot s =
     (if gc_network gc \<noteq> None then Inr s
      else
        rbind (restart_frame slot s) (\<lambda>s1.
        rbind (initial_tasks (gc_graph gc) [slot] (cfg_workers cfg)) (\<lambda>tasks.
          if tasks \<noteq> [] then dispatch_nodes sv gc tasks s1 else Inr s1)))"

section \<open>Eviction\<close>

text \<open>A frame is dropped once: the bit is set, and it counts as completed, so that the admission
  window moves on. Frames the bitmap does not track are ignored.\<close>

definition mark_frame_dropped :: "nat \<Rightarrow> rt_state \<Rightarrow> rt_state" where
  "mark_frame_dropped frame s =
     (if length (frame_dropped (net s)) \<le> frame then s
      else if frame_dropped (net s) ! frame then s
      else s\<lparr>net := (net s)\<lparr>frame_dropped := (frame_dropped (net s))[frame := True],
                            dropped_frames := dropped_frames (net s) + 1\<rparr>,
             frame_complete_counter := frame_complete_counter s + 1\<rparr>)"

definition timeout_ns :: "rt_config \<Rightarrow> u64" where
  "timeout_ns cfg = word_of_nat (min (cfg_frame_timeout_ms cfg * 1000000) (2 ^ 64 - 1))"

definition stalled :: "rt_config \<Rightarrow> u64 \<Rightarrow> nat \<Rightarrow> rt_state \<Rightarrow> bool result" where
  "stalled cfg now slot s =
     rbind (vec_at (packet_counters s) slot) (\<lambda>received.
       if received = 0 \<or> frame_packets (net s) \<le> unat received then Inr False
       else
         rbind (vec_at (last_packet_ns s) slot) (\<lambda>idle_since.
           if saturating_sub now idle_since < timeout_ns cfg then Inr False
           else rbind (vec_at (processing_count s) slot) (\<lambda>n. Inr (n = 0))))"

definition try_evict_slot ::
  "rt_config \<Rightarrow> graph_cache \<Rightarrow> services \<Rightarrow> nat list list \<Rightarrow> u64 \<Rightarrow> nat \<Rightarrow> rt_state \<times> thread_state
     \<Rightarrow> (rt_state \<times> thread_state) step" where
  "try_evict_slot cfg gc sv cond_indexes now slot st =
     (let s = fst st; th = snd st in
      sbind (Some (stalled cfg now slot s)) (\<lambda>st_now.
        if \<not> st_now then Some (Inr st)
        else
          sbind (Some (vec_at (packet_complete s) slot)) (\<lambda>already.
            let s1 = s\<lparr>packet_complete := (packet_complete s)[slot := True]\<rparr>
            in if already then Some (Inr (s1, th))
               else
                 sbind (Some (vec_at (frame_id s1) slot)) (\<lambda>frame.
                 sbind (Some (reset_slot_state gc slot (mark_frame_dropped frame s1))) (\<lambda>s2.
                 sbind (Some (rbind (reinit_slot slot (node_results s2)) (\<lambda>m. Inr (s2\<lparr>node_results := m\<rparr>)))) (\<lambda>s3.
                 sbind (release_and_dispatch_next cfg gc sv cond_indexes slot
                          (s3, (th_activity th)(slot := None))) (\<lambda>(s4, act).
                   Some (Inr (s4, th\<lparr>th_activity := act, th_dirty := True\<rparr>)))))))))"

fun for_each_slot :: "(nat \<Rightarrow> 's \<Rightarrow> 's step) \<Rightarrow> nat list \<Rightarrow> 's \<Rightarrow> 's step" where
  "for_each_slot f [] st = Some (Inr st)"
| "for_each_slot f (slot # slots) st = sbind (f slot st) (for_each_slot f slots)"

definition try_evict_stalled_slots ::
  "rt_config \<Rightarrow> graph_cache \<Rightarrow> services \<Rightarrow> nat list list \<Rightarrow> u64 \<Rightarrow> rt_state \<times> thread_state
     \<Rightarrow> (rt_state \<times> thread_state) step" where
  "try_evict_stalled_slots cfg gc sv cond_indexes now st =
     (if timeout_ns cfg = 0 \<or> frame_packets (net (fst st)) = 0 then Some (Inr st)
      else for_each_slot (try_evict_slot cfg gc sv cond_indexes now) (th_cached (snd st)) st)"

section \<open>Checking the slots\<close>

definition check_slot ::
  "rt_config \<Rightarrow> graph_cache \<Rightarrow> services \<Rightarrow> nat list list \<Rightarrow> (nat \<Rightarrow> rt_state \<Rightarrow> rt_state) \<Rightarrow> u64 \<Rightarrow> nat
     \<Rightarrow> rt_state \<times> thread_state \<Rightarrow> (rt_state \<times> thread_state) step" where
  "check_slot cfg gc sv cond_indexes interfere bitmap slot st =
     (let s = fst st; th = snd st in
      if bitmap AND slot_bit slot = 0 then Some (Inr st)
      else
        sbind (Some (vec_at (needs_check s) slot)) (\<lambda>check.
          let s1 = s\<lparr>needs_check := (needs_check s)[slot := False]\<rparr>
          in if \<not> check then Some (Inr (s1, th))
             else
               sbind (Some (detect_and_claim_slot_completion interfere slot s1)) (\<lambda>(s2, claimed).
                 if \<not> claimed then Some (Inr (s2, th))
                 else
                   sbind (Some (reset_slot_state gc slot s2)) (\<lambda>s3.
                   sbind (Some (process_slot_completion cfg slot s3)) (\<lambda>(s4, can_restart).
                   sbind (release_and_dispatch_next cfg gc sv cond_indexes slot
                            (s4, (th_activity th)(slot := None))) (\<lambda>(s5, act).
                   sbind (Some (if can_restart then restart_slot_nonnetwork cfg gc sv slot s5 else Inr s5)) (\<lambda>s6.
                     Some (Inr (s6, th\<lparr>th_activity := act, th_dirty := True\<rparr>)))))))))"

definition check_slots ::
  "rt_config \<Rightarrow> graph_cache \<Rightarrow> services \<Rightarrow> nat list list \<Rightarrow> (nat \<Rightarrow> rt_state \<Rightarrow> rt_state) \<Rightarrow> u64
     \<Rightarrow> rt_state \<times> thread_state \<Rightarrow> (rt_state \<times> thread_state) step" where
  "check_slots cfg gc sv cond_indexes interfere now st =
     (let s = fst st; th = snd st;
          th1 = (if th_dirty th \<or> th_cached th = []
                 then th\<lparr>th_cached := map snd (running_frames s), th_dirty := False\<rparr> else th)
      in sbind (try_evict_stalled_slots cfg gc sv cond_indexes now (s, th1)) (\<lambda>(s2, th2).
           let bitmap = (if cfg_slot_priority cfg then active_bitmap s2 else - 1)
           in for_each_slot (check_slot cfg gc sv cond_indexes interfere bitmap) (th_cached th2)
                (s2, th2\<lparr>th_activity := Map.empty\<rparr>)))"

end
