(* ===== verification/Slot_Invariants.thy ===== *)
theory Slot_Invariants
  imports Slot_Lifecycle Task_Properties
begin

text \<open>
  The slot table: states, running frames, the cache, the bitmap and the frame of each slot agree
  in every state the slot operations reach; with slot priority at most one frame runs at a time;
  and the lock-free cache never changes what an assignment returns.
\<close>

unbundle bit_operations_syntax

section \<open>The table and its invariant\<close>

definition slot_table ::
  "'a slot_data_scheme \<Rightarrow> slot_state list \<times> (nat \<times> nat) list \<times> u64 list \<times> u64 \<times> nat \<times> nat list" where
  "slot_table s = (slot_states s, running_frames s, frame_slot_map s, active_bitmap s, last_assigned s, frame_id s)"

text \<open>A cell of the cache is empty or holds a running frame that it belongs to.\<close>

definition cache_ok :: "'a slot_data_scheme \<Rightarrow> bool" where
  "cache_ok s \<longleftrightarrow>
     (\<exists>k. length (frame_slot_map s) = 2 ^ k)
     \<and> (\<forall>j < length (frame_slot_map s). frame_slot_map s ! j = FRAME_SLOT_EMPTY
          \<or> (\<exists>(f, i) \<in> set (running_frames s).
                frame_slot_map s ! j = gen_pack (as_u32 f) (as_u32 i) \<and> frame_cell f s = j))"

definition table_ok :: "nat \<Rightarrow> 'a slot_data_scheme \<Rightarrow> bool" where
  "table_ok n s \<longleftrightarrow>
     slots_shape n s \<and> 0 < n \<and> n \<le> 64 \<and> last_assigned s < n
     \<and> (\<forall>i. bit (active_bitmap s) i \<longleftrightarrow> i < n \<and> slot_states s ! i = Active)
     \<and> distinct (map fst (running_frames s)) \<and> distinct (map snd (running_frames s))
     \<and> snd ` set (running_frames s) = {i. i < n \<and> slot_states s ! i \<noteq> Inactive}
     \<and> (\<forall>(f, i) \<in> set (running_frames s). f < 2 ^ 32 \<and> frame_id s ! i = f)
     \<and> (\<forall>i < n. slot_states s ! i = Inactive \<longrightarrow> frame_id s ! i = USIZE_MAX)
     \<and> cache_ok s"

lemma table_ok_cong:
  "slot_table s = slot_table s' \<Longrightarrow> slots_shape n s' \<Longrightarrow> table_ok n s \<Longrightarrow> table_ok n s'"
  by (simp add: slot_table_def table_ok_def cache_ok_def frame_cell_def)

lemma table_okD:
  assumes "table_ok n s"
  shows "slots_shape n s" "0 < n" "n \<le> 64" "last_assigned s < n"
    "bit (active_bitmap s) i \<longleftrightarrow> i < n \<and> slot_states s ! i = Active"
    "distinct (map fst (running_frames s))" "distinct (map snd (running_frames s))"
    "snd ` set (running_frames s) = {i. i < n \<and> slot_states s ! i \<noteq> Inactive}"
    "(f, i) \<in> set (running_frames s) \<Longrightarrow> f < 2 ^ 32" "(f, i) \<in> set (running_frames s) \<Longrightarrow> frame_id s ! i = f"
    "i < n \<Longrightarrow> slot_states s ! i = Inactive \<Longrightarrow> frame_id s ! i = USIZE_MAX" "cache_ok s"
  using assms by (auto simp: table_ok_def)

text \<open>A frame placed in an inactive slot.\<close>

definition placed :: "nat \<Rightarrow> nat \<Rightarrow> slot_state \<Rightarrow> 'a slot_data_scheme \<Rightarrow> 'b slot_data_scheme \<Rightarrow> bool" where
  "placed frame i st s s' \<longleftrightarrow>
     slot_table s' = ((slot_states s)[i := st], running_frames s @ [(frame, i)],
       (frame_slot_map s)[frame_cell frame s := gen_pack (as_u32 frame) (as_u32 i)],
       (if st = Active then active_bitmap s OR slot_bit i else active_bitmap s), i, (frame_id s)[i := frame])"

section \<open>The operations\<close>

lemma frame_cell_mod: "length (frame_slot_map s) = 2 ^ k \<Longrightarrow> frame_cell f s = f mod 2 ^ k"
  by (simp add: frame_cell_def mask_eq_exp_minus_1 take_bit_eq_mask flip: take_bit_eq_mod)

lemma frame_cell_in_map: "cache_ok s \<Longrightarrow> frame_cell f s < length (frame_slot_map s)"
  by (auto simp: cache_ok_def frame_cell_mod)

lemma frame_cell_cong: "length (frame_slot_map s) = length (frame_slot_map s') \<Longrightarrow> frame_cell f s = frame_cell f s'"
  by (simp add: frame_cell_def)

lemma shape_lengths:
  assumes "slots_shape n s"
  shows "length (generation s) = n" "length (needs_check s) = n" "length (frame_id s) = n"
    "length (slot_states s) = n" "length (slot_buffers s) = n" "length (pending_tasks s) = n"
    "length (pending_cond_tasks s) = n" "length (processing_count s) = n" "length (packet_counters s) = n"
    "length (last_packet_ns s) = n" "length (packet_complete s) = n"
    "length (cond_instances_to_spawn s) = n" "length (fanout_bulk_arrived s) = n"
  using assms by (simp_all add: slots_shape_def)

text \<open>The generation counter touches no part of the table.\<close>

lemma bump_table:
  assumes "slots_shape n s" "slot < n"
  shows "\<exists>s'. bump_slot_generation gc slot s = Inr s' \<and> slot_table s' = slot_table s \<and> slots_shape n s'
    \<and> slot_buffers s' = slot_buffers s \<and> generation s' = (generation s)[slot := generation s ! slot + 1]"
  using assms by (auto simp: bump_slot_generation_def sweep_slot_generational_entries_def vec_at_def
      slot_table_def slots_shape_def Let_def)

lemma bump_slot_tableD:
  "bump_slot_generation gc slot s = Inr s' \<Longrightarrow> slots_shape n s \<Longrightarrow>
    slot_table s' = slot_table s \<and> slots_shape n s' \<and> slot_buffers s' = slot_buffers s"
  using bump_table [of n s slot gc]
  by (cases "slot < n") (auto simp: bump_slot_generation_def slots_shape_def vec_at_def)

lemma mark_active_eq:
  "slots_shape n s \<Longrightarrow> slot < n \<Longrightarrow> mark_active slot s =
     Inr (s\<lparr>slot_states := (slot_states s)[slot := Active], active_bitmap := active_bitmap s OR slot_bit slot,
            needs_check := (needs_check s)[slot := True]\<rparr>)"
  by (simp add: mark_active_def vec_modify_def slots_shape_def)

lemma register_frame_eq:
  "slots_shape n s \<Longrightarrow> slot < n \<Longrightarrow> cache_ok s \<Longrightarrow> register_frame frame slot s =
     Inr (s\<lparr>running_frames := running_frames s @ [(frame, slot)],
            frame_slot_map := (frame_slot_map s)[frame_cell frame s := gen_pack (as_u32 frame) (as_u32 slot)],
            frame_id := (frame_id s)[slot := frame]\<rparr>)"
  using frame_cell_in_map [of s frame]
  by (simp add: register_frame_def frame_slot_publish_def vec_modify_def slots_shape_def frame_cell_def)

lemma find_inactive_Some:
  "find_inactive slots states = Inr (Some slot) \<Longrightarrow> slot \<in> set slots \<and> slot < length states \<and> states ! slot = Inactive"
  by (induction slots) (auto simp: vec_at_def split: if_splits)

lemma find_inactive_None:
  "find_inactive slots states = Inr None \<Longrightarrow> slot \<in> set slots \<Longrightarrow> states ! slot \<noteq> Inactive"
  by (induction slots) (auto simp: vec_at_def split: if_splits)

lemma find_inactive_total:
  "\<forall>slot \<in> set slots. slot < length states \<Longrightarrow> \<exists>r. find_inactive slots states = Inr r"
  by (induction slots) (auto simp: vec_at_def)

lemma round_robin:
  assumes "start < (n :: nat)"
  shows "set (map (\<lambda>i. (start + i) mod n) [1..<n]) = {i. i < n} - {start}"
proof
  show "set (map (\<lambda>i. (start + i) mod n) [1..<n]) \<subseteq> {i. i < n} - {start}"
    using assms by (auto simp: mod_if split: if_splits)
  show "{i. i < n} - {start} \<subseteq> set (map (\<lambda>i. (start + i) mod n) [1..<n])"
  proof
    fix j assume j: "j \<in> {i. i < n} - {start}"
    define i where "i = (if start < j then j - start else n - start + j)"
    have "(start + i) mod n = j" "1 \<le> i" "i < n"
      using j assms by (auto simp: i_def mod_if)
    then show "j \<in> set (map (\<lambda>i. (start + i) mod n) [1..<n])" by force
  qed
qed

text \<open>An assignment of a new frame fails only when every slot is occupied.\<close>

lemma assign_new_frame_cases:
  assumes ok: "table_ok n s" and n: "cfg_slots cfg = n"
  obtains (full) "assign_new_frame cfg gc frame s = Inr (s, None)" "\<forall>i < n. slot_states s ! i \<noteq> Inactive"
  | (placed) i st s' where "assign_new_frame cfg gc frame s = Inr (s', Some (i, st = Active))"
      "i < n" "slot_states s ! i = Inactive" "placed frame i st s s'" "slots_shape n s'"
      "slot_buffers s' = slot_buffers s"
      "st = Active \<and> (i = last_assigned s \<or> \<not> cfg_slot_priority cfg \<and> gc_network gc \<noteq> None)
        \<or> st = Buffering \<and> slot_states s ! last_assigned s \<noteq> Inactive \<and> (cfg_slot_priority cfg \<or> gc_network gc = None)"
proof -
  let ?last = "last_assigned s"
  have sh: "slots_shape n s" and lst: "?last < n" and c: "cache_ok s" using ok by (simp_all add: table_ok_def)
  have activate: "\<exists>s'. rbind (mark_active i s) (\<lambda>s1. rbind (register_frame frame i s1) (\<lambda>s2.
      rbind (bump_slot_generation gc i (s2\<lparr>last_assigned := i\<rparr>)) (\<lambda>s3. Inr (s3, Some (i, True)))))
      = Inr (s', Some (i, Active = Active)) \<and> placed frame i Active s s' \<and> slots_shape n s' \<and> slot_buffers s' = slot_buffers s"
    if i: "i < n" for i
  proof -
    let ?s1 = "s\<lparr>slot_states := (slot_states s)[i := Active], active_bitmap := active_bitmap s OR slot_bit i,
        needs_check := (needs_check s)[i := True]\<rparr>"
    have m: "mark_active i s = Inr ?s1" using sh i by (rule mark_active_eq)
    have "slots_shape n ?s1" "cache_ok ?s1" using sh c by (simp_all add: slots_shape_def cache_ok_def frame_cell_def)
    note r = register_frame_eq [OF this(1) i this(2), of frame]
    obtain s2 where s2: "register_frame frame i ?s1 = Inr s2" "slots_shape n s2"
      "placed frame i Active s (s2\<lparr>last_assigned := i\<rparr>)" "slot_buffers s2 = slot_buffers s"
      unfolding r using sh by (auto simp: slots_shape_def placed_def slot_table_def frame_cell_def)
    have "slots_shape n (s2\<lparr>last_assigned := i\<rparr>)" using s2(2) by (simp add: slots_shape_def)
    from bump_table [OF this i, of gc]
    show ?thesis using s2 by (auto simp: m placed_def)
  qed
  show thesis
  proof (cases "slot_states s ! ?last = Inactive")
    case True
    have keep: "register_frame f i s1 = Inr s2 \<Longrightarrow> last_assigned s2 = last_assigned s1" for f i and s1 s2 :: rt_state
      by (auto simp: register_frame_def frame_slot_publish_def rbind_eq_Inr)
    obtain s' where s': "rbind (mark_active ?last s) (\<lambda>s1. rbind (register_frame frame ?last s1) (\<lambda>s2.
        rbind (bump_slot_generation gc ?last (s2\<lparr>last_assigned := ?last\<rparr>)) (\<lambda>s3. Inr (s3, Some (?last, True)))))
        = Inr (s', Some (?last, Active = Active))" "placed frame ?last Active s s'" "slots_shape n s'" "slot_buffers s' = slot_buffers s"
      using activate [OF lst] by blast
    have "assign_new_frame cfg gc frame s = Inr (s', Some (?last, Active = Active))"
    proof -
      obtain s1 where s1: "mark_active ?last s = Inr s1" "last_assigned s1 = ?last"
        using mark_active_eq [OF sh lst] by simp
      obtain s2 where s2: "register_frame frame ?last s1 = Inr s2"
        using s' s1 by (auto simp: rbind_eq_Inr)
      have "s2\<lparr>last_assigned := ?last\<rparr> = s2" using keep [OF s2] s1(2) by simp
      then show ?thesis using s' s1 s2 True lst sh
        by (simp add: assign_new_frame_def vec_at_def slots_shape_def Let_def)
    qed
    from placed [OF this lst True s'(2-4)] show thesis by simp
  next
    case False
    let ?slots = "map (\<lambda>i. (?last + i) mod n) [1..<n]"
    have vec: "vec_at (slot_states s) ?last = Inr (slot_states s ! ?last)" using sh lst by (simp add: slots_shape_def)
    obtain r where r: "find_inactive ?slots (slot_states s) = Inr r"
      using find_inactive_total [of ?slots "slot_states s"] round_robin [OF lst] sh by (auto simp: slots_shape_def)
    show thesis
    proof (cases r)
      case None
      have "slot_states s ! i \<noteq> Inactive" if "i < n" for i
        using find_inactive_None [OF r [unfolded None], of i] round_robin [OF lst] that False by (cases "i = ?last") auto
      moreover have "assign_new_frame cfg gc frame s = Inr (s, None)"
        using r None False vec n by (simp add: assign_new_frame_def Let_def vec_at_def)
      ultimately show thesis using full by blast
    next
      case (Some i)
      have i: "i < n" "slot_states s ! i = Inactive"
        using find_inactive_Some [OF r [unfolded Some]] sh by (simp_all add: slots_shape_def)
      show thesis
      proof (cases "\<not> cfg_slot_priority cfg \<and> gc_network gc \<noteq> None")
        case True
        obtain s' where "assign_new_frame cfg gc frame s = Inr (s', Some (i, Active = Active))"
          "placed frame i Active s s'" "slots_shape n s'" "slot_buffers s' = slot_buffers s"
          using activate [OF i(1)] r Some False vec n True by (auto simp: assign_new_frame_def Let_def vec_at_def vec_modify_def)
        from placed [OF this(1) i this(2-4)] True show thesis by simp
      next
        case False2: False
        let ?s1 = "s\<lparr>slot_states := (slot_states s)[i := Buffering]\<rparr>"
        have "slots_shape n ?s1" "cache_ok ?s1" using sh c by (simp_all add: slots_shape_def cache_ok_def frame_cell_def)
        note reg = register_frame_eq [OF this(1) i(1) this(2), of frame]
        obtain s2 where s2: "register_frame frame i ?s1 = Inr s2" "slots_shape n (s2\<lparr>last_assigned := i\<rparr>)"
          "placed frame i Buffering s (s2\<lparr>last_assigned := i\<rparr>)" "slot_buffers s2 = slot_buffers s"
          unfolding reg using sh by (auto simp: slots_shape_def placed_def slot_table_def frame_cell_def)
        have "vec_modify (\<lambda>_. Buffering) i (slot_states s) = Inr ((slot_states s)[i := Buffering])"
          using i sh by (simp add: slots_shape_def)
        then have "assign_new_frame cfg gc frame s = Inr (s2\<lparr>last_assigned := i\<rparr>, Some (i, Buffering = Active))"
          using r Some False vec n False2 s2(1) by (auto simp: assign_new_frame_def Let_def vec_at_def vec_modify_def)
        from placed [OF this i s2(3,2)] s2(4) False False2 show thesis by simp
      qed
    qed
  qed
qed

section \<open>Preservation\<close>

lemma bit_or_slot: "i < 64 \<Longrightarrow> bit (w OR slot_bit i) j \<longleftrightarrow> bit w j \<or> j = i"
  by (simp add: bit_or_iff)

lemma bit_clear_slot: "i < 64 \<Longrightarrow> bit (w AND NOT (slot_bit i)) j \<longleftrightarrow> bit w j \<and> j \<noteq> i"
  by (auto simp: bit_and_iff bit_not_iff dest: bit_imp_le_length)

lemma live_cell_not_empty: "i < 64 \<Longrightarrow> gen_pack (as_u32 f) (as_u32 i) \<noteq> FRAME_SLOT_EMPTY"
proof
  assume i: "i < 64" and "gen_pack (as_u32 f) (as_u32 i) = FRAME_SLOT_EMPTY"
  then have "as_u32 i = - 1" by (simp add: FRAME_SLOT_EMPTY_def gen_pack_max)
  then have "unat (as_u32 i) = 2 ^ 32 - 1" by (simp add: unsigned_minus_1_eq_mask mask_eq_exp_minus_1)
  then show False using i by simp
qed

lemma same_frame_cell: "as_u32 f = as_u32 g \<Longrightarrow> f < 2 ^ 32 \<Longrightarrow> g < 2 ^ 32 \<Longrightarrow> f = g"
  by (metis unat_as_u32_small)

lemma placed_ok:
  assumes ok: "table_ok n s" and p: "placed frame i st s s'" and sh: "slots_shape n s'"
    and i: "i < n" "slot_states s ! i = Inactive" "st \<noteq> Inactive"
    and frame: "frame \<notin> fst ` set (running_frames s)" "frame < 2 ^ 32"
  shows "table_ok n s'"
proof -
  have eqs: "slot_states s' = (slot_states s)[i := st]" "running_frames s' = running_frames s @ [(frame, i)]"
    "frame_slot_map s' = (frame_slot_map s)[frame_cell frame s := gen_pack (as_u32 frame) (as_u32 i)]"
    "active_bitmap s' = (if st = Active then active_bitmap s OR slot_bit i else active_bitmap s)"
    "last_assigned s' = i" "frame_id s' = (frame_id s)[i := frame]"
    using p by (simp_all add: placed_def slot_table_def)
  note lens = shape_lengths [of n s] and t = ok [unfolded table_ok_def]
  have l: "length (slot_states s) = n" "length (frame_id s) = n" using lens t by simp_all
  have "bit (active_bitmap s') j \<longleftrightarrow> j < n \<and> slot_states s' ! j = Active" for j
    using t i l by (cases st) (auto simp: eqs bit_or_slot nth_list_update)
  moreover have "distinct (map fst (running_frames s'))" using t frame by (simp add: eqs)
  moreover have "i \<notin> snd ` set (running_frames s)" using t i by blast
  moreover have "snd ` set (running_frames s') = {j. j < n \<and> slot_states s' ! j \<noteq> Inactive}"
    using t i l by (auto simp: eqs nth_list_update)
  moreover have "\<forall>(f, j) \<in> set (running_frames s'). f < 2 ^ 32 \<and> frame_id s' ! j = f"
  proof -
    have "f < 2 ^ 32 \<and> frame_id s' ! j = f" if "(f, j) \<in> set (running_frames s)" for f j
    proof -
      have "j \<noteq> i" using that \<open>i \<notin> snd ` set (running_frames s)\<close> by force
      then show ?thesis using t that by (auto simp: eqs)
    qed
    then show ?thesis using frame i l by (auto simp: eqs)
  qed
  moreover have "\<forall>j < n. slot_states s' ! j = Inactive \<longrightarrow> frame_id s' ! j = USIZE_MAX"
    using t i l by (auto simp: eqs nth_list_update)
  moreover have "cache_ok s'"
  proof -
    have c: "cache_ok s" using t by blast
    have cell: "frame_cell f s' = frame_cell f s" for f by (rule frame_cell_cong) (simp add: eqs)
    have "frame_slot_map s' ! j = FRAME_SLOT_EMPTY
        \<or> (\<exists>(f, k) \<in> set (running_frames s'). frame_slot_map s' ! j = gen_pack (as_u32 f) (as_u32 k) \<and> frame_cell f s' = j)"
      if "j < length (frame_slot_map s')" for j
    proof (cases "j = frame_cell frame s")
      case True
      then show ?thesis using that by (auto simp: eqs cell)
    next
      case False
      then have "frame_slot_map s' ! j = frame_slot_map s ! j" by (simp add: eqs)
      moreover have "j < length (frame_slot_map s)" using that by (simp add: eqs)
      ultimately have "frame_slot_map s' ! j = FRAME_SLOT_EMPTY
          \<or> (\<exists>(f, k) \<in> set (running_frames s). frame_slot_map s' ! j = gen_pack (as_u32 f) (as_u32 k) \<and> frame_cell f s = j)"
        using c by (simp add: cache_ok_def)
      then show ?thesis by (auto simp: cell eqs(2))
    qed
    then show ?thesis using c by (simp add: cache_ok_def eqs)
  qed
  ultimately show ?thesis using t sh i by (simp add: table_ok_def eqs)
qed

lemma remove_slot_found:
  "distinct (map snd rs) \<Longrightarrow> (f, slot) \<in> set rs \<Longrightarrow> remove_slot slot rs = (Some f, filter (\<lambda>r. snd r \<noteq> slot) rs)"
proof (induction rs)
  case (Cons r rs)
  obtain g k where r: "r = (g, k)" by (cases r)
  show ?case
  proof (cases "k = slot")
    case True
    then have "slot \<notin> snd ` set rs" using Cons.prems(1) by (simp add: r)
    moreover from this have "f = g" using Cons.prems(2) r by force
    moreover have "filter (\<lambda>r. snd r \<noteq> slot) rs = rs"
      using \<open>slot \<notin> snd ` set rs\<close> by (intro filter_True) force
    ultimately show ?thesis using True by (simp add: r)
  next
    case False
    then show ?thesis using Cons by (auto simp: r)
  qed
qed simp

lemma first_buffering_Some:
  "first_buffering rs states = Inr (Some i) \<Longrightarrow> i \<in> snd ` set rs \<and> i < length states \<and> states ! i = Buffering"
  by (induction rs) (auto simp: vec_at_def split: if_splits)

lemma first_buffering_None:
  "first_buffering rs states = Inr None \<Longrightarrow> i \<in> snd ` set rs \<Longrightarrow> states ! i \<noteq> Buffering"
  by (induction rs states rule: first_buffering.induct) (auto simp: vec_at_def rbind_eq_Inr split: if_splits)

lemma first_buffering_total:
  "\<forall>i \<in> snd ` set rs. i < length states \<Longrightarrow> \<exists>r. first_buffering rs states = Inr r"
  by (induction rs) (auto simp: vec_at_def)

text \<open>Releasing an occupied slot takes its frame out of the table and out of the cache.\<close>

lemma release_slot_ok:
  assumes ok: "table_ok n s" and i: "i < n" "slot_states s ! i \<noteq> Inactive"
  obtains f s' where "(f, i) \<in> set (running_frames s)" "release_slot i s = Inr s'" "table_ok n s'"
    "slot_states s' = (slot_states s)[i := Inactive]" "last_assigned s' = last_assigned s"
    "running_frames s' = filter (\<lambda>r. snd r \<noteq> i) (running_frames s)" "slot_buffers s' = slot_buffers s"
proof -
  note t = table_okD [OF ok]
  have sh: "slots_shape n s" and c: "cache_ok s" by (rule t)+
  have l: "length (slot_states s) = n" "length (frame_id s) = n" "length (slot_buffers s) = n"
    using sh by (simp_all add: slots_shape_def)
  have "i \<in> snd ` set (running_frames s)" using t(8) i by simp
  then obtain f where f: "(f, i) \<in> set (running_frames s)" by force
  let ?running = "filter (\<lambda>r. snd r \<noteq> i) (running_frames s)"
  let ?s1 = "s\<lparr>slot_states := (slot_states s)[i := Inactive], active_bitmap := active_bitmap s AND NOT (slot_bit i),
      frame_id := (frame_id s)[i := USIZE_MAX], running_frames := ?running\<rparr>"
  have rel: "release_slot i s = frame_slot_clear f ?s1"
    using i l remove_slot_found [OF t(7) f] by (simp add: release_slot_def vec_modify_def)
  let ?cell = "frame_cell f s" and ?map = "frame_slot_map s"
  have cell: "?cell < length ?map" using c by (rule frame_cell_in_map)
  let ?hit = "?map ! ?cell \<noteq> FRAME_SLOT_EMPTY \<and> gen_unpack_gen (?map ! ?cell) = as_u32 f"
  define s' where "s' = (if ?hit then ?s1\<lparr>frame_slot_map := ?map[?cell := FRAME_SLOT_EMPTY]\<rparr> else ?s1)"
  have clear: "frame_slot_clear f ?s1 = Inr s'"
    using cell by (auto simp: frame_slot_clear_def s'_def vec_at_def frame_cell_def)
  have eqs: "slot_states s' = (slot_states s)[i := Inactive]" "active_bitmap s' = active_bitmap s AND NOT (slot_bit i)"
    "frame_id s' = (frame_id s)[i := USIZE_MAX]" "running_frames s' = ?running" "last_assigned s' = last_assigned s"
    "frame_slot_map s' = (if ?hit then ?map[?cell := FRAME_SLOT_EMPTY] else ?map)" "slot_buffers s' = slot_buffers s"
    by (simp_all add: s'_def)
  have "slots_shape n s'" using sh by (simp add: s'_def slots_shape_def)
  moreover have "bit (active_bitmap s') j \<longleftrightarrow> j < n \<and> slot_states s' ! j = Active" for j
    using t(5) [of j] i(1) t(3) l by (cases "j = i") (auto simp: eqs bit_clear_slot)
  moreover have "distinct (map fst (running_frames s'))" "distinct (map snd (running_frames s'))"
    using t(6,7) by (simp_all add: eqs distinct_map_filter)
  moreover have "snd ` set (running_frames s') = {j. j < n \<and> slot_states s' ! j \<noteq> Inactive}"
  proof -
    have "snd ` set ?running = snd ` set (running_frames s) - {i}" by auto
    also have "\<dots> = {j. j < n \<and> slot_states s ! j \<noteq> Inactive} - {i}" by (simp only: t(8))
    finally show ?thesis using l i by (auto simp: eqs nth_list_update)
  qed
  moreover have "\<forall>(g, j) \<in> set (running_frames s'). g < 2 ^ 32 \<and> frame_id s' ! j = g"
    using t(9,10) by (auto simp: eqs)
  moreover have "frame_id s' ! j = USIZE_MAX" if "j < n" "slot_states s' ! j = Inactive" for j
    using t(11) [of j] that l by (cases "j = i") (simp_all add: eqs)
  moreover have "cache_ok s'"
  proof -
    have same: "frame_cell g s' = frame_cell g s" for g by (rule frame_cell_cong) (simp add: eqs)
    have "frame_slot_map s' ! j = FRAME_SLOT_EMPTY
        \<or> (\<exists>(g, k) \<in> set (running_frames s'). frame_slot_map s' ! j = gen_pack (as_u32 g) (as_u32 k) \<and> frame_cell g s' = j)"
      if j: "j < length (frame_slot_map s')" for j
    proof (cases "frame_slot_map s' ! j = FRAME_SLOT_EMPTY")
      case False
      then have old: "frame_slot_map s' ! j = ?map ! j" "\<not> (?hit \<and> j = ?cell)" and jl: "j < length ?map"
        using j cell by (auto simp: eqs nth_list_update split: if_splits)
      with False have "?map ! j \<noteq> FRAME_SLOT_EMPTY" by simp
      with c jl obtain g k where g: "(g, k) \<in> set (running_frames s)" "?map ! j = gen_pack (as_u32 g) (as_u32 k)"
        "frame_cell g s = j" unfolding cache_ok_def by blast
      have "k \<noteq> i"
      proof
        assume k: "k = i"
        then have "g = f" using t(10) [OF f] t(10) [of g i] g(1) by simp
        then have "?hit \<and> j = ?cell" using g \<open>?map ! j \<noteq> FRAME_SLOT_EMPTY\<close> by simp
        then show False using old(2) by simp
      qed
      then have "(g, k) \<in> set (running_frames s')" using g(1) by (simp add: eqs)
      then show ?thesis using g old same by (auto intro!: bexI [of _ "(g, k)"])
    qed simp
    moreover have "\<exists>k. length (frame_slot_map s') = 2 ^ k" using c by (simp add: eqs cache_ok_def)
    ultimately show ?thesis by (simp add: cache_ok_def)
  qed
  ultimately have "table_ok n s'" using t(2-4) by (simp add: table_ok_def eqs)
  with that [OF f] rel clear eqs show thesis by simp
qed

text \<open>Promotion activates the oldest running frame that is buffering, and takes its packets.\<close>

lemma promote_next_cases:
  assumes ok: "table_ok n s"
  obtains (none) "promote_next gc s = Inr (s, None)" "\<forall>i < n. slot_states s ! i \<noteq> Buffering"
  | (promoted) i s' where "promote_next gc s = Inr (s', Some (i, slot_buffers s ! i))"
      "i < n" "slot_states s ! i = Buffering" "first_buffering (running_frames s) (slot_states s) = Inr (Some i)"
      "table_ok n s'" "slot_states s' = (slot_states s)[i := Active]"
      "last_assigned s' = i" "running_frames s' = running_frames s" "slot_buffers s' = (slot_buffers s)[i := []]"
proof -
  note t = table_okD [OF ok]
  have sh: "slots_shape n s" by (rule t)
  have l: "length (slot_states s) = n" "length (frame_id s) = n" "length (slot_buffers s) = n"
    using sh by (simp_all add: slots_shape_def)
  have "\<forall>i \<in> snd ` set (running_frames s). i < length (slot_states s)" using t(8) l by simp
  then obtain r where r: "first_buffering (running_frames s) (slot_states s) = Inr r"
    using first_buffering_total by blast
  show thesis
  proof (cases r)
    case None
    have "slot_states s ! i \<noteq> Buffering" if "i < n" for i
      using first_buffering_None [OF r [unfolded None], of i] t(8) that by (cases "slot_states s ! i") auto
    moreover have "promote_next gc s = Inr (s, None)" using r None by (simp add: promote_next_def)
    ultimately show thesis using none by blast
  next
    case (Some i)
    have i: "i < n" "slot_states s ! i = Buffering" using first_buffering_Some [OF r [unfolded Some]] l by simp_all
    let ?s1 = "s\<lparr>slot_states := (slot_states s)[i := Active], active_bitmap := active_bitmap s OR slot_bit i,
        needs_check := (needs_check s)[i := True]\<rparr>"
    let ?s2 = "?s1\<lparr>last_assigned := i, slot_buffers := (slot_buffers s)[i := []]\<rparr>"
    have "slots_shape n ?s2" using sh by (simp add: slots_shape_def)
    from bump_table [OF this i(1)] obtain s' where s': "bump_slot_generation gc i ?s2 = Inr s'"
      "slot_table s' = slot_table ?s2" "slots_shape n s'" "slot_buffers s' = slot_buffers ?s2" by blast
    have eqs: "slot_states s' = (slot_states s)[i := Active]" "active_bitmap s' = active_bitmap s OR slot_bit i"
      "last_assigned s' = i" "running_frames s' = running_frames s" "slot_buffers s' = (slot_buffers s)[i := []]"
      "frame_id s' = frame_id s" "frame_slot_map s' = frame_slot_map s"
      using s'(2,4) by (simp_all add: slot_table_def)
    have "bit (active_bitmap s') j \<longleftrightarrow> j < n \<and> slot_states s' ! j = Active" for j
      using t(5) [of j] i t(3) l by (cases "j = i") (auto simp: eqs bit_or_slot)
    moreover have "snd ` set (running_frames s') = {j. j < n \<and> slot_states s' ! j \<noteq> Inactive}"
      using t(8) i l by (auto simp: eqs nth_list_update)
    moreover have "frame_id s' ! j = USIZE_MAX" if "j < n" "slot_states s' ! j = Inactive" for j
      using t(11) [of j] that i l by (cases "j = i") (simp_all add: eqs)
    moreover have "cache_ok s'" using t(12) by (simp add: cache_ok_def eqs frame_cell_def)
    ultimately have "table_ok n s'" using t(2,3,6,7,9,10) s'(3) i by (auto simp: table_ok_def eqs)
    moreover have "promote_next gc s = Inr (s', Some (i, slot_buffers s ! i))"
      using r Some s'(1) mark_active_eq [OF sh i(1)] i l by (simp add: promote_next_def vec_at_def Let_def)
    ultimately show thesis using promoted [of s' i] i r Some eqs by simp
  qed
qed

section \<open>Reachable tables\<close>

text \<open>Runs of the operations on the table of a network run: frames are assigned, active slots are
  released, and everything else the runtime does leaves the table as it is.\<close>

inductive slots_reach :: "rt_config \<Rightarrow> graph_cache \<Rightarrow> rt_state \<Rightarrow> bool" for cfg gc where
  built: "build_runtime cfg0 gc dep_counts si opts = Inr (cfg, s) \<Longrightarrow> slots_reach cfg gc s"
| assigned: "slots_reach cfg gc s \<Longrightarrow> frame < 2 ^ 32 \<Longrightarrow>
    assign_frame_to_available_slot cfg gc frame s = Inr (s', r) \<Longrightarrow> slots_reach cfg gc s'"
| released: "slots_reach cfg gc s \<Longrightarrow> slot < cfg_slots cfg \<Longrightarrow> slot_states s ! slot = Active \<Longrightarrow>
    release_and_activate_next cfg gc slot s = Inr (s', r) \<Longrightarrow> slots_reach cfg gc s'"
| other: "slots_reach cfg gc s \<Longrightarrow> slot_table s' = slot_table s \<Longrightarrow> slots_shape (cfg_slots cfg) s' \<Longrightarrow>
    slots_reach cfg gc s'"

lemma lookup_frame_in: "distinct (map fst rs) \<Longrightarrow> lookup_frame f rs = Some i \<longleftrightarrow> (f, i) \<in> set rs"
  by (induction rs) (force split: if_splits)+

lemma lookup_frame_None: "lookup_frame f rs = None \<longleftrightarrow> f \<notin> fst ` set rs"
  by (induction rs) (auto split: if_splits)

text \<open>A hit in the cache is the entry of the frame in the table.\<close>

lemma cache_hit:
  assumes ok: "table_ok n s" and f: "f < 2 ^ 32"
  shows "\<exists>r. frame_slot_lookup f s = Inr r \<and> (\<forall>i. r = Some i \<longrightarrow> (f, i) \<in> set (running_frames s))"
proof -
  note t = table_okD [OF ok]
  let ?j = "frame_cell f s"
  have j: "?j < length (frame_slot_map s)" using t(12) by (rule frame_cell_in_map)
  have "(f, unat (gen_unpack_val (frame_slot_map s ! ?j))) \<in> set (running_frames s)"
    if full: "frame_slot_map s ! ?j \<noteq> FRAME_SLOT_EMPTY" and tag: "gen_unpack_gen (frame_slot_map s ! ?j) = as_u32 f"
  proof -
    obtain g i where g: "(g, i) \<in> set (running_frames s)" "frame_slot_map s ! ?j = gen_pack (as_u32 g) (as_u32 i)"
      "frame_cell g s = ?j" using t(12) j full unfolding cache_ok_def by blast
    then have "g = f" using tag same_frame_cell [of g f] t(9) f by simp
    moreover have "i \<in> {i. i < n \<and> slot_states s ! i \<noteq> Inactive}"
      using g(1) by (subst t(8) [symmetric]) force
    then have "i < 64" using t(3) by simp
    ultimately show ?thesis using g by simp
  qed
  then show ?thesis using j by (auto simp: frame_slot_lookup_def vec_at_def)
qed

lemma assign_is_slow:
  assumes "table_ok n s" "f < 2 ^ 32"
  shows "assign_frame_to_available_slot cfg gc f s = assign_slow cfg gc f s"
proof -
  obtain r where r: "frame_slot_lookup f s = Inr r" "\<And>i. r = Some i \<Longrightarrow> (f, i) \<in> set (running_frames s)"
    using cache_hit [OF assms] by blast
  show ?thesis
  proof (cases r)
    case (Some i)
    then have "lookup_frame f (running_frames s) = Some i"
      using r(2) lookup_frame_in [OF table_okD(6) [OF assms(1)]] by simp
    then show ?thesis using r Some by (simp add: assign_frame_to_available_slot_def assign_slow_def)
  qed (use r in \<open>simp add: assign_frame_to_available_slot_def\<close>)
qed

lemma assign_ok:
  assumes ok: "table_ok n s" and n: "cfg_slots cfg = n" and f: "f < 2 ^ 32"
    and a: "assign_frame_to_available_slot cfg gc f s = Inr (s', r)"
  shows "table_ok n s'"
proof (cases "lookup_frame f (running_frames s)")
  case None
  then have new: "assign_new_frame cfg gc f s = Inr (s', r)"
    using a assign_is_slow [OF ok f] by (simp add: assign_slow_def)
  show ?thesis
  proof (cases rule: assign_new_frame_cases [OF ok n, where gc = gc and frame = f])
    case 1
    then show ?thesis using new ok by simp
  next
    case placed: (2 i st s1)
    then have "st \<noteq> Inactive" "s1 = s'" using new by auto
    then show ?thesis using placed_ok [OF ok placed(4,5,2,3)] placed(4) None f by (simp add: lookup_frame_None)
  qed
qed (use a assign_is_slow [OF ok f] ok in \<open>simp add: assign_slow_def\<close>)

lemma release_ok:
  assumes ok: "table_ok n s" and i: "i < n" "slot_states s ! i \<noteq> Inactive"
    and r: "release_and_activate_next cfg gc i s = Inr (s', r)"
  shows "table_ok n s'"
proof -
  obtain s1 where s1: "release_slot i s = Inr s1" "table_ok n s1"
    by (rule release_slot_ok [OF ok i])
  show ?thesis
  proof (cases "cfg_slot_priority cfg")
    case True
    then have "promote_next gc s1 = Inr (s', r)" using r s1 by (simp add: release_and_activate_next_def)
    then show ?thesis
      by (cases rule: promote_next_cases [OF s1(2), where gc = gc]) (use s1(2) in simp_all)
  next
    case False
    then show ?thesis using r s1 by (simp add: release_and_activate_next_def)
  qed
qed

lemma built_table:
  assumes "build_runtime cfg0 gc dep_counts si opts = Inr (cfg, s)"
  shows "table_ok (cfg_slots cfg) s" "running_frames s = []"
proof -
  let ?n = "cfg_slots cfg"
  obtain infra counter results where b: "1 \<le> ?n" "?n \<le> 64"
    "s = initial_state infra ?n (build_slot_counters ?n (gc_node_cache gc)) counter results"
    using assms by (auto simp: build_runtime_def check_receiver_threads_def MAX_SLOTS_def Let_def
        split: if_splits option.splits sum.splits)
  have "slots_shape ?n s" unfolding b(3) by (rule initial_state_shape)
  moreover have "cache_ok s"
    using next_power_of_two(1) [of "2 * ?n"] by (auto simp: cache_ok_def b(3) initial_state_def)
  ultimately show "table_ok ?n s" "running_frames s = []"
    using b(1,2) by (auto simp: table_ok_def b(3) initial_state_def)
qed

lemma reach_table_ok: "slots_reach cfg gc s \<Longrightarrow> table_ok (cfg_slots cfg) s"
proof (induction rule: slots_reach.induct)
  case (built cfg0 dep_counts si opts s)
  then show ?case by (rule built_table)
next
  case (assigned s frame s' r)
  then show ?case using assign_ok by blast
next
  case (released s slot s' r)
  then show ?case using release_ok [of _ s slot] by simp
next
  case (other s s')
  then show ?case using table_ok_cong [of s s'] by simp
qed

section \<open>One frame at a time\<close>

text \<open>With slot priority the running frames form a queue: its head is the active slot, everything
  behind it is buffering.\<close>

definition queued :: "'a slot_data_scheme \<Rightarrow> bool" where
  "queued s \<longleftrightarrow> (case running_frames s of
       [] \<Rightarrow> True
     | (f, i) # rest \<Rightarrow>
         slot_states s ! i = Active \<and> (\<forall>(g, j) \<in> set rest. slot_states s ! j = Buffering)
         \<and> slot_states s ! last_assigned s \<noteq> Inactive)"

lemma queued_assign:
  assumes ok: "table_ok n s" and n: "cfg_slots cfg = n" and prio: "cfg_slot_priority cfg" and f: "f < 2 ^ 32"
    and q: "queued s" and a: "assign_frame_to_available_slot cfg gc f s = Inr (s', r)"
  shows "queued s'"
proof (cases "lookup_frame f (running_frames s)")
  case None
  then have new: "assign_new_frame cfg gc f s = Inr (s', r)"
    using a assign_is_slow [OF ok f] by (simp add: assign_slow_def)
  note t = table_okD [OF ok]
  have l: "length (slot_states s) = n" using t(1) by (simp add: slots_shape_def)
  show ?thesis
  proof (cases rule: assign_new_frame_cases [OF ok n, where gc = gc and frame = f])
    case 1
    then show ?thesis using new q by simp
  next
    case placed: (2 i st s1)
    then have s1: "s1 = s'" using new by simp
    have eqs: "slot_states s' = (slot_states s)[i := st]" "running_frames s' = running_frames s @ [(f, i)]"
      "last_assigned s' = i" using placed(4) by (simp_all add: placed_def slot_table_def s1)
    have i: "i \<notin> snd ` set (running_frames s)" using placed(2,3) t(8) by blast
    show ?thesis
    proof (cases "running_frames s")
      case Nil
      then have "slot_states s ! last_assigned s = Inactive" using t(4,8) by fastforce
      then have "st = Active" using placed(7) by auto
      then show ?thesis using placed(2) l by (simp add: queued_def eqs Nil)
    next
      case (Cons h rest)
      obtain g k where h: "h = (g, k)" by (cases h)
      have q': "slot_states s ! k = Active" "\<forall>(g, j) \<in> set rest. slot_states s ! j = Buffering"
        "slot_states s ! last_assigned s \<noteq> Inactive"
        using q by (simp_all add: queued_def Cons h)
      then have "st = Buffering" using placed(3,7) prio by auto
      moreover have "k \<noteq> i" "\<forall>(g, j) \<in> set rest. j \<noteq> i" using i by (force simp: Cons h)+
      ultimately show ?thesis using q' placed(2) l by (fastforce simp: queued_def eqs Cons h)
    qed
  qed
qed (use a assign_is_slow [OF ok f] q in \<open>simp add: assign_slow_def\<close>)

lemma queued_release:
  assumes ok: "table_ok n s" and prio: "cfg_slot_priority cfg" and q: "queued s"
    and i: "i < n" "slot_states s ! i = Active"
    and r: "release_and_activate_next cfg gc i s = Inr (s', r)"
  shows "queued s'"
proof -
  note t = table_okD [OF ok]
  have "i \<in> snd ` set (running_frames s)" using t(8) i by simp
  then obtain f where f: "(f, i) \<in> set (running_frames s)" by force
  then obtain h rest where run: "running_frames s = h # rest" "(f, i) \<in> set (h # rest)"
    by (cases "running_frames s") simp_all
  have h: "h = (f, i)" and rest: "\<forall>(g, j) \<in> set rest. slot_states s ! j = Buffering"
    using q run i(2) by (auto simp: queued_def split: prod.splits)
  have "filter (\<lambda>r. snd r \<noteq> i) rest = rest"
    using rest i(2) by (intro filter_True) force
  then have left: "filter (\<lambda>r. snd r \<noteq> i) (running_frames s) = rest" by (simp add: run h)
  have "slot_states s ! i \<noteq> Inactive" using i by simp
  then obtain s1 where s1: "release_slot i s = Inr s1" "table_ok n s1"
    "slot_states s1 = (slot_states s)[i := Inactive]" "running_frames s1 = rest"
    using release_slot_ok [OF ok i(1)] left by metis
  have p: "promote_next gc s1 = Inr (s', r)" using r prio s1 by (simp add: release_and_activate_next_def)
  have l: "length (slot_states s1) = n" using table_okD(1) [OF s1(2)] by (simp add: slots_shape_def)
  have rest1: "\<forall>(g, j) \<in> set rest. slot_states s1 ! j = Buffering"
  proof (clarify)
    fix g j assume "(g, j) \<in> set rest"
    then have "slot_states s ! j = Buffering" using rest by blast
    moreover from this have "j \<noteq> i" using i(2) by auto
    ultimately show "slot_states s1 ! j = Buffering" by (simp add: s1(3))
  qed
  show ?thesis
  proof (cases rule: promote_next_cases [OF s1(2), where gc = gc])
    case 1
    have "rest = []"
    proof (cases rest)
      case (Cons e es)
      then have e: "snd e \<in> snd ` set (running_frames s1)" "slot_states s1 ! snd e = Buffering"
        using rest1 s1(4) by auto
      then show ?thesis using 1(2) by (auto simp: table_okD(8) [OF s1(2)])
    qed simp
    then show ?thesis using 1 p s1(4) by (simp add: queued_def)
  next
    case promoted: (2 k s2)
    then have s2: "s2 = s'" using p by simp
    obtain g j es where rest_eq: "rest = (g, j) # es"
      using promoted(4) s1(4) by (cases rest) auto
    then have "k = j" using promoted(4) rest1 s1(4) by (auto simp: vec_at_def split: if_splits)
    have "slot_states s' ! j' = Buffering" if "(g', j') \<in> set es" for g' j'
    proof -
      have "j' \<noteq> j" using table_okD(7) [OF s1(2)] that by (force simp: s1(4) rest_eq)
      moreover have "slot_states s1 ! j' = Buffering" using rest1 that by (force simp: rest_eq)
      ultimately show ?thesis using promoted(6) \<open>k = j\<close> s2 by simp
    qed
    then show ?thesis
      using promoted(2,6-8) s1(4) l s2 \<open>k = j\<close> by (auto simp: queued_def rest_eq)
  qed
qed

lemma queued_cong: "slot_table s' = slot_table s \<Longrightarrow> queued s' \<longleftrightarrow> queued s"
  by (auto simp: queued_def slot_table_def split: list.splits)

lemma reach_queued: "slots_reach cfg gc s \<Longrightarrow> cfg_slot_priority cfg \<Longrightarrow> queued s"
proof (induction rule: slots_reach.induct)
  case (built cfg0 dep_counts si opts s)
  then show ?case using built_table(2) by (simp add: queued_def)
next
  case (assigned s frame s' r)
  then show ?case using queued_assign [OF reach_table_ok [OF assigned(1)]] by blast
next
  case (released s slot s' r)
  then show ?case using queued_release [OF reach_table_ok [OF released(1)]] by blast
next
  case (other s s')
  then show ?case using queued_cong by blast
qed



section \<open>A run with three slots\<close>

text \<open>Slot priority, three slots, two packets per frame: frames 0, 1 and 2 are assigned.\<close>

definition lane_config :: rt_config where
  "lane_config = demo_config\<lparr>cfg_slots := 3, cfg_max_frames := 8, cfg_slot_priority := True,
     cfg_frame_timeout_ms := 1\<rparr>"

definition lane_gc :: graph_cache where
  "lane_gc = demo_gc\<lparr>gc_graph := graph_new, gc_node_cache := [],
     gc_network := Some \<lparr>nc_frame_packets = 2, nc_extract = None, nc_id_function = None, nc_index_function = None\<rparr>\<rparr>"

definition lane_start :: rt_state where
  "lane_start = initial_state (initial_net lane_config 3) 3 (build_slot_counters 3 [])
     \<lparr>node_dep_map = replicate 3 [], completed_slots = 0\<rparr> (result_map_new [] 5)"

definition lane_map :: "nat \<Rightarrow> u64 list" where
  "lane_map k = map (\<lambda>i. if i < k then gen_pack (as_u32 i) (as_u32 i) else FRAME_SLOT_EMPTY) [0..<8]"

text \<open>The first \<open>k\<close> frames are assigned to the slots of their numbers.\<close>

definition lane :: "nat \<Rightarrow> rt_state" where
  "lane k = lane_start\<lparr>generation := [1, 0, 0], needs_check := [True, False, False],
     frame_id := map (\<lambda>i. if i < k then i else USIZE_MAX) [0..<3], active_bitmap := slot_bit 0,
     slot_states := map (\<lambda>i. if i = 0 then Active else if i < k then Buffering else Inactive) [0..<3],
     running_frames := map (\<lambda>i. (i, i)) [0..<k], frame_slot_map := lane_map k, last_assigned := k - 1\<rparr>"

lemma lane_built:
  "build_runtime lane_config lane_gc [] \<lparr>si_workers = 2, si_system_threads = 1\<rparr>
     \<lparr>bo_receiver_threads = 1, bo_batch_queue_capacity = 1, bo_reclaim = None\<rparr> = Inr (lane_config, lane_start)"
  by (simp add: build_runtime_def lane_config_def demo_config_def check_receiver_threads_def MAX_SLOTS_def
     lane_gc_def demo_gc_def graph_new_def counter_new_def dep_map_new_def lane_start_def initial_net_def)

lemma lane_table: "slots_reach lane_config lane_gc lane_start" "table_ok 3 lane_start"
proof -
  show r: "slots_reach lane_config lane_gc lane_start" using lane_built by (rule slots_reach.built)
  have "cfg_slots lane_config = 3" by (simp add: lane_config_def)
  with reach_table_ok [OF r] show "table_ok 3 lane_start" by simp
qed

lemma lane_assign:
  "assign_slow lane_config lane_gc 0 lane_start = Inr (lane 1, Some (0, True))"
  "assign_slow lane_config lane_gc 1 (lane 1) = Inr (lane 2, Some (1, False))"
  "assign_slow lane_config lane_gc 2 (lane 2) = Inr (lane 3, Some (2, False))"
proof -
  have np: "next_power_of_two 6 = 8" by code_simp
  have u: "[0..<3] = [0, 1, 2]" "[0..<8] = [0, 1, 2, 3, 4, 5, 6, 7]" "[0..<1] = [0]" "[0..<2] = [0, 1]"
    "[1..<3] = [1, 2]" by (simp_all add: upt_rec)
  have r: "replicate 3 x = [x, x, x]" "replicate 8 x = [x, x, x, x, x, x, x, x]" for x :: 'b
    by (simp_all add: numeral_eq_Suc)
  have c: "(1 :: nat) AND 7 = 1" "(2 :: nat) AND 7 = 2" by code_simp+
  have o: "(case 1 of 0 \<Rightarrow> y | Suc j \<Rightarrow> h j) = h 0" for y :: 'b and h by simp
  note d = frame_cell_def assign_slow_def assign_new_frame_def Let_def vec_at_def mark_active_def vec_modify_def
    register_frame_def frame_slot_publish_def bump_slot_generation_def
  note s = lane_def lane_map_def lane_start_def initial_state_def np r c u lane_config_def lane_gc_def
  show "assign_slow lane_config lane_gc 0 lane_start = Inr (lane 1, Some (0, True))"
    by (simp add: d s)
  show "assign_slow lane_config lane_gc 1 (lane 1) = Inr (lane 2, Some (1, False))"
    by (simp add: d s o del: One_nat_def)
  show "assign_slow lane_config lane_gc 2 (lane 2) = Inr (lane 3, Some (2, False))"
    by (simp add: d s o del: One_nat_def)
qed

lemma lane_reach:
  "slots_reach lane_config lane_gc (lane 1)" "slots_reach lane_config lane_gc (lane 2)"
  "slots_reach lane_config lane_gc (lane 3)"
proof -
  have a: "assign_frame_to_available_slot lane_config lane_gc f s = assign_slow lane_config lane_gc f s"
    if "slots_reach lane_config lane_gc s" "f < 2 ^ 32" for f s
    using reach_table_ok [OF that(1)] that(2) by (rule assign_is_slow)
  show 1: "slots_reach lane_config lane_gc (lane 1)"
    by (rule slots_reach.assigned [OF lane_table(1), of 0]) (simp_all add: a lane_table(1) lane_assign)
  show 2: "slots_reach lane_config lane_gc (lane 2)"
    by (rule slots_reach.assigned [OF 1, of 1]) (use a [OF 1, of 1] lane_assign(2) in simp_all)
  show "slots_reach lane_config lane_gc (lane 3)"
    by (rule slots_reach.assigned [OF 2, of 2]) (use a [OF 2, of 2] lane_assign(3) in simp_all)
qed



end
