(* ===== verification/Packet_Processing.thy ===== *)
theory Packet_Processing
  imports Slot_Invariants "HOL-Library.Product_Lexorder"
begin

text \<open>
  Network packets (\<^verbatim>\<open>runtime/packet_processing.rs\<close>, \<^verbatim>\<open>runtime/network_init.rs\<close>): decoding,
  frame numbers, the admission window, parking and re-injection of packets ahead of it, slot
  assignment, routing to the batch or to the buffer of a slot, completion of a frame's packets,
  and coalescing of a drained batch. The drained messages and the clock are arguments.
\<close>

unbundle bit_operations_syntax

section \<open>Frame numbers\<close>

definition rebase_frame_id :: "nat \<Rightarrow> nat \<Rightarrow> nat \<times> nat option" where
  "rebase_frame_id base raw =
     (let b = (if base = USIZE_MAX then (raw + 1) mod 2 ^ 64 else base)
      in (b, if b \<le> raw then Some (raw - b) else None))"

text \<open>The id function of the graph; a result that is no number is a panic.\<close>

definition process_id_function ::
  "graph_cache \<Rightarrow> services \<Rightarrow> cm_types \<Rightarrow> rt_state \<Rightarrow> (rt_state \<times> nat option) result" where
  "process_id_function gc sv packet s =
     (case gc_network gc of
        None \<Rightarrow> Inr (s, None)
      | Some nc \<Rightarrow>
          (case nc_id_function nc of
             None \<Rightarrow> Inl ExplicitPanic
           | Some f \<Rightarrow>
               let (r, s1) = call_plugin sv f [packet] s
               in case valid_number_to_usize r of
                    Some n \<Rightarrow> Inr (s1, Some (unat n))
                  | None \<Rightarrow> Inl ExplicitPanic))"

section \<open>Decoding\<close>

record packet_msg =
  pm_bytes :: "u8 list"
  pm_decoded :: "cm_types option"

definition decode_packet :: "services \<Rightarrow> func_ref \<Rightarrow> packet_msg \<Rightarrow> rt_state \<Rightarrow> cm_types \<times> rt_state" where
  "decode_packet sv extract m s =
     (case pm_decoded m of
        Some cm \<Rightarrow> (cm, s)
      | None \<Rightarrow> call_plugin sv extract [CmBytes (pm_bytes m)] s)"

section \<open>Parking\<close>

text \<open>The parked packets are a map ordered by frame.\<close>

fun park_packet :: "nat \<Rightarrow> cm_types \<Rightarrow> (nat \<times> cm_types list) list \<Rightarrow> (nat \<times> cm_types list) list" where
  "park_packet frame p [] = [(frame, [p])]"
| "park_packet frame p ((f, ps) # rest) =
     (if f = frame then (f, ps @ [p]) # rest
      else if frame < f then (frame, [p]) # (f, ps) # rest
      else (f, ps) # park_packet frame p rest)"

fun remove_frame :: "nat \<Rightarrow> (nat \<times> cm_types list) list \<Rightarrow> cm_types list option \<times> (nat \<times> cm_types list) list" where
  "remove_frame frame [] = (None, [])"
| "remove_frame frame ((f, ps) # rest) =
     (if f = frame then (Some ps, rest) else let (r, rest') = remove_frame frame rest in (r, (f, ps) # rest'))"

definition evict_parked :: "nat \<Rightarrow> net_infra \<Rightarrow> net_infra" where
  "evict_parked victim ni =
     (case remove_frame victim (pending_frames ni) of
        (Some ps, rest) \<Rightarrow>
          ni\<lparr>pending_frames := rest, pending_count := pending_count ni - word_of_nat (length ps)\<rparr>
      | (None, _) \<Rightarrow> ni)"

definition park_pending_packet ::
  "rt_config \<Rightarrow> nat \<Rightarrow> cm_types \<Rightarrow> nat \<Rightarrow> rt_state \<Rightarrow> rt_state" where
  "park_pending_packet cfg frame p per_frame s =
     (if length (frame_dropped (net s)) \<le> frame then s
      else if frame_dropped (net s) ! frame then s
      else
        let add = (\<lambda>s. s\<lparr>net := (net s)\<lparr>pending_frames := park_packet frame p (pending_frames (net s)),
                                        pending_count := pending_count (net s) + 1\<rparr>\<rparr>)
        in if per_frame * cfg_slots cfg \<le> unat (pending_count (net s)) then
             let parked = pending_frames (net s);
                 victim = (if parked = [] then frame else max (fst (last parked)) frame);
                 s1 = mark_frame_dropped victim (s\<lparr>net := evict_parked victim (net s)\<rparr>)
             in if victim = frame then s1 else add s1
           else add s)"

section \<open>Slots for packets\<close>

datatype slot_assignment = Assigned node_info | NoSlotYet | Dropped

text \<open>The instance a packet is for: what the index function says, or the number of packets before
  it. The arguments of the index function may have to be waited for.\<close>

definition count_packet :: "nat \<Rightarrow> u64 \<Rightarrow> rt_state \<Rightarrow> (rt_state \<times> u64) result" where
  "count_packet slot now s =
     rbind (vec_at (packet_counters s) slot) (\<lambda>n.
     rbind (vec_modify (\<lambda>_. now) slot (last_packet_ns s)) (\<lambda>ns.
       Inr (s\<lparr>packet_counters := (packet_counters s)[slot := n + 1], last_packet_ns := ns\<rparr>, n)))"

definition packet_index ::
  "rt_config \<Rightarrow> graph_cache \<Rightarrow> services \<Rightarrow> u64 \<Rightarrow> cm_types \<Rightarrow> nat \<Rightarrow> rt_state \<Rightarrow> (rt_state \<times> nat) step" where
  "packet_index cfg gc sv now packet slot s =
     (case (case gc_network gc of None \<Rightarrow> None | Some nc \<Rightarrow> nc_index_function nc) of
        Some (Some f, args) \<Rightarrow>
          sbind (at_once (parse_args (args_of cfg) (gc_graph gc) (gc_init_objects gc) (gc_pred_group_by gc)
              (\<lambda>_. view_of s) args 0 slot 0 None [])) (\<lambda>additional.
            let (r, s1) = call_plugin sv f (packet # additional) s
            in sbind (Some (count_packet slot now s1)) (\<lambda>(s2, _).
                 case valid_number_to_usize r of
                   Some n \<Rightarrow> Some (Inr (s2, unat n))
                 | None \<Rightarrow> Some (Inl ExplicitPanic)))
      | _ \<Rightarrow> sbind (Some (count_packet slot now s)) (\<lambda>(s1, n). Some (Inr (s1, unat n))))"

definition frame_is_dropped :: "nat \<Rightarrow> net_infra \<Rightarrow> bool" where
  "frame_is_dropped frame ni \<longleftrightarrow> frame < length (frame_dropped ni) \<and> frame_dropped ni ! frame"

text \<open>The flag says that a slot was newly activated.\<close>

definition assign_packet_to_slot ::
  "rt_config \<Rightarrow> graph_cache \<Rightarrow> services \<Rightarrow> u64 \<Rightarrow> nat \<Rightarrow> cm_types \<Rightarrow> rt_state
     \<Rightarrow> (rt_state \<times> slot_assignment \<times> bool) step" where
  "assign_packet_to_slot cfg gc sv now frame packet s =
     (if frame_is_dropped frame (net s) then Some (Inr (s, Dropped, False))
      else
        sbind (Some (assign_frame_to_available_slot cfg gc frame s)) (\<lambda>(s1, r).
          case r of
            None \<Rightarrow> Some (Inr (s1, NoSlotYet, False))
          | Some (slot, newly) \<Rightarrow>
              sbind (Some (if newly then
                  rbind (initial_tasks (gc_graph gc) [slot] (cfg_workers cfg)) (\<lambda>tasks.
                    if tasks \<noteq> [] then dispatch_nodes sv gc tasks s1 else Inr s1)
                else Inr s1)) (\<lambda>s2.
              sbind (packet_index cfg gc sv now packet slot s2) (\<lambda>(s3, idx).
                Some (Inr (s3, Assigned (node_info_new 0 slot idx 0), newly))))))"

section \<open>Admission\<close>

definition slot_active :: "nat \<Rightarrow> 'a slot_data_scheme \<Rightarrow> bool" where
  "slot_active slot s \<longleftrightarrow> active_bitmap s AND slot_bit slot \<noteq> 0"

text \<open>The bitmap is read without the lock; if the slot looks inactive, it is read again under it, in
  the state \<open>interfere\<close> makes of this one, and only then the packet goes to the slot's buffer.\<close>

definition route_packet ::
  "(nat \<Rightarrow> rt_state \<Rightarrow> rt_state) \<Rightarrow> node_info \<times> cm_types option \<Rightarrow> rt_state \<times> packet_batch
     \<Rightarrow> (rt_state \<times> packet_batch) result" where
  "route_packet interfere entry st =
     (let slot = ni_slot (fst entry)
      in if slot_active slot (fst st) then Inr (fst st, snd st @ [entry])
         else
           let s1 = interfere slot (fst st)
           in if slot_active slot s1 then Inr (s1, snd st @ [entry])
              else rbind (vec_modify (\<lambda>b. b @ [entry]) slot (slot_buffers s1)) (\<lambda>bs.
                     Inr (s1\<lparr>slot_buffers := bs\<rparr>, snd st)))"

definition check_frame_completion :: "rt_config \<Rightarrow> nat \<Rightarrow> nat \<Rightarrow> rt_state \<Rightarrow> rt_state result" where
  "check_frame_completion cfg slot per_frame s =
     rbind (vec_at (packet_counters s) slot) (\<lambda>n.
       if unat n \<noteq> per_frame then Inr s
       else
         rbind (vec_at (packet_complete s) slot) (\<lambda>already.
           let s1 = s\<lparr>packet_complete := (packet_complete s)[slot := True]\<rparr>
           in if already then Inr s1
              else
                let completed = frames_receive_counter (net s1) + 1
                in Inr (s1\<lparr>net := (net s1)\<lparr>frames_receive_counter := completed,
                          receive_finished := receive_finished (net s1) \<or> cfg_max_frames cfg \<le> completed\<rparr>\<rparr>)))"

definition admit_packet ::
  "rt_config \<Rightarrow> graph_cache \<Rightarrow> services \<Rightarrow> (nat \<Rightarrow> rt_state \<Rightarrow> rt_state) \<Rightarrow> u64 \<Rightarrow> nat \<Rightarrow> nat \<Rightarrow> cm_types
     \<Rightarrow> rt_state \<times> bool \<times> packet_batch \<Rightarrow> (rt_state \<times> bool \<times> packet_batch) step" where
  "admit_packet cfg gc sv interfere now per_frame frame packet st =
     (case st of (s, dirty, batch) \<Rightarrow>
        sbind (assign_packet_to_slot cfg gc sv now frame packet s) (\<lambda>(s1, outcome, newly).
          case outcome of
            Dropped \<Rightarrow> Some (Inr (s1, dirty, batch))
          | NoSlotYet \<Rightarrow> Some (Inr (park_pending_packet cfg frame packet per_frame s1, dirty, batch))
          | Assigned ni \<Rightarrow>
              sbind (Some (route_packet interfere (ni, Some packet) (s1, batch))) (\<lambda>(s2, batch').
              sbind (Some (check_frame_completion cfg (ni_slot ni) per_frame s2)) (\<lambda>s3.
                Some (Inr (s3, dirty \<or> newly, batch'))))))"

fun admit_all ::
  "rt_config \<Rightarrow> graph_cache \<Rightarrow> services \<Rightarrow> (nat \<Rightarrow> rt_state \<Rightarrow> rt_state) \<Rightarrow> u64 \<Rightarrow> nat \<Rightarrow> (nat \<times> cm_types) list
     \<Rightarrow> rt_state \<times> bool \<times> packet_batch \<Rightarrow> (rt_state \<times> bool \<times> packet_batch) step" where
  "admit_all cfg gc sv interfere now per_frame [] st = Some (Inr st)"
| "admit_all cfg gc sv interfere now per_frame ((frame, p) # ps) st =
     sbind (admit_packet cfg gc sv interfere now per_frame frame p st)
       (admit_all cfg gc sv interfere now per_frame ps)"

definition window_end :: "rt_config \<Rightarrow> rt_state \<Rightarrow> nat" where
  "window_end cfg s = frame_complete_counter s + cfg_slots cfg"

text \<open>The parked frames inside the window are taken out together, then admitted.\<close>

definition take_ready :: "nat \<Rightarrow> net_infra \<Rightarrow> net_infra \<times> (nat \<times> cm_types list) list" where
  "take_ready limit ni =
     (let ready = takeWhile (\<lambda>(f, _). f < limit) (pending_frames ni)
      in (ni\<lparr>pending_frames := dropWhile (\<lambda>(f, _). f < limit) (pending_frames ni),
             pending_count := pending_count ni - word_of_nat (sum_list (map (length \<circ> snd) ready))\<rparr>, ready))"

definition reinject_pending_frames ::
  "rt_config \<Rightarrow> graph_cache \<Rightarrow> services \<Rightarrow> (nat \<Rightarrow> rt_state \<Rightarrow> rt_state) \<Rightarrow> u64 \<Rightarrow> nat
     \<Rightarrow> rt_state \<times> bool \<times> packet_batch \<Rightarrow> (rt_state \<times> bool \<times> packet_batch) step" where
  "reinject_pending_frames cfg gc sv interfere now per_frame st =
     (let (ni, ready) = take_ready (window_end cfg (fst st)) (net (fst st))
      in admit_all cfg gc sv interfere now per_frame (concat (map (\<lambda>(f, ps). map (Pair f) ps) ready))
           (fst st\<lparr>net := ni\<rparr>, snd st))"

section \<open>Coalescing\<close>

text \<open>A run: the cells that continue one another in a slot.\<close>

fun take_run :: "nat \<Rightarrow> nat \<Rightarrow> packet_batch \<Rightarrow> packet_batch \<times> packet_batch" where
  "take_run slot last_index [] = ([], [])"
| "take_run slot last_index (e # es) =
     (if ni_id (fst e) = 0 \<and> ni_slot (fst e) = slot \<and> ni_index (fst e) = last_index + 1
      then let (run, rest) = take_run slot (ni_index (fst e)) es in (e # run, rest)
      else ([], e # es))"

lemma take_run_append: "take_run slot i es = (run, rest) \<Longrightarrow> run @ rest = es"
  by (induction slot i es arbitrary: run rest rule: take_run.induct) (auto split: if_splits prod.splits)

lemma take_run_shorter: "take_run slot i es = (run, rest) \<Longrightarrow> length rest \<le> length es"
  by (drule take_run_append) auto

fun store_run :: "packet_batch \<Rightarrow> rt_state \<Rightarrow> rt_state result" where
  "store_run [] s = Inr s"
| "store_run ((ni, p) # run) s = rbind (store_packet ni p s) (store_run run)"

function coalesce_runs :: "packet_batch \<Rightarrow> rt_state \<Rightarrow> (rt_state \<times> packet_batch) result" where
  "coalesce_runs [] s = Inr (s, [])"
| "coalesce_runs ((ni, p) # es) s =
     (if ni_id ni \<noteq> 0 then rbind (coalesce_runs es s) (\<lambda>(s', out). Inr (s', (ni, p) # out))
      else
        let (run, rest) = take_run (ni_slot ni) (ni_index ni) es
        in if run = [] then rbind (coalesce_runs rest s) (\<lambda>(s', out). Inr (s', (ni, p) # out))
           else
             rbind (store_run ((ni, p) # run) s) (\<lambda>s1.
             rbind (coalesce_runs rest s1) (\<lambda>(s', out).
               Inr (s', ((node_info_new 0 (ni_slot ni) (ni_index ni) 0)
                          \<lparr>bulk_count := length run + 1\<rparr>, None) # out))))"
  by pat_completeness auto

termination
  by (relation "measure (\<lambda>(es, s). length es)") (auto dest!: take_run_shorter [OF sym])

definition run_key :: "node_info \<times> cm_types option \<Rightarrow> nat \<times> nat" where
  "run_key e = (ni_slot (fst e), ni_index (fst e))"

definition coalesce_network_batch ::
  "graph_cache \<Rightarrow> packet_batch \<Rightarrow> rt_state \<Rightarrow> (rt_state \<times> packet_batch) result" where
  "coalesce_network_batch gc batch s =
     (if length batch < 2 then Inr (s, batch)
      else
        rbind (edges_for (gc_arena gc) 0) (\<lambda>es.
          if list_ex (\<lambda>e. has_condition_flag e \<or> has_one_to_one e) es then Inr (s, batch)
          else coalesce_runs (sort_key run_key batch) s))"

section \<open>A poll\<close>

definition flush_active_batch ::
  "rt_config \<Rightarrow> graph_cache \<Rightarrow> services \<Rightarrow> nat list list \<Rightarrow> packet_batch \<Rightarrow> rt_state \<times> (nat \<rightharpoonup> bool)
     \<Rightarrow> (rt_state \<times> (nat \<rightharpoonup> bool)) step" where
  "flush_active_batch cfg gc sv cond_indexes batch st =
     (if batch = [] then Some (Inr st)
      else
        sbind (Some (coalesce_network_batch gc batch (fst st))) (\<lambda>(s1, batch').
          process_batch_resolution cfg gc sv cond_indexes batch' (s1, snd st)))"

text \<open>Flushing empties the batch; a flush in between happens when the batch has reached the
  dispatch chunk.\<close>

definition flush_into ::
  "rt_config \<Rightarrow> graph_cache \<Rightarrow> services \<Rightarrow> nat list list \<Rightarrow> rt_state \<times> thread_state \<times> packet_batch
     \<Rightarrow> (rt_state \<times> thread_state \<times> packet_batch) step" where
  "flush_into cfg gc sv cond_indexes st =
     (case st of (s, th, batch) \<Rightarrow>
        sbind (flush_active_batch cfg gc sv cond_indexes batch (s, th_activity th)) (\<lambda>(s1, act).
          Some (Inr (s1, th\<lparr>th_activity := act\<rparr>, []))))"

definition process_message ::
  "rt_config \<Rightarrow> graph_cache \<Rightarrow> services \<Rightarrow> nat list list \<Rightarrow> (nat \<Rightarrow> rt_state \<Rightarrow> rt_state) \<Rightarrow> u64 \<Rightarrow> nat \<Rightarrow> func_ref
     \<Rightarrow> packet_msg \<Rightarrow> rt_state \<times> thread_state \<times> packet_batch \<Rightarrow> (rt_state \<times> thread_state \<times> packet_batch) step" where
  "process_message cfg gc sv cond_indexes interfere now per_frame extract m st =
     (case st of (s, th, batch) \<Rightarrow>
        let (packet, s1) = decode_packet sv extract m s
        in sbind (Some (process_id_function gc sv packet s1)) (\<lambda>(s2, raw).
             case raw of
               None \<Rightarrow> Some (Inr (s2, th, batch))
             | Some r \<Rightarrow>
                 let (b, frame) = rebase_frame_id (frame_id_base (net s2)) r;
                     s3 = s2\<lparr>net := (net s2)\<lparr>frame_id_base := b\<rparr>\<rparr>
                 in case frame of
                      None \<Rightarrow> Some (Inr (s3, th, batch))
                    | Some f \<Rightarrow>
                        if window_end cfg s3 \<le> f
                        then Some (Inr (park_pending_packet cfg f packet per_frame s3, th, batch))
                        else
                          sbind (admit_packet cfg gc sv interfere now per_frame f packet (s3, th_dirty th, batch))
                            (\<lambda>(s4, dirty, batch').
                              let st' = (s4, th\<lparr>th_dirty := dirty\<rparr>, batch')
                              in if 0 < cfg_dispatch_chunk cfg \<and> cfg_dispatch_chunk cfg \<le> length batch'
                                 then flush_into cfg gc sv cond_indexes st' else Some (Inr st'))))"

fun process_messages ::
  "rt_config \<Rightarrow> graph_cache \<Rightarrow> services \<Rightarrow> nat list list \<Rightarrow> (nat \<Rightarrow> rt_state \<Rightarrow> rt_state) \<Rightarrow> u64 \<Rightarrow> nat \<Rightarrow> func_ref
     \<Rightarrow> packet_msg list \<Rightarrow> rt_state \<times> thread_state \<times> packet_batch
     \<Rightarrow> (rt_state \<times> thread_state \<times> packet_batch) step" where
  "process_messages cfg gc sv cond_indexes interfere now per_frame extract [] st = Some (Inr st)"
| "process_messages cfg gc sv cond_indexes interfere now per_frame extract (m # ms) st =
     sbind (process_message cfg gc sv cond_indexes interfere now per_frame extract m st)
       (process_messages cfg gc sv cond_indexes interfere now per_frame extract ms)"

definition poll_and_process_network_packets ::
  "rt_config \<Rightarrow> graph_cache \<Rightarrow> services \<Rightarrow> nat list list \<Rightarrow> (nat \<Rightarrow> rt_state \<Rightarrow> rt_state) \<Rightarrow> u64 \<Rightarrow> net_config
     \<Rightarrow> packet_msg list \<Rightarrow> rt_state \<times> thread_state \<Rightarrow> (rt_state \<times> thread_state) step" where
  "poll_and_process_network_packets cfg gc sv cond_indexes interfere now nc msgs st =
     (let per_frame = nc_frame_packets nc;
          s1 = fst st\<lparr>net := (net (fst st))\<lparr>frame_packets := per_frame\<rparr>\<rparr>
      in case nc_extract nc of
           None \<Rightarrow> Some (Inl ExplicitPanic)
         | Some extract \<Rightarrow>
             sbind (if pending_count (net s1) = 0 then Some (Inr (s1, snd st, []))
                    else
                      sbind (reinject_pending_frames cfg gc sv interfere now per_frame (s1, th_dirty (snd st), []))
                        (\<lambda>(s2, dirty, batch).
                          let st' = (s2, (snd st)\<lparr>th_dirty := dirty\<rparr>, batch)
                          in if 0 < cfg_dispatch_chunk cfg then flush_into cfg gc sv cond_indexes st'
                             else Some (Inr st'))) (\<lambda>st1.
             sbind (process_messages cfg gc sv cond_indexes interfere now per_frame extract msgs st1) (\<lambda>st2.
             sbind (flush_into cfg gc sv cond_indexes st2) (\<lambda>(s3, th, _). Some (Inr (s3, th))))))"

end
