(* ===== verification/Runtime_Frame.thy ===== *)
theory Runtime_Frame
  imports Packet_Processing
begin

text \<open>
  What the operations on tasks, batches and packets leave alone: the slot table, the slot buffers,
  and the shape of the per-slot vectors. These frame conditions compose the components into
  invariants of whole threads.
\<close>

definition parked :: "rt_state \<Rightarrow> nat set" where
  "parked s = fst ` set (pending_frames (net s))"

definition keeps :: "rt_state \<Rightarrow> rt_state \<Rightarrow> bool" where
  "keeps s s' \<longleftrightarrow> slot_table s' = slot_table s \<and> slot_buffers s' = slot_buffers s
     \<and> (\<forall>n. slots_shape n s \<longrightarrow> slots_shape n s') \<and> parked s' \<subseteq> parked s"

lemma keeps_refl [simp, intro]: "keeps s s"
  by (simp add: keeps_def)

lemma keeps_trans [trans]: "keeps s s' \<Longrightarrow> keeps s' s'' \<Longrightarrow> keeps s s''"
  by (auto simp: keeps_def)

text \<open>Updates of the fields outside the table.\<close>

lemma keeps_update [simp]:
  "keeps s (s'\<lparr>resolution_state := c\<rparr>) \<longleftrightarrow> keeps s s'"
  "keeps s (s'\<lparr>node_results := m\<rparr>) \<longleftrightarrow> keeps s s'"
  "keeps s (s'\<lparr>scheduled := ts\<rparr>) \<longleftrightarrow> keeps s s'"
  "keeps s (s'\<lparr>batch_queue := q\<rparr>) \<longleftrightarrow> keeps s s'"
  "keeps s (s'\<lparr>stale_tasks_dropped := d\<rparr>) \<longleftrightarrow> keeps s s'"
  "keeps s (s'\<lparr>frame_complete_counter := k\<rparr>) \<longleftrightarrow> keeps s s'"
  "keeps s (s'\<lparr>shutdown_flag := b\<rparr>) \<longleftrightarrow> keeps s s'"
  "keeps s (s'\<lparr>plugin_calls := pc\<rparr>) \<longleftrightarrow> keeps s s'"
  "keeps s (s'\<lparr>initial_prep_done := b\<rparr>) \<longleftrightarrow> keeps s s'"
  by (simp_all add: keeps_def slot_table_def slots_shape_def parked_def)

lemma keeps_net:
  "keeps s s' \<Longrightarrow> fst ` set (pending_frames ni) \<subseteq> parked s' \<Longrightarrow> keeps s (s'\<lparr>net := ni\<rparr>)"
  by (auto simp: keeps_def slot_table_def slots_shape_def parked_def)

lemma keeps_vectors:
  "keeps s0 s \<Longrightarrow> length g = length (generation s) \<Longrightarrow> keeps s0 (s\<lparr>generation := g\<rparr>)"
  "keeps s0 s \<Longrightarrow> length p = length (pending_tasks s) \<Longrightarrow> keeps s0 (s\<lparr>pending_tasks := p\<rparr>)"
  "keeps s0 s \<Longrightarrow> length p = length (pending_cond_tasks s) \<Longrightarrow> keeps s0 (s\<lparr>pending_cond_tasks := p\<rparr>)"
  "keeps s0 s \<Longrightarrow> length p = length (processing_count s) \<Longrightarrow> keeps s0 (s\<lparr>processing_count := p\<rparr>)"
  "keeps s0 s \<Longrightarrow> length b = length (needs_check s) \<Longrightarrow> keeps s0 (s\<lparr>needs_check := b\<rparr>)"
  "keeps s0 s \<Longrightarrow> length p = length (packet_counters s) \<Longrightarrow> keeps s0 (s\<lparr>packet_counters := p\<rparr>)"
  "keeps s0 s \<Longrightarrow> length p = length (last_packet_ns s) \<Longrightarrow> keeps s0 (s\<lparr>last_packet_ns := p\<rparr>)"
  "keeps s0 s \<Longrightarrow> length b = length (packet_complete s) \<Longrightarrow> keeps s0 (s\<lparr>packet_complete := b\<rparr>)"
  "keeps s0 s \<Longrightarrow> length r = length (cond_instances_to_spawn s) \<Longrightarrow> keeps s0 (s\<lparr>cond_instances_to_spawn := r\<rparr>)"
  "keeps s0 s \<Longrightarrow> length r = length (fanout_bulk_arrived s) \<Longrightarrow> keeps s0 (s\<lparr>fanout_bulk_arrived := r\<rparr>)"
  by (simp_all add: keeps_def slot_table_def slots_shape_def parked_def)

lemma keeps_two:
  "keeps s0 s \<Longrightarrow> length p = length (processing_count s) \<Longrightarrow> length b = length (needs_check s) \<Longrightarrow>
    keeps s0 (s\<lparr>processing_count := p, needs_check := b\<rparr>)"
  "keeps s0 s \<Longrightarrow> length p = length (packet_counters s) \<Longrightarrow> length q = length (last_packet_ns s) \<Longrightarrow>
    keeps s0 (s\<lparr>packet_counters := p, last_packet_ns := q\<rparr>)"
  by (simp_all add: keeps_def slot_table_def slots_shape_def parked_def)

section \<open>Every result\<close>

text \<open>All results of a computation that returns satisfy a predicate; the rules follow the
  structure of the computation.\<close>

definition always :: "('a \<Rightarrow> bool) \<Rightarrow> 'a result \<Rightarrow> bool" where
  "always P m \<longleftrightarrow> (\<forall>a. m = Inr a \<longrightarrow> P a)"

definition always_step :: "('a \<Rightarrow> bool) \<Rightarrow> 'a step \<Rightarrow> bool" where
  "always_step P m \<longleftrightarrow> (\<forall>a. m = Some (Inr a) \<longrightarrow> P a)"

lemma alwaysD: "always P m \<Longrightarrow> m = Inr a \<Longrightarrow> P a" "always_step P n \<Longrightarrow> n = Some (Inr a) \<Longrightarrow> P a"
  by (simp_all add: always_def always_step_def)

lemma always_struct:
  "P a \<Longrightarrow> always P (Inr a)" "always P (Inl e)"
  "always Q m \<Longrightarrow> (\<And>a. Q a \<Longrightarrow> always P (f a)) \<Longrightarrow> always P (rbind m f)"
  "(b \<Longrightarrow> always P x) \<Longrightarrow> (\<not> b \<Longrightarrow> always P y) \<Longrightarrow> always P (if b then x else y)"
  "(\<And>c d. p = (c, d) \<Longrightarrow> always P (g c d)) \<Longrightarrow> always P (case p of (c, d) \<Rightarrow> g c d)"
  "(z = None \<Longrightarrow> always P x) \<Longrightarrow> (\<And>w. z = Some w \<Longrightarrow> always P (h w)) \<Longrightarrow>
    always P (case z of None \<Rightarrow> x | Some w \<Rightarrow> h w)"
  "always P (k v) \<Longrightarrow> always P (let u = v in k u)"
  by (auto simp: always_def rbind_eq_Inr split: prod.splits option.splits)

lemma always_step_struct:
  "always P r \<Longrightarrow> always_step P (Some r)" "always_step P None"
  "always_step Q m \<Longrightarrow> (\<And>a. Q a \<Longrightarrow> always_step P (f a)) \<Longrightarrow> always_step P (sbind m f)"
  "(b \<Longrightarrow> always_step P x) \<Longrightarrow> (\<not> b \<Longrightarrow> always_step P y) \<Longrightarrow> always_step P (if b then x else y)"
  "(\<And>c d. p = (c, d) \<Longrightarrow> always_step P (g c d)) \<Longrightarrow> always_step P (case p of (c, d) \<Rightarrow> g c d)"
  "(z = None \<Longrightarrow> always_step P x) \<Longrightarrow> (\<And>w. z = Some w \<Longrightarrow> always_step P (h w)) \<Longrightarrow>
    always_step P (case z of None \<Rightarrow> x | Some w \<Rightarrow> h w)"
  "always_step P (k v) \<Longrightarrow> always_step P (let u = v in k u)"
  by (auto simp: always_def always_step_def sbind_Some split: prod.splits option.splits)

lemma always_any: "always (\<lambda>_. True) m" "always_step (\<lambda>_. True) n"
  by (simp_all add: always_def always_step_def)

lemma always_mono:
  "always P m \<Longrightarrow> (\<And>a. P a \<Longrightarrow> Q a) \<Longrightarrow> always Q m"
  "always_step P n \<Longrightarrow> (\<And>a. P a \<Longrightarrow> Q a) \<Longrightarrow> always_step Q n"
  by (auto simp: always_def always_step_def)

lemma always_vec:
  "always (\<lambda>ys. length ys = length xs) (fetch_add n i xs)"
  "always (\<lambda>ys. length ys = length xs) (fetch_sub n i xs)"
  "always (\<lambda>ys. length ys = length zs) (vec_modify f i zs)"
  by (auto simp: always_def)

text \<open>The state parts of results.\<close>

abbreviation keeps1 :: "rt_state \<Rightarrow> rt_state \<times> 'b \<Rightarrow> bool" where
  "keeps1 s \<equiv> \<lambda>(s', _). keeps s s'"

abbreviation keeps2 :: "rt_state \<Rightarrow> 'c \<times> rt_state \<times> 'b \<Rightarrow> bool" where
  "keeps2 s \<equiv> \<lambda>(_, s', _). keeps s s'"

lemma keeps_pair: "keeps s s' \<Longrightarrow> keeps1 s (s', a)" "keeps s s' \<Longrightarrow> keeps2 s (t, s', a)"
  by simp_all

section \<open>Dispatch and resolution on a worker\<close>

lemma store_keeps:
  "keeps s0 s \<Longrightarrow> always (keeps s0) (store_result c r s)" "keeps s0 s \<Longrightarrow> always (keeps s0) (store_packet ni p s)"
  by (auto simp: always_def store_result_def store_packet_def rbind_eq_Inr split: option.splits)

lemma call_keeps: "keeps s0 s \<Longrightarrow> keeps s0 (snd (call_plugin sv f args s))"
  by (simp add: call_plugin_def)

lemma counters_keep:
  "keeps s0 s \<Longrightarrow> always (keeps s0) (finish_processing slot s)"
  "keeps s0 s \<Longrightarrow> always (keeps s0) (begin_processing slot s)"
  "keeps s0 s \<Longrightarrow> always (keeps s0) (count_completed e ni s)"
  by (auto simp: always_def finish_processing_def begin_processing_def count_completed_def rbind_eq_Inr
      intro: keeps_vectors keeps_two split: if_splits)

lemma send_keeps: "keeps s0 s \<Longrightarrow> always (keeps s0) (send_to_scheduler sv gc reqs s)"
proof (induction reqs arbitrary: s)
  case (Cons req reqs)
  have "always (\<lambda>_. True) (prepare_task sv gc s req)" by (rule always_any)
  then show ?case using Cons by (auto intro!: always_struct)
qed (simp add: always_def)

lemma dispatch_keeps: "keeps s0 s \<Longrightarrow> always (keeps s0) (dispatch_nodes sv gc tasks s)"
  unfolding dispatch_nodes_def by (rule send_keeps)

lemma fanout_keeps: "keeps s0 s \<Longrightarrow> always (keeps1 s0) (fanout_arrive cfg ni gen e cnt s)"
  by (auto simp: always_def fanout_arrive_def rbind_eq_Inr Let_def intro: keeps_vectors split: prod.splits)

lemma worker_edges_keeps: "keeps s0 s \<Longrightarrow> always (keeps1 s0) (worker_edges cfg ni gen es s sched)"
proof (induction es arbitrary: s sched)
  case (Cons e es)
  have f: "always (keeps1 s0) (fanout_arrive cfg ni gen e cnt (s\<lparr>resolution_state := c\<rparr>))" for cnt c
    by (rule fanout_keeps) (simp add: Cons.prems)
  show ?case
    using Cons.prems by (auto intro!: always_struct f Cons.IH)
qed (simp add: always_def)

lemma worker_keeps: "keeps s0 s \<Longrightarrow> always (keeps1 s0) (worker_resolve_successors cfg gc sv ni s)"
  unfolding worker_resolve_successors_def
  by (rule always_vec worker_edges_keeps counters_keep send_keeps always_struct always_any keeps_vectors
      | assumption | (simp; fail))+

section \<open>Execution of tasks\<close>

lemmas always_rules = always_struct always_step_struct always_any

lemma call_struct:
  "(\<And>r s'. keeps s0 s' \<Longrightarrow> always P (g r s')) \<Longrightarrow> keeps s0 s \<Longrightarrow> always P (case call_plugin sv f args s of (r, s') \<Rightarrow> g r s')"
  "(\<And>r s'. keeps s0 s' \<Longrightarrow> always_step Q (h r s')) \<Longrightarrow> keeps s0 s \<Longrightarrow>
    always_step Q (case call_plugin sv f args s of (r, s') \<Rightarrow> h r s')"
  by (simp_all add: call_plugin_def)

lemma bulk_cells_keeps: "keeps s0 s \<Longrightarrow> always_step (keeps1 s0) (bulk_cells cfg gc sv func entry ni is buf s)"
proof (induction "is" arbitrary: buf s)
  case (Cons i "is")
  show ?case unfolding bulk_cells.simps
    by (rule store_keeps Cons.IH call_struct always_rules | assumption | (simp add: Cons.prems; fail))+
qed (simp add: always_step_def)

lemma bulk_task_keeps: "keeps s0 s \<Longrightarrow> always_step (keeps1 s0) (execute_bulk_task cfg gc sv func ni s)"
  unfolding execute_bulk_task_def
  by (rule bulk_cells_keeps worker_keeps always_rules | assumption | (simp; fail))+

lemma complete_keeps: "keeps s0 s \<Longrightarrow> always (keeps1 s0) (complete_single cfg gc sv ni r s)"
  unfolding complete_single_def
  by (rule store_keeps worker_keeps always_rules | assumption | (simp; fail))+

lemma single_task_keeps: "keeps s0 s \<Longrightarrow> always_step (keeps2 s0) (execute_single_task cfg gc sv func ni args tpls s)"
  unfolding execute_single_task_def
  by (rule complete_keeps call_struct always_rules | assumption | (simp; fail))+

lemma execute_task_keeps: "keeps s0 s \<Longrightarrow> always_step (keeps2 s0) (execute_task cfg gc sv func ni args tpls s)"
  unfolding execute_task_def
  by (rule bulk_task_keeps single_task_keeps always_rules | assumption | (simp; fail))+

lemma run_node_keeps:
  assumes "run_node cfg gc sv func ni args tpls s = Some (Inr (tpls', s'))" "keeps s0 s"
  shows "keeps s0 s'"
proof -
  have "keeps s0 s \<longrightarrow> (\<forall>tpls' s'. r = Inr (tpls', s') \<longrightarrow> keeps s0 s')"
    if "run_node cfg gc sv func ni args tpls s = Some r" for r
    using that
  proof (induction rule: run_node.raw_induct [rotated 1, consumes 1])
    case (1 run cfg gc sv func ni args tpls s r)
    show ?case
    proof (intro impI allI)
      fix tpls' s' assume k: "keeps s0 s" and r: "r = Inr (tpls', s')"
      show "keeps s0 s'"
      proof (cases "execute_task cfg gc sv func ni args tpls s")
        case (Some x)
        show ?thesis
        proof (cases x)
          case (Inr y)
          obtain tpls1 s1 nxt where y: "y = (tpls1, s1, nxt)" by (cases y)
          note x = Some [unfolded Inr y]
          have k1: "keeps s0 s1" using alwaysD(2) [OF execute_task_keeps [OF k] x] by simp
          show ?thesis
          proof (cases nxt)
            case None
            then show ?thesis using 1(2) r x k1 by simp
          next
            case (Some ni')
            then show ?thesis
              using 1(2) r x k1 1(1) [of cfg gc sv _ ni' None tpls1 s1]
              by (cases "vec_at (gc_node_cache gc) (ni_id ni')") auto
          qed
        qed (use 1(2) r Some in simp)
      qed (use 1(2) in simp)
    qed
  qed
  then show ?thesis using assms by blast
qed

section \<open>Batches\<close>

lemma condition_keeps:
  "keeps s0 s \<Longrightarrow> always (keeps s0) (condition_spawned slot succ factor gen s)"
  "keeps s0 s \<Longrightarrow> always (keeps s0) (condition_failed slot ni gen s)"
  unfolding condition_spawned_def condition_failed_def
  by (rule always_vec always_rules keeps_vectors | assumption | (simp add: keeps_vectors; fail))+

lemma condition_successor_keeps:
  "keeps s0 s \<Longrightarrow> always_step (keeps1 s0) (dispatch_condition_successor cfg gc sv ci ni succ gen sched s)"
  unfolding dispatch_condition_successor_def
  by (rule condition_keeps always_rules | assumption | (simp; fail))+

lemma dispatch_ready_keeps:
  "keeps s0 s \<Longrightarrow> always_step (keeps1 s0) (dispatch_ready cfg gc sv ci ni e gen ready sched s)"
proof (induction ready arbitrary: sched s)
  case (Cons r ready)
  show ?case unfolding dispatch_ready.simps
    by (rule condition_successor_keeps [of s0] Cons.IH always_rules | assumption | (simp add: Cons.prems; fail))+
qed (simp add: always_step_def)

lemma batch_edges_keeps: "keeps s0 s \<Longrightarrow> always_step (keeps1 s0) (batch_edges cfg gc sv ci ni gen es sched s)"
proof (induction es arbitrary: sched s)
  case (Cons e es)
  show ?case unfolding batch_edges.simps
    by (rule fanout_keeps [of s0] dispatch_ready_keeps [of s0] Cons.IH always_rules | assumption | (simp add: Cons.prems; fail))+
qed (simp add: always_step_def)

lemma entry_keeps: "keeps s0 s \<Longrightarrow> always_step (keeps1 s0) (process_entry cfg gc sv ci entry s)"
  unfolding process_entry_def
  by (rule store_keeps counters_keep batch_edges_keeps always_rules | assumption | (simp; fail))+

lemma batch_inner_keeps:
  "keeps s0 s \<Longrightarrow> always_step (keeps1 s0) (process_batch_inner cfg gc sv ci batch acc (s, act))"
proof (induction batch arbitrary: acc s act)
  case Nil
  then show ?case unfolding process_batch_inner.simps
    by - (rule dispatch_keeps always_rules | assumption | (simp; fail))+
next
  case (Cons entry batch)
  show ?case unfolding process_batch_inner.simps
    by (rule entry_keeps [of s0] dispatch_keeps [of s0] Cons.IH always_rules | assumption | (simp add: Cons.prems; fail))+
qed

lemma for_slots_keeps:
  assumes "\<And>slot s. keeps s0 s \<Longrightarrow> always (keeps s0) (f slot s)"
  shows "keeps s0 s \<Longrightarrow> always (keeps s0) (for_slots f slots s)"
proof (induction slots arbitrary: s)
  case (Cons slot slots)
  show ?case unfolding for_slots.simps
    by (rule assms Cons.IH always_rules | assumption | (simp add: Cons.prems; fail))+
qed (simp add: always_def)

lemma batch_keeps:
  "keeps s0 (fst st) \<Longrightarrow> always_step (keeps1 s0) (process_batch_resolution cfg gc sv ci batch st)"
  unfolding process_batch_resolution_def
  by (rule for_slots_keeps counters_keep batch_inner_keeps always_rules | assumption | (simp add: case_prod_beta; fail))+

lemma drain_keeps:
  "keeps s0 (fst st) \<Longrightarrow> always_step (keeps1 s0) (drain_and_process_batch_queue cfg gc sv ci st)"
  unfolding drain_and_process_batch_queue_def
  by (rule batch_keeps always_rules | assumption | (simp add: case_prod_beta; fail))+

section \<open>Packets\<close>

lemma drop_keeps: "keeps s0 s \<Longrightarrow> keeps s0 (mark_frame_dropped frame s)"
  by (simp add: mark_frame_dropped_def keeps_net parked_def)

lemma remove_frame_subset: "remove_frame f ps = (r, rest) \<Longrightarrow> set rest \<subseteq> set ps"
proof (induction ps arbitrary: r rest)
  case (Cons e ps)
  show ?case
  proof (cases "fst e = f")
    case False
    obtain r1 rest1 where sub: "remove_frame f ps = (r1, rest1)" by force
    have "set rest1 \<subseteq> set ps" by (rule Cons.IH [OF sub])
    then show ?thesis using Cons.prems sub False by (cases e) auto
  qed (use Cons.prems in \<open>cases e; auto\<close>)
qed simp

lemma evict_keeps: "keeps s0 s \<Longrightarrow> keeps s0 (s\<lparr>net := evict_parked v (net s)\<rparr>)"
  by (rule keeps_net)
    (auto simp: evict_parked_def parked_def dest: remove_frame_subset split: prod.split option.split)

lemma park_packet_frames: "fst ` set (park_packet f p ps) = insert f (fst ` set ps)"
  by (induction f p ps rule: park_packet.induct) auto

text \<open>Parking adds at most the packet's own frame.\<close>

lemma park_table:
  "slot_table (park_pending_packet cfg f p fp s) = slot_table s"
  "slot_buffers (park_pending_packet cfg f p fp s) = slot_buffers s"
  "slots_shape n (park_pending_packet cfg f p fp s) \<longleftrightarrow> slots_shape n s"
  "parked (park_pending_packet cfg f p fp s) \<subseteq> insert f (parked s)"
proof -
  let ?add = "\<lambda>s. s\<lparr>net := (net s)\<lparr>pending_frames := park_packet f p (pending_frames (net s)),
      pending_count := pending_count (net s) + 1\<rparr>\<rparr>"
  have add: "slot_table (?add s) = slot_table s" "slot_buffers (?add s) = slot_buffers s"
    "slots_shape n (?add s) \<longleftrightarrow> slots_shape n s" "parked (?add s) \<subseteq> insert f (parked s)" for s :: rt_state
    by (auto simp: slot_table_def slots_shape_def parked_def park_packet_frames)
  define s1 where "s1 v = mark_frame_dropped v (s\<lparr>net := evict_parked v (net s)\<rparr>)" for v
  have s1: "slot_table (s1 v) = slot_table s" "slot_buffers (s1 v) = slot_buffers s"
    "slots_shape n (s1 v) \<longleftrightarrow> slots_shape n s" "parked (s1 v) \<subseteq> parked s" for v
    using drop_keeps [OF evict_keeps [OF keeps_refl [of s]], of v v]
    by (auto simp: s1_def keeps_def mark_frame_dropped_def slot_table_def slots_shape_def)
  have cases: "park_pending_packet cfg f p fp s = s \<or> park_pending_packet cfg f p fp s = ?add s
      \<or> (\<exists>v. park_pending_packet cfg f p fp s = s1 v \<or> park_pending_packet cfg f p fp s = ?add (s1 v))"
    by (auto simp: park_pending_packet_def Let_def s1_def)
  show "slot_table (park_pending_packet cfg f p fp s) = slot_table s"
    using cases s1 add by auto
  show "slot_buffers (park_pending_packet cfg f p fp s) = slot_buffers s"
    using cases s1 add by auto
  show "slots_shape n (park_pending_packet cfg f p fp s) \<longleftrightarrow> slots_shape n s"
    using cases s1 add by auto
  show "parked (park_pending_packet cfg f p fp s) \<subseteq> insert f (parked s)"
  proof -
    have "parked (?add (s1 v)) \<subseteq> insert f (parked s)" for v
      using add(4) [of "s1 v"] s1(4) [of v] by blast
    then show ?thesis using cases s1(4) add(4) [of s] by fastforce
  qed
qed

lemma count_packet_keeps: "keeps s0 s \<Longrightarrow> always (keeps1 s0) (count_packet slot now s)"
  unfolding count_packet_def
  by (rule always_vec always_rules keeps_pair keeps_two | assumption | (simp; fail))+

lemma packet_index_keeps: "keeps s0 s \<Longrightarrow> always_step (keeps1 s0) (packet_index cfg gc sv now packet slot s)"
proof -
  assume k: "keeps s0 s"
  have count: "always_step (keeps1 s0) (sbind (Some (count_packet slot now s')) (\<lambda>(s1, n). Some (Inr (s1, unat n))))"
    if "keeps s0 s'" for s' using that
    by - (rule count_packet_keeps [of s0] always_rules keeps_pair | assumption | (simp; fail))+
  show ?thesis
  proof (cases "case gc_network gc of None \<Rightarrow> None | Some nc \<Rightarrow> nc_index_function nc")
    case None
    then show ?thesis using count [OF k] by (simp add: packet_index_def)
  next
    case (Some fa)
    obtain f args where fa: "fa = (f, args)" by (cases fa)
    show ?thesis
    proof (cases f)
      case None
      then show ?thesis using count [OF k] Some by (simp add: packet_index_def fa)
    next
      case (Some g)
      note idx = \<open>(case gc_network gc of None \<Rightarrow> None | Some nc \<Rightarrow> nc_index_function nc) = Some fa\<close> [unfolded fa Some]
      show ?thesis unfolding packet_index_def idx option.case prod.case
        by (rule call_struct [of s0] count_packet_keeps [of s0] always_rules keeps_pair | rule k | assumption | (simp; fail))+
    qed
  qed
qed

lemma frame_completion_keeps: "keeps s0 s \<Longrightarrow> always (keeps s0) (check_frame_completion cfg slot fp s)"
  unfolding check_frame_completion_def
  by (rule always_rules keeps_net keeps_vectors | assumption | (simp add: keeps_vectors parked_def; fail))+

lemma store_run_keeps: "keeps s0 s \<Longrightarrow> always (keeps s0) (store_run run s)"
proof (induction run s rule: store_run.induct)
  case (2 ni p run s)
  show ?case unfolding store_run.simps
    by (rule store_keeps [of s0] "2.IH" always_rules | assumption | rule "2.prems")+
qed (simp add: always_def)

lemma coalesce_runs_keeps: "keeps s0 s \<Longrightarrow> always (keeps1 s0) (coalesce_runs es s)"
proof (induction es s rule: coalesce_runs.induct)
  case (2 ni p es s)
  note k = "2.prems"
  show ?case
  proof (cases "ni_id ni = 0")
    case False
    then have "always (keeps1 s0) (coalesce_runs es s)" using "2.IH"(1) k by simp
    then show ?thesis using False by (auto intro!: always_struct)
  next
    case True
    obtain run rest where tr: "take_run (ni_slot ni) (ni_index ni) es = (run, rest)" by force
    have 1: "always (keeps1 s0) (coalesce_runs rest s)" if "run = []"
      using "2.IH"(2) True tr that k by simp
    have 2: "always (keeps1 s0) (coalesce_runs rest s1)" if "run \<noteq> []" "keeps s0 s1" for s1
      using "2.IH"(3) True tr that by simp
    have st: "always (keeps s0) (store_run ((ni, p) # run) s)" using k by (rule store_run_keeps)
    show ?thesis
    proof (cases "run = []")
      case True
      then show ?thesis
        using 1 tr \<open>ni_id ni = 0\<close> by (auto intro!: always_struct)
    next
      case False
      have "always (keeps1 s0) (rbind (store_run ((ni, p) # run) s) (\<lambda>s1. rbind (coalesce_runs rest s1) (\<lambda>(s', out).
          Inr (s', ((node_info_new 0 (ni_slot ni) (ni_index ni) 0)\<lparr>bulk_count := length run + 1\<rparr>, None) # out))))"
        by (rule st 2 always_rules False keeps_pair | assumption | (simp; fail))+
      then show ?thesis using False True tr by simp
    qed
  qed
qed (simp add: always_def)

lemma flush_keeps:
  "keeps s0 (fst st) \<Longrightarrow> always_step (keeps1 s0) (flush_active_batch cfg gc sv ci batch st)"
proof -
  assume k: "keeps s0 (fst st)"
  have "always (keeps1 s0) (coalesce_network_batch gc batch (fst st))"
    unfolding coalesce_network_batch_def
    by (rule coalesce_runs_keeps [of s0] always_rules keeps_pair | rule k | assumption)+
  note c = this
  show ?thesis unfolding flush_active_batch_def
    by (rule c batch_keeps [of s0] always_rules | assumption | (simp add: case_prod_beta k; fail))+
qed

end
