(* ===== verification/Runtime_Run.thy ===== *)
theory Runtime_Run
  imports Runtime_Frame
begin

text \<open>
  The threads of a run (\<^verbatim>\<open>runtime/resolution_loop.rs\<close>, \<^verbatim>\<open>runtime/threading.rs\<close>): an iteration of
  a resolution thread, the worker that takes a task, and the runs of the whole system; then the
  invariants of network runs.
\<close>

unbundle bit_operations_syntax

section \<open>Resolution threads\<close>

definition thread_start :: thread_state where
  "thread_start = \<lparr>th_activity = Map.empty, th_cached = [], th_dirty = True\<rparr>"

text \<open>What arrives from outside in one iteration: the messages of the channels and the clock.\<close>

record inputs =
  in_msgs :: "packet_msg list"
  in_now :: u64

definition should_poll :: "graph_cache \<Rightarrow> rt_state \<Rightarrow> bool" where
  "should_poll gc s \<longleftrightarrow> gc_network gc \<noteq> None \<and> \<not> receive_finished (net s)"

definition all_frames_completed :: "rt_config \<Rightarrow> rt_state \<Rightarrow> bool" where
  "all_frames_completed cfg s \<longleftrightarrow> cfg_max_frames cfg \<le> frame_complete_counter s"

text \<open>One pass of the loop. The flag says that the thread has left it.\<close>

definition resolution_iteration ::
  "rt_config \<Rightarrow> graph_cache \<Rightarrow> services \<Rightarrow> nat list list \<Rightarrow> (nat \<Rightarrow> rt_state \<Rightarrow> rt_state) \<Rightarrow> inputs
     \<Rightarrow> rt_state \<times> thread_state \<Rightarrow> ((rt_state \<times> thread_state) \<times> bool) step" where
  "resolution_iteration cfg gc sv cond_indexes interfere inp st =
     (if shutdown_flag (fst st) then Some (Inr (st, True))
      else
        sbind (case gc_network gc of
                 None \<Rightarrow> Some (Inr st)
               | Some nc \<Rightarrow>
                   if should_poll gc (fst st)
                   then poll_and_process_network_packets cfg gc sv cond_indexes interfere (in_now inp) nc (in_msgs inp) st
                   else Some (Inr st)) (\<lambda>(s1, th1).
        sbind (drain_and_process_batch_queue cfg gc sv cond_indexes (s1, th_activity th1)) (\<lambda>(s2, act).
          let th2 = th1\<lparr>th_activity := act\<rparr>
          in if shutdown_flag s2 \<or> all_frames_completed cfg s2 then Some (Inr ((s2, th2), True))
             else
               sbind (check_slots cfg gc sv cond_indexes interfere (in_now inp) (s2, th2)) (\<lambda>(s3, th3).
                 Some (Inr ((s3, th3), all_frames_completed cfg s3))))))"

section \<open>Workers\<close>

text \<open>A worker takes a task that the scheduler holds; which one is up to the scheduler.\<close>

definition run_scheduled ::
  "rt_config \<Rightarrow> graph_cache \<Rightarrow> services \<Rightarrow> sched_task \<Rightarrow> templates \<Rightarrow> rt_state \<Rightarrow> (templates \<times> rt_state) step" where
  "run_scheduled cfg gc sv t tpls s =
     run_node cfg gc sv (st_func t) (st_node t) (st_args t) tpls (s\<lparr>scheduled := remove1 t (scheduled s)\<rparr>)"

section \<open>Runs\<close>

text \<open>The threads of the system: the resolution threads that are in their loop, those that have
  been started, and the workers with their templates.\<close>

record world =
  w_state :: rt_state
  w_threads :: "nat \<rightharpoonup> thread_state"
  w_started :: "nat set"
  w_templates :: "nat \<Rightarrow> templates"

definition world_start :: "rt_state \<Rightarrow> world" where
  "world_start s = \<lparr>w_state = s, w_threads = Map.empty, w_started = {}, w_templates = (\<lambda>_. [])\<rparr>"

text \<open>A step is one iteration of a resolution thread, or one task of a worker. Inside an iteration
  other threads act at the two places where the code looks twice, as a function that satisfies
  \<open>env\<close>.\<close>

inductive runs ::
  "rt_config \<Rightarrow> graph_cache \<Rightarrow> services \<Rightarrow> ((nat \<Rightarrow> rt_state \<Rightarrow> rt_state) \<Rightarrow> bool) \<Rightarrow> world \<Rightarrow> bool"
  for cfg gc sv env where
  built: "build_runtime cfg0 gc dep_counts si opts = Inr (cfg, s) \<Longrightarrow> runs cfg gc sv env (world_start s)"
| started: "runs cfg gc sv env w \<Longrightarrow> tid \<notin> w_started w \<Longrightarrow>
    perform_initial_preparation cfg gc sv tid (w_state w) = Inr s' \<Longrightarrow>
    runs cfg gc sv env (w\<lparr>w_state := s', w_threads := (w_threads w)(tid \<mapsto> thread_start),
      w_started := insert tid (w_started w)\<rparr>)"
| iterated: "runs cfg gc sv env w \<Longrightarrow> w_threads w tid = Some th \<Longrightarrow> env interfere \<Longrightarrow>
    distinct order \<Longrightarrow> set order = condition_nodes (gc_graph gc) \<Longrightarrow>
    get_condition_indexes (gc_graph gc) order = Inr cond_indexes \<Longrightarrow>
    resolution_iteration cfg gc sv cond_indexes interfere inp (w_state w, th) = Some (Inr ((s', th'), left)) \<Longrightarrow>
    runs cfg gc sv env (w\<lparr>w_state := s', w_threads := (w_threads w)(tid := if left then None else Some th')\<rparr>)"
| worked: "runs cfg gc sv env w \<Longrightarrow> t \<in> set (scheduled (w_state w)) \<Longrightarrow>
    run_scheduled cfg gc sv t (w_templates w k) (w_state w) = Some (Inr (tpls, s')) \<Longrightarrow>
    runs cfg gc sv env (w\<lparr>w_state := s', w_templates := (w_templates w)(k := tpls)\<rparr>)"

end
