(* ===== verification/Run_Invariants.thy ===== *)
theory Run_Invariants
  imports Runtime_Run
begin

text \<open>
  Invariants of network runs: every step of every thread refines the operations on the slot table,
  and a packet waits in the buffer of a slot only while that slot is buffering.
\<close>

unbundle bit_operations_syntax

section \<open>The invariant\<close>

definition buffers_ok :: "nat \<Rightarrow> 'a slot_data_scheme \<Rightarrow> bool" where
  "buffers_ok n s \<longleftrightarrow>
     (\<forall>i < n. (slot_states s ! i \<noteq> Buffering \<longrightarrow> slot_buffers s ! i = [])
        \<and> (\<forall>e \<in> set (slot_buffers s ! i). ni_slot (fst e) = i))"

definition net_ok :: "rt_config \<Rightarrow> graph_cache \<Rightarrow> rt_state \<Rightarrow> bool" where
  "net_ok cfg gc s \<longleftrightarrow> slots_reach cfg gc s \<and> buffers_ok (cfg_slots cfg) s \<and> parked s \<subseteq> {..< 2 ^ 32}"

lemma net_okD:
  assumes "net_ok cfg gc s"
  shows "slots_reach cfg gc s" "table_ok (cfg_slots cfg) s" "slots_shape (cfg_slots cfg) s"
    "buffers_ok (cfg_slots cfg) s" "parked s \<subseteq> {..< 2 ^ 32}" "cfg_slot_priority cfg \<Longrightarrow> queued s"
proof -
  show r: "slots_reach cfg gc s" "buffers_ok (cfg_slots cfg) s" "parked s \<subseteq> {..< 2 ^ 32}"
    using assms by (simp_all add: net_ok_def)
  show t: "table_ok (cfg_slots cfg) s" using r(1) by (rule reach_table_ok)
  show "slots_shape (cfg_slots cfg) s" using t by (rule table_okD)
  show "cfg_slot_priority cfg \<Longrightarrow> queued s" using r(1) by (rule reach_queued)
qed

text \<open>Steps outside the slot table keep it.\<close>

lemma net_ok_keeps: "net_ok cfg gc s \<Longrightarrow> keeps s s' \<Longrightarrow> net_ok cfg gc s'"
  using net_okD(3) [of cfg gc s] slots_reach.other [of cfg gc s s']
  by (auto simp: net_ok_def keeps_def buffers_ok_def slot_table_def)

lemma keeps_slot:
  "keeps s s' \<Longrightarrow> slot_states s' = slot_states s \<and> running_frames s' = running_frames s
     \<and> active_bitmap s' = active_bitmap s"
  by (simp add: keeps_def slot_table_def)

text \<open>What other threads may do while this one handles a slot: they keep the invariant, they do
  not deactivate the slot, and the frame that runs in it goes on.\<close>

definition rely :: "rt_config \<Rightarrow> graph_cache \<Rightarrow> nat \<Rightarrow> rt_state \<Rightarrow> rt_state \<Rightarrow> bool" where
  "rely cfg gc slot s s' \<longleftrightarrow>
     net_ok cfg gc s' \<and> (slot_states s ! slot = Active \<longrightarrow> slot_states s' ! slot = Active)
     \<and> (\<forall>f. (f, slot) \<in> set (running_frames s) \<longrightarrow> (f, slot) \<in> set (running_frames s'))"

definition guarded :: "rt_config \<Rightarrow> graph_cache \<Rightarrow> (nat \<Rightarrow> rt_state \<Rightarrow> rt_state) \<Rightarrow> bool" where
  "guarded cfg gc interfere \<longleftrightarrow>
     (\<forall>slot s. net_ok cfg gc s \<longrightarrow> slot < cfg_slots cfg \<longrightarrow> rely cfg gc slot s (interfere slot s))"

lemma guardedD:
  assumes "guarded cfg gc interfere" "net_ok cfg gc s" "slot < cfg_slots cfg"
  shows "net_ok cfg gc (interfere slot s)"
    "slot_states s ! slot = Active \<Longrightarrow> slot_states (interfere slot s) ! slot = Active"
    "(f, slot) \<in> set (running_frames s) \<Longrightarrow> (f, slot) \<in> set (running_frames (interfere slot s))"
  using assms unfolding guarded_def rely_def by blast+

lemma shape_update:
  "slots_shape n s \<Longrightarrow> i < n \<Longrightarrow> (slot_states s)[k := st] ! i = (if i = k then st else slot_states s ! i)"
  "slots_shape n s \<Longrightarrow> i < n \<Longrightarrow> (slot_buffers s)[k := b] ! i = (if i = k then b else slot_buffers s ! i)"
  by (simp_all add: shape_lengths(4,5) [of n s] nth_list_update)

lemma reach_no_buffering:
  "slots_reach cfg gc s \<Longrightarrow> gc_network gc \<noteq> None \<Longrightarrow> \<not> cfg_slot_priority cfg \<Longrightarrow>
    i < cfg_slots cfg \<Longrightarrow> slot_states s ! i \<noteq> Buffering"
proof (induction rule: slots_reach.induct)
  case (built cfg0 dep_counts si opts s)
  note t = built_table [OF built(1)]
  then show ?case using table_okD(8) [OF t(1)] built(4) by auto
next
  case (assigned s frame s' r)
  note ok = reach_table_ok [OF assigned(1)]
  have a: "assign_slow cfg gc frame s = Inr (s', r)"
    using assigned(3) assign_is_slow [OF ok assigned(2)] by simp
  show ?case
  proof (cases "lookup_frame frame (running_frames s)")
    case None
    then have new: "assign_new_frame cfg gc frame s = Inr (s', r)" using a by (simp add: assign_slow_def)
    show ?thesis
    proof (cases rule: assign_new_frame_cases [OF ok refl, where gc = gc and frame = frame])
      case 1
      then show ?thesis using new assigned by simp
    next
      case placed: (2 k st s1)
      then have "slot_states s' = (slot_states s)[k := st]" "st = Active"
        using new assigned(5,6) by (auto simp: placed_def slot_table_def)
      then show ?thesis using assigned shape_update(1) [OF table_okD(1) [OF ok]] by simp
    qed
  qed (use a assigned in \<open>simp add: assign_slow_def\<close>)
next
  case (released s slot s' r)
  note ok = reach_table_ok [OF released(1)]
  have "slot_states s ! slot \<noteq> Inactive" using released(3) by simp
  then obtain s1 where s1: "release_slot slot s = Inr s1" "slot_states s1 = (slot_states s)[slot := Inactive]"
    using release_slot_ok [OF ok released(2)] by metis
  then have "s' = s1" using released(4,7) by (simp add: release_and_activate_next_def)
  then show ?case using s1 released shape_update(1) [OF table_okD(1) [OF ok]] by simp
next
  case (other s s')
  then show ?case by (simp add: slot_table_def)
qed

section \<open>Assignment and release\<close>

lemma bump_net: "bump_slot_generation gc slot s = Inr s' \<Longrightarrow> net s' = net s"
  by (auto simp: bump_slot_generation_def sweep_slot_generational_entries_def rbind_eq_Inr Let_def split: if_splits)

abbreviation same_net :: "rt_state \<Rightarrow> rt_state \<Rightarrow> bool" where
  "same_net s0 \<equiv> \<lambda>s. net s = net s0"

lemma place_net:
  "net s = net s0 \<Longrightarrow> always (same_net s0) (bump_slot_generation gc slot s)"
  "net s = net s0 \<Longrightarrow> always (same_net s0) (mark_active slot s)"
  "net s = net s0 \<Longrightarrow> always (same_net s0) (register_frame frame slot s)"
  "net s = net s0 \<Longrightarrow> always (same_net s0) (frame_slot_clear f s)"
  by (auto simp: always_def mark_active_def register_frame_def frame_slot_publish_def frame_slot_clear_def
      rbind_eq_Inr dest: bump_net)

lemma new_frame_net: "always (\<lambda>(s', _). net s' = net s) (assign_new_frame cfg gc frame s)"
  unfolding assign_new_frame_def
  by (rule place_net [of _ s] always_rules | assumption | (simp; fail))+

lemma assign_net: "assign_frame_to_available_slot cfg gc f s = Inr (s', r) \<Longrightarrow> net s' = net s"
  by (auto simp: assign_frame_to_available_slot_def assign_slow_def rbind_eq_Inr
      dest: alwaysD(1) [OF new_frame_net] split: option.splits)

lemma release_slot_net: "net s = net s0 \<Longrightarrow> always (same_net s0) (release_slot slot s)"
  unfolding release_slot_def
  by (rule place_net [of _ s0] always_rules | assumption | (simp; fail))+

lemma promote_net: "net s = net s0 \<Longrightarrow> always (\<lambda>(s', _). net s' = net s0) (promote_next gc s)"
  for s0 :: rt_state
  unfolding promote_next_def
  by (rule place_net [of _ s0] always_rules | assumption | (simp; fail))+

lemma release_net: "release_and_activate_next cfg gc slot s = Inr (s', p) \<Longrightarrow> net s' = net s"
proof -
  have "always (\<lambda>(s', _). net s' = net s) (release_and_activate_next cfg gc slot s)"
    unfolding release_and_activate_next_def
    by (rule release_slot_net [of _ s] promote_net [of _ s] always_rules | assumption | (simp; fail))+
  then show "release_and_activate_next cfg gc slot s = Inr (s', p) \<Longrightarrow> net s' = net s"
    by (simp add: always_def)
qed

lemma assign_good:
  assumes ok: "net_ok cfg gc s" and f: "f < 2 ^ 32"
    and a: "assign_frame_to_available_slot cfg gc f s = Inr (s', r)"
  shows "net_ok cfg gc s'" "r = Some (slot, b) \<Longrightarrow> (f, slot) \<in> set (running_frames s') \<and> slot < cfg_slots cfg"
proof -
  note t = net_okD(2) [OF ok]
  have reach: "slots_reach cfg gc s'" using net_okD(1) [OF ok] f a by (rule slots_reach.assigned)
  have parked: "parked s' \<subseteq> {..< 2 ^ 32}" using net_okD(5) [OF ok] assign_net [OF a] by (simp add: parked_def)
  have slow: "assign_slow cfg gc f s = Inr (s', r)" using a assign_is_slow [OF t f] by simp
  have "buffers_ok (cfg_slots cfg) s'
      \<and> (\<forall>slot b. r = Some (slot, b) \<longrightarrow> (f, slot) \<in> set (running_frames s') \<and> slot < cfg_slots cfg)"
  proof (cases "lookup_frame f (running_frames s)")
    case None
    then have new: "assign_new_frame cfg gc f s = Inr (s', r)" using slow by (simp add: assign_slow_def)
    show ?thesis
    proof (cases rule: assign_new_frame_cases [OF t refl, where gc = gc and frame = f])
      case 1
      then show ?thesis using new net_okD(4) [OF ok] by simp
    next
      case placed: (2 k st s1)
      have "s' = s1" "r = Some (k, st = Active)" using new placed(1) by simp_all
      then have eqs: "slot_states s' = (slot_states s)[k := st]" "running_frames s' = running_frames s @ [(f, k)]"
        "slot_buffers s' = slot_buffers s"
        using placed(4,6) by (auto simp: placed_def slot_table_def)
      have "slot_buffers s ! k = []" using net_okD(4) [OF ok] placed(2,3) by (simp add: buffers_ok_def)
      then have "buffers_ok (cfg_slots cfg) s'"
        using net_okD(4) [OF ok] by (auto simp: buffers_ok_def eqs shape_update [OF net_okD(3) [OF ok]])
      then show ?thesis using eqs placed(2) \<open>r = _\<close> by simp
    qed
  next
    case (Some k)
    then have "(f, k) \<in> set (running_frames s)" using lookup_frame_in [OF table_okD(6) [OF t]] by simp
    moreover from this have "k \<in> {i. i < cfg_slots cfg \<and> slot_states s ! i \<noteq> Inactive}"
      by (subst table_okD(8) [OF t, symmetric]) force
    ultimately show ?thesis using slow Some net_okD(4) [OF ok] by (auto simp: assign_slow_def)
  qed
  then show "net_ok cfg gc s'" "r = Some (slot, b) \<Longrightarrow> (f, slot) \<in> set (running_frames s') \<and> slot < cfg_slots cfg"
    using reach parked by (simp_all add: net_ok_def)
qed

lemma bump_keeps: "keeps s0 s \<Longrightarrow> always (keeps s0) (bump_slot_generation gc slot s)"
  by (auto simp: always_def bump_slot_generation_def sweep_slot_generational_entries_def rbind_eq_Inr Let_def
      intro!: keeps_vectors split: if_splits)


lemma reset_keeps: "keeps s0 s \<Longrightarrow> always (keeps s0) (reset_slot_state gc slot s)"
  unfolding reset_slot_state_def
  by (rule bump_keeps always_vec always_rules keeps_vectors | assumption
      | (simp add: keeps_vectors; fail) | (simp; rule keeps_vectors; simp add: keeps_vectors; fail))+

lemma completion_keeps: "keeps s0 s \<Longrightarrow> always (keeps1 s0) (process_slot_completion cfg slot s)"
  by (auto simp: process_slot_completion_def always_def Let_def rbind_eq_Inr split: if_splits)

text \<open>The slot a thread releases is active, or, without slot priority, at least not buffering.\<close>

lemma remove_slot_absent: "slot \<notin> snd ` set rs \<Longrightarrow> remove_slot slot rs = (None, rs)"
  by (induction slot rs rule: remove_slot.induct) auto

lemma release_inactive:
  assumes ok: "table_ok n s" and i: "i < n" "slot_states s ! i = Inactive"
  shows "release_slot i s = Inr s"
proof -
  note t = table_okD [OF ok]
  have "slot_states s = (slot_states s)[i := Inactive]" using i(2) by (metis list_update_id)
  moreover have "(frame_id s)[i := USIZE_MAX] = frame_id s" using t(11) [OF i] by (metis list_update_id)
  moreover have "active_bitmap s AND NOT (slot_bit i) = active_bitmap s"
    using t(5) [of i] i(2) t(3) i(1) by (intro bit_word_eqI) (auto simp: bit_clear_slot)
  moreover have "i \<notin> snd ` set (running_frames s)" using t(8) i(2) by simp
  ultimately show ?thesis
    using i(1) t(1) by (simp add: release_slot_def remove_slot_absent vec_modify_def slots_shape_def)
qed

lemma release_good:
  assumes net: "gc_network gc \<noteq> None" and ok: "net_ok cfg gc s" and i: "i < cfg_slots cfg"
    and act: "cfg_slot_priority cfg \<Longrightarrow> slot_states s ! i = Active"
    and r: "release_and_activate_next cfg gc i s = Inr (s', p)"
  shows "net_ok cfg gc s'"
proof (cases "slot_states s ! i = Inactive")
  case True
  then show ?thesis
    using release_inactive [OF net_okD(2) [OF ok] i] r act ok
    by (cases "cfg_slot_priority cfg") (auto simp: release_and_activate_next_def)
next
  case False
  then have a: "slot_states s ! i = Active"
    using act reach_no_buffering [OF net_okD(1) [OF ok] net _ i] by (cases "slot_states s ! i") auto
  have reach: "slots_reach cfg gc s'" using net_okD(1) [OF ok] i a r by (rule slots_reach.released)
  have "parked s' \<subseteq> {..< 2 ^ 32}" using net_okD(5) [OF ok] release_net [OF r] by (simp add: parked_def)
  moreover have "buffers_ok (cfg_slots cfg) s'"
  proof -
    obtain s1 where s1: "release_slot i s = Inr s1" "table_ok (cfg_slots cfg) s1"
      "slot_states s1 = (slot_states s)[i := Inactive]" "slot_buffers s1 = slot_buffers s"
      by (rule release_slot_ok [OF net_okD(2) [OF ok] i False])
    note u = shape_update [OF net_okD(3) [OF ok]]
    have b1: "buffers_ok (cfg_slots cfg) s1"
      using net_okD(4) [OF ok] a by (auto simp: buffers_ok_def s1(3,4) u)
    show ?thesis
    proof (cases "cfg_slot_priority cfg")
      case True
      then have p: "promote_next gc s1 = Inr (s', p)" using r s1(1) by (simp add: release_and_activate_next_def)
      show ?thesis
      proof (cases rule: promote_next_cases [OF s1(2), where gc = gc])
        case 1
        then show ?thesis using p b1 by simp
      next
        case promoted: (2 k s2)
        then have "s2 = s'" using p by simp
        then show ?thesis
          using b1 promoted(6,9) by (auto simp: buffers_ok_def shape_update [OF table_okD(1) [OF s1(2)]])
      qed
    qed (use r s1(1) b1 in \<open>simp add: release_and_activate_next_def\<close>)
  qed
  ultimately show ?thesis using reach by (simp add: net_ok_def)
qed

section \<open>Steps that keep the invariant\<close>

abbreviation good1 :: "rt_config \<Rightarrow> graph_cache \<Rightarrow> rt_state \<times> 'b \<Rightarrow> bool" where
  "good1 cfg gc \<equiv> \<lambda>(s, _). net_ok cfg gc s"

lemma good_keeps:
  "net_ok cfg gc s \<Longrightarrow> always (keeps s) m \<Longrightarrow> always (net_ok cfg gc) m"
  "net_ok cfg gc s \<Longrightarrow> always (keeps1 s) m1 \<Longrightarrow> always (good1 cfg gc) m1"
  "net_ok cfg gc s \<Longrightarrow> always_step (keeps1 s) m2 \<Longrightarrow> always_step (good1 cfg gc) m2"
  by (auto simp: always_def always_step_def dest: net_ok_keeps)

lemma always_Some: "always_step P (Some m) \<longleftrightarrow> always P m"
  by (simp add: always_def always_step_def)

lemma dispatch_good:
  "net_ok cfg gc s \<Longrightarrow>
    always (net_ok cfg gc) (rbind (initial_tasks g slots w) (\<lambda>tasks. if tasks \<noteq> [] then dispatch_nodes sv gc tasks s else Inr s))"
  by (rule good_keeps dispatch_keeps always_rules | assumption | rule keeps_refl)+

lemma batch_good:
  "net_ok cfg gc s \<Longrightarrow> always_step (good1 cfg gc) (process_batch_resolution cfg gc sv ci batch (s, act))"
  by (rule good_keeps(3), assumption) (rule batch_keeps, simp)

lemma drain_good:
  "net_ok cfg gc s \<Longrightarrow> always_step (good1 cfg gc) (drain_and_process_batch_queue cfg gc sv ci (s, act))"
  by (rule good_keeps(3), assumption) (rule drain_keeps, simp)

lemma release_and_dispatch_good:
  assumes "gc_network gc \<noteq> None" "net_ok cfg gc s" "i < cfg_slots cfg"
    and "cfg_slot_priority cfg \<Longrightarrow> slot_states s ! i = Active"
  shows "always_step (good1 cfg gc) (release_and_dispatch_next cfg gc sv ci i (s, act))"
proof -
  have rel: "always (good1 cfg gc) (release_and_activate_next cfg gc i s)"
    using release_good [OF assms] by (auto simp: always_def)
  show ?thesis unfolding release_and_dispatch_next_def fst_conv snd_conv
    by (rule batch_good rel dispatch_good always_rules | assumption | (simp; fail))+
qed

section \<open>Completed slots\<close>

text \<open>A claimed slot is the one that was looked at, after what other threads did in between.\<close>

lemma detect_good:
  assumes g: "guarded cfg gc interfere" and ok: "net_ok cfg gc s" and i: "slot < cfg_slots cfg"
  shows "always (\<lambda>(s', claimed). net_ok cfg gc s' \<and> (slot_states s ! slot = Active \<longrightarrow> slot_states s' ! slot = Active))
    (detect_and_claim_slot_completion interfere slot s)"
proof -
  have ok1: "net_ok cfg gc (s\<lparr>resolution_state := c\<rparr>)" for c using net_ok_keeps [OF ok] by simp
  note gd = guardedD [OF g ok1 i]
  have ok2: "net_ok cfg gc ((interfere slot (s\<lparr>resolution_state := c\<rparr>))\<lparr>resolution_state := c'\<rparr>)" for c c'
    by (rule net_ok_keeps [OF guardedD(1) [OF g ok1 [of c] i]]) simp
  show ?thesis unfolding detect_and_claim_slot_completion_def
    by (rule always_rules | assumption | (simp add: ok ok1 ok2 gd(1); fail) | (simp add: gd(1,2) ok2; fail))+
qed

lemma check_slot_good:
  assumes net: "gc_network gc \<noteq> None" and g: "guarded cfg gc interfere" and ok: "net_ok cfg gc s"
    and i: "slot < cfg_slots cfg"
    and act: "cfg_slot_priority cfg \<Longrightarrow> bitmap AND slot_bit slot \<noteq> 0 \<Longrightarrow> slot_states s ! slot = Active"
  shows "always_step (\<lambda>(s', th'). net_ok cfg gc s' \<and> th_cached th' = th_cached th
      \<and> (bitmap AND slot_bit slot = 0 \<longrightarrow> (s', th') = (s, th)))
    (check_slot cfg gc sv ci interfere bitmap slot (s, th))"
proof (cases "bitmap AND slot_bit slot = 0")
  case True
  then show ?thesis using ok by (simp add: check_slot_def always_step_def)
next
  case False
  let ?s1 = "s\<lparr>needs_check := (needs_check s)[slot := False]\<rparr>"
  have ok1: "net_ok cfg gc ?s1" by (rule net_ok_keeps [OF ok]) (simp add: keeps_vectors)
  have active: "cfg_slot_priority cfg \<longrightarrow> slot_states s ! slot = Active" using act False by simp
  let ?A = "\<lambda>s'. net_ok cfg gc s' \<and> (cfg_slot_priority cfg \<longrightarrow> slot_states s' ! slot = Active)"
  let ?P = "\<lambda>(s', th'). net_ok cfg gc s' \<and> th_cached th' = th_cached th"
  have det: "always (\<lambda>(s', _). ?A s') (detect_and_claim_slot_completion interfere slot ?s1)"
    by (rule always_mono(1) [OF detect_good [OF g ok1 i]]) (use active in auto)
  have reset: "always ?A (reset_slot_state gc slot s')" if "?A s'" for s'
    using that reset_keeps [OF keeps_refl [of s'], of gc slot] net_ok_keeps keeps_slot
    unfolding always_def by metis
  have comp: "always (\<lambda>(s', _). ?A s') (process_slot_completion cfg slot s')" if "?A s'" for s'
    using that completion_keeps [OF keeps_refl [of s'], of cfg slot] net_ok_keeps keeps_slot
    unfolding always_def by fastforce
  have rel: "always_step (good1 cfg gc) (release_and_dispatch_next cfg gc sv ci slot (s', act'))" if "?A s'" for s' act'
    using that by (intro release_and_dispatch_good net i) auto
  have restart: "always (net_ok cfg gc) (if b then restart_slot_nonnetwork cfg gc sv slot s' else Inr s')"
    if "net_ok cfg gc s'" for b s'
    using that net by (simp add: restart_slot_nonnetwork_def always_def)
  have "always_step ?P (check_slot cfg gc sv ci interfere bitmap slot (s, th))"
    unfolding check_slot_def Let_def fst_conv snd_conv
    by (rule det reset comp rel restart always_rules | assumption | (simp add: ok ok1; fail))+
  then show ?thesis using False by (auto simp: always_step_def)
qed

definition cached_ok :: "nat \<Rightarrow> thread_state \<Rightarrow> bool" where
  "cached_ok n th \<longleftrightarrow> distinct (th_cached th) \<and> set (th_cached th) \<subseteq> {..< n}"

lemma active_bit:
  "table_ok n s \<Longrightarrow> i < n \<Longrightarrow> active_bitmap s AND slot_bit i \<noteq> 0 \<longleftrightarrow> slot_states s ! i = Active"
  using table_okD(3,5) [of n s] by (simp add: and_slot_bit)

text \<open>Under slot priority at most one slot is active.\<close>

lemma one_active:
  assumes ok: "table_ok n s" and q: "queued s" and i: "i < n" "slot_states s ! i = Active" and j: "j < n" "slot_states s ! j = Active"
  shows "i = j"
proof -
  note t = table_okD [OF ok]
  have "i \<in> snd ` set (running_frames s)" "j \<in> snd ` set (running_frames s)" using i j t(8) by simp_all
  then show ?thesis using q i(2) j(2)
    by (cases "running_frames s") (auto simp: queued_def)
qed

lemma check_loop_good:
  assumes net: "gc_network gc \<noteq> None" and g: "guarded cfg gc interfere"
  shows "net_ok cfg gc s \<Longrightarrow> distinct slots \<Longrightarrow> set slots \<subseteq> {..< cfg_slots cfg} \<Longrightarrow>
    (cfg_slot_priority cfg \<Longrightarrow> \<forall>i \<in> set slots. bitmap AND slot_bit i \<noteq> 0 \<longrightarrow> slot_states s ! i = Active) \<Longrightarrow>
    (cfg_slot_priority cfg \<Longrightarrow> \<forall>i \<in> set slots. \<forall>j \<in> set slots.
       bitmap AND slot_bit i \<noteq> 0 \<longrightarrow> bitmap AND slot_bit j \<noteq> 0 \<longrightarrow> i = j) \<Longrightarrow>
    always_step (\<lambda>(s', th'). net_ok cfg gc s' \<and> th_cached th' = th_cached th)
      (for_each_slot (check_slot cfg gc sv ci interfere bitmap) slots (s, th))"
proof (induction slots arbitrary: s th)
  case Nil
  then show ?case by (simp add: always_step_def)
next
  case (Cons i slots)
  let ?R = "\<lambda>(s', th'). net_ok cfg gc s' \<and> th_cached th' = th_cached th
      \<and> (bitmap AND slot_bit i = 0 \<longrightarrow> (s', th') = (s, th))"
  have one: "always_step ?R (check_slot cfg gc sv ci interfere bitmap i (s, th))"
    using Cons.prems(3,4) by (intro check_slot_good [OF net g Cons.prems(1)]) simp_all
  have rest: "always_step (\<lambda>(s', th'). net_ok cfg gc s' \<and> th_cached th' = th_cached th)
      (for_each_slot (check_slot cfg gc sv ci interfere bitmap) slots (s1, th1))" if r: "?R (s1, th1)" for s1 th1
  proof -
    have act: "slot_states s1 ! j = Active" if "cfg_slot_priority cfg" "j \<in> set slots" "bitmap AND slot_bit j \<noteq> 0" for j
    proof (cases "bitmap AND slot_bit i = 0")
      case True
      then show ?thesis using r Cons.prems(4) that by auto
    next
      case False
      then have "i = j" using Cons.prems(5) that by auto
      then show ?thesis using that(2) Cons.prems(2) by simp
    qed
    have "always_step (\<lambda>(s', th'). net_ok cfg gc s' \<and> th_cached th' = th_cached th1)
        (for_each_slot (check_slot cfg gc sv ci interfere bitmap) slots (s1, th1))"
    proof (rule Cons.IH)
      show "net_ok cfg gc s1" using r by simp
      show "distinct slots" "set slots \<subseteq> {..< cfg_slots cfg}" using Cons.prems(2,3) by simp_all
      show "\<forall>i \<in> set slots. bitmap AND slot_bit i \<noteq> 0 \<longrightarrow> slot_states s1 ! i = Active" if "cfg_slot_priority cfg"
        using act that by blast
      show "\<forall>i \<in> set slots. \<forall>j \<in> set slots. bitmap AND slot_bit i \<noteq> 0 \<longrightarrow> bitmap AND slot_bit j \<noteq> 0 \<longrightarrow> i = j"
        if "cfg_slot_priority cfg"
        using Cons.prems(5) that by simp
    qed
    moreover have "th_cached th1 = th_cached th" using r by simp
    ultimately show ?thesis by simp
  qed
  show ?case unfolding for_each_slot.simps
  proof (rule always_step_struct(3) [OF one])
    fix st1 assume "?R st1"
    then show "always_step (\<lambda>(s', th'). net_ok cfg gc s' \<and> th_cached th' = th_cached th)
        (for_each_slot (check_slot cfg gc sv ci interfere bitmap) slots st1)"
      using rest by (cases st1) blast
  qed
qed

lemma check_slots_good:
  assumes net: "gc_network gc \<noteq> None" and time: "timeout_ns cfg = 0" and g: "guarded cfg gc interfere"
    and ok: "net_ok cfg gc s" and th: "cached_ok (cfg_slots cfg) th"
  shows "always_step (\<lambda>(s', th'). net_ok cfg gc s' \<and> cached_ok (cfg_slots cfg) th')
    (check_slots cfg gc sv ci interfere now (s, th))"
proof -
  note t = net_okD(2) [OF ok]
  define th1 where "th1 = (if th_dirty th \<or> th_cached th = []
      then th\<lparr>th_cached := map snd (running_frames s), th_dirty := False\<rparr> else th)"
  have c: "cached_ok (cfg_slots cfg) th1"
    using th table_okD(7,8) [OF t] by (auto simp: th1_def cached_ok_def)
  let ?b = "if cfg_slot_priority cfg then active_bitmap s else - 1"
  have "always_step (\<lambda>(s', th'). net_ok cfg gc s' \<and> th_cached th' = th_cached (th1\<lparr>th_activity := Map.empty\<rparr>))
      (for_each_slot (check_slot cfg gc sv ci interfere ?b) (th_cached th1) (s, th1\<lparr>th_activity := Map.empty\<rparr>))"
  proof (rule check_loop_good [OF net g ok])
    show "distinct (th_cached th1)" "set (th_cached th1) \<subseteq> {..< cfg_slots cfg}" using c by (simp_all add: cached_ok_def)
    have lt: "i < cfg_slots cfg" if "i \<in> set (th_cached th1)" for i using c that by (auto simp: cached_ok_def)
    show "\<forall>i \<in> set (th_cached th1). ?b AND slot_bit i \<noteq> 0 \<longrightarrow> slot_states s ! i = Active" if p: "cfg_slot_priority cfg"
      using lt active_bit [OF t] by (simp only: p if_True) blast
    show "\<forall>i \<in> set (th_cached th1). \<forall>j \<in> set (th_cached th1).
        ?b AND slot_bit i \<noteq> 0 \<longrightarrow> ?b AND slot_bit j \<noteq> 0 \<longrightarrow> i = j" if p: "cfg_slot_priority cfg"
      using lt active_bit [OF t] one_active [OF t net_okD(6) [OF ok p]] by (simp only: p if_True) blast
  qed
  note loop = this
  have eq: "check_slots cfg gc sv ci interfere now (s, th)
      = for_each_slot (check_slot cfg gc sv ci interfere ?b) (th_cached th1) (s, th1\<lparr>th_activity := Map.empty\<rparr>)"
    using time by (simp add: check_slots_def try_evict_stalled_slots_def th1_def Let_def)
  show ?thesis unfolding eq
    by (rule always_mono(2) [OF loop]) (use c in \<open>simp add: cached_ok_def split: prod.splits\<close>)
qed

section \<open>Packets\<close>

text \<open>Frame numbers are below \<open>2 ^ 32\<close>, the width of the tags in the frame cache.\<close>

definition ids_small :: "graph_cache \<Rightarrow> services \<Rightarrow> bool" where
  "ids_small gc sv \<longleftrightarrow>
     (\<forall>nc f args n. gc_network gc = Some nc \<longrightarrow> nc_id_function nc = Some f \<longrightarrow>
        valid_number_to_usize (sv_plugin sv f args) = Some n \<longrightarrow> unat n < 2 ^ 32)"

lemma running_slot:
  assumes "table_ok n s" "(f, i) \<in> set (running_frames s)"
  shows "i < n" "slot_states s ! i \<noteq> Inactive"
proof -
  have "i \<in> snd ` set (running_frames s)" using assms(2) by force
  then have "i \<in> {i. i < n \<and> slot_states s ! i \<noteq> Inactive}" unfolding table_okD(8) [OF assms(1)] .
  then show "i < n" "slot_states s ! i \<noteq> Inactive" by simp_all
qed

text \<open>A packet joins the buffer of its slot only while that slot is buffering.\<close>

lemma buffer_good:
  assumes ok: "net_ok cfg gc s" and run: "(f, ni_slot ni) \<in> set (running_frames s)"
    and idle: "\<not> slot_active (ni_slot ni) s"
  shows "net_ok cfg gc (s\<lparr>slot_buffers := (slot_buffers s)[ni_slot ni := slot_buffers s ! ni_slot ni @ [(ni, p)]]\<rparr>)"
    (is "net_ok cfg gc ?s'")
proof -
  let ?i = "ni_slot ni"
  note t = net_okD(2) [OF ok] and sh = net_okD(3) [OF ok]
  have i: "?i < cfg_slots cfg" "slot_states s ! ?i \<noteq> Inactive" using running_slot [OF t run] by simp_all
  then have b: "slot_states s ! ?i = Buffering"
    using idle active_bit [OF t i(1)] by (cases "slot_states s ! ?i") (simp_all add: slot_active_def)
  have "slot_table ?s' = slot_table s" "slots_shape (cfg_slots cfg) ?s'"
    using sh by (simp_all add: slot_table_def slots_shape_def)
  then have "slots_reach cfg gc ?s'" using slots_reach.other net_okD(1) [OF ok] by blast
  moreover have "buffers_ok (cfg_slots cfg) ?s'"
    using net_okD(4) [OF ok] b by (auto simp: buffers_ok_def shape_update(2) [OF sh])
  moreover have "parked ?s' \<subseteq> {..< 2 ^ 32}" using net_okD(5) [OF ok] by (simp add: parked_def)
  ultimately show ?thesis by (simp add: net_ok_def)
qed

lemma route_good:
  assumes g: "guarded cfg gc interfere" and ok: "net_ok cfg gc s" and run: "(f, ni_slot ni) \<in> set (running_frames s)"
  shows "always (good1 cfg gc) (route_packet interfere (ni, p) (s, batch))"
proof -
  let ?s1 = "interfere (ni_slot ni) s"
  have i: "ni_slot ni < cfg_slots cfg" using running_slot [OF net_okD(2) [OF ok] run] by simp
  note gd = guardedD [OF g ok i]
  have "net_ok cfg gc (?s1\<lparr>slot_buffers := (slot_buffers ?s1)[ni_slot ni := slot_buffers ?s1 ! ni_slot ni @ [(ni, p)]]\<rparr>)"
    if "\<not> slot_active (ni_slot ni) ?s1"
    using buffer_good [OF gd(1) gd(3) [OF run] that] .
  then show ?thesis
    using ok gd(1) by (auto simp: always_def route_packet_def rbind_eq_Inr Let_def split: if_splits)
qed

lemma assign_packet_good:
  assumes ok: "net_ok cfg gc s" and f: "frame < 2 ^ 32"
  shows "always_step (\<lambda>(s', outcome, _). net_ok cfg gc s'
      \<and> (\<forall>ni. outcome = Assigned ni \<longrightarrow> (frame, ni_slot ni) \<in> set (running_frames s')))
    (assign_packet_to_slot cfg gc sv now frame packet s)"
proof -
  let ?A = "\<lambda>slot s'. net_ok cfg gc s' \<and> (frame, slot) \<in> set (running_frames s')"
  have assign: "always (\<lambda>(s', r). net_ok cfg gc s' \<and> (\<forall>slot b. r = Some (slot, b) \<longrightarrow> (frame, slot) \<in> set (running_frames s')))
      (assign_frame_to_available_slot cfg gc frame s)"
    using assign_good [OF ok f] by (auto simp: always_def)
  have keep: "?A slot s'" if "?A slot s1" "keeps s1 s'" for slot s1 s'
    using that net_ok_keeps keeps_slot by metis
  have disp: "always (?A slot) (if b then rbind (initial_tasks (gc_graph gc) [slot] (cfg_workers cfg)) (\<lambda>tasks.
      if tasks \<noteq> [] then dispatch_nodes sv gc tasks s1 else Inr s1) else Inr s1)" if "?A slot s1" for slot s1 b
    by (rule always_mono(1) [of "keeps s1"])
      (rule dispatch_keeps always_rules keeps_refl | rule keep [OF that], assumption)+
  have idx: "always_step (\<lambda>(s', _). ?A slot s') (packet_index cfg gc sv now packet slot s1)" if "?A slot s1" for slot s1
    using packet_index_keeps [OF keeps_refl [of s1], of cfg gc sv now packet slot] keep [OF that]
    by (auto simp: always_step_def)
  show ?thesis unfolding assign_packet_to_slot_def
    by (rule assign disp idx always_rules | assumption | (simp add: ok node_info_new_def; fail))+
qed

lemma park_good:
  assumes ok: "net_ok cfg gc s" and f: "f < 2 ^ 32"
  shows "net_ok cfg gc (park_pending_packet cfg f p fp s)"
proof -
  note pt = park_table(1,2) [of cfg f p fp s] and pf = park_table(4) [of cfg f p fp s]
  have "slots_reach cfg gc (park_pending_packet cfg f p fp s)"
    using net_okD(1,3) [OF ok] park_table(3) by (intro slots_reach.other [OF _ pt(1)]) simp_all
  moreover have "buffers_ok (cfg_slots cfg) (park_pending_packet cfg f p fp s)"
    using net_okD(4) [OF ok] pt(1,2) by (simp add: buffers_ok_def slot_table_def)
  moreover have "parked (park_pending_packet cfg f p fp s) \<subseteq> {..< 2 ^ 32}"
    using net_okD(5) [OF ok] pf f by auto
  ultimately show ?thesis by (simp add: net_ok_def)
qed

abbreviation good_admit :: "rt_config \<Rightarrow> graph_cache \<Rightarrow> rt_state \<times> bool \<times> packet_batch \<Rightarrow> bool" where
  "good_admit cfg gc \<equiv> \<lambda>(s, _, _). net_ok cfg gc s"

lemma admit_good:
  assumes g: "guarded cfg gc interfere" and f: "frame < 2 ^ 32" and ok: "net_ok cfg gc s"
  shows "always_step (good_admit cfg gc) (admit_packet cfg gc sv interfere now fp frame packet (s, dirty, batch))"
proof -
  have comp: "always (net_ok cfg gc) (check_frame_completion cfg slot fp s2)" if "net_ok cfg gc s2" for slot s2
    using that by (rule good_keeps(1)) (rule frame_completion_keeps, rule keeps_refl)
  show ?thesis unfolding admit_packet_def prod.case
  proof (rule always_step_struct(3) [OF assign_packet_good [OF ok f]], clarify)
    fix s1 outcome newly
    assume 1: "net_ok cfg gc s1" "\<forall>ni. outcome = Assigned ni \<longrightarrow> (frame, ni_slot ni) \<in> set (running_frames s1)"
    show "always_step (good_admit cfg gc) (case outcome of
        Assigned ni \<Rightarrow> sbind (Some (route_packet interfere (ni, Some packet) (s1, batch))) (\<lambda>(s2, batch').
          sbind (Some (check_frame_completion cfg (ni_slot ni) fp s2)) (\<lambda>s3. Some (Inr (s3, dirty \<or> newly, batch'))))
      | NoSlotYet \<Rightarrow> Some (Inr (park_pending_packet cfg frame packet fp s1, dirty, batch))
      | Dropped \<Rightarrow> Some (Inr (s1, dirty, batch)))"
    proof (cases outcome)
      case (Assigned ni)
      have r: "always (good1 cfg gc) (route_packet interfere (ni, Some packet) (s1, batch))"
        using 1 Assigned by (intro route_good [OF g]) simp_all
      show ?thesis unfolding Assigned slot_assignment.case
        by (rule r comp always_rules | assumption | (simp; fail))+
    qed (use 1(1) park_good [OF 1(1) f] in \<open>simp_all add: always_step_def\<close>)
  qed
qed


lemma admit_all_good:
  assumes g: "guarded cfg gc interfere"
  shows "\<forall>(f, p) \<in> set ps. f < 2 ^ 32 \<Longrightarrow> good_admit cfg gc st \<Longrightarrow>
    always_step (good_admit cfg gc) (admit_all cfg gc sv interfere now fp ps st)"
proof (induction ps arbitrary: st)
  case (Cons fp ps)
  obtain f p where fp: "fp = (f, p)" by (cases fp)
  obtain s dirty batch where st: "st = (s, dirty, batch)" by (cases st)
  have one: "always_step (good_admit cfg gc) (admit_packet cfg gc sv interfere now per f p st)" for per
    using Cons.prems unfolding st by (intro admit_good [OF g]) (simp_all add: fp)
  have small: "\<forall>(f, p) \<in> set ps. f < 2 ^ 32" using Cons.prems(1) by simp
  show ?case unfolding fp admit_all.simps
    by (rule always_step_struct(3) [OF one]) (rule Cons.IH [OF small])
qed (simp add: always_step_def)

lemma reinject_good:
  assumes g: "guarded cfg gc interfere" and ok: "net_ok cfg gc s"
  shows "always_step (good_admit cfg gc) (reinject_pending_frames cfg gc sv interfere now fp (s, dirty, batch))"
proof -
  obtain ni ready where r: "take_ready (window_end cfg s) (net s) = (ni, ready)" by force
  have sub: "set ready \<subseteq> set (pending_frames (net s))" "set (pending_frames ni) \<subseteq> set (pending_frames (net s))"
    using r by (auto simp: take_ready_def Let_def dest: set_takeWhileD set_dropWhileD)
  have "f < 2 ^ 32" if "(f, ps) \<in> set ready" for f ps
    using that sub(1) net_okD(5) [OF ok] by (force simp: parked_def)
  then have small: "\<forall>(f, p) \<in> set (concat (map (\<lambda>(f, ps). map (Pair f) ps) ready)). f < 2 ^ 32" by auto
  have "net_ok cfg gc (s\<lparr>net := ni\<rparr>)"
    by (rule net_ok_keeps [OF ok], rule keeps_net) (use sub(2) in \<open>auto simp: parked_def\<close>)
  then have "good_admit cfg gc (s\<lparr>net := ni\<rparr>, dirty, batch)" by simp
  then show ?thesis using admit_all_good [OF g small] r by (simp add: reinject_pending_frames_def)
qed

abbreviation good_poll :: "rt_config \<Rightarrow> graph_cache \<Rightarrow> rt_state \<times> thread_state \<times> packet_batch \<Rightarrow> bool" where
  "good_poll cfg gc \<equiv> \<lambda>(s, th, _). net_ok cfg gc s \<and> cached_ok (cfg_slots cfg) th"

lemma cached_update [simp]:
  "cached_ok n (th\<lparr>th_activity := a\<rparr>) \<longleftrightarrow> cached_ok n th" "cached_ok n (th\<lparr>th_dirty := d\<rparr>) \<longleftrightarrow> cached_ok n th"
  by (simp_all add: cached_ok_def)

lemma flush_good:
  assumes "good_poll cfg gc st"
  shows "always_step (good_poll cfg gc) (flush_into cfg gc sv ci st)"
proof -
  obtain s th batch where st: "st = (s, th, batch)" by (cases st)
  have "always_step (good1 cfg gc) (flush_active_batch cfg gc sv ci batch (s, th_activity th))"
    using assms unfolding st by (intro good_keeps(3)) (auto intro: flush_keeps)
  note f = this
  show ?thesis unfolding flush_into_def st prod.case
    by (rule f always_rules | assumption | (use assms st in simp; fail))+
qed

text \<open>The frame number of a message: what the id function says, less the base.\<close>

lemma id_good:
  assumes ids: "ids_small gc sv" and ok: "net_ok cfg gc s"
  shows "always (\<lambda>(s', raw). net_ok cfg gc s' \<and> (\<forall>r. raw = Some r \<longrightarrow> r < 2 ^ 32)) (process_id_function gc sv packet s)"
  using ids ok net_ok_keeps [OF ok call_keeps [OF keeps_refl]]
  by (auto simp: always_def process_id_function_def call_plugin_def ids_small_def split: option.splits)

lemma process_message_good:
  assumes g: "guarded cfg gc interfere" and ids: "ids_small gc sv" and st: "good_poll cfg gc st"
  shows "always_step (good_poll cfg gc) (process_message cfg gc sv ci interfere now fp extract m st)"
proof -
  obtain s th batch where st': "st = (s, th, batch)" by (cases st)
  have ok: "net_ok cfg gc s" and th: "cached_ok (cfg_slots cfg) th" using st by (simp_all add: st')
  obtain packet s1 where d: "decode_packet sv extract m s = (packet, s1)" by force
  have ok1: "net_ok cfg gc s1"
    using d net_ok_keeps [OF ok call_keeps [OF keeps_refl], of sv "extract" "[CmBytes (pm_bytes m)]"] ok
    by (auto simp: decode_packet_def split: option.splits)
  have base: "net_ok cfg gc (s2\<lparr>net := (net s2)\<lparr>frame_id_base := b\<rparr>\<rparr>)" if "net_ok cfg gc s2" for s2 b
    by (rule net_ok_keeps [OF that], rule keeps_net) (simp_all add: parked_def)
  show ?thesis unfolding process_message_def st' prod.case d Let_def
  proof (rule always_step_struct(3) [OF iffD2 [OF always_Some id_good [OF ids ok1]]], clarify)
    fix s2 and raw :: "nat option" assume 2: "net_ok cfg gc s2" "\<forall>r. raw = Some r \<longrightarrow> r < 2 ^ 32"
    let ?after = "\<lambda>s3 f. if window_end cfg s3 \<le> f then Some (Inr (park_pending_packet cfg f packet fp s3, th, batch))
        else sbind (admit_packet cfg gc sv interfere now fp f packet (s3, th_dirty th, batch)) (\<lambda>(s4, dirty, batch').
          if 0 < cfg_dispatch_chunk cfg \<and> cfg_dispatch_chunk cfg \<le> length batch'
          then flush_into cfg gc sv ci (s4, th\<lparr>th_dirty := dirty\<rparr>, batch')
          else Some (Inr (s4, th\<lparr>th_dirty := dirty\<rparr>, batch')))"
    have after: "always_step (good_poll cfg gc) (?after s3 f)" if "net_ok cfg gc s3" "f < 2 ^ 32" for s3 f
    proof -
      have fl: "always_step (good_poll cfg gc) (flush_into cfg gc sv ci (s4, th\<lparr>th_dirty := d\<rparr>, bt))"
        if "net_ok cfg gc s4" for s4 d bt using that th by (intro flush_good) simp
      show ?thesis
        by (rule admit_good [OF g that(2) that(1)] fl always_rules
          | assumption | (use th park_good [OF that] in simp; fail))+
    qed
    show "always_step (good_poll cfg gc) (case raw of None \<Rightarrow> Some (Inr (s2, th, batch))
        | Some r \<Rightarrow> (case rebase_frame_id (frame_id_base (net s2)) r of (b, frame) \<Rightarrow>
            (case frame of None \<Rightarrow> Some (Inr (s2\<lparr>net := (net s2)\<lparr>frame_id_base := b\<rparr>\<rparr>, th, batch))
             | Some f \<Rightarrow> ?after (s2\<lparr>net := (net s2)\<lparr>frame_id_base := b\<rparr>\<rparr>) f)))"
    proof (cases raw)
      case None
      then show ?thesis using 2 th by (simp add: always_step_def)
    next
      case (Some r)
      obtain b frame where rb: "rebase_frame_id (frame_id_base (net s2)) r = (b, frame)" by force
      show ?thesis
      proof (cases frame)
        case None
        then show ?thesis using Some rb base [OF 2(1)] th by (simp add: always_step_def)
      next
        case (Some f)
        have "f \<le> r" using rb Some by (auto simp: rebase_frame_id_def Let_def split: if_splits)
        then have "f < 2 ^ 32" using 2(2) \<open>raw = Some r\<close> by auto
        then show ?thesis unfolding \<open>raw = Some r\<close> option.case rb prod.case Some
          by (rule after [OF base [OF 2(1)]])
      qed
    qed
  qed
qed

lemma process_messages_good:
  assumes "guarded cfg gc interfere" "ids_small gc sv"
  shows "good_poll cfg gc st \<Longrightarrow>
    always_step (good_poll cfg gc) (process_messages cfg gc sv ci interfere now fp extract ms st)"
proof (induction ms arbitrary: st)
  case (Cons m ms)
  show ?case unfolding process_messages.simps
    by (rule always_step_struct(3) [OF process_message_good [OF assms Cons.prems]]) (rule Cons.IH)
qed (simp add: always_step_def)


lemma poll_good:
  assumes g: "guarded cfg gc interfere" and ids: "ids_small gc sv"
    and ok: "net_ok cfg gc s" and th: "cached_ok (cfg_slots cfg) th"
  shows "always_step (\<lambda>(s', th'). net_ok cfg gc s' \<and> cached_ok (cfg_slots cfg) th')
    (poll_and_process_network_packets cfg gc sv ci interfere now nc msgs (s, th))"
proof -
  define s1 where "s1 = s\<lparr>net := (net s)\<lparr>frame_packets := nc_frame_packets nc\<rparr>\<rparr>"
  have ok1: "net_ok cfg gc s1" unfolding s1_def
    by (rule net_ok_keeps [OF ok], rule keeps_net) (simp_all add: parked_def)
  have fl: "always_step (good_poll cfg gc) (flush_into cfg gc sv ci (s4, th\<lparr>th_dirty := d\<rparr>, bt))"
    if "net_ok cfg gc s4" for s4 d bt using that th by (intro flush_good) simp
  have start: "always_step (good_poll cfg gc)
      (if pending_count (net s1) = 0 then Some (Inr (s1, th, []))
       else sbind (reinject_pending_frames cfg gc sv interfere now (nc_frame_packets nc) (s1, th_dirty th, []))
         (\<lambda>(s2, dirty, batch). if 0 < cfg_dispatch_chunk cfg then flush_into cfg gc sv ci (s2, th\<lparr>th_dirty := dirty\<rparr>, batch)
            else Some (Inr (s2, th\<lparr>th_dirty := dirty\<rparr>, batch))))"
    by (rule reinject_good [OF g ok1] fl always_rules | assumption | (use ok1 th in simp; fail))+
  show ?thesis unfolding poll_and_process_network_packets_def Let_def fst_conv snd_conv s1_def [symmetric]
    by (rule start process_messages_good [OF g ids] flush_good always_rules | assumption | (simp; fail))+
qed

lemma iteration_good:
  assumes net: "gc_network gc \<noteq> None" and time: "timeout_ns cfg = 0" and g: "guarded cfg gc interfere"
    and ids: "ids_small gc sv" and ok: "net_ok cfg gc s" and th: "cached_ok (cfg_slots cfg) th"
  shows "always_step (\<lambda>((s', th'), _). net_ok cfg gc s' \<and> cached_ok (cfg_slots cfg) th')
    (resolution_iteration cfg gc sv ci interfere inp (s, th))"
proof -
  let ?T = "\<lambda>(s', th'). net_ok cfg gc s' \<and> cached_ok (cfg_slots cfg) th'"
  have poll: "always_step ?T (case gc_network gc of None \<Rightarrow> Some (Inr (s, th))
      | Some nc \<Rightarrow> if should_poll gc s
          then poll_and_process_network_packets cfg gc sv ci interfere (in_now inp) nc (in_msgs inp) (s, th)
          else Some (Inr (s, th)))"
    by (rule poll_good [OF g ids ok th] always_rules | (use ok th in simp; fail))+
  have check: "always_step ?T (check_slots cfg gc sv ci interfere now (s1, th1))"
    if "net_ok cfg gc s1" "cached_ok (cfg_slots cfg) th1" for s1 th1 now
    using check_slots_good [OF net time g that] .
  show ?thesis unfolding resolution_iteration_def Let_def fst_conv snd_conv
    by (rule poll drain_good check always_rules | assumption | (use ok th in simp; fail))+
qed

section \<open>Starting and working\<close>

lemma assign_all_good:
  "\<forall>f \<in> set frames. f < 2 ^ 32 \<Longrightarrow> net_ok cfg gc s \<Longrightarrow> always (good1 cfg gc) (assign_all cfg gc frames s)"
proof (induction frames arbitrary: s)
  case (Cons f frames)
  have one: "always (good1 cfg gc) (assign_frame_to_available_slot cfg gc f s)"
    using assign_good(1) [OF Cons.prems(2), of f] Cons.prems(1) by (auto simp: always_def)
  show ?case unfolding assign_all.simps
    by (rule one Cons.IH always_rules | assumption | (use Cons.prems in simp; fail))+
qed (simp add: always_def)

lemma preparation_good:
  assumes ok: "net_ok cfg gc s"
  shows "always (net_ok cfg gc) (perform_initial_preparation cfg gc sv tid s)"
proof -
  have n: "cfg_slots cfg \<le> 64" using table_okD(3) [OF net_okD(2) [OF ok]] .
  have ok1: "net_ok cfg gc (s\<lparr>initial_prep_done := True\<rparr>)" using net_ok_keeps [OF ok] by simp
  have all: "always (good1 cfg gc) (assign_all cfg gc (if cfg_slot_priority cfg then [0] else [0..<cfg_slots cfg])
      (s\<lparr>initial_prep_done := True\<rparr>))"
    using n by (intro assign_all_good [OF _ ok1]) auto
  have disp: "always (net_ok cfg gc) (dispatch_nodes sv gc tasks s')" if "net_ok cfg gc s'" for tasks s'
    using that by (rule good_keeps(1)) (rule dispatch_keeps, rule keeps_refl)
  show ?thesis unfolding perform_initial_preparation_def Let_def
    by (rule all disp always_rules | assumption | (simp add: ok ok1; fail))+
qed

lemma worker_good:
  assumes ok: "net_ok cfg gc s" and w: "run_scheduled cfg gc sv t tpls s = Some (Inr (tpls', s'))"
  shows "net_ok cfg gc s'"
proof (rule net_ok_keeps [OF ok])
  show "keeps s s'" using w unfolding run_scheduled_def by (rule run_node_keeps) simp
qed

section \<open>Whole runs\<close>

definition world_ok :: "rt_config \<Rightarrow> graph_cache \<Rightarrow> world \<Rightarrow> bool" where
  "world_ok cfg gc w \<longleftrightarrow> net_ok cfg gc (w_state w) \<and> (\<forall>th \<in> ran (w_threads w). cached_ok (cfg_slots cfg) th)"

lemma built_buffers:
  assumes "build_runtime cfg0 gc dep_counts si opts = Inr (cfg, s)"
  shows "slot_buffers s = replicate (cfg_slots cfg) []" "parked s = {}"
proof -
  obtain counter results where
    "s = initial_state (initial_net cfg0 (cfg_slots cfg)) (cfg_slots cfg) (build_slot_counters (cfg_slots cfg) (gc_node_cache gc)) counter results"
    using assms by (auto simp: build_runtime_def Let_def split: if_splits option.splits sum.splits)
  then show "slot_buffers s = replicate (cfg_slots cfg) []" "parked s = {}"
    by (simp_all add: initial_state_def initial_net_def parked_def)
qed

lemma ran_update: "ran (m(k := v)) \<subseteq> ran m \<union> set_option v"
  by (auto simp: ran_def split: if_splits)

lemma runs_world_ok:
  assumes net: "gc_network gc \<noteq> None" and time: "timeout_ns cfg = 0" and ids: "ids_small gc sv"
  shows "runs cfg gc sv (guarded cfg gc) w \<Longrightarrow> world_ok cfg gc w"
proof (induction rule: runs.induct)
  case (built cfg0 dep_counts si opts s)
  have "slots_reach cfg gc s" using built by (rule slots_reach.built)
  moreover have "buffers_ok (cfg_slots cfg) s" using built_buffers(1) [OF built] by (simp add: buffers_ok_def)
  ultimately have "net_ok cfg gc s" using built_buffers(2) [OF built] by (simp add: net_ok_def)
  then show ?case by (simp add: world_ok_def world_start_def)
next
  case (started w tid s')
  have "cached_ok (cfg_slots cfg) thread_start" by (simp add: cached_ok_def thread_start_def)
  then show ?case
    using started alwaysD(1) [OF preparation_good started(3)] ran_update [of "w_threads w" tid "Some thread_start"]
    by (auto simp: world_ok_def)
next
  case (iterated w tid th interfere order cond_indexes inp s' th' left)
  have "net_ok cfg gc (w_state w)" "cached_ok (cfg_slots cfg) th"
    using iterated by (auto simp: world_ok_def ran_def)
  from alwaysD(2) [OF iteration_good [OF net time iterated(3) ids this] iterated(7)]
  have "net_ok cfg gc s'" "cached_ok (cfg_slots cfg) th'" by simp_all
  then show ?case
    using iterated ran_update [of "w_threads w" tid "if left then None else Some th'"]
    by (auto simp: world_ok_def split: if_splits)
next
  case (worked w t k tpls s')
  then show ?case using worker_good [of cfg gc "w_state w"] by (simp add: world_ok_def)
qed





end
