(* ===== verification/Eviction.thy ===== *)
theory Eviction
  imports Run_Invariants
begin

text \<open>
  Eviction of stalled frames (\<^verbatim>\<open>try_evict_stalled_slots\<close> of \<^verbatim>\<open>runtime/slot_lifecycle.rs\<close>) and what it
  does to a frame that is still buffering.
\<close>

unbundle bit_operations_syntax

text \<open>The slot a thread evicts, step by step: the frame is marked, the slot reset and its results
  cleared; then it is released.\<close>

lemma evict_prefix:
  assumes st: "stalled cfg now slot s = Inr True" and pc: "vec_at (packet_complete s) slot = Inr False"
    and e: "try_evict_slot cfg gc sv ci now slot (s, th) = Some (Inr (s', th'))"
  obtains s3 act where "keeps s s3"
    "release_and_dispatch_next cfg gc sv ci slot (s3, act) = Some (Inr (s', th_activity th'))"
proof -
  let ?rd = "\<lambda>s3. release_and_dispatch_next cfg gc sv ci slot (s3, (th_activity th)(slot := None))"
  let ?P = "\<lambda>(s', th'). \<exists>s3. keeps s s3 \<and> ?rd s3 = Some (Inr (s', th_activity th'))"
  have self: "always_step (\<lambda>a. ?rd s3 = Some (Inr a)) (?rd s3)" for s3 by (simp add: always_step_def)
  have drop: "keeps s (mark_frame_dropped frame (s\<lparr>packet_complete := (packet_complete s)[slot := True]\<rparr>))" for frame
    by (rule drop_keeps) (simp add: keeps_vectors)
  have clear: "always (keeps s) (rbind (reinit_slot slot (node_results s2)) (\<lambda>m. Inr (s2\<lparr>node_results := m\<rparr>)))"
    if "keeps s s2" for s2 using that by (auto simp: always_def rbind_eq_Inr)
  have "always_step ?P (try_evict_slot cfg gc sv ci now slot (s, th))"
    unfolding try_evict_slot_def Let_def fst_conv snd_conv st pc sbind_simps not_True_eq_False if_False
    by (rule reset_keeps [OF drop] clear self always_rules | assumption | (simp, blast; fail))+
  then show thesis using e that by (auto simp: always_step_def)
qed

text \<open>After the release the rest dispatches tasks and resolves the packets of the promoted slot.\<close>

lemma release_dispatch_keeps:
  assumes "release_and_dispatch_next cfg gc sv ci slot (s, act) = Some (Inr (s', act'))"
  obtains s1 p where "release_and_activate_next cfg gc slot s = Inr (s1, p)" "keeps s1 s'"
proof -
  obtain s1 p where rel: "release_and_activate_next cfg gc slot s = Inr (s1, p)"
    using assms by (auto simp: release_and_dispatch_next_def sbind_Some)
  have disp: "always (keeps s1) (rbind (initial_tasks (gc_graph gc) [k] (cfg_workers cfg)) (\<lambda>tasks.
      if tasks \<noteq> [] then dispatch_nodes sv gc tasks s1 else Inr s1))" for k
    by (rule dispatch_keeps always_rules keeps_refl)+
  have batch: "always_step (keeps1 s1) (process_batch_resolution cfg gc sv ci b (s2, act))" if "keeps s1 s2" for b s2
    using that by (intro batch_keeps) simp
  let ?rest = "case p of None \<Rightarrow> Some (Inr (s1, act))
      | Some (activated, buffered) \<Rightarrow>
          sbind (Some (rbind (initial_tasks (gc_graph gc) [activated] (cfg_workers cfg)) (\<lambda>tasks.
               if tasks \<noteq> [] then dispatch_nodes sv gc tasks s1 else Inr s1))) (\<lambda>s2.
             if buffered \<noteq> [] then process_batch_resolution cfg gc sv ci buffered (s2, act)
             else Some (Inr (s2, act)))"
  have "always_step (keeps1 s1) ?rest"
    by (rule disp batch always_rules | assumption | (simp; fail))+
  moreover have "?rest = Some (Inr (s', act'))"
    using assms unfolding release_and_dispatch_next_def fst_conv snd_conv rel sbind_simps prod.case .
  ultimately have "keeps s1 s'" by (simp add: always_step_def)
  then show thesis using that rel by blast
qed

text \<open>C31: Evicting a frame that is still buffering. A packet of a buffering frame counts towards the
  frame, so a buffering frame whose packets stop arriving is stalled and is evicted. Its slot is
  released, but the packets in its buffer stay there, and the next frame that gets the slot finds
  them; and under slot priority, if another frame is buffering, one is promoted although the active
  frame has not completed, so that two frames run at once.\<close>

theorem evicting_a_buffering_frame:
  assumes ok: "table_ok (cfg_slots cfg) s" and prio: "cfg_slot_priority cfg"
    and slot: "slot < cfg_slots cfg" "slot_states s ! slot = Buffering"
    and stalled: "stalled cfg now slot s = Inr True" "vec_at (packet_complete s) slot = Inr False"
    and evict: "try_evict_slot cfg gc sv ci now slot (s, th) = Some (Inr (s', th'))"
  shows "slot_states s' ! slot = Inactive \<and> slot_buffers s' ! slot = slot_buffers s ! slot
    \<and> (\<forall>i < cfg_slots cfg. slot_states s ! i = Active \<longrightarrow> slot_states s' ! i = Active)
    \<and> (\<forall>i < cfg_slots cfg. i \<noteq> slot \<longrightarrow> slot_states s ! i = Buffering \<longrightarrow>
         (\<exists>j < cfg_slots cfg. slot_states s ! j = Buffering \<and> slot_states s' ! j = Active))"
proof -
  let ?n = "cfg_slots cfg"
  obtain s3 act where k3: "keeps s s3"
    and rd: "release_and_dispatch_next cfg gc sv ci slot (s3, act) = Some (Inr (s', th_activity th'))"
    by (rule evict_prefix [OF stalled evict])
  obtain s4 p where rel: "release_and_activate_next cfg gc slot s3 = Inr (s4, p)" and k4: "keeps s4 s'"
    by (rule release_dispatch_keeps [OF rd])
  have sh: "slots_shape ?n s" by (rule table_okD(1) [OF ok])
  have ok3: "table_ok ?n s3" and eq3: "slot_states s3 = slot_states s" "slot_buffers s3 = slot_buffers s"
    using k3 ok sh table_ok_cong [of s s3] by (simp_all add: keeps_def slot_table_def)
  have "slot_states s3 ! slot \<noteq> Inactive" using slot eq3 by simp
  then obtain s5 where s5: "release_slot slot s3 = Inr s5" "table_ok ?n s5"
    "slot_states s5 = (slot_states s)[slot := Inactive]" "slot_buffers s5 = slot_buffers s"
    using release_slot_ok [OF ok3 slot(1)] eq3 by metis
  have pr: "promote_next gc s5 = Inr (s4, p)" using rel s5(1) prio by (simp add: release_and_activate_next_def)
  note u = shape_update [OF sh]
  have res: "slot_states s' = slot_states s4" "slot_buffers s' = slot_buffers s4"
    using k4 by (simp_all add: keeps_def slot_table_def)
  show ?thesis
  proof (cases rule: promote_next_cases [OF s5(2), where gc = gc])
    case 1
    then have "s4 = s5" using pr by simp
    then show ?thesis using 1(2) slot by (auto simp: res s5(3,4) u)
  next
    case promoted: (2 k s6)
    have "s6 = s4" using pr promoted(1) by simp
    moreover have "k \<noteq> slot" "slot_states s ! k = Buffering"
      using promoted(2,3) slot(1) by (simp_all add: s5(3) u split: if_splits)
    moreover have "slot_states s' ! i = (if i = k then Active else if i = slot then Inactive else slot_states s ! i)"
      "slot_buffers s' ! i = (if i = k then [] else slot_buffers s ! i)" if "i < ?n" for i
      using that promoted(6,9) \<open>s6 = s4\<close> u(1) [of i slot Inactive]
        shape_update(1) [OF table_okD(1) [OF s5(2)], of i k Active] shape_update(2) [OF table_okD(1) [OF s5(2)], of i k "[]"]
      by (simp_all only: res s5(3,4))
    ultimately show ?thesis using promoted(2) slot by auto
  qed
qed
end
