(* ===== verification/Run_Example.thy ===== *)
theory Run_Example
  imports Eviction
begin

text \<open>
  A run with three slots under slot priority: frame 0 is prepared and its root tasks are dispatched;
  a packet of frame 1 then arrives, and waits in the buffer of slot 1.
\<close>

unbundle bit_operations_syntax

section \<open>The graph and the states\<close>

definition stream_nodes :: "node list" where
  "stream_nodes = [make_node 0 2 [], make_node 1 2 []]"

definition stream_gc :: graph_cache where
  "stream_gc = demo_gc\<lparr>gc_graph := graph_new\<lparr>g_nodes := stream_nodes, initial_nodes := [1]\<rparr>,
     gc_node_cache := map network_entry stream_nodes,
     gc_network := Some \<lparr>nc_frame_packets = 2, nc_extract = Some DefaultPointer,
       nc_id_function = Some DefaultPointer, nc_index_function = None\<rparr>\<rparr>"

definition stream_config :: rt_config where
  "stream_config = demo_config\<lparr>cfg_slots := 3, cfg_max_frames := 8, cfg_slot_priority := True\<rparr>"

text \<open>The plugin reads the frame number from the packet, as a 32-bit number.\<close>

fun frame_number :: "cm_types list \<Rightarrow> cm_types" where
  "frame_number [CmUsize w] = CmU32 (ucast w)"
| "frame_number _ = CmBool False"

definition stream_services :: services where
  "stream_services = demo_services\<lparr>sv_plugin := (\<lambda>_. frame_number)\<rparr>"

definition stream_counter :: multi_threaded_counter where
  "stream_counter = (case counter_new 3 [0, 0] stream_nodes of Inr c \<Rightarrow> c | Inl _ \<Rightarrow> \<lparr>node_dep_map = [], completed_slots = 0\<rparr>)"

lemma stream_counter: "counter_new 3 [0, 0] stream_nodes = Inr stream_counter"
  by (simp add: stream_counter_def counter_new_def dep_map_new_def stream_nodes_def make_node_def)

definition stream_start :: rt_state where
  "stream_start = initial_state (initial_net stream_config 3) 3 (build_slot_counters 3 (map network_entry stream_nodes))
     stream_counter (result_map_new stream_nodes 5)"

lemma stream_built:
  "build_runtime stream_config stream_gc [0, 0] \<lparr>si_workers = 2, si_system_threads = 1\<rparr>
     \<lparr>bo_receiver_threads = 1, bo_batch_queue_capacity = 1, bo_reclaim = None\<rparr> = Inr (stream_config, stream_start)"
  by (simp add: build_runtime_def stream_config_def demo_config_def check_receiver_threads_def MAX_SLOTS_def
     stream_gc_def demo_gc_def graph_new_def stream_counter stream_start_def initial_net_def)

definition stream_ready :: rt_state where
  "stream_ready = stream_start\<lparr>initial_prep_done := True, generation := [1, 0, 0], needs_check := [True, False, False],
     frame_id := [0, USIZE_MAX, USIZE_MAX], active_bitmap := slot_bit 0,
     slot_states := [Active, Inactive, Inactive], running_frames := [(0, 0)],
     frame_slot_map := (replicate 8 FRAME_SLOT_EMPTY)[0 := gen_pack (as_u32 0) (as_u32 0)], last_assigned := 0,
     scheduled := map (\<lambda>i. \<lparr>st_node = (node_info_new 1 0 i 0)\<lparr>ni_gen := 1, bulk_count := 1\<rparr>, st_func = DefaultPointer,
       st_priority = PNormal, st_group = 0, st_args = None\<rparr>) [0, 1]\<rparr>"

lemmas stream_simps = stream_start_def initial_state_def stream_config_def demo_config_def stream_gc_def demo_gc_def
  stream_nodes_def stream_services_def demo_services_def graph_new_def

lemma stream_prep: "perform_initial_preparation stream_config stream_gc stream_services 0 stream_start = Inr stream_ready"
proof -
  have np: "next_power_of_two 6 = 8" by code_simp
  have r: "replicate 3 x = [x, x, x]" "replicate 8 x = [x, x, x, x, x, x, x, x]" for x :: 'b
    by (simp_all add: numeral_eq_Suc)
  have a: "assign_frame_to_available_slot stream_config stream_gc 0 (stream_start\<lparr>initial_prep_done := True\<rparr>)
    = Inr (stream_ready\<lparr>scheduled := []\<rparr>, Some (0, True))"
    by (simp add: assign_frame_to_available_slot_def frame_slot_lookup_def frame_cell_def assign_slow_def assign_new_frame_def Let_def vec_at_def mark_active_def vec_modify_def
    register_frame_def frame_slot_publish_def bump_slot_generation_def stream_ready_def stream_simps np r)
  have ch: "chunks 0 2 2 = [(0, 1), (1, 1)]" by code_simp
  have i: "initial_tasks (gc_graph stream_gc) [0] (cfg_workers stream_config) = Inr
    (map (\<lambda>i. (node_info_new 1 0 i 0)\<lparr>bulk_count := 1\<rparr>) [0, 1])"
    by (simp add: initial_tasks_def root_tasks_def stream_simps node_at_def make_node_def chunk_infos_def
      node_info_new_def ch del: One_nat_def)
  have ne: "initial_nodes (gc_graph stream_gc) = [1]" "cfg_slot_priority stream_config"
    by (simp_all add: stream_simps)
  have nd: "\<not> initial_prep_done stream_start" by (simp add: stream_start_def initial_state_def)
  have d: "dispatch_nodes stream_services stream_gc (map (\<lambda>i. (node_info_new 1 0 i 0)\<lparr>bulk_count := 1\<rparr>) [0, 1])
      (stream_ready\<lparr>scheduled := []\<rparr>) = Inr stream_ready"
    by (simp add: dispatch_nodes_def plain_requests_def prepare_task_def vec_at_def stream_ready_def stream_simps
      node_info_new_def make_node_def network_entry_def)
  show ?thesis
    using d by (simp add: perform_initial_preparation_def ne a i Let_def nd del: list.map)
qed

definition stream_waiting :: rt_state where
  "stream_waiting = stream_ready\<lparr>net := (net stream_ready)\<lparr>frame_packets := 2\<rparr>,
     plugin_calls := [Call DefaultPointer [CmUsize 1]], slot_states := [Active, Buffering, Inactive],
     running_frames := [(0, 0), (1, 1)], last_assigned := 1,
     frame_slot_map := (frame_slot_map stream_ready)[1 := gen_pack (as_u32 1) (as_u32 1)], frame_id := [0, 1, USIZE_MAX],
     packet_counters := [0, 1, 0], last_packet_ns := [0, 7, 0],
     slot_buffers := [[], [(node_info_new 0 1 0 0, Some (CmUsize 1))], []]\<rparr>"

lemma stream_admit:
  "admit_packet stream_config stream_gc stream_services (\<lambda>_ s. s) 7 2 1 (CmUsize 1)
     (stream_ready\<lparr>plugin_calls := [Call DefaultPointer [CmUsize 1]], net := (net stream_ready)\<lparr>frame_packets := 2\<rparr>\<rparr>, d, [])
   = Some (Inr (stream_waiting, d, []))"
proof -
  have np: "next_power_of_two 6 = 8" by code_simp
  have r: "replicate 3 x = [x, x, x]" "replicate 8 x = [x, x, x, x, x, x, x, x]" for x :: 'b
    by (simp_all add: numeral_eq_Suc)
  have c: "(1 :: nat) AND 7 = 1" by code_simp
  have o: "(case 1 of 0 \<Rightarrow> y | Suc j \<Rightarrow> h j) = h 0" for y :: 'b and h by simp
  have u: "[1..<3] = [1, 2]" by (simp add: upt_rec)
  let ?s = "stream_ready\<lparr>plugin_calls := [Call DefaultPointer [CmUsize 1]], net := (net stream_ready)\<lparr>frame_packets := 2\<rparr>\<rparr>"
  have a: "assign_frame_to_available_slot stream_config stream_gc 1 ?s
    = Inr (stream_waiting\<lparr>packet_counters := [0, 0, 0], last_packet_ns := [0, 0, 0], slot_buffers := [[], [], []]\<rparr>, Some (1, False))"
    by (simp add: assign_frame_to_available_slot_def frame_slot_lookup_def frame_cell_def assign_slow_def assign_new_frame_def Let_def vec_at_def mark_active_def vec_modify_def
    register_frame_def frame_slot_publish_def bump_slot_generation_def stream_waiting_def stream_ready_def stream_simps np r c u o del: One_nat_def)
  have nd: "\<not> frame_is_dropped 1 (net ?s)"
    by (simp add: frame_is_dropped_def stream_ready_def stream_start_def initial_state_def initial_net_def stream_config_def
      demo_config_def del: One_nat_def)
  have idx: "packet_index stream_config stream_gc stream_services 7 (CmUsize 1) 1
      (stream_waiting\<lparr>packet_counters := [0, 0, 0], last_packet_ns := [0, 0, 0], slot_buffers := [[], [], []]\<rparr>)
    = Some (Inr (stream_waiting\<lparr>slot_buffers := [[], [], []]\<rparr>, 0))"
    by (simp add: packet_index_def count_packet_def stream_waiting_def stream_gc_def vec_at_def vec_modify_def)
  have assign: "assign_packet_to_slot stream_config stream_gc stream_services 7 1 (CmUsize 1) ?s
    = Some (Inr (stream_waiting\<lparr>slot_buffers := [[], [], []]\<rparr>, Assigned (node_info_new 0 1 0 0), False))"
    using nd by (simp add: assign_packet_to_slot_def a idx del: One_nat_def)
  have route: "route_packet (\<lambda>_ s. s) (node_info_new 0 1 0 0, Some (CmUsize 1)) (stream_waiting\<lparr>slot_buffers := [[], [], []]\<rparr>, [])
    = Inr (stream_waiting, [])"
    by (simp add: route_packet_def slot_active_def stream_waiting_def stream_ready_def vec_modify_def node_info_new_def
      and_slot_bit Let_def o del: One_nat_def)
  have comp: "check_frame_completion stream_config (ni_slot (node_info_new 0 1 0 0)) 2 stream_waiting = Inr stream_waiting"
    by (simp add: check_frame_completion_def stream_waiting_def vec_at_def node_info_new_def)
  show ?thesis by (simp add: admit_packet_def assign route comp del: One_nat_def)
qed

lemma stream_poll:
  "poll_and_process_network_packets stream_config stream_gc stream_services [] (\<lambda>_ s. s) 7
     \<lparr>nc_frame_packets = 2, nc_extract = Some DefaultPointer,
       nc_id_function = Some DefaultPointer, nc_index_function = None\<rparr> [\<lparr>pm_bytes = [], pm_decoded = Some (CmUsize 1)\<rparr>] (stream_ready, thread_start)
   = Some (Inr (stream_waiting, thread_start))"
proof -
  let ?s = "stream_ready\<lparr>net := (net stream_ready)\<lparr>frame_packets := 2\<rparr>\<rparr>"
  have nd: "pending_count (net stream_ready) = 0" "frame_id_base (net stream_ready) = 0" "plugin_calls stream_ready = []"
    "frame_complete_counter stream_ready = 0" "receive_finished (net stream_ready) = False"
    "(net stream_ready)\<lparr>frame_packets := 2, frame_id_base := 0\<rparr> = (net stream_ready)\<lparr>frame_packets := 2\<rparr>"
    by (simp_all add: stream_ready_def stream_start_def initial_state_def initial_net_def stream_config_def demo_config_def)
  have cfg: "cfg_slots stream_config = 3" "cfg_dispatch_chunk stream_config = 0"
    by (simp_all add: stream_config_def demo_config_def)
  have id: "process_id_function stream_gc stream_services (CmUsize 1) ?s
    = Inr (?s\<lparr>plugin_calls := [Call DefaultPointer [CmUsize 1]]\<rparr>, Some 1)"
    by (simp add: process_id_function_def stream_gc_def stream_services_def call_plugin_def nd)
  have admit: "admit_packet stream_config stream_gc stream_services (\<lambda>_ s. s) 7 2 (Suc 0) (CmUsize 1)
      (stream_ready\<lparr>plugin_calls := [Call DefaultPointer [CmUsize 1]], net := (net stream_ready)\<lparr>frame_packets := 2\<rparr>\<rparr>, d, [])
    = Some (Inr (stream_waiting, d, []))" for d
    using stream_admit [of d] by simp
  have msg: "process_message stream_config stream_gc stream_services [] (\<lambda>_ s. s) 7 2 DefaultPointer
      \<lparr>pm_bytes = [], pm_decoded = Some (CmUsize 1)\<rparr> (?s, thread_start, []) = Some (Inr (stream_waiting, thread_start, []))"
    by (simp add: process_message_def decode_packet_def id rebase_frame_id_def nd USIZE_MAX_def window_end_def cfg
      admit Let_def)
  have flush: "flush_into stream_config stream_gc stream_services [] (s, th, []) = Some (Inr (s, th, []))" for s th
    by (simp add: flush_into_def flush_active_batch_def)
  show ?thesis
    by (simp add: poll_and_process_network_packets_def nd msg flush Let_def)
qed

lemma stream_iteration:
  "resolution_iteration stream_config stream_gc stream_services [] (\<lambda>_ s. s)
     \<lparr>in_msgs = [\<lparr>pm_bytes = [], pm_decoded = Some (CmUsize 1)\<rparr>], in_now = 7\<rparr> (stream_ready, thread_start)
   = Some (Inr ((stream_waiting\<lparr>needs_check := [False, False, False]\<rparr>, \<lparr>th_activity = Map.empty, th_cached = [0, 1], th_dirty = False\<rparr>), False))"
proof -
  have f: "shutdown_flag stream_ready = False" "shutdown_flag stream_waiting = False" "batch_queue stream_waiting = []"
    "receive_finished (net stream_ready) = False" "frame_complete_counter stream_waiting = 0"
    "needs_check stream_waiting = [True, False, False]" "running_frames stream_waiting = [(0, 0), (1, 1)]"
    "active_bitmap stream_waiting = slot_bit 0"
    by (simp_all add: stream_waiting_def stream_ready_def stream_start_def initial_state_def initial_net_def)
  have cfg: "cfg_max_frames stream_config = 8" "timeout_ns stream_config = 0" "cfg_slot_priority stream_config"
    by (simp_all add: stream_config_def demo_config_def timeout_ns_def)
  have idle: "slot_idle 0 (stream_waiting\<lparr>needs_check := nc\<rparr>) = Inr False" for nc
    by (simp add: slot_idle_def stream_waiting_def stream_ready_def stream_start_def initial_state_def vec_at_def
      build_slot_counters_def pending_total_def stream_nodes_def network_entry_def make_node_def)
  have b: "slot_bit 0 AND slot_bit 0 \<noteq> 0" "slot_bit 0 AND slot_bit 1 = 0"
    using and_slot_bit [of 0 "slot_bit 0"] and_slot_bit [of 1 "slot_bit 0"] by simp_all
  have c1: "check_slot stream_config stream_gc stream_services [] (\<lambda>_ s. s) (slot_bit 0) 0 (stream_waiting, th)
      = Some (Inr (stream_waiting\<lparr>needs_check := [False, False, False]\<rparr>, th))" for th
    using b by (simp add: check_slot_def f vec_at_def detect_and_claim_slot_completion_def idle)
  have c2: "check_slot stream_config stream_gc stream_services [] (\<lambda>_ s. s) (slot_bit 0) 1 st = Some (Inr st)" for st
    using b by (simp add: check_slot_def Let_def del: One_nat_def)
  have ev: "try_evict_stalled_slots stream_config stream_gc stream_services [] 7 st = Some (Inr st)" for st
    by (simp add: try_evict_stalled_slots_def cfg)
  have check: "check_slots stream_config stream_gc stream_services [] (\<lambda>_ s. s) 7 (stream_waiting, thread_start)
      = Some (Inr (stream_waiting\<lparr>needs_check := [False, False, False]\<rparr>,
          \<lparr>th_activity = Map.empty, th_cached = [0, 1], th_dirty = False\<rparr>))"
    by (simp add: check_slots_def thread_start_def f cfg ev c1 c2 Let_def del: One_nat_def)
  have net: "gc_network stream_gc = Some \<lparr>nc_frame_packets = 2, nc_extract = Some DefaultPointer,
       nc_id_function = Some DefaultPointer, nc_index_function = None\<rparr>" by (simp add: stream_gc_def)
  have drain: "drain_and_process_batch_queue stream_config stream_gc stream_services [] (stream_waiting, act)
      = Some (Inr (stream_waiting, act))" for act
    by (simp add: drain_and_process_batch_queue_def f Let_def)
  show ?thesis
    by (simp add: resolution_iteration_def f should_poll_def net stream_poll drain all_frames_completed_def cfg check)
qed

section \<open>The run\<close>

definition stream_world :: world where
  "stream_world = \<lparr>w_state = stream_waiting\<lparr>needs_check := [False, False, False]\<rparr>,
     w_threads = [0 \<mapsto> \<lparr>th_activity = Map.empty, th_cached = [0, 1], th_dirty = False\<rparr>],
     w_started = {0}, w_templates = (\<lambda>_. [])\<rparr>"

lemma frame_number_small: "valid_number_to_usize (frame_number args) = Some n \<Longrightarrow> unat n < 2 ^ 32"
proof (induction args rule: frame_number.induct)
  case (1 w)
  let ?x = "ucast w :: u32"
  have "unat (ucast ?x :: u64) \<le> unat ?x" by (subst unsigned_ucast_eq) (rule take_bit_nat_less_eq_self)
  also have "unat ?x < 2 ^ LENGTH(32)" by (rule unsigned_less)
  finally show ?case using 1 by auto
qed simp_all

lemma stream_hyps: "gc_network stream_gc \<noteq> None" "timeout_ns stream_config = 0" "ids_small stream_gc stream_services"
  using frame_number_small
  by (simp_all add: stream_gc_def stream_config_def demo_config_def timeout_ns_def ids_small_def stream_services_def)

text \<open>No other thread acts in this run.\<close>

lemma quiet_guarded: "guarded cfg gc (\<lambda>_ s. s)"
  by (simp add: guarded_def rely_def)

lemma stream_runs: "runs stream_config stream_gc stream_services (guarded stream_config stream_gc) stream_world"
proof -
  let ?w0 = "world_start stream_start"
  let ?w1 = "?w0\<lparr>w_state := stream_ready, w_threads := (w_threads ?w0)(0 \<mapsto> thread_start), w_started := insert 0 (w_started ?w0)\<rparr>"
  have 0: "runs stream_config stream_gc stream_services (guarded stream_config stream_gc) ?w0"
    by (rule runs.built [OF stream_built])
  have 1: "runs stream_config stream_gc stream_services (guarded stream_config stream_gc) ?w1"
    by (rule runs.started [OF 0]) (simp_all add: world_start_def stream_prep)
  have c: "condition_nodes (gc_graph stream_gc) = {}" by (simp add: stream_gc_def graph_new_def)
  show ?thesis
    using runs.iterated [OF 1, of 0 thread_start "\<lambda>_ s. s" "[]" "[]"] quiet_guarded stream_iteration c
    by (force simp: stream_world_def world_start_def)
qed

lemma stream_final: "slot_states (w_state stream_world) = [Active, Buffering, Inactive]"
  "slot_buffers (w_state stream_world) = [[], [(node_info_new 0 1 0 0, Some (CmUsize 1))], []]"
  "running_frames (w_state stream_world) = [(0, 0), (1, 1)]" "frame_id (w_state stream_world) = [0, 1, USIZE_MAX]"
  "cfg_slots stream_config = 3" "cfg_slot_priority stream_config"
  by (simp_all add: stream_world_def stream_waiting_def stream_config_def)




section \<open>Eviction of the buffering frame\<close>

text \<open>With a timeout of a millisecond the packet of frame 1 alone does not keep its frame.\<close>

definition stream_timeout :: rt_config where
  "stream_timeout = stream_config\<lparr>cfg_frame_timeout_ms := 1\<rparr>"

lemma stream_stalled:
  "stalled stream_timeout 2000000 1 stream_waiting = Inr True"
  "vec_at (packet_complete stream_waiting) 1 = Inr False"
  by (simp_all add: stalled_def stream_waiting_def stream_ready_def stream_start_def initial_state_def vec_at_def
    timeout_ns_def stream_timeout_def saturating_sub_def)

lemma stream_evicted:
  "\<exists>s' th'. try_evict_slot stream_timeout stream_gc stream_services [] 2000000 1 (stream_waiting, thread_start) = Some (Inr (s', th'))"
proof -
  obtain m where m: "reinit_slot 1 (result_map_new stream_nodes 5) = Inr m"
    by (simp add: reinit_slot_def result_map_new_def Let_def case_prod_beta)
  have c: "(1 :: nat) AND 7 = 1" by code_simp
  have r: "replicate 3 x = [x, x, x]" "replicate 8 x = [x, x, x, x, x, x, x, x]" for x :: 'b
    by (simp_all add: numeral_eq_Suc)
  have o: "(case 1 of 0 \<Rightarrow> y | Suc j \<Rightarrow> h j) = h 0" for y :: 'b and h by simp
  show ?thesis
    unfolding try_evict_slot_def Let_def fst_conv snd_conv stream_stalled sbind_simps
    by (simp add: m c r o vec_at_def reset_slot_state_def bump_slot_generation_def mark_frame_dropped_def Let_def vec_modify_def
      release_and_dispatch_next_def release_and_activate_next_def release_slot_def frame_slot_clear_def frame_cell_def promote_next_def
      stream_waiting_def stream_ready_def stream_start_def initial_state_def initial_net_def stream_config_def demo_config_def
      stream_timeout_def build_slot_counters_def del: One_nat_def)
qed


lemma stream_waiting_table: "table_ok 3 stream_waiting"
proof -
  let ?w = "w_state stream_world"
  have t: "table_ok 3 ?w"
    using net_okD(2) runs_world_ok [OF stream_hyps stream_runs] by (force simp: world_ok_def stream_final)
  have eq: "slot_table ?w = slot_table stream_waiting" by (simp add: stream_world_def slot_table_def)
  have "slots_shape 3 stream_waiting"
    using table_okD(1) [OF t] by (simp add: slots_shape_def stream_world_def stream_waiting_def stream_ready_def)
  then show ?thesis using table_ok_cong [OF eq] t by blast
qed

theorem evicting_a_buffering_frame_witness:
  "\<exists>s' th'. try_evict_slot stream_timeout stream_gc stream_services [] 2000000 1 (stream_waiting, thread_start) = Some (Inr (s', th'))
    \<and> slot_states s' ! 1 = Inactive \<and> slot_buffers s' ! 1 = [(node_info_new 0 1 0 0, Some (CmUsize 1))]"
proof -
  obtain s' th' where e: "try_evict_slot stream_timeout stream_gc stream_services [] 2000000 1 (stream_waiting, thread_start) = Some (Inr (s', th'))"
    using stream_evicted by blast
  have c: "cfg_slots stream_timeout = 3" "cfg_slot_priority stream_timeout"
    "table_ok (cfg_slots stream_timeout) stream_waiting" "1 < cfg_slots stream_timeout"
    using stream_waiting_table by (simp_all add: stream_timeout_def stream_config_def)
  have s: "slot_states stream_waiting ! 1 = Buffering" "slot_buffers stream_waiting ! 1 = [(node_info_new 0 1 0 0, Some (CmUsize 1))]"
    by (simp_all add: stream_waiting_def)
  show ?thesis
    using evicting_a_buffering_frame [OF c(3,2,4) s(1) stream_stalled e] e s(2) by auto
qed

end
