(* ===== verification/Inline_Termination.thy ===== *)
theory Inline_Termination
  imports Task_Properties
begin

text \<open>
  The trampoline of a worker (\<^verbatim>\<open>run_node_desc\<close> of \<^verbatim>\<open>runtime/scheduling.rs\<close>) follows inline
  continuations until there is none. On an acyclic graph it comes to an end.
\<close>

text \<open>The tasks that a resolution on the worker makes are instances of successors.\<close>

definition succ_ids :: "succ_edge list \<Rightarrow> node_id set" where
  "succ_ids es = succ_id ` set es"

lemma chunk_infos_id: "t \<in> set (chunk_infos nid slot pred gen cs) \<Longrightarrow> ni_id t = nid"
  by (auto simp: chunk_infos_def node_info_new_def)

lemma push_ready_ids:
  "t \<in> set (push_ready_chunked ready nid slot pred workers coalesce sched) \<Longrightarrow> t \<in> set sched \<or> ni_id t = nid"
  by (auto simp: push_ready_chunked_def node_info_new_def chunk_infos_def Let_def split: if_splits)

lemma worker_edges_ids:
  "worker_edges cfg ni gen es s sched = Inr (s', sched') \<Longrightarrow> t \<in> set sched' \<Longrightarrow>
    t \<in> set sched \<or> ni_id t \<in> succ_ids es"
proof (induction es arbitrary: s sched)
  case (Cons e es)
  obtain c ready where c: "decrement_and_collect_ready (ni_slot ni) (ni_index ni) e (bulk_count ni) gen (resolution_state s) = (c, ready)"
    by force
  show ?case
  proof (cases "se_is_fanout_bulk e \<and> fanout_enabled cfg \<and> ready \<noteq> []")
    case True
    then obtain s2 tasks where f: "fanout_arrive cfg ni gen e (length ready) (s\<lparr>resolution_state := c\<rparr>) = Inr (s2, tasks)"
      "worker_edges cfg ni gen es s2 (sched @ tasks) = Inr (s', sched')"
      using Cons.prems(1) c by (auto simp: rbind_eq_Inr)
    have "ni_id u = succ_id e" if "u \<in> set tasks" for u
      using f(1) that by (auto simp: fanout_arrive_def rbind_eq_Inr Let_def fanout_chunks_def case_prod_beta
        split: if_splits dest: chunk_infos_id)
    then show ?thesis using Cons.IH [OF f(2) Cons.prems(2)] by (auto simp: succ_ids_def)
  next
    case False
    then have "worker_edges cfg ni gen es (s\<lparr>resolution_state := c\<rparr>) (push_ready_chunked ready (succ_id e) (ni_slot ni)
        (ni_index ni) (cfg_workers cfg) (cfg_coalesce_barriers cfg) sched) = Inr (s', sched')"
      using Cons.prems(1) c by (auto split: if_splits)
    from Cons.IH [OF this Cons.prems(2)] show ?thesis by (auto simp: succ_ids_def dest: push_ready_ids)
  qed
qed simp

lemma worker_inline_id:
  assumes "worker_resolve_successors cfg gc sv ni s = Inr (s', Some nxt)"
  shows "\<exists>es. edges_for (gc_arena gc) (ni_id ni) = Inr es \<and> ni_id nxt \<in> succ_ids es"
proof -
  obtain es s2 s3 sched where es: "edges_for (gc_arena gc) (ni_id ni) = Inr es"
    "worker_edges cfg ni (ni_gen ni) es s2 [] = Inr (s3, sched)" "snd (reserve_inline cfg (ni_gen ni) sched) = Some nxt"
    using assms by (auto simp: worker_resolve_successors_def rbind_eq_Inr Let_def case_prod_beta split: if_splits)
  then have "sched \<noteq> []" "ni_id nxt = ni_id (last sched)" by (auto simp: reserve_inline_def split: if_splits)
  then have "ni_id nxt \<in> succ_ids es" using worker_edges_ids [OF es(2), of "last sched"] by simp
  then show ?thesis using es(1) by blast
qed


section \<open>Termination\<close>

text \<open>A worker's position: the function and the task to execute, its arguments, the templates and
  the shared state. One continuation leads to the next position.\<close>

type_synonym position = "func_ref \<times> node_info \<times> cm_types list option \<times> templates \<times> rt_state"

inductive continues :: "rt_config \<Rightarrow> graph_cache \<Rightarrow> services \<Rightarrow> position \<Rightarrow> position \<Rightarrow> bool" for cfg gc sv where
  "execute_task cfg gc sv func ni args tpls s = Some (Inr (tpls', s', Some ni')) \<Longrightarrow>
   vec_at (gc_node_cache gc) (ni_id ni') = Inr entry \<Longrightarrow>
   continues cfg gc sv (func, ni, args, tpls, s) (ce_func_ptr entry, ni', None, tpls', s')"

fun waits :: "rt_config \<Rightarrow> graph_cache \<Rightarrow> services \<Rightarrow> position \<Rightarrow> bool" where
  "waits cfg gc sv (func, ni, args, tpls, s) \<longleftrightarrow> execute_task cfg gc sv func ni args tpls s = None"

lemma execute_inline_id:
  assumes "execute_task cfg gc sv func ni args tpls s = Some (Inr (tpls', s', Some nxt))"
  shows "\<exists>es. edges_for (gc_arena gc) (ni_id ni) = Inr es \<and> ni_id nxt \<in> succ_ids es"
proof (cases "1 < bulk_count ni")
  case True
  then obtain s1 where "execute_bulk_task cfg gc sv func ni s = Some (Inr (s1, Some nxt))"
    using assms by (auto simp: execute_task_def sbind_Some split: if_splits)
  then show ?thesis
    by (auto simp: execute_bulk_task_def sbind_Some Let_def split: if_splits option.splits dest: worker_inline_id)
next
  case False
  then obtain t1 s1 where "execute_single_task cfg gc sv func ni args tpls s = Some (Inr (t1, s1, Some nxt))"
    using assms by (auto simp: execute_task_def sbind_Some split: if_splits)
  then obtain r s2 s3 where "complete_single cfg gc sv ni r s2 = Inr (s3, Some nxt)"
    by (auto simp: execute_single_task_def sbind_Some Let_def case_prod_beta split: if_splits option.splits)
  then show ?thesis
    by (auto simp: complete_single_def rbind_eq_Inr split: if_splits dest: worker_inline_id)
qed

text \<open>If the edges of the arena lead from higher to lower ranks, as they do in an acyclic graph, then a
  worker that starts at any task comes to the end of its chain of continuations, unless a task of
  the chain itself waits for a result.\<close>

lemma chain_of_one:
  assumes "execute_task cfg gc sv func ni args tpls s = Some (Inr (tpls', s', None))"
  shows "run_node cfg gc sv func ni args tpls s = Some (Inr (tpls', s'))"
  using assms by (subst run_node.simps) simp

lemma chain_panics:
  assumes "execute_task cfg gc sv func ni args tpls s = Some (Inl e)"
  shows "run_node cfg gc sv func ni args tpls s = Some (Inl e)"
  using assms by (subst run_node.simps) simp

definition chain_ends :: "rt_config \<Rightarrow> graph_cache \<Rightarrow> services \<Rightarrow> position \<Rightarrow> bool" where
  "chain_ends cfg gc sv here \<longleftrightarrow>
     (case here of (func, ni, args, tpls, s) \<Rightarrow> \<exists>r. run_node cfg gc sv func ni args tpls s = Some r)
     \<or> (\<exists>p. (continues cfg gc sv)\<^sup>*\<^sup>* here p \<and> waits cfg gc sv p)"

lemma chain_goes_on:
  assumes x: "execute_task cfg gc sv func ni args tpls s = Some (Inr (tpls', s', Some ni'))"
    and IH: "\<And>entry. vec_at (gc_node_cache gc) (ni_id ni') = Inr entry \<Longrightarrow>
      chain_ends cfg gc sv (ce_func_ptr entry, ni', None, tpls', s')"
  shows "chain_ends cfg gc sv (func, ni, args, tpls, s)"
proof (cases "vec_at (gc_node_cache gc) (ni_id ni')")
  case (Inl e)
  then show ?thesis using x by (simp add: chain_ends_def) (subst run_node.simps, simp)
next
  case entry: (Inr entry)
  have eq: "run_node cfg gc sv func ni args tpls s = run_node cfg gc sv (ce_func_ptr entry) ni' None tpls' s'"
    using x entry by (subst run_node.simps) (simp add: vec_at_def)
  have go: "continues cfg gc sv (func, ni, args, tpls, s) (ce_func_ptr entry, ni', None, tpls', s')"
    using x entry by (rule continues.intros)
  from IH [OF entry] consider r where "run_node cfg gc sv (ce_func_ptr entry) ni' None tpls' s' = Some r"
    | p where "(continues cfg gc sv)\<^sup>*\<^sup>* (ce_func_ptr entry, ni', None, tpls', s') p" "waits cfg gc sv p"
    unfolding chain_ends_def by auto
  then show ?thesis
  proof cases
    case 1
    then show ?thesis using eq by (simp add: chain_ends_def)
  next
    case 2
    then show ?thesis
      using converse_rtranclp_into_rtranclp [of "continues cfg gc sv", OF go] unfolding chain_ends_def by blast
  qed
qed

lemma inline_continuation_terminates:
  assumes acyclic: "\<And>i es e. edges_for (gc_arena gc) i = Inr es \<Longrightarrow> e \<in> set es \<Longrightarrow> (rank (succ_id e) :: nat) < rank i"
  shows "chain_ends cfg gc sv (func, ni, args, tpls, s)"
proof (induction "rank (ni_id ni)" arbitrary: func ni args tpls s rule: less_induct)
  case less
  show ?case
  proof (cases "execute_task cfg gc sv func ni args tpls s")
    case None
    then have "waits cfg gc sv (func, ni, args, tpls, s)" by simp
    then show ?thesis unfolding chain_ends_def by blast
  next
    case x: (Some x)
    consider e where "x = Inl e" | tpls' s' where "x = Inr (tpls', s', None)"
      | tpls' s' ni' where "x = Inr (tpls', s', Some ni')" by (metis old.sum.exhaust option.exhaust prod_cases3)
    then show ?thesis
    proof cases
      case 1
      then show ?thesis using chain_panics x by (auto simp: chain_ends_def)
    next
      case 2
      then show ?thesis using chain_of_one x by (auto simp: chain_ends_def)
    next
      case 3
      note step = x [unfolded 3]
      have "rank (ni_id ni') < rank (ni_id ni)"
        using execute_inline_id [OF step] acyclic by (auto simp: succ_ids_def)
      then show ?thesis by (intro chain_goes_on [OF step] less.hyps)
    qed
  qed
qed

section \<open>An example\<close>

definition inline_config :: rt_config where
  "inline_config = demo_config\<lparr>cfg_inline_continuation := True\<rparr>"

lemma demo_entry:
  "vec_at demo_cache i = Inr entry \<Longrightarrow> ce_arg_cache entry = arg_cache_default \<and> ce_bulk_func entry = None \<and> \<not> ce_template_stable entry"
  by (auto simp: demo_cache_def two_stage_def network_entry_def nth_Cons' split: if_splits)

lemma returns_struct:
  "Some r \<noteq> None"
  "m \<noteq> None \<Longrightarrow> (\<And>a. m = Some (Inr a) \<Longrightarrow> f a \<noteq> None) \<Longrightarrow> sbind m f \<noteq> None"
  "(b \<Longrightarrow> x \<noteq> None) \<Longrightarrow> (\<not> b \<Longrightarrow> y \<noteq> None) \<Longrightarrow> (if b then x else y) \<noteq> None"
  "(\<And>c d. p = (c, d) \<Longrightarrow> g c d \<noteq> None) \<Longrightarrow> (case p of (c, d) \<Rightarrow> g c d) \<noteq> None"
  "(z = None \<Longrightarrow> x \<noteq> None) \<Longrightarrow> (\<And>w. z = Some w \<Longrightarrow> h w \<noteq> None) \<Longrightarrow> (case z of None \<Rightarrow> x | Some w \<Rightarrow> h w) \<noteq> None"
  "k v \<noteq> None \<Longrightarrow> (let u = v in k u) \<noteq> None"
  by (auto simp: sbind_def split: option.splits sum.splits prod.splits)

lemma bulk_cells_returns:
  "\<not> has_dynamic (ce_arg_cache entry) \<Longrightarrow> bulk_cells cfg gc sv func entry ni is buf s \<noteq> None"
proof (induction "is" arbitrary: buf s)
  case (Cons i "is")
  show ?case unfolding bulk_cells.simps
    by (rule Cons.IH returns_struct | (simp add: Cons.prems; fail))+
qed simp

lemma default_args:
  "at_once (populate_cached_args_into cfg tbl rd arg_cache_default i j []) = Some (Inr ([], False))"
  by (simp add: populate_cached_args_into_def arg_cache_default_def tret_def at_once_def)

lemma demo_no_wait: "\<not> waits inline_config demo_gc demo_services p"
proof -
  obtain func ni args tpls s where p: "p = (func, ni, args, tpls, s)" by (cases p)
  have dyn: "\<not> has_dynamic arg_cache_default" by (simp add: has_dynamic_def arg_cache_default_def)
  have gc: "gc_node_cache demo_gc = demo_cache" by (simp add: demo_gc_def)
  have entry: "ce_arg_cache e = arg_cache_default" "\<not> ce_template_stable e"
    if "Some (vec_at demo_cache (ni_id ni)) = Some (Inr e)" for e
    using that demo_entry [of "ni_id ni" e] by (simp_all del: vec_at_Inr)
  have cells: "bulk_cells inline_config demo_gc demo_services func e ni is buf s \<noteq> None"
    if "Some (vec_at demo_cache (ni_id ni)) = Some (Inr e)" for e "is" buf s
    using entry(1) [OF that] dyn by (intro bulk_cells_returns) simp
  have bulk: "execute_bulk_task inline_config demo_gc demo_services func ni s \<noteq> None"
    unfolding execute_bulk_task_def gc by (rule cells returns_struct | assumption)+
  have args: "single_args inline_config demo_gc e ni tpls s \<noteq> None"
    if "Some (vec_at demo_cache (ni_id ni)) = Some (Inr e)" for e
    using entry [OF that] by (simp add: single_args_def default_args)
  have single: "execute_single_task inline_config demo_gc demo_services func ni args tpls s \<noteq> None"
    unfolding execute_single_task_def gc by (rule args returns_struct | assumption)+
  have "execute_task inline_config demo_gc demo_services func ni args tpls s \<noteq> None"
    unfolding execute_task_def by (rule bulk single returns_struct)+
  then show ?thesis by (simp add: p)
qed

lemma demo_acyclic:
  "edges_for (gc_arena demo_gc) i = Inr es \<Longrightarrow> e \<in> set es \<Longrightarrow> 2 - succ_id e < 2 - (i :: nat)"
  by (auto simp: edges_for_def demo_gc_def demo_edge_def split: if_splits)

lemma demo_chain_returns:
  "\<exists>r. run_node inline_config demo_gc demo_services DefaultPointer (node_info_new 0 0 0 0) None [] demo_state = Some r"
  using inline_continuation_terminates [where gc = demo_gc and rank = "\<lambda>i. 2 - i" and cfg = inline_config
      and sv = demo_services and func = DefaultPointer and ni = "node_info_new 0 0 0 0" and args = None
      and tpls = "[]" and s = demo_state] demo_acyclic demo_no_wait
  unfolding chain_ends_def by blast

end
