(* ===== verification/Config_Parse.thy ===== *)
theory Config_Parse
  imports Text_Parse Cm_Types
begin

text \<open>
  Literal values of a graph file: \<^verbatim>\<open>string_to_cmtype\<close> of \<^verbatim>\<open>tomii-types/src/lib.rs\<close> with its
  table of parsers. The integer and float parsers are those of Rust's standard library
  (\<^verbatim>\<open>str::parse\<close>); a float is read as the bit pattern nearest to the decimal, ties to even.
  The JSON form of a complex number is read by \<^verbatim>\<open>serde_json\<close>, an argument here.
\<close>

section \<open>Integers\<close>

definition is_digit :: "char \<Rightarrow> bool" where
  "is_digit c = (digit_val c \<noteq> None)"

definition digits_nat :: "string \<Rightarrow> nat" where
  "digits_nat ds = foldl (\<lambda>a c. a * 10 + unwrap_or (digit_val c) 0) 0 ds"

text \<open>A minus sign is accepted by the signed types only, a plus sign by all.\<close>

definition strip_sign :: "bool \<Rightarrow> string \<Rightarrow> bool \<times> string" where
  "strip_sign neg_ok s =
     (case s of
        c # cs \<Rightarrow> if c = CHR ''+'' then (False, cs)
                  else if neg_ok \<and> c = CHR ''-'' then (True, cs) else (False, s)
      | [] \<Rightarrow> (False, []))"

definition parse_integer :: "bool \<Rightarrow> nat \<Rightarrow> string \<Rightarrow> int option" where
  "parse_integer neg_ok w s =
     (let (neg, ds) = strip_sign neg_ok s
      in if ds = [] \<or> \<not> list_all is_digit ds then None
         else
           let v = (if neg then - int (digits_nat ds) else int (digits_nat ds));
               lo = (if neg_ok then - (2 ^ (w - 1)) else 0);
               hi = (if neg_ok then 2 ^ (w - 1) else 2 ^ w)
           in if lo \<le> v \<and> v < hi then Some v else None)"

definition parse_word :: "bool \<Rightarrow> string \<Rightarrow> 'w::len word option" where
  "parse_word neg_ok s = map_option word_of_int (parse_integer neg_ok LENGTH('w) s)"

definition parse_isize :: "string \<Rightarrow> int option" where
  "parse_isize s = parse_integer True 64 s"

section \<open>Floats\<close>

text \<open>The grammar of \<^verbatim>\<open>f64::from_str\<close>: a sign, then \<^verbatim>\<open>inf\<close>, \<^verbatim>\<open>infinity\<close>, \<^verbatim>\<open>nan\<close> in any case,
  or digits with an optional point and an optional exponent, at least one digit in all.\<close>

definition parse_exponent :: "string \<Rightarrow> int option" where
  "parse_exponent s =
     (case s of
        [] \<Rightarrow> Some 0
      | c # cs \<Rightarrow>
          if c = CHR ''e'' \<or> c = CHR ''E'' then
            (let (neg, ds) = strip_sign True cs
             in if ds = [] \<or> \<not> list_all is_digit ds then None
                else Some (if neg then - int (digits_nat ds) else int (digits_nat ds)))
          else None)"

definition parse_decimal :: "string \<Rightarrow> (nat \<times> int) option" where
  "parse_decimal s =
     (let ip = takeWhile is_digit s;
          rest = dropWhile is_digit s;
          (fp, rest') = (case rest of
             c # cs \<Rightarrow> if c = CHR ''.'' then (takeWhile is_digit cs, dropWhile is_digit cs) else ([], rest)
           | [] \<Rightarrow> ([], []))
      in if ip @ fp = [] then None
         else map_option (\<lambda>e. (digits_nat (ip @ fp), e - int (length fp))) (parse_exponent rest'))"

fun floor_log2 :: "nat \<Rightarrow> nat" where
  "floor_log2 n = (if n < 2 then 0 else Suc (floor_log2 (n div 2)))"

declare floor_log2.simps [simp del]

definition shift_ratio :: "int \<Rightarrow> nat \<Rightarrow> nat \<Rightarrow> nat \<times> nat" where
  "shift_ratio k n d = (if 0 \<le> k then (n, d * 2 ^ nat k) else (n * 2 ^ nat (- k), d))"

text \<open>The magnitude bits of \<open>n / d\<close> with \<open>prec\<close> bits of precision: the significand, rounded to
  nearest even, added to the exponent field, so that a carry out of it and the overflow to
  infinity come out by themselves.\<close>

definition round_half_even :: "nat \<Rightarrow> nat \<Rightarrow> nat" where
  "round_half_even n d =
     (let q = n div d; r = n mod d
      in if d < 2 * r \<or> (2 * r = d \<and> odd q) then q + 1 else q)"

definition float_bits :: "nat \<Rightarrow> int \<Rightarrow> nat \<Rightarrow> nat \<Rightarrow> nat" where
  "float_bits prec bias n d =
     (if n = 0 then 0
      else
        let k = int (floor_log2 n) - int (floor_log2 d);
            (n1, d1) = shift_ratio k n d;
            e = max (if d1 \<le> n1 then k else k - 1) (1 - bias);
            (n2, d2) = shift_ratio (e - (int prec - 1)) n d;
            bits = nat (e + bias - 1) * 2 ^ (prec - 1) + round_half_even n2 d2;
            infinity = nat (2 * bias + 1) * 2 ^ (prec - 1)
        in min bits infinity)"

definition to_lowercase :: "string \<Rightarrow> string" where
  "to_lowercase = map (\<lambda>c. let n = of_char c :: nat in if 65 \<le> n \<and> n \<le> 90 then char_of (n + 32) else c)"

definition parse_float :: "nat \<Rightarrow> int \<Rightarrow> string \<Rightarrow> (bool \<times> nat) option" where
  "parse_float prec bias s =
     (let (neg, body) = strip_sign True s;
          infinity = nat (2 * bias + 1) * 2 ^ (prec - 1)
      in if to_lowercase body \<in> {''inf'', ''infinity''} then Some (neg, infinity)
         else if to_lowercase body = ''nan'' then Some (neg, infinity + 2 ^ (prec - 2))
         else map_option (\<lambda>(m, e). (neg, if 0 \<le> e then float_bits prec bias (m * 10 ^ nat e) 1
                                          else float_bits prec bias m (10 ^ nat (- e))))
                (parse_decimal body))"

definition parse_f32 :: "string \<Rightarrow> 32 word option" where
  "parse_f32 s = map_option (\<lambda>(neg, b). word_of_nat (if neg then 2 ^ 31 + b else b)) (parse_float 24 127 s)"

definition parse_f64 :: "string \<Rightarrow> 64 word option" where
  "parse_f64 s = map_option (\<lambda>(neg, b). word_of_nat (if neg then 2 ^ 63 + b else b)) (parse_float 53 1023 s)"

section \<open>Complex numbers\<close>

datatype literal_error =
    InvalidLiteral string string
  | InvalidVecFormat string
  | UnknownElement string
  | UnknownType string string

record json_complex =
  json_c32 :: "string \<Rightarrow> (32 word \<times> 32 word) option"
  json_c64 :: "string \<Rightarrow> (64 word \<times> 64 word) option"

fun find_char :: "char \<Rightarrow> string \<Rightarrow> nat option" where
  "find_char c [] = None"
| "find_char c (x # xs) = (if x = c then Some 0 else map_option Suc (find_char c xs))"

definition strip_suffix :: "string \<Rightarrow> string \<Rightarrow> string option" where
  "strip_suffix suf s =
     (if length suf \<le> length s \<and> drop (length s - length suf) s = suf
      then Some (take (length s - length suf) s) else None)"

definition strip_prefix :: "string \<Rightarrow> string \<Rightarrow> string option" where
  "strip_prefix p s = (if take (length p) s = p then Some (drop (length p) s) else None)"

text \<open>The position of the last sign after the first character.\<close>

definition last_sign :: "string \<Rightarrow> nat option" where
  "last_sign s =
     foldl (\<lambda>found i. if s ! i = CHR ''+'' \<or> s ! i = CHR ''-'' then Some i else found) None [1..<length s]"

definition both :: "'a option \<Rightarrow> 'a option \<Rightarrow> ('a \<times> 'a) option" where
  "both x y = (case (x, y) of (Some a, Some b) \<Rightarrow> Some (a, b) | _ \<Rightarrow> None)"

definition parse_standard :: "(string \<Rightarrow> 'f option) \<Rightarrow> string \<Rightarrow> ('f \<times> 'f) option" where
  "parse_standard pf s =
     (case strip_suffix ''i'' s of
        None \<Rightarrow> None
      | Some b \<Rightarrow>
          (case last_sign b of
             Some pos \<Rightarrow> both (pf (trim (take pos b))) (pf (trim (drop pos b)))
           | None \<Rightarrow> None))"

definition parse_complex32 :: "json_complex \<Rightarrow> string \<Rightarrow> (32 word \<times> 32 word) option" where
  "parse_complex32 jc raw =
     (let s = trim raw
      in if take 1 s = ''{'' then json_c32 jc s
         else case find_char (CHR '','') s of
           Some pos \<Rightarrow> both (parse_f32 (trim (take pos s))) (parse_f32 (trim (drop (pos + 1) s)))
         | None \<Rightarrow> parse_standard parse_f32 s)"

definition parse_complex64 :: "json_complex \<Rightarrow> string \<Rightarrow> (64 word \<times> 64 word) option" where
  "parse_complex64 jc raw =
     (let s = trim raw
      in if take 1 s = ''{'' then json_c64 jc s else parse_standard parse_f64 s)"

section \<open>The table of parsers\<close>

definition parse_bool :: "string \<Rightarrow> bool option" where
  "parse_bool s = (if s = ''true'' then Some True else if s = ''false'' then Some False else None)"

definition parse_char :: "string \<Rightarrow> 32 word option" where
  "parse_char s = (case s of c # _ \<Rightarrow> Some (word_of_nat (of_char c)) | [] \<Rightarrow> None)"

definition PARSERS :: "json_complex \<Rightarrow> (string \<times> (string \<Rightarrow> cm_types option)) list" where
  "PARSERS jc =
     [(''bool'', \<lambda>s. map_option CmBool (parse_bool s)),
      (''i8'', \<lambda>s. map_option CmI8 (parse_word True s)),
      (''i16'', \<lambda>s. map_option CmI16 (parse_word True s)),
      (''i32'', \<lambda>s. map_option CmI32 (parse_word True s)),
      (''i64'', \<lambda>s. map_option CmI64 (parse_word True s)),
      (''i128'', \<lambda>s. map_option CmI128 (parse_word True s)),
      (''u8'', \<lambda>s. map_option CmU8 (parse_word False s)),
      (''u16'', \<lambda>s. map_option CmU16 (parse_word False s)),
      (''u32'', \<lambda>s. map_option CmU32 (parse_word False s)),
      (''u64'', \<lambda>s. map_option CmU64 (parse_word False s)),
      (''u128'', \<lambda>s. map_option CmU128 (parse_word False s)),
      (''f32'', \<lambda>s. map_option CmF32 (parse_f32 s)),
      (''f64'', \<lambda>s. map_option CmF64 (parse_f64 s)),
      (''char'', \<lambda>s. map_option CmChar (parse_char s)),
      (''usize'', \<lambda>s. map_option CmUsize (parse_word False s)),
      (''isize'', \<lambda>s. map_option CmIsize (parse_word True s)),
      (''String'', \<lambda>s. Some (CmString s)),
      (''Complex32'', \<lambda>s. map_option CmComplex32 (parse_complex32 jc s)),
      (''Complex64'', \<lambda>s. map_option CmComplex64 (parse_complex64 jc s)),
      (''$ref'', \<lambda>s. map_option CmRef (parse_usize s)),
      (''$res'', \<lambda>s. map_option CmRes (parse_usize s)),
      (''$dep'', \<lambda>s. map_option CmDep (parse_usize s)),
      (''$factor'', \<lambda>s. Some (CmRef 0)),
      (''$worker'', \<lambda>s. Some (CmRef 1)),
      (''$barrier'', \<lambda>s. Some (CmBarrier s)),
      (''None'', \<lambda>s. Some CmNone),
      (''Init'', \<lambda>s. Some CmInit)]"

definition defined_type :: "json_complex \<Rightarrow> string \<Rightarrow> bool" where
  "defined_type jc tp = (map_of (PARSERS jc) tp \<noteq> None)"

definition parse_scalar :: "json_complex \<Rightarrow> string \<Rightarrow> (string \<Rightarrow> literal_error + cm_types) option" where
  "parse_scalar jc tp =
     map_option (\<lambda>p s. case p s of Some v \<Rightarrow> Inr v | None \<Rightarrow> Inl (InvalidLiteral tp s))
       (map_of (PARSERS jc) tp)"

definition string_to_cmtype :: "json_complex \<Rightarrow> string \<Rightarrow> string \<Rightarrow> literal_error + cm_types" where
  "string_to_cmtype jc tp arg_s =
     (case parse_scalar jc tp of
        Some p \<Rightarrow> p arg_s
      | None \<Rightarrow>
          if take 3 tp = ''Vec'' then
            (case Option.bind (strip_prefix ''Vec<'' tp) (strip_suffix ''>'') of
               None \<Rightarrow> Inl (InvalidVecFormat tp)
             | Some el \<Rightarrow>
                 rbind (rmap (\<lambda>v. case parse_scalar jc el of
                           Some p \<Rightarrow> p (trim v) | None \<Rightarrow> Inl (UnknownElement el))
                         (split_on (CHR '','') arg_s)) (\<lambda>vs. Inr (CmVecCmt vs)))
          else Inl (UnknownType tp arg_s))"

section \<open>Numbers read back\<close>

definition show_int :: "int \<Rightarrow> string" where
  "show_int i = (if i < 0 then CHR ''-'' # show_nat (nat (- i)) else show_nat (nat i))"

lemma is_digit_show: "list_all is_digit (show_nat n)"
proof -
  have "is_digit c" if c: "c \<in> set (show_nat n)" for c
  proof -
    obtain d where "d < 10" "c = digit_char d" using show_nat_digit [OF c] by (auto simp: is_digit_char_def)
    then show ?thesis by (simp add: is_digit_def)
  qed
  then show ?thesis by (simp add: list_all_iff)
qed

lemma digits_nat_snoc: "digits_nat (s @ [c]) = digits_nat s * 10 + unwrap_or (digit_val c) 0"
  by (simp add: digits_nat_def)

lemma digits_nat_show [simp]: "digits_nat (show_nat n) = n"
proof (induction n rule: show_nat.induct)
  case (1 n)
  show ?case
  proof (cases "n < 10")
    case True
    then show ?thesis by (subst show_nat.simps) (simp add: digits_nat_def)
  next
    case False
    then show ?thesis using 1 by (subst show_nat.simps) (simp add: digits_nat_snoc)
  qed
qed

lemma strip_sign_show [simp]: "strip_sign b (show_nat n) = (False, show_nat n)"
  using show_nat_chars(1,2) [of n] by (cases "show_nat n") (auto simp: strip_sign_def)

lemma strip_sign_show_int: "strip_sign True (show_int i) = (i < 0, show_nat (nat \<bar>i\<bar>))"
  by (simp add: show_int_def) (simp add: strip_sign_def)

lemma parse_integer_show:
  "parse_integer True w (show_int i) = (if - (2 ^ (w - 1)) \<le> i \<and> i < 2 ^ (w - 1) then Some i else None)"
  by (simp add: parse_integer_def strip_sign_show_int is_digit_show Let_def)

lemma parse_integer_unsigned:
  "parse_integer False w (show_nat n) = (if n < 2 ^ w then Some (int n) else None)"
  by (simp add: parse_integer_def is_digit_show Let_def)

lemma parse_isize_show:
  "parse_isize (show_int i) = (if - (2 ^ 63) \<le> i \<and> i < 2 ^ 63 then Some i else None)"
  by (simp add: parse_isize_def parse_integer_show)

lemma parse_isize_nat: "n < 2 ^ 63 \<Longrightarrow> parse_isize (show_nat n) = Some (int n)"
  using parse_isize_show [of "int n"] by (simp add: show_int_def)

lemma show_int_chars:
  "CHR '','' \<notin> set (show_int i)" "trim (show_int i) = show_int i"
proof -
  show "CHR '','' \<notin> set (show_int i)" using show_nat_chars(4) by (simp add: show_int_def)
  have "list_all (\<lambda>c. \<not> is_white c) (show_nat n)" for n
    using show_nat_digit digit_char_props(3) unfolding list_all_iff by blast
  then show "trim (show_int i) = show_int i"
    by (intro trim_id) (simp add: show_int_def is_white_def)
qed

fun join_comma :: "string list \<Rightarrow> string" where
  "join_comma [] = []"
| "join_comma [s] = s"
| "join_comma (s # t # ts) = s @ CHR '','' # join_comma (t # ts)"

lemma split_join:
  "\<forall>s \<in> set ss. CHR '','' \<notin> set s \<Longrightarrow> ss \<noteq> [] \<Longrightarrow> split_on (CHR '','') (join_comma ss) = ss"
  by (induction ss rule: join_comma.induct) (simp_all add: split_on_none split_on_append)

lemma join_comma_in: "1 < length ss \<Longrightarrow> CHR '','' \<in> set (join_comma ss)"
  by (cases ss rule: join_comma.cases) auto

section \<open>Literals read back\<close>

lemma unsigned_sign: "parse_integer False w (show_int i) = (if 0 \<le> i \<and> i < 2 ^ w then Some i else None)"
proof (cases "i < 0")
  case True
  have "strip_sign False (show_int i) = (False, show_int i)" "\<not> list_all is_digit (show_int i)"
    using True by (simp_all add: show_int_def strip_sign_def is_digit_def digit_val_def)
  then show ?thesis using True by (simp add: parse_integer_def)
next
  case False
  then have "nat i < 2 ^ w \<longleftrightarrow> i < 2 ^ w" by (simp add: nat_less_iff)
  then show ?thesis using False parse_integer_unsigned [of w "nat i"] by (simp add: show_int_def)
qed

definition reads_as :: "string \<Rightarrow> int \<Rightarrow> int \<Rightarrow> (int \<Rightarrow> cm_types) \<Rightarrow> bool" where
  "reads_as tp lo hi con \<longleftrightarrow>
     (\<forall>jc i. string_to_cmtype jc tp (show_int i)
        = (if lo \<le> i \<and> i < hi then Inr (con i) else Inl (InvalidLiteral tp (show_int i))))"

lemmas literal_table = reads_as_def string_to_cmtype_def parse_scalar_def PARSERS_def parse_word_def
  parse_integer_show unsigned_sign

lemma vec_literal:
  assumes "is \<noteq> []" "\<forall>i \<in> set is. - (2 ^ 31) \<le> i \<and> i < 2 ^ 31"
  shows "string_to_cmtype jc ''Vec<i32>'' (join_comma (map show_int is)) = Inr (CmVecCmt (map (\<lambda>i. CmI32 (word_of_int i)) is))"
proof -
  obtain q where q: "parse_scalar jc ''i32'' = Some q" by (simp add: parse_scalar_def PARSERS_def)
  have v: "q (show_int i) = Inr (CmI32 (word_of_int i))" if "i \<in> set is" for i
    using q assms(2) that by (auto simp: literal_table)
  have sp: "split_on (CHR '','') (join_comma (map show_int is)) = map show_int is"
    using assms(1) show_int_chars(1) by (intro split_join) auto
  have "rmap (\<lambda>v. q (trim v)) (map show_int is) = Inr (map (\<lambda>i. CmI32 (word_of_int i)) is)"
    unfolding rmap_Inr by (simp add: v show_int_chars(2))
  moreover have "parse_scalar jc ''Vec<i32>'' = None" by (simp add: parse_scalar_def PARSERS_def)
  ultimately show ?thesis
    by (simp add: string_to_cmtype_def strip_prefix_def strip_suffix_def sp q)
qed

text \<open>C15: Integer literals are read exactly. For each of the twelve integer types, a decimal literal is
  read as the number it denotes, at the width of the type, if the type can hold it, and refused
  otherwise: nothing wraps or saturates. A vector type reads a comma-separated list element by
  element.\<close>

theorem integer_literals_exact:
  assumes "is \<noteq> []" "\<forall>i \<in> set is. - (2 ^ 31) \<le> i \<and> i < 2 ^ 31"
  shows "reads_as ''i8'' (- (2 ^ 7)) (2 ^ 7) (\<lambda>i. CmI8 (word_of_int i))
    \<and> reads_as ''i16'' (- (2 ^ 15)) (2 ^ 15) (\<lambda>i. CmI16 (word_of_int i))
    \<and> reads_as ''i32'' (- (2 ^ 31)) (2 ^ 31) (\<lambda>i. CmI32 (word_of_int i))
    \<and> reads_as ''i64'' (- (2 ^ 63)) (2 ^ 63) (\<lambda>i. CmI64 (word_of_int i))
    \<and> reads_as ''i128'' (- (2 ^ 127)) (2 ^ 127) (\<lambda>i. CmI128 (word_of_int i))
    \<and> reads_as ''isize'' (- (2 ^ 63)) (2 ^ 63) (\<lambda>i. CmIsize (word_of_int i))
    \<and> reads_as ''u8'' 0 (2 ^ 8) (\<lambda>i. CmU8 (word_of_int i))
    \<and> reads_as ''u16'' 0 (2 ^ 16) (\<lambda>i. CmU16 (word_of_int i))
    \<and> reads_as ''u32'' 0 (2 ^ 32) (\<lambda>i. CmU32 (word_of_int i))
    \<and> reads_as ''u64'' 0 (2 ^ 64) (\<lambda>i. CmU64 (word_of_int i))
    \<and> reads_as ''u128'' 0 (2 ^ 128) (\<lambda>i. CmU128 (word_of_int i))
    \<and> reads_as ''usize'' 0 (2 ^ 64) (\<lambda>i. CmUsize (word_of_int i))
    \<and> string_to_cmtype jc ''Vec<i32>'' (join_comma (map show_int is)) = Inr (CmVecCmt (map (\<lambda>i. CmI32 (word_of_int i)) is))"
  by (intro conjI vec_literal assms) (simp_all add: literal_table)

theorem integer_literals_exact_witness:
  "string_to_cmtype \<lparr>json_c32 = \<lambda>_. None, json_c64 = \<lambda>_. None\<rparr> ''Vec<i32>'' (join_comma (map show_int [1, - 128]))
    = Inr (CmVecCmt [CmI32 1, CmI32 (- 128)])"
  using integer_literals_exact [of "[1, - 128]" "\<lparr>json_c32 = \<lambda>_. None, json_c64 = \<lambda>_. None\<rparr>"] by simp

end
