(* ===== verification/Graph_Json.thy ===== *)
theory Graph_Json
  imports Config_Parse Graph_Struct
begin

text \<open>
  The graph file as deserialised (\<^verbatim>\<open>json_structs.rs\<close>), the resolution of factors, and the
  initialisation objects (\<^verbatim>\<open>obj_gen.rs\<close>). Reading the JSON text itself is \<^verbatim>\<open>serde_json\<close>'s
  work, so a file is the record it deserialises to. The plugin registry is an argument.
\<close>

section \<open>The structures of a graph file\<close>

datatype factor = FNumber nat | FRef string

record condition_json =
  cj_operation :: string
  cj_value :: string
  cj_value_type :: string

record pred_json =
  pj_name :: string
  pj_indexes :: string
  pj_group_by :: "factor option"

record arg_json =
  aj_type :: string
  aj_value :: "string option"
  aj_condition :: "condition_json option"
  aj_predecessor :: "pred_json option"

record node_condition_json =
  ncj_operation :: string
  ncj_value :: string
  ncj_value_type :: string
  ncj_function :: string
  ncj_args :: "arg_json list"

record loop_json =
  lj_name :: string
  lj_factor :: "factor option"

record node_json =
  nj_name :: string
  nj_factor :: "factor option"
  nj_function :: string
  nj_loop :: "loop_json option"
  nj_loop_args :: "arg_json list option"
  nj_args :: "arg_json list"
  nj_group_size :: "factor option"
  nj_condition :: "node_condition_json option"
  nj_priority :: "string option"
  nj_use_workers :: "string option"

record arg_init =
  ai_type :: string
  ai_value :: string

record init_json =
  ij_name :: string
  ij_factor :: "factor option"
  ij_args :: "arg_init list"
  ij_function :: "string option"

record index_function_json =
  ifj_function :: string
  ifj_args :: "arg_json list"

record network_config_json =
  nwj_socket_type :: string
  nwj_num_sockets :: factor
  nwj_packet_length :: factor
  nwj_frame_packets :: factor
  nwj_buffer_depth :: nat
  nwj_address :: string
  nwj_start_port :: factor
  nwj_extract_packet_func :: string
  nwj_id_function :: string
  nwj_index_function :: index_function_json

record graph_file =
  gf_initializations :: "init_json list"
  gf_nodes :: "node_json list"
  gf_post_nodes :: "node_json list option"
  gf_network_config :: "network_config_json option"

section \<open>Failures\<close>

text \<open>An \<^verbatim>\<open>Err\<close> of the compiler carries a message; a panic aborts it.\<close>

datatype refusal =
    BadLiteral literal_error
  | UnknownPredecessor string
  | InvalidIndex string string
  | InvalidRangeStart string string
  | InvalidRangeEnd string string
  | NotANumber string
  | InvalidOperation string
  | UnsupportedSocket string
  | AddressNotString
  | MultiValueNotLast string nat nat nat
  | InvalidWorkers string
  | FunctionNotFound string

datatype failure = Panicked panic | Refused refusal

type_synonym 'a compiled = "failure + 'a"

definition lift_literal :: "literal_error + 'a \<Rightarrow> 'a compiled" where
  "lift_literal r = (case r of Inl e \<Rightarrow> Inl (Refused (BadLiteral e)) | Inr v \<Rightarrow> Inr v)"

definition lift_panic :: "'a result \<Rightarrow> 'a compiled" where
  "lift_panic r = (case r of Inl p \<Rightarrow> Inl (Panicked p) | Inr v \<Rightarrow> Inr v)"

fun ropt :: "('a \<Rightarrow> 'e + 'b) \<Rightarrow> 'a option \<Rightarrow> 'e + 'b option" where
  "ropt f None = Inr None"
| "ropt f (Some a) = rbind (f a) (\<lambda>b. Inr (Some b))"

lemma lift_literal_Inr [simp]: "lift_literal r = Inr v \<longleftrightarrow> r = Inr v"
  by (auto simp: lift_literal_def split: sum.splits)

lemma lift_panic_Inr [simp]: "lift_panic r = Inr v \<longleftrightarrow> r = Inr v"
  by (auto simp: lift_panic_def split: sum.splits)

lemma ropt_Inr: "ropt f x = Inr y \<longleftrightarrow>
    x = None \<and> y = None \<or> (\<exists>a b. x = Some a \<and> f a = Inr b \<and> y = Some b)"
  by (cases x) (auto simp: rbind_eq_Inr)

section \<open>Objects\<close>

type_synonym objects = "cm_types list list"
type_synonym ids = "string \<Rightarrow> nat option"

text \<open>What the compiler is given besides the file: the JSON reader of complex numbers, the function
  registry that plugins fill, and the worker count.\<close>

record environment =
  env_json :: json_complex
  env_func :: "string \<Rightarrow> (cm_types list \<Rightarrow> cm_types) option"
  env_workers :: nat

text \<open>\<^verbatim>\<open>init_objects[id][0]\<close>\<close>

definition object_head :: "objects \<Rightarrow> nat \<Rightarrow> cm_types compiled" where
  "object_head objs i =
     (if i < length objs then
        (case objs ! i of v # _ \<Rightarrow> Inr v | [] \<Rightarrow> Inl (Panicked IndexOutOfBounds))
      else Inl (Panicked IndexOutOfBounds))"

definition factor_resolve :: "factor \<Rightarrow> objects \<Rightarrow> ids \<Rightarrow> nat \<Rightarrow> nat compiled" where
  "factor_resolve f objs ids workers =
     (case f of
        FNumber n \<Rightarrow> Inr n
      | FRef r \<Rightarrow>
          (case ids r of
             Some obj_id \<Rightarrow>
               rbind (object_head objs obj_id) (\<lambda>v.
                 case valid_number_to_usize v of
                   Some w \<Rightarrow> Inr (unat w) | None \<Rightarrow> Inl (Panicked ExplicitPanic))
           | None \<Rightarrow> if r = ''$workers'' then Inr workers else Inl (Panicked ExplicitPanic)))"

definition factor_or_one :: "factor option \<Rightarrow> objects \<Rightarrow> ids \<Rightarrow> nat \<Rightarrow> nat compiled" where
  "factor_or_one f objs ids workers =
     (case f of Some f' \<Rightarrow> factor_resolve f' objs ids workers | None \<Rightarrow> Inr 1)"

text \<open>One argument of an initialisation function, for the \<open>i\<close>th value of the object.\<close>

definition init_arg :: "environment \<Rightarrow> objects \<Rightarrow> ids \<Rightarrow> nat \<Rightarrow> arg_init \<Rightarrow> cm_types compiled" where
  "init_arg env objs ids i a =
     (if ai_value a = ''$workers'' then Inr (CmUsize (word_of_nat (env_workers env)))
      else if ai_value a = ''$index'' then Inr (CmUsize (word_of_nat i))
      else case ids (ai_value a) of
        Some obj_id \<Rightarrow> object_head objs obj_id
      | None \<Rightarrow> lift_literal (string_to_cmtype (env_json env) (ai_type a) (ai_value a)))"

definition init_values :: "environment \<Rightarrow> objects \<Rightarrow> ids \<Rightarrow> nat \<Rightarrow> init_json \<Rightarrow> cm_types list compiled" where
  "init_values env objs ids n j =
     (case ij_function j of
        Some fname \<Rightarrow>
          (case env_func env fname of
             None \<Rightarrow> Inl (Refused (FunctionNotFound fname))
           | Some f \<Rightarrow>
               rmap (\<lambda>i. rbind (rmap (init_arg env objs ids i) (ij_args j)) (\<lambda>as. Inr (f as))) [0..<n])
      | None \<Rightarrow>
          (case ij_args j of
             [] \<Rightarrow> Inl (Panicked IndexOutOfBounds)
           | a # _ \<Rightarrow>
               rbind (lift_literal (string_to_cmtype (env_json env) (ai_type a) (ai_value a))) (\<lambda>v.
                 Inr (replicate n v))))"

text \<open>The loop over the initialisations; the object counter is a \<^verbatim>\<open>u16\<close>.\<close>

fun init_loop :: "environment \<Rightarrow> init_json list \<Rightarrow> objects \<Rightarrow> ids \<Rightarrow> u16 \<Rightarrow> (objects \<times> ids) compiled" where
  "init_loop env [] objs ids counter = Inr (objs, ids)"
| "init_loop env (j # js) objs ids counter =
     rbind (factor_or_one (ij_factor j) objs ids (env_workers env)) (\<lambda>n.
     rbind (init_values env objs ids n j) (\<lambda>vs.
       init_loop env js (objs @ [vs]) (ids(ij_name j \<mapsto> unat counter)) (counter + 1)))"

definition init_objects :: "environment \<Rightarrow> init_json list \<Rightarrow> (objects \<times> ids) compiled" where
  "init_objects env js =
     init_loop env js [[CmUsize 0], [CmUsize 1]] [''$index'' \<mapsto> 0, ''$workers'' \<mapsto> 1] 2"

end
