(* ===== verification/Graph_Compile.thy ===== *)
theory Graph_Compile
  imports Graph_Json Graph_Model Routing Runtime_State
begin

text \<open>
  The compiler from a graph file to the task graph and its derived tables (\<^verbatim>\<open>graph_gen.rs\<close>).
\<close>

section \<open>Predecessors\<close>

definition wrap_isize :: "int \<Rightarrow> int" where
  "wrap_isize i = sint (word_of_int i :: u64)"

text \<open>A name where a number is expected: the first value of the initialisation object.\<close>

definition index_ref :: "objects \<Rightarrow> ids \<Rightarrow> refusal \<Rightarrow> string \<Rightarrow> int compiled" where
  "index_ref objs ids unknown name =
     (case ids name of
        None \<Rightarrow> Inl (Refused unknown)
      | Some obj_id \<Rightarrow>
          rbind (object_head objs obj_id) (\<lambda>v.
            case valid_number_to_usize v of
              Some w \<Rightarrow> Inr (sint w) | None \<Rightarrow> Inl (Refused (NotANumber name))))"

definition range_start :: "objects \<Rightarrow> ids \<Rightarrow> string \<Rightarrow> string \<Rightarrow> int compiled" where
  "range_start objs ids pname s =
     (case parse_isize s of
        Some v \<Rightarrow> Inr v | None \<Rightarrow> index_ref objs ids (InvalidRangeStart s pname) s)"

text \<open>A literal end is included, a referenced one is not.\<close>

definition range_stop :: "objects \<Rightarrow> ids \<Rightarrow> string \<Rightarrow> string \<Rightarrow> int compiled" where
  "range_stop objs ids pname s =
     (case parse_isize s of
        Some v \<Rightarrow> Inr (wrap_isize (v + 1)) | None \<Rightarrow> index_ref objs ids (InvalidRangeEnd s pname) s)"

definition parse_indexes :: "objects \<Rightarrow> ids \<Rightarrow> string \<Rightarrow> string \<Rightarrow> int list compiled" where
  "parse_indexes objs ids pname s =
     (if CHR '','' \<in> set s then
        rmap (\<lambda>p. case parse_isize (trim p) of
                     Some v \<Rightarrow> Inr v | None \<Rightarrow> Inl (Refused (InvalidIndex (trim p) pname)))
          (split_on (CHR '','') s)
      else if CHR ''-'' \<in> set s then
        (let range = split_on (CHR ''-'') s in
         rbind (range_start objs ids pname (range ! 0)) (\<lambda>start.
         rbind (range_stop objs ids pname (range ! 1)) (\<lambda>stop.
           Inr [start..stop - 1])))
      else case parse_isize s of
        Some v \<Rightarrow> Inr [v]
      | None \<Rightarrow> rbind (index_ref objs ids (InvalidIndex s pname) s) (\<lambda>v. Inr [v]))"

definition parse_predecessor ::
  "environment \<Rightarrow> objects \<Rightarrow> ids \<Rightarrow> ids \<Rightarrow> pred_json \<Rightarrow> predecessor compiled" where
  "parse_predecessor env objs ids names j =
     (case names (pj_name j) of
        None \<Rightarrow> Inl (Refused (UnknownPredecessor (pj_name j)))
      | Some pid \<Rightarrow>
          rbind (parse_indexes objs ids (pj_name j) (pj_indexes j)) (\<lambda>is.
          rbind (ropt (\<lambda>f. factor_resolve f objs ids (env_workers env)) (pj_group_by j)) (\<lambda>gb.
            Inr \<lparr>pred_id = pid, pred_indexes = is, pred_group_by = gb\<rparr>)))"

section \<open>Arguments\<close>

definition parse_operation :: "string \<Rightarrow> cond_op compiled" where
  "parse_operation s =
     (case cond_op_parse s of Some c \<Rightarrow> Inr c | None \<Rightarrow> Inl (Refused (InvalidOperation s)))"

definition parse_condition :: "environment \<Rightarrow> condition_json \<Rightarrow> init_condition compiled" where
  "parse_condition env j =
     rbind (parse_operation (cj_operation j)) (\<lambda>oper.
     rbind (lift_literal (string_to_cmtype (env_json env) (cj_value_type j) (cj_value j))) (\<lambda>v.
       Inr \<lparr>ic_operation = oper, ic_eval_value = v\<rparr>))"

text \<open>The value of an argument: the identifier of its predecessor, the identifier of the object its
  value names, or the value itself, read at the declared type.\<close>

definition arg_literal :: "ids \<Rightarrow> arg_json \<Rightarrow> predecessor option \<Rightarrow> string option" where
  "arg_literal ids j pred =
     (case pred of
        Some p \<Rightarrow> Some (show_nat (pred_id p))
      | None \<Rightarrow> map_option (\<lambda>v. case ids v of Some obj_id \<Rightarrow> show_nat obj_id | None \<Rightarrow> v) (aj_value j))"

definition parse_arg :: "environment \<Rightarrow> objects \<Rightarrow> ids \<Rightarrow> ids \<Rightarrow> arg_json \<Rightarrow> arg compiled" where
  "parse_arg env objs ids names j =
     rbind (ropt (parse_condition env) (aj_condition j)) (\<lambda>c.
     rbind (ropt (parse_predecessor env objs ids names) (aj_predecessor j)) (\<lambda>p.
     rbind (case arg_literal ids j p of
              Some s \<Rightarrow> lift_literal (string_to_cmtype (env_json env) (aj_type j) s)
            | None \<Rightarrow> Inr CmNone) (\<lambda>t.
       Inr \<lparr>arg_type = t, arg_init_condition = c, arg_predecessor = p\<rparr>)))"

section \<open>The argument layout\<close>

text \<open>Only arguments without an init condition occupy a place of the argument buffer. One that takes
  several values (neither one nor one per instance) must be the last.\<close>

definition multi_value :: "nat \<Rightarrow> arg \<Rightarrow> bool" where
  "multi_value fac a \<longleftrightarrow>
     is_result (arg_type a)
     \<and> (case arg_predecessor a of
          Some p \<Rightarrow> pred_group_by p = None \<and> 1 < length (pred_indexes p) \<and> length (pred_indexes p) \<noteq> fac
        | None \<Rightarrow> False)"

fun layout_loop :: "string \<Rightarrow> nat \<Rightarrow> nat \<Rightarrow> arg list \<Rightarrow> unit compiled" where
  "layout_loop name fac pos [] = Inr ()"
| "layout_loop name fac pos (a # as) =
     (if multi_value fac a \<and> as \<noteq> [] then
        Inl (Refused (MultiValueNotLast name pos
          (case arg_predecessor a of Some p \<Rightarrow> length (pred_indexes p) | None \<Rightarrow> 0) (length as)))
      else layout_loop name fac (pos + 1) as)"

definition validate_res_arg_layout :: "string \<Rightarrow> arg list \<Rightarrow> nat \<Rightarrow> unit compiled" where
  "validate_res_arg_layout name as fac =
     layout_loop name fac 0 (filter (\<lambda>a. \<not> is_condition a) as)"

section \<open>Nodes\<close>

definition parse_node_condition ::
  "environment \<Rightarrow> objects \<Rightarrow> ids \<Rightarrow> ids \<Rightarrow> node_condition_json \<Rightarrow> node_condition compiled" where
  "parse_node_condition env objs ids names j =
     rbind (parse_operation (ncj_operation j)) (\<lambda>oper.
     rbind (lift_literal (string_to_cmtype (env_json env) (ncj_value_type j) (ncj_value j))) (\<lambda>v.
     rbind (rmap (parse_arg env objs ids names) (ncj_args j)) (\<lambda>as.
       Inr \<lparr>nc_operation = oper, nc_eval_value = v, nc_func_name = ncj_function j, nc_args = as\<rparr>)))"

definition parse_loop :: "environment \<Rightarrow> objects \<Rightarrow> ids \<Rightarrow> loop_json \<Rightarrow> loop_target compiled" where
  "parse_loop env objs ids j =
     rbind (factor_or_one (lj_factor j) objs ids (env_workers env)) (\<lambda>n.
       Inr \<lparr>loop_name = lj_name j, loop_factor = n\<rparr>)"

definition parse_use_workers :: "string \<Rightarrow> worker_range_spec compiled" where
  "parse_use_workers s =
     (case worker_range_spec_parse s of
        Inr w \<Rightarrow> Inr w | Inl _ \<Rightarrow> Inl (Refused (InvalidWorkers s)))"

definition parse_single_node ::
  "environment \<Rightarrow> objects \<Rightarrow> ids \<Rightarrow> ids \<Rightarrow> node_json \<Rightarrow> node compiled" where
  "parse_single_node env objs ids names j =
     (let resolve = (\<lambda>f. factor_resolve f objs ids (env_workers env)) in
     rbind (rmap (parse_arg env objs ids names) (nj_args j)) (\<lambda>as.
     rbind (ropt (rmap (parse_arg env objs ids names)) (nj_loop_args j)) (\<lambda>las.
     rbind (factor_or_one (nj_factor j) objs ids (env_workers env)) (\<lambda>fac.
     rbind (ropt resolve (nj_group_size j)) (\<lambda>gs.
     rbind (ropt (parse_loop env objs ids) (nj_loop j)) (\<lambda>lp.
     rbind (validate_res_arg_layout (nj_name j) as fac) (\<lambda>_.
     rbind (ropt (parse_node_condition env objs ids names) (nj_condition j)) (\<lambda>nc.
     rbind (ropt parse_use_workers (nj_use_workers j)) (\<lambda>uw.
       Inr \<lparr>node_name = nj_name j, node_args = as, node_ident = 0, node_loop_args = las,
            node_factor = fac, node_group_size = gs, node_func_name = nj_function j,
            node_loop = lp, node_condition = nc,
            node_prio = (case nj_priority j of Some s \<Rightarrow> priority_parse s | None \<Rightarrow> Normal),
            node_use_workers = uw\<rparr>)))))))))"

text \<open>The node counter is a \<^verbatim>\<open>u16\<close>; a name is entered once its node has been parsed.\<close>

fun parse_nodes ::
  "environment \<Rightarrow> objects \<Rightarrow> ids \<Rightarrow> node_json list \<Rightarrow> ids \<Rightarrow> u16 \<Rightarrow> graph \<Rightarrow> (graph \<times> ids) compiled" where
  "parse_nodes env objs ids [] names counter g = Inr (g, names)"
| "parse_nodes env objs ids (j # js) names counter g =
     rbind (parse_single_node env objs ids names j) (\<lambda>n.
     rbind (lift_panic (add_node (n\<lparr>node_ident := unat counter\<rparr>) g)) (\<lambda>g'.
       parse_nodes env objs ids js (names(nj_name j \<mapsto> unat counter)) (counter + 1) g'))"

fun parse_post_nodes ::
  "environment \<Rightarrow> objects \<Rightarrow> ids \<Rightarrow> ids \<Rightarrow> nat \<Rightarrow> node_json list \<Rightarrow> node list compiled" where
  "parse_post_nodes env objs ids names i [] = Inr []"
| "parse_post_nodes env objs ids names i (j # js) =
     rbind (parse_single_node env objs ids names j) (\<lambda>n.
     rbind (parse_post_nodes env objs ids names (i + 1) js) (\<lambda>ns.
       Inr (n\<lparr>node_ident := unat (word_of_nat i :: u16)\<rparr> # ns)))"

fun add_post_nodes :: "node list \<Rightarrow> graph \<Rightarrow> graph result" where
  "add_post_nodes [] g = Inr g"
| "add_post_nodes (n # ns) g = rbind (add_post_node n g) (add_post_nodes ns)"

section \<open>The network configuration\<close>

record graph_network_config = net_config +
  nwc_num_sockets :: nat
  nwc_packet_length :: nat
  nwc_buffer_depth :: nat
  nwc_address :: string
  nwc_start_port :: nat

definition get_func :: "environment \<Rightarrow> string \<Rightarrow> func_ref option" where
  "get_func env name = (if env_func env name = None then None else Some (Registered name))"

definition parse_address :: "objects \<Rightarrow> ids \<Rightarrow> string \<Rightarrow> string compiled" where
  "parse_address objs ids given =
     (case ids given of
        Some obj_id \<Rightarrow>
          rbind (object_head objs obj_id) (\<lambda>v.
            case v of CmString s \<Rightarrow> Inr s | _ \<Rightarrow> Inl (Refused AddressNotString))
      | None \<Rightarrow> Inr given)"

definition parse_network_config ::
  "environment \<Rightarrow> objects \<Rightarrow> ids \<Rightarrow> ids \<Rightarrow> network_config_json \<Rightarrow> graph_network_config compiled" where
  "parse_network_config env objs ids names j =
     (let resolve = (\<lambda>f. factor_resolve f objs ids (env_workers env)) in
      if to_lowercase (nwj_socket_type j) \<noteq> ''udp''
      then Inl (Refused (UnsupportedSocket (to_lowercase (nwj_socket_type j))))
      else
        rbind (resolve (nwj_num_sockets j)) (\<lambda>sockets.
        rbind (resolve (nwj_packet_length j)) (\<lambda>len.
        rbind (resolve (nwj_frame_packets j)) (\<lambda>frame.
        rbind (parse_address objs ids (nwj_address j)) (\<lambda>address.
        rbind (resolve (nwj_start_port j)) (\<lambda>port.
        rbind (rmap (parse_arg env objs ids names) (ifj_args (nwj_index_function j))) (\<lambda>as.
          Inr \<lparr>nc_frame_packets = frame, nc_extract = get_func env (nwj_extract_packet_func j),
               nc_id_function = get_func env (nwj_id_function j),
               nc_index_function = Some (get_func env (ifj_function (nwj_index_function j)), as),
               nwc_num_sockets = sockets, nwc_packet_length = len,
               nwc_buffer_depth = nwj_buffer_depth j, nwc_address = address,
               nwc_start_port = port\<rparr>)))))))"

section \<open>The whole file\<close>

definition network_node :: "node_id \<Rightarrow> nat \<Rightarrow> node" where
  "network_node i frame =
     \<lparr>node_name = ''$network'', node_args = [], node_ident = i, node_loop_args = None,
      node_factor = frame, node_group_size = None, node_func_name = '''', node_loop = None,
      node_condition = None, node_prio = Normal, node_use_workers = None\<rparr>"

record graph_spec =
  gs_graph :: graph
  gs_network :: "graph_network_config option"
  gs_objects :: objects

text \<open>\<^verbatim>\<open>from_json_str\<close>, on the deserialised file.\<close>

definition from_graph_file :: "environment \<Rightarrow> graph_file \<Rightarrow> graph_spec compiled" where
  "from_graph_file env gf =
     rbind (init_objects env (gf_initializations gf)) (\<lambda>(objs, ids).
     rbind (ropt (parse_network_config env objs ids (\<lambda>_. None)) (gf_network_config gf)) (\<lambda>nc.
     rbind (case nc of
              None \<Rightarrow> Inr (graph_new, \<lambda>_. None, 0)
            | Some c \<Rightarrow>
                rbind (lift_panic (add_node (network_node 0 (nc_frame_packets c)) graph_new)) (\<lambda>g.
                  Inr (g, [''$network'' \<mapsto> 0], 1))) (\<lambda>(g0, names0, counter).
     rbind (parse_nodes env objs ids (gf_nodes gf) names0 counter g0) (\<lambda>(g, names).
     rbind (parse_post_nodes env objs ids names 0 (unwrap_or (gf_post_nodes gf) [])) (\<lambda>posts.
     rbind (lift_panic (add_post_nodes posts g)) (\<lambda>g'.
       Inr \<lparr>gs_graph = g', gs_network = nc, gs_objects = objs\<rparr>))))))"

section \<open>Compilation\<close>

record graph_compiled =
  gd_cache :: graph_cache
  gd_tables :: pred_tables
  gd_dependency_counts :: "nat list"
  gd_max_factor :: nat
  gd_num_nodes :: nat

definition max_factor_of :: "cache_entry list \<Rightarrow> nat" where
  "max_factor_of cache = (if cache = [] then 1 else foldr max (map ce_factor cache) 0)"

definition compile ::
  "registry \<Rightarrow> (worker_range_spec option \<Rightarrow> nat) \<Rightarrow> bool \<Rightarrow> bool \<Rightarrow> node_id list \<Rightarrow> graph_spec
     \<Rightarrow> graph_compiled result" where
  "compile reg affinity templates_disabled range_1to1 order spec =
     (let g = gs_graph spec in
     rbind (build_node_cache reg affinity templates_disabled order g (gs_objects spec)) (\<lambda>cache.
     rbind (build_predecessor_tables range_1to1 g) (\<lambda>T.
     rbind (build_arena (successors g) (length (g_nodes g)) cache T) (\<lambda>arena.
     rbind (dependency_count_vec g) (\<lambda>deps.
       Inr \<lparr>gd_cache =
              \<lparr>gc_graph = g, gc_network = map_option net_config.truncate (gs_network spec),
               gc_node_cache = cache, gc_arena = arena, gc_pred_group_by = tbl_group_by T,
               gc_init_objects = gs_objects spec,
               gc_total_tasks = word_of_nat (pending_total False cache),
               gc_total_cond_tasks = word_of_nat (pending_total True cache)\<rparr>,
            gd_tables = T, gd_dependency_counts = deps, gd_max_factor = max_factor_of cache,
            gd_num_nodes = length (g_nodes g)\<rparr>)))))"

end
