(* ===== verification/Graph_Compile_Properties.thy ===== *)
theory Graph_Compile_Properties
  imports Graph_Compile
begin

text \<open>
  What the compiler from graph files guarantees: the reserved objects, the index syntaxes, and the
  shape of every graph it accepts.
\<close>

named_theorems compile_simps \<open>reading off an accepted step of the compiler\<close>

lemmas [compile_simps] = rbind_eq_Inr ropt_Inr

section \<open>Initialisation objects\<close>

text \<open>Objects are only appended, and a name that is not declared again keeps its identifier.\<close>

lemma init_loop_keeps:
  "init_loop env js objs ids c = Inr (objs', ids') \<Longrightarrow>
     length objs' = length objs + length js \<and> take (length objs) objs' = objs
     \<and> (\<forall>x. x \<notin> ij_name ` set js \<longrightarrow> ids' x = ids x)"
proof (induction js arbitrary: objs ids c)
  case (Cons j js)
  then obtain vs where r: "init_loop env js (objs @ [vs]) (ids(ij_name j \<mapsto> unat c)) (c + 1) = Inr (objs', ids')"
    by (auto simp: compile_simps)
  have t: "take (Suc (length objs)) objs' = objs @ [vs]" using Cons.IH [OF r] by simp
  have "take (length objs) (take (Suc (length objs)) objs') = objs" unfolding t by simp
  then show ?case using Cons.IH [OF r] by (simp add: min_def)
qed simp

lemma init_loop_ids:
  "init_loop env js objs ids c = Inr (objs', ids') \<Longrightarrow> 0 < length objs \<Longrightarrow> unat c \<le> length objs \<Longrightarrow>
     (\<And>x i. ids x = Some i \<Longrightarrow> i < length objs) \<Longrightarrow> ids' x = Some i \<Longrightarrow> i < length objs'"
proof (induction js arbitrary: objs ids c)
  case (Cons j js)
  then obtain vs where r: "init_loop env js (objs @ [vs]) (ids(ij_name j \<mapsto> unat c)) (c + 1) = Inr (objs', ids')"
    by (auto simp: compile_simps)
  have "unat (c + 1) \<le> unat c + 1" by (simp add: unat_word_ariths)
  then have "unat (c + 1) \<le> length (objs @ [vs])" using Cons.prems(3) by simp
  moreover have "y < length (objs @ [vs])" if "(ids(ij_name j \<mapsto> unat c)) x = Some y" for x y
    using that Cons.prems(3) Cons.prems(4) [of x y] by (auto split: if_splits)
  ultimately show ?case
    using Cons.IH [OF r] Cons.prems(5) by simp
qed simp

lemma init_objects_ids:
  assumes "init_objects env js = Inr (objs, ids)" "ids x = Some i"
  shows "i < length objs"
  by (rule init_loop_ids [OF assms(1) [unfolded init_objects_def] _ _ _ assms(2)]) (auto split: if_splits)

text \<open>The reserved factor. Whatever the worker count, and whatever a graph file declares under
  other names, the factor \<^verbatim>\<open>$workers\<close> resolves to 1, in the initialisations as in the nodes: the
  name is entered as object 1, which holds 1, and the look-up of objects comes before the test for
  the reserved name. The worker count reaches a factor only if the name is not entered.\<close>

theorem workers_factor_is_one:
  assumes "init_objects env js = Inr (objs, ids)" "''$workers'' \<notin> ij_name ` set js"
  shows "factor_resolve (FRef ''$workers'') objs ids workers = Inr 1
    \<and> factor_resolve (FRef ''$workers'') objs (ids(''$workers'' := None)) workers = Inr workers"
proof -
  note k = init_loop_keeps [OF assms(1) [unfolded init_objects_def]]
  have "ids ''$workers'' = Some 1" using k assms(2) by simp
  moreover have "objs ! Suc 0 = [CmUsize 1]"
  proof -
    have t: "take (Suc (Suc 0)) objs = [[CmUsize 0], [CmUsize 1]]" using k by simp
    have "objs ! Suc 0 = take (Suc (Suc 0)) objs ! Suc 0" by (rule nth_take [symmetric]) simp
    also have "\<dots> = [CmUsize 1]" unfolding t by simp
    finally show ?thesis .
  qed
  moreover have "1 < length objs" using k by simp
  ultimately show ?thesis by (simp add: factor_resolve_def object_head_def)
qed

section \<open>Index syntax\<close>

lemma parse_list:
  assumes "1 < length ks" "\<forall>k \<in> set ks. - (2 ^ 63) \<le> k \<and> k < 2 ^ 63"
  shows "parse_indexes objs ids p (join_comma (map show_int ks)) = Inr ks"
proof -
  have ne: "map show_int ks \<noteq> []" "\<forall>s \<in> set (map show_int ks). CHR '','' \<notin> set s"
    using assms(1) show_int_chars(1) by auto
  have "rmap (\<lambda>p'. case parse_isize (trim p') of
       Some v \<Rightarrow> Inr v | None \<Rightarrow> Inl (Refused (InvalidIndex (trim p') p))) (map show_int ks) = Inr ks"
    unfolding rmap_Inr using assms(2) by (simp add: show_int_chars(2) parse_isize_show)
  then show ?thesis
    using join_comma_in [of "map show_int ks"] assms(1)
    by (simp add: parse_indexes_def split_join [OF ne(2,1)])
qed

lemma wrap_isize_id: "- (2 ^ 63) \<le> i \<Longrightarrow> i < 2 ^ 63 \<Longrightarrow> wrap_isize i = i"
  by (simp add: wrap_isize_def int_word_sint)

lemma split_range:
  "CHR ''-'' \<notin> set s \<Longrightarrow> CHR ''-'' \<notin> set t \<Longrightarrow> split_on (CHR ''-'') (s @ CHR ''-'' # t) = [s, t]"
  by (simp add: split_on_append split_on_none)

lemma parse_range:
  assumes "a < 2 ^ 63" "CHR ''-'' \<notin> set t" "CHR '','' \<notin> set t"
  shows "parse_indexes objs ids p (show_nat a @ CHR ''-'' # t)
    = rbind (range_stop objs ids p t) (\<lambda>stop. Inr [int a..stop - 1])"
  using assms split_range [OF show_nat_chars(1) assms(2), of a] show_nat_chars(4) [of a]
  by (simp add: parse_indexes_def range_start_def parse_isize_nat)

text \<open>C14: The index syntaxes. A number below 2^63 denotes itself, and a name the number its object
  holds; a comma list denotes its numbers, of either sign; a range between numbers includes its end,
  a range up to a name excludes the value of that name. A negative number on its own, which
  the reference gives as the offset of the previous instance, is taken for a range without a start
  and refused, though the same number is accepted in a list.\<close>

theorem index_syntax:
  assumes "a < 2 ^ 63" "b < 2 ^ 63 - 1" "0 < k" "k < 2 ^ 63"
    and ref: "CHR ''-'' \<notin> set name" "CHR '','' \<notin> set name" "parse_isize name = None"
      "ids name = Some i" "object_head objs i = Inr v" "valid_number_to_usize v = Some w"
    and list: "1 < length ks" "\<forall>j \<in> set ks. - (2 ^ 63) \<le> j \<and> j < 2 ^ 63"
    and unnamed: "ids [] = None"
  shows "parse_indexes objs ids p (show_nat a) = Inr [int a]
    \<and> parse_indexes objs ids p name = Inr [sint w]
    \<and> parse_indexes objs ids p (show_nat a @ CHR ''-'' # show_nat b) = Inr [int a..int b]
    \<and> parse_indexes objs ids p (show_nat a @ CHR ''-'' # name) = Inr [int a..sint w - 1]
    \<and> parse_indexes objs ids p (join_comma (map show_int ks)) = Inr ks
    \<and> parse_indexes objs ids p (show_int (- int k)) = Inl (Refused (InvalidRangeStart [] p))
    \<and> parse_indexes objs ids p (join_comma [show_int (- int k), show_int (int a)]) = Inr [- int k, int a]"
proof (intro conjI)
  show "parse_indexes objs ids p (show_nat a) = Inr [int a]"
    using assms(1) show_nat_chars(1,4) [of a] by (simp add: parse_indexes_def parse_isize_nat)
  have rf: "index_ref objs ids e name = Inr (sint w)" for e
    using ref by (simp add: index_ref_def)
  show "parse_indexes objs ids p name = Inr [sint w]"
    using ref(1,2,3) rf by (simp add: parse_indexes_def)
  have "wrap_isize (int b + 1) = int b + 1"
    using assms(2) by (intro wrap_isize_id) simp_all
  then show "parse_indexes objs ids p (show_nat a @ CHR ''-'' # show_nat b) = Inr [int a..int b]"
    using assms(1,2) show_nat_chars(1,4) [of b] by (simp add: parse_range range_stop_def parse_isize_nat)
  show "parse_indexes objs ids p (show_nat a @ CHR ''-'' # name) = Inr [int a..sint w - 1]"
    using assms(1) ref(1,2,3) rf by (simp add: parse_range range_stop_def)
  show "parse_indexes objs ids p (join_comma (map show_int ks)) = Inr ks"
    by (rule parse_list [OF list])
  have e: "parse_isize [] = None"
    by (simp add: parse_isize_def parse_integer_def strip_sign_def)
  have neg: "show_int (- int k) = CHR ''-'' # show_nat k" using assms(3) by (simp add: show_int_def)
  show "parse_indexes objs ids p (show_int (- int k)) = Inl (Refused (InvalidRangeStart [] p))"
    using split_range [of "[]" "show_nat k"] show_nat_chars(1,4) [of k] unnamed
    by (simp add: neg parse_indexes_def range_start_def e index_ref_def)
  show "parse_indexes objs ids p (join_comma [show_int (- int k), show_int (int a)]) = Inr [- int k, int a]"
    using parse_list [of "[- int k, int a]" objs ids p] assms(1,4) by simp
qed

section \<open>Accepted graphs\<close>

definition names_below :: "ids \<Rightarrow> nat \<Rightarrow> bool" where
  "names_below names k \<longleftrightarrow> (\<forall>x i. names x = Some i \<longrightarrow> i < k)"

definition arg_below :: "nat \<Rightarrow> arg \<Rightarrow> bool" where
  "arg_below k a = (case arg_predecessor a of Some p \<Rightarrow> pred_id p < k | None \<Rightarrow> True)"

text \<open>Every predecessor a node names, in its arguments, loop arguments and condition.\<close>

definition all_args :: "node \<Rightarrow> arg list" where
  "all_args n = node_args n @ unwrap_or (node_loop_args n) []
     @ (case node_condition n of Some c \<Rightarrow> nc_args c | None \<Rightarrow> [])"

definition node_below :: "nat \<Rightarrow> node \<Rightarrow> bool" where
  "node_below k n = list_all (arg_below k) (all_args n)"

lemma parse_arg_below:
  assumes "parse_arg env objs ids names j = Inr a" "names_below names k"
  shows "arg_below k a"
proof -
  have "ropt (parse_predecessor env objs ids names) (aj_predecessor j) = Inr (arg_predecessor a)"
    using assms(1) by (auto simp: parse_arg_def rbind_eq_Inr)
  then show ?thesis
    using assms(2)
    by (auto simp: ropt_Inr parse_predecessor_def rbind_eq_Inr arg_below_def names_below_def split: option.splits)
qed

lemma parse_args_below:
  "rmap (parse_arg env objs ids names) js = Inr as \<Longrightarrow> names_below names k \<Longrightarrow> list_all (arg_below k) as"
  by (auto simp: rmap_Inr list_all_length intro: parse_arg_below)

lemma parse_node_below:
  assumes "parse_single_node env objs ids names j = Inr n" "names_below names k"
  shows "node_below k n"
proof -
  obtain as las nc where n: "node_args n = as" "node_loop_args n = las" "node_condition n = nc"
    and p: "rmap (parse_arg env objs ids names) (nj_args j) = Inr as"
      "ropt (rmap (parse_arg env objs ids names)) (nj_loop_args j) = Inr las"
      "ropt (parse_node_condition env objs ids names) (nj_condition j) = Inr nc"
    using assms(1) by (auto simp: parse_single_node_def rbind_eq_Inr Let_def)
  have "list_all (arg_below k) as" using p(1) assms(2) by (rule parse_args_below)
  moreover have "list_all (arg_below k) (unwrap_or las [])"
    using p(2) assms(2) by (auto simp: ropt_Inr split: option.splits intro: parse_args_below)
  moreover have "list_all (arg_below k) (case nc of Some c \<Rightarrow> nc_args c | None \<Rightarrow> [])"
    using p(3) assms(2)
    by (auto simp: ropt_Inr parse_node_condition_def rbind_eq_Inr split: option.splits intro: parse_args_below)
  ultimately show ?thesis by (simp add: node_below_def all_args_def n)
qed

text \<open>The nodes of a graph under construction: numbered in order, each naming earlier nodes only.\<close>

definition backward :: "graph \<Rightarrow> bool" where
  "backward g \<longleftrightarrow> topology g \<and> (\<forall>i < length (g_nodes g). node_below i (g_nodes g ! i) \<and> i < 2 ^ 16)"

lemma backward_add_node:
  assumes "backward g" "add_node n g = Inr g'" "node_below (length (g_nodes g)) n" "node_ident n < 2 ^ 16"
  shows "backward g'" "g_nodes g' = g_nodes g @ [n]" "node_ident n = length (g_nodes g)"
proof -
  show id: "node_ident n = length (g_nodes g)" using assms(2) by (auto simp: add_node_def split: if_splits)
  have t: "topology g'" "g_nodes g' = g_nodes g @ [n]"
    using topology_add_node [OF _ assms(2)] assms(1) by (simp_all add: backward_def)
  show "g_nodes g' = g_nodes g @ [n]" by (rule t(2))
  show "backward g'"
    using assms(1,3,4) t id by (auto simp: backward_def nth_append less_Suc_eq)
qed

lemma parse_nodes_backward:
  "parse_nodes env objs ids js names c g = Inr (g', names') \<Longrightarrow> backward g \<Longrightarrow>
     names_below names (length (g_nodes g)) \<Longrightarrow> backward g' \<and> length (g_nodes g') = length (g_nodes g) + length js"
proof (induction js arbitrary: names c g)
  case (Cons j js)
  then obtain n h where n: "parse_single_node env objs ids names j = Inr n"
    and h: "add_node (n\<lparr>node_ident := unat c\<rparr>) g = Inr h"
    and r: "parse_nodes env objs ids js (names(nj_name j \<mapsto> unat c)) (c + 1) h = Inr (g', names')"
    by (auto simp: rbind_eq_Inr)
  have "node_below (length (g_nodes g)) (n\<lparr>node_ident := unat c\<rparr>)"
    using parse_node_below [OF n Cons.prems(3)] by (simp add: node_below_def all_args_def)
  moreover have "node_ident (n\<lparr>node_ident := unat c\<rparr>) < 2 ^ 16" using unsigned_less [of c] by simp
  ultimately have b: "backward h" "g_nodes h = g_nodes g @ [n\<lparr>node_ident := unat c\<rparr>]" "unat c = length (g_nodes g)"
    using backward_add_node [OF Cons.prems(2) h] by simp_all
  have "names_below (names(nj_name j \<mapsto> unat c)) (length (g_nodes h))"
    using b(2,3) Cons.prems(3) by (auto simp: names_below_def less_Suc_eq)
  from Cons.IH [OF r b(1) this] show ?case using b(2) by simp
qed simp

lemma add_post_node_keeps:
  "add_post_node n g = Inr g' \<Longrightarrow> \<exists>ps. g' = g\<lparr>post_nodes := ps\<rparr>"
  by (auto simp: add_post_node_def split: option.splits if_splits)

lemma add_post_nodes_keeps:
  "add_post_nodes ns g = Inr g' \<Longrightarrow> \<exists>ps. g' = g\<lparr>post_nodes := ps\<rparr>"
proof (induction ns arbitrary: g)
  case (Cons n ns)
  then obtain h where h: "add_post_node n g = Inr h" "add_post_nodes ns h = Inr g'"
    by (auto simp: rbind_eq_Inr)
  obtain ps where "h = g\<lparr>post_nodes := ps\<rparr>" using add_post_node_keeps [OF h(1)] by blast
  then show ?case using Cons.IH [OF h(2)] by auto
qed (auto intro: exI [of _ "post_nodes g'"])

lemma backward_network: "add_node (network_node 0 f) graph_new = Inr g \<Longrightarrow> backward g \<and> length (g_nodes g) = 1"
proof -
  assume a: "add_node (network_node 0 f) graph_new = Inr g"
  have "backward graph_new" using topology_new by (simp add: backward_def graph_new_def)
  from backward_add_node [OF this a] show ?thesis
    by (simp add: node_below_def all_args_def network_node_def graph_new_def)
qed

definition file_nodes :: "graph_file \<Rightarrow> nat" where
  "file_nodes gf = length (gf_nodes gf) + (if gf_network_config gf = None then 0 else 1)"

lemma from_graph_file_steps:
  assumes "from_graph_file env gf = Inr spec"
  obtains objs ids nc g0 names0 c g names ps where
    "ropt (parse_network_config env objs ids (\<lambda>_. None)) (gf_network_config gf) = Inr nc"
    "(case nc of None \<Rightarrow> Inr (graph_new, \<lambda>_. None, 0)
      | Some c \<Rightarrow> rbind (lift_panic (add_node (network_node 0 (nc_frame_packets c)) graph_new)) (\<lambda>g.
          Inr (g, [''$network'' \<mapsto> 0], 1))) = Inr (g0, names0, c)"
    "parse_nodes env objs ids (gf_nodes gf) names0 c g0 = Inr (g, names)"
    "gs_graph spec = g\<lparr>post_nodes := ps\<rparr>"
proof -
  obtain objs ids nc g0 names0 c g names posts g' where
    nc: "ropt (parse_network_config env objs ids (\<lambda>_. None)) (gf_network_config gf) = Inr nc"
    and g0: "(case nc of None \<Rightarrow> Inr (graph_new, \<lambda>_. None, 0)
        | Some c \<Rightarrow> rbind (lift_panic (add_node (network_node 0 (nc_frame_packets c)) graph_new)) (\<lambda>g.
            Inr (g, [''$network'' \<mapsto> 0], 1))) = Inr (g0, names0, c)"
    and g: "parse_nodes env objs ids (gf_nodes gf) names0 c g0 = Inr (g, names)"
    and posts: "add_post_nodes posts g = Inr g'" and spec: "gs_graph spec = g'"
    using assms by (auto simp: from_graph_file_def rbind_eq_Inr)
  obtain ps where "g' = g\<lparr>post_nodes := ps\<rparr>" using add_post_nodes_keeps [OF posts] by blast
  then show ?thesis using that [OF nc g0 g] spec by simp
qed

lemma from_graph_file_backward:
  assumes "from_graph_file env gf = Inr spec"
  shows "backward (gs_graph spec)" "length (g_nodes (gs_graph spec)) = file_nodes gf"
proof -
  obtain objs ids nc g0 names0 c g names ps where
    nc: "ropt (parse_network_config env objs ids (\<lambda>_. None)) (gf_network_config gf) = Inr nc"
    and g0: "(case nc of None \<Rightarrow> Inr (graph_new, \<lambda>_. None, 0)
        | Some c \<Rightarrow> rbind (lift_panic (add_node (network_node 0 (nc_frame_packets c)) graph_new)) (\<lambda>g.
            Inr (g, [''$network'' \<mapsto> 0], 1))) = Inr (g0, names0, c)"
    and g: "parse_nodes env objs ids (gf_nodes gf) names0 c g0 = Inr (g, names)"
    and spec: "gs_graph spec = g\<lparr>post_nodes := ps\<rparr>"
    by (rule from_graph_file_steps [OF assms])
  have nc': "nc = None \<longleftrightarrow> gf_network_config gf = None" using nc by (auto simp: ropt_Inr split: option.splits)
  have start: "backward g0 \<and> names_below names0 (length (g_nodes g0)) \<and> length (g_nodes g0) = (if nc = None then 0 else 1)"
  proof (cases nc)
    case None
    then show ?thesis using g0 topology_new by (auto simp: backward_def names_below_def graph_new_def)
  next
    case (Some d)
    then show ?thesis using g0 backward_network by (auto simp: rbind_eq_Inr names_below_def split: if_splits)
  qed
  have b: "backward g" "length (g_nodes g) = length (g_nodes g0) + length (gf_nodes gf)"
    using parse_nodes_backward [OF g] start by blast+
  show "backward (gs_graph spec)" using b(1) by (simp add: spec backward_def topology_def)
  show "length (g_nodes (gs_graph spec)) = file_nodes gf" using b(2) nc' start by (simp add: spec file_nodes_def)
qed

lemma backward_preds:
  assumes "backward g" "i < length (g_nodes g)" "a \<in> set (all_args (g_nodes g ! i))" "arg_predecessor a = Some p"
  shows "pred_id p < i"
proof -
  have "arg_below i a"
    using assms(1-3) unfolding backward_def node_below_def list_all_iff by blast
  then show ?thesis using assms(4) by (simp add: arg_below_def)
qed

lemma backward_reads:
  assumes "backward g" "i < length (g_nodes g)" "reads (g_nodes g ! i) p"
  shows "p < i"
proof -
  obtain a q where a: "a \<in> set (node_args (g_nodes g ! i))" "arg_predecessor a = Some q" "pred_id q = p"
    using assms(3) by (auto simp: reads_def list_ex_iff reads_pred_def split: option.splits)
  then show ?thesis using backward_preds [OF assms(1,2) _ a(2)] by (simp add: all_args_def)
qed

lemma backward_preds_in_range: "backward g \<Longrightarrow> preds_in_range g"
  unfolding preds_in_range_reads
proof (intro ballI allI impI)
  fix n p assume g: "backward g" and n: "n \<in> set (g_nodes g)" "reads n p"
  then obtain i where "i < length (g_nodes g)" "n = g_nodes g ! i" by (auto simp: in_set_conv_nth)
  then show "p < length (g_nodes g)" using backward_reads [OF g] n(2) by fastforce
qed

lemma accepted_succs_forward:
  assumes "from_graph_file env gf = Inr spec" "s \<in> set (succs_of (successors (gs_graph spec)) p)"
  shows "p < s \<and> s < file_nodes gf"
proof -
  note b = from_graph_file_backward [OF assms(1)]
  have "s \<in> set (nodes_where (\<lambda>n. reads n p) (g_nodes (gs_graph spec)))"
    using assms(2) b(1) by (simp add: backward_def topology_def)
  then have "s < length (g_nodes (gs_graph spec))" "reads (g_nodes (gs_graph spec) ! s) p" by (simp_all add: nodes_where_def)
  then show ?thesis using backward_reads [OF b(1)] b(2) by simp
qed

lemma accepted_size:
  assumes "from_graph_file env gf = Inr spec"
  shows "file_nodes gf \<le> 2 ^ 16"
proof (cases "file_nodes gf")
  case (Suc m)
  then have "m < 2 ^ 16" using from_graph_file_backward [OF assms] unfolding backward_def by (metis lessI)
  then show ?thesis unfolding Suc by (rule Suc_leI)
qed simp

text \<open>C4: Every graph the compiler accepts is well formed and acyclic. Its nodes are numbered in the
  order of the file, after the network node if there is one, and there are at most 2^16 of them;
  the predecessors a node names, in its arguments, its loop arguments and its condition, come
  before it; edges lead forward to nodes of the graph; and dependency counts and routing tables can
  be built without a panic.\<close>

theorem accepted_graph_acyclic:
  assumes "from_graph_file env gf = Inr spec"
  defines "g \<equiv> gs_graph spec" and "N \<equiv> file_nodes gf"
  shows "map node_ident (g_nodes g) = [0..<N] \<and> N \<le> 2 ^ 16
    \<and> (\<forall>i < N. \<forall>a \<in> set (all_args (g_nodes g ! i)). \<forall>p. arg_predecessor a = Some p \<longrightarrow> pred_id p < i)
    \<and> (\<forall>p. \<forall>s \<in> set (succs_of (successors g) p). p < s \<and> s < N)
    \<and> (\<exists>deps. dependency_count_vec g = Inr deps \<and> length deps = N)
    \<and> (\<forall>b. \<exists>T. build_predecessor_tables b g = Inr T)"
proof -
  note b = from_graph_file_backward [OF assms(1), folded g_def N_def]
  have t: "topology g" using b(1) by (simp add: backward_def)
  note pr = backward_preds_in_range [OF b(1)]
  show ?thesis
  proof (intro conjI allI ballI impI)
    show "map node_ident (g_nodes g) = [0..<N]" using t b(2) by (simp add: topology_def)
    show "\<exists>deps. dependency_count_vec g = Inr deps \<and> length deps = N"
      using b(2) pr by (simp add: dependency_count_vec_def)
    show "\<exists>T. build_predecessor_tables x g = Inr T" for x
      by (rule build_predecessor_tables_ok [OF t pr, of x]) (rule exI)
    show "N \<le> 2 ^ 16" unfolding N_def by (rule accepted_size [OF assms(1)])
    show "pred_id p < i" if "i < N" "a \<in> set (all_args (g_nodes g ! i))" "arg_predecessor a = Some p" for i a p
      using that b(2) by (intro backward_preds [OF b(1)]) simp_all
    show "p < s" "s < N" if "s \<in> set (succs_of (successors g) p)" for p s
      using accepted_succs_forward [OF assms(1)] that by (simp_all add: g_def N_def)
  qed
qed

section \<open>A sample file\<close>

definition no_json :: json_complex where
  "no_json = \<lparr>json_c32 = \<lambda>_. None, json_c64 = \<lambda>_. None\<rparr>"

definition sample_env :: environment where
  "sample_env = \<lparr>env_json = no_json, env_func = \<lambda>_. Some (\<lambda>_. CmNone), env_workers = 8\<rparr>"

definition plain_node :: "string \<Rightarrow> factor option \<Rightarrow> arg_json list \<Rightarrow> node_json" where
  "plain_node name f as = \<lparr>nj_name = name, nj_factor = f, nj_function = ''work'', nj_loop = None,
     nj_loop_args = None, nj_args = as, nj_group_size = None, nj_condition = None,
     nj_priority = None, nj_use_workers = None\<rparr>"

text \<open>A node of as many instances as the object \<open>n\<close> says, and one that collects their results.\<close>

definition sample_inits :: "init_json list" where
  "sample_inits = [\<lparr>ij_name = ''n'', ij_factor = None, ij_args = [\<lparr>ai_type = ''usize'', ai_value = ''4''\<rparr>],
     ij_function = None\<rparr>]"

definition sample_file :: graph_file where
  "sample_file = \<lparr>gf_initializations = sample_inits,
     gf_nodes = [plain_node ''a'' (Some (FRef ''n'')) [\<lparr>aj_type = ''$ref'', aj_value = Some ''$index'',
         aj_condition = None, aj_predecessor = None\<rparr>],
       plain_node ''b'' None [\<lparr>aj_type = ''$res'', aj_value = None, aj_condition = None,
         aj_predecessor = Some \<lparr>pj_name = ''a'', pj_indexes = ''0-n'', pj_group_by = None\<rparr>\<rparr>]],
     gf_post_nodes = None, gf_network_config = None\<rparr>"

definition sample_ids :: ids where
  "sample_ids = [''$index'' \<mapsto> 0, ''$workers'' \<mapsto> 1, ''n'' \<mapsto> 2]"

lemmas literal_evals = string_to_cmtype_def parse_scalar_def PARSERS_def parse_word_def parse_integer_def
  parse_isize_def strip_sign_def is_digit_def digit_val_def digits_nat_def lift_literal_def parse_usize_def

lemma sample_objects: "init_objects sample_env sample_inits = Inr ([[CmUsize 0], [CmUsize 1], [CmUsize 4]], sample_ids)"
  by (simp add: init_objects_def sample_inits_def factor_or_one_def init_values_def sample_env_def
      literal_evals sample_ids_def)

theorem workers_factor_is_one_witness:
  "factor_resolve (FRef ''$workers'') [[CmUsize 0], [CmUsize 1], [CmUsize 4]] sample_ids (env_workers sample_env) = Inr 1"
  using workers_factor_is_one [OF sample_objects, of "env_workers sample_env"] by (simp add: sample_inits_def)

definition sample_spec :: graph_spec where
  "sample_spec = \<lparr>gs_graph = \<lparr>g_nodes =
       [\<lparr>node_name = ''a'', node_args = [\<lparr>arg_type = CmRef 0, arg_init_condition = None, arg_predecessor = None\<rparr>],
         node_ident = 0, node_loop_args = None, node_factor = 4, node_group_size = None,
         node_func_name = ''work'', node_loop = None, node_condition = None, node_prio = Normal,
         node_use_workers = None\<rparr>,
        \<lparr>node_name = ''b'', node_args = [res_arg 0 [0..3]], node_ident = 1, node_loop_args = None,
         node_factor = 1, node_group_size = None, node_func_name = ''work'', node_loop = None,
         node_condition = None, node_prio = Normal, node_use_workers = None\<rparr>],
       initial_nodes = [0], successors = [[1]], condition_nodes = {}, post_nodes = None\<rparr>,
     gs_network = None, gs_objects = [[CmUsize 0], [CmUsize 1], [CmUsize 4]]\<rparr>"

lemma show_nat_0: "show_nat 0 = ''0''"
  by (simp add: show_nat.simps digit_char_def char_of_def bit_Suc bit_0)

lemmas compile_evals = parse_single_node_def parse_arg_def arg_literal_def factor_or_one_def
  factor_resolve_def object_head_def parse_predecessor_def parse_indexes_def range_start_def range_stop_def
  index_ref_def validate_res_arg_layout_def is_condition_def multi_value_def lift_panic_def add_node_def
  graph_new_def arg_preds_def has_condition_def add_edge_def

lemma sample_accepted: "from_graph_file sample_env sample_file = Inr sample_spec"
proof -
  have o: "init_objects sample_env (gf_initializations sample_file)
      = Inr ([[CmUsize 0], [CmUsize 1], [CmUsize 4]], sample_ids)"
    by (simp add: sample_file_def sample_objects)
  show ?thesis
    by (simp add: from_graph_file_def o)
      (simp add: sample_file_def plain_node_def sample_ids_def sample_env_def show_nat_0 literal_evals
        compile_evals sample_spec_def res_arg_def)
qed

theorem accepted_graph_acyclic_witness:
  "map node_ident (g_nodes (gs_graph sample_spec)) = [0..<file_nodes sample_file]
   \<and> (\<exists>deps. dependency_count_vec (gs_graph sample_spec) = Inr deps \<and> length deps = file_nodes sample_file)
   \<and> (\<exists>T. build_predecessor_tables True (gs_graph sample_spec) = Inr T)"
  using accepted_graph_acyclic [OF sample_accepted] by blast

theorem index_syntax_witness:
  "parse_indexes [[CmUsize 0], [CmUsize 1], [CmUsize 4]] sample_ids ''a'' (show_int (- 1)) = Inl (Refused (InvalidRangeStart [] ''a''))
   \<and> parse_indexes [[CmUsize 0], [CmUsize 1], [CmUsize 4]] sample_ids ''a'' ''n'' = Inr [4]"
proof -
  have n: "sample_ids ''n'' = Some 2" "sample_ids [] = None" by (simp_all add: sample_ids_def)
  have p: "parse_isize ''n'' = None" by (simp add: literal_evals)
  have h: "object_head [[CmUsize 0], [CmUsize 1], [CmUsize 4]] 2 = Inr (CmUsize 4)" by (simp add: object_head_def)
  show ?thesis
    using index_syntax [where a = 0 and b = 3 and k = 1 and name = "''n''" and ids = sample_ids and i = 2 and w = 4
        and ks = "[0, 1]" and p = "''a''", OF _ _ _ _ _ _ p n(1) h _ _ _ n(2)] by simp
qed

lemma sample_compiles:
  "\<exists>c. compile sample_registry (\<lambda>_. 0) False False [] sample_spec = Inr c
     \<and> ce_arg_cache (gc_node_cache (gd_cache c) ! 0)
        = arg_cache_default\<lparr>ac_args := [CmNone], rt_idxs_indexes := [0]\<rparr>"
proof -
  have "case compile sample_registry (\<lambda>_. 0) False False [] sample_spec of
      Inr c \<Rightarrow> ce_arg_cache (gc_node_cache (gd_cache c) ! 0)
        = arg_cache_default\<lparr>ac_args := [CmNone], rt_idxs_indexes := [0]\<rparr> | _ \<Rightarrow> False"
    by code_simp
  then show ?thesis by (auto split: sum.splits)
qed

end
