(* ===== verification/Compiled_Run.thy ===== *)
theory Compiled_Run
  imports Inline_Termination Graph_Compile_Properties
begin

text \<open>
  Running what the compiler makes of a graph file: the edges of its arena lead forward, so the
  chain of inline continuations of a worker comes to an end.
\<close>

lemma forward_lists:
  assumes "topology g" "length (g_nodes g) = N" "\<And>s. s \<in> set (succs_of (successors g) p) \<Longrightarrow> p < s \<and> s < N"
  shows "length (succs_of (successors g) p) \<le> N - 1"
proof -
  have d: "distinct (succs_of (successors g) p)"
    using assms(1) by (simp add: topology_def nodes_where_def)
  have sub: "set (succs_of (successors g) p) \<subseteq> {1..<N}" using assms(3) by force
  have "length (succs_of (successors g) p) = card (set (succs_of (successors g) p))"
    using d by (simp add: distinct_card)
  also have "\<dots> \<le> card {1..<N}" by (rule card_mono [OF _ sub]) simp
  finally show ?thesis by simp
qed

lemma forward_edges_fit:
  assumes "\<And>p. length (succs_of succs p) \<le> N - 1" "N \<le> 2 ^ 16"
  shows "length (concat (map (edges_of succs cache T) [0..<N])) < 2 ^ 32"
proof (cases N)
  case (Suc m)
  have "length (concat (map (edges_of succs cache T) [0..<N])) = sum_list (map (\<lambda>p. length (succs_of succs p)) [0..<N])"
    by (simp add: length_concat edges_of_def comp_def)
  also have "\<dots> \<le> sum_list (map (\<lambda>p. m) [0..<N])"
    by (rule sum_list_mono) (use assms(1) Suc in simp)
  also have "\<dots> = N * m" by (simp add: sum_list_triv)
  also have "\<dots> \<le> 2 ^ 16 * m" using assms(2) by (rule mult_le_mono1)
  also have "\<dots> < 2 ^ 16 * 2 ^ 16" using assms(2) Suc by simp
  finally show ?thesis by simp
qed simp

lemma compiled_edges_forward:
  assumes "from_graph_file env gf = Inr spec" "compile reg affinity td r1 order spec = Inr c"
    and "edges_for (gc_arena (gd_cache c)) i = Inr es" "e \<in> set es"
  shows "i < succ_id e \<and> succ_id e < file_nodes gf"
proof -
  let ?g = "gs_graph spec"
  note b = from_graph_file_backward [OF assms(1)]
  have t: "topology ?g" using b(1) by (simp add: backward_def)
  have fw: "p < s \<and> s < file_nodes gf" if "s \<in> set (succs_of (successors ?g) p)" for p s
    using that accepted_succs_forward [OF assms(1)] by blast
  obtain cache T where a: "build_arena (successors ?g) (file_nodes gf) cache T = Inr (gc_arena (gd_cache c))"
    using assms(2) b(2) by (auto simp: compile_def rbind_eq_Inr Let_def)
  have fit: "length (concat (map (edges_of (successors ?g) cache T) [0..<file_nodes gf])) < 2 ^ 32"
    by (rule forward_edges_fit [OF forward_lists [OF t b(2)] accepted_size [OF assms(1)]]) (rule fw)
  have "es = (if i < file_nodes gf then edges_of (successors ?g) cache T i else [])"
    using assms(3) edges_for_build [OF a fit] by simp
  then have "succ_id e \<in> set (succs_of (successors ?g) i)"
    using assms(4) by (auto simp: edges_of_def make_edge_def split: if_splits)
  then show ?thesis by (rule fw)
qed

text \<open>C2: On the runtime compiled from any accepted graph file, a worker that starts at any task, in
  any state, comes to the end of its chain of inline continuations, with the final state or a panic,
  unless a task of the chain itself waits for a result: it never goes on from task to task for ever,
  however many successors become ready on the way. Each continuation goes to a later node of the
  file.\<close>

theorem compiled_chain_terminates:
  assumes "from_graph_file env gf = Inr spec" "compile reg affinity td r1 order spec = Inr c"
  shows "((\<exists>r. run_node cfg (gd_cache c) sv func ni args tpls s = Some r)
      \<or> (\<exists>p. (continues cfg (gd_cache c) sv)\<^sup>*\<^sup>* (func, ni, args, tpls, s) p \<and> waits cfg (gd_cache c) sv p))
    \<and> (execute_task cfg (gd_cache c) sv func ni args tpls s = Some (Inr (tpls', s', Some ni'))
        \<longrightarrow> ni_id ni < ni_id ni' \<and> ni_id ni' < file_nodes gf)"
proof (intro conjI impI)
  have "chain_ends cfg (gd_cache c) sv (func, ni, args, tpls, s)"
  proof (rule inline_continuation_terminates [where rank = "\<lambda>i. file_nodes gf - i"])
    fix i es e assume "edges_for (gc_arena (gd_cache c)) i = Inr es" "e \<in> set es"
    then show "file_nodes gf - succ_id e < file_nodes gf - i"
      using compiled_edges_forward [OF assms] by fastforce
  qed
  then show "(\<exists>r. run_node cfg (gd_cache c) sv func ni args tpls s = Some r)
      \<or> (\<exists>p. (continues cfg (gd_cache c) sv)\<^sup>*\<^sup>* (func, ni, args, tpls, s) p \<and> waits cfg (gd_cache c) sv p)"
    by (simp add: chain_ends_def)
  assume step: "execute_task cfg (gd_cache c) sv func ni args tpls s = Some (Inr (tpls', s', Some ni'))"
  show "ni_id ni < ni_id ni'" "ni_id ni' < file_nodes gf"
    using execute_inline_id [OF step] compiled_edges_forward [OF assms] by (auto simp: succ_ids_def)
qed

theorem compiled_chain_terminates_witness:
  "\<exists>c. compile sample_registry (\<lambda>_. 0) False False [] sample_spec = Inr c
     \<and> ((\<exists>r. run_node inline_config (gd_cache c) demo_services DefaultPointer (node_info_new 0 0 0 0) None [] demo_state = Some r)
        \<or> (\<exists>p. (continues inline_config (gd_cache c) demo_services)\<^sup>*\<^sup>*
              (DefaultPointer, node_info_new 0 0 0 0, None, [], demo_state) p
            \<and> waits inline_config (gd_cache c) demo_services p))"
proof -
  obtain c where c: "compile sample_registry (\<lambda>_. 0) False False [] sample_spec = Inr c" using sample_compiles by blast
  show ?thesis using c compiled_chain_terminates [OF sample_accepted c] by blast
qed

end
