(* ===== verification/Arg_Slots.thy ===== *)
theory Arg_Slots
  imports Arg_Resolution
begin

text \<open>
  What the population of an argument buffer writes where: the buffer and runtime references, and
  the results of predecessors, of which only the last may be spliced in as several values.
\<close>

section \<open>References\<close>

lemma put_at_Inr: "put_at i v buf = Inr b \<longleftrightarrow> i < length buf \<and> b = buf[i := v]"
  by (auto simp: put_at_def)

lemma put_all_slots:
  "put_all is v buf = Inr b \<Longrightarrow> length b = length buf \<and> (\<forall>i < length buf. b ! i = (if i \<in> set is then v else buf ! i))"
  by (induction "is" arbitrary: buf) (auto simp: rbind_eq_Inr put_at_Inr nth_list_update)

lemma put_pairs_slots:
  "put_pairs ps v w buf = Inr b \<Longrightarrow> fst ` set ps \<inter> snd ` set ps = {} \<Longrightarrow>
     length b = length buf
     \<and> (\<forall>i < length buf. b ! i = (if i \<in> fst ` set ps then v else if i \<in> snd ` set ps then w else buf ! i))"
proof (induction ps arbitrary: buf)
  case (Cons p ps)
  obtain i j where p: "p = (i, j)" by force
  have b: "i < length buf" "j < length buf" "put_pairs ps v w (buf[i := v, j := w]) = Inr b"
    using Cons.prems(1) by (auto simp: p rbind_eq_Inr put_at_Inr)
  have d: "fst ` set ps \<inter> snd ` set ps = {}" using Cons.prems(2) by (auto simp: p)
  show ?case using Cons.IH [OF b(3) d] b(1,2) Cons.prems(2) by (auto simp: p nth_list_update)
qed simp

lemma process_runtime_slots:
  assumes "process_runtime_refs ac node_index workers buf = Inr b"
    and d: "set (rt_idxs_indexes ac) \<inter> set (rt_workers_indexes ac) = {}"
  shows "length b = length buf
    \<and> (\<forall>i < length buf. b ! i = (if i \<in> set (rt_idxs_indexes ac) then CmUsize (word_of_nat node_index)
        else if i \<in> set (rt_workers_indexes ac) then CmUsize (word_of_nat workers) else buf ! i))"
proof (cases "length (rt_idxs_indexes ac) = length (rt_workers_indexes ac)")
  case True
  let ?ps = "zip (rt_idxs_indexes ac) (rt_workers_indexes ac)"
  have s: "fst ` set ?ps = set (rt_idxs_indexes ac)" "snd ` set ?ps = set (rt_workers_indexes ac)"
    using map_fst_zip [OF True] map_snd_zip [OF True] by (simp_all flip: set_map)
  show ?thesis
    using put_pairs_slots [of ?ps _ _ buf b, unfolded s, OF _ d] assms(1) True
    by (simp add: process_runtime_refs_def Let_def)
next
  case False
  then obtain b1 where "put_all (rt_idxs_indexes ac) (CmUsize (word_of_nat node_index)) buf = Inr b1"
    "put_all (rt_workers_indexes ac) (CmUsize (word_of_nat workers)) b1 = Inr b"
    using assms(1) by (auto simp: process_runtime_refs_def Let_def rbind_eq_Inr)
  then show ?thesis using put_all_slots [of _ _ buf b1] put_all_slots [of _ _ b1 b] d by auto
qed

lemma put_buffers_slots:
  "put_buffers n idxs vals buf = Inr b \<Longrightarrow> distinct idxs \<Longrightarrow> length vals = length idxs \<Longrightarrow>
     length b = length buf
     \<and> (\<forall>k < length idxs. get_object_value (vals ! k) n = Inr (b ! (idxs ! k)))
     \<and> (\<forall>i < length buf. i \<notin> set idxs \<longrightarrow> b ! i = buf ! i)"
proof (induction n idxs vals buf rule: put_buffers.induct)
  case (3 n idx idxs v vals buf)
  then obtain x where x: "get_object_value v n = Inr x" "idx < length buf"
    "put_buffers n idxs vals (buf[idx := x]) = Inr b"
    by (auto simp: rbind_eq_Inr put_at_Inr)
  have IH: "length b = length (buf[idx := x])
     \<and> (\<forall>k < length idxs. get_object_value (vals ! k) n = Inr (b ! (idxs ! k)))
     \<and> (\<forall>i < length (buf[idx := x]). i \<notin> set idxs \<longrightarrow> b ! i = buf[idx := x] ! i)"
    using 3 x by (auto simp: put_at_Inr)
  show ?case
  proof (intro conjI allI impI)
    fix k assume "k < length (idx # idxs)"
    then show "get_object_value ((v # vals) ! k) n = Inr (b ! ((idx # idxs) ! k))"
      using IH x(1,2) 3(3) by (cases k) auto
  qed (use IH in \<open>auto simp: nth_list_update\<close>)
qed auto

section \<open>Results\<close>

definition collects ::
  "arg_config \<Rightarrow> nat option list list \<Rightarrow> reader \<Rightarrow> nat \<Rightarrow> nat \<Rightarrow> res_pred_cache \<Rightarrow> cm_types list option \<Rightarrow> bool \<Rightarrow> bool" where
  "collects cfg tbl rd node_index pred_index rp r stale \<longleftrightarrow>
     (\<exists>t t'. collect_res_from_cache cfg tbl rd rp node_index pred_index t = Some (Inr ((r, stale), t')))"

lemma tlift_Some: "tlift r t = Some (Inr (a, t')) \<longleftrightarrow> r = Inr a \<and> t' = t"
  by (auto simp: tlift_def split: sum.splits)

lemma tret_Some [simp]: "tret a t = Some (Inr r) \<longleftrightarrow> r = (a, t)"
  by (auto simp: tret_def)

lemma one_result: "Some vs = map_option (\<lambda>v. [v]) r \<Longrightarrow> length vs = 1"
  by (cases r) auto

lemma fetch_width:
  assumes "fetch_res_results cfg rd rid is ni pi nf pf ngs gs hb t = Some (Inr ((Some vs, stale), t'))"
    and w: "length is \<le> 1 \<or> length is = nf"
  shows "length vs = 1"
proof -
  consider "is = []" | "is \<noteq> []" "length is = 1" | "is \<noteq> []" "length is \<noteq> 1" "1 < length is \<and> length is = nf"
    using w by (cases "is") auto
  then show ?thesis
    using assms(1) by cases (auto simp: fetch_res_results_def tbind_Some case_prod_beta dest: one_result)
qed

lemma collect_width:
  assumes "collects cfg tbl rd ni pi rp (Some vs) stale" "width_one rp"
  shows "length vs = 1"
proof (cases "rp_is_dep rp")
  case True
  then show ?thesis using assms(1) by (auto simp: collects_def collect_res_from_cache_def)
next
  case False
  then have w: "length (rp_indexes rp) \<le> 1 \<or> length (rp_indexes rp) = rp_node_factor rp"
    using assms(2) by (simp add: width_one_def)
  from assms(1) False obtain gs t1 t2 where
    "fetch_res_results cfg rd (rp_res_node_id rp) (rp_indexes rp) ni pi (rp_node_factor rp)
       (rp_pred_factor rp) (rp_node_group_size rp) gs (rp_node_has_barrier rp) t1 = Some (Inr ((Some vs, stale), t2))"
    by (auto simp: collects_def collect_res_from_cache_def tbind_Some)
  then show ?thesis by (rule fetch_width [OF _ w])
qed

text \<open>What a buffer holds where a single result belongs: the value that was collected, or its old
  content when none was.\<close>

definition result_slot ::
  "arg_config \<Rightarrow> nat option list list \<Rightarrow> reader \<Rightarrow> nat \<Rightarrow> nat \<Rightarrow> res_pred_cache \<Rightarrow> bool \<Rightarrow> cm_types \<Rightarrow> cm_types \<Rightarrow> bool" where
  "result_slot cfg tbl rd node_index pred_index rp stale old new \<longleftrightarrow>
     (\<exists>st. collects cfg tbl rd node_index pred_index rp (Some [new]) st)
     \<or> (new = old \<and> (stale \<or> collects cfg tbl rd node_index pred_index rp None False))"

definition untouched :: "(nat \<times> res_pred_cache) list \<Rightarrow> nat \<Rightarrow> bool" where
  "untouched prs i \<longleftrightarrow> i \<notin> fst ` set prs \<and> (prs \<noteq> [] \<and> \<not> width_one (snd (last prs)) \<longrightarrow> i < fst (last prs))"

lemma sorted_below_last: "sorted_wrt (<) (map fst (p # rest)) \<Longrightarrow> rest \<noteq> [] \<Longrightarrow> fst p < (fst (last rest) :: nat)"
  by simp

lemma splice_step:
  assumes "collect_res_from_cache cfg tbl rd rp ni pi t = Some (Inr ((res, st), t1))"
    and "(case res of Some vs \<Rightarrow> tlift (splice_at r vs buf) | None \<Rightarrow> tret buf) t1 = Some (Inr (buf1, t2))"
  shows "i < length buf \<Longrightarrow> i \<noteq> r \<Longrightarrow> width_one rp \<or> i < r \<Longrightarrow> i < length buf1 \<and> buf1 ! i = buf ! i"
    and "width_one rp \<Longrightarrow> length buf1 = length buf"
    and "width_one rp \<Longrightarrow> r < length buf \<Longrightarrow> result_slot cfg tbl rd ni pi rp st (buf ! r) (buf1 ! r)"
proof -
  have c: "collects cfg tbl rd ni pi rp res st" using assms(1) unfolding collects_def by blast
  show "i < length buf \<Longrightarrow> i \<noteq> r \<Longrightarrow> width_one rp \<or> i < r \<Longrightarrow> i < length buf1 \<and> buf1 ! i = buf ! i"
  proof (cases res)
    case (Some vs)
    then have s: "splice_at r vs buf = Inr buf1" using assms(2) by (simp add: tlift_Some)
    assume i: "i < length buf" "i \<noteq> r" "width_one rp \<or> i < r"
    show ?thesis
    proof (cases "length vs = 1")
      case True
      then show ?thesis using s i by (auto simp: splice_at_def put_at_Inr length_Suc_conv)
    next
      case False
      then have "i < r" using collect_width c i(3) Some by blast
      moreover have "buf1 = take r buf @ vs @ drop (r + 1) buf" "r < length buf"
        using s False by (auto simp: splice_at_def split: list.splits if_splits)
      ultimately show ?thesis by (simp add: nth_append)
    qed
  qed (use assms(2) in simp)
  assume w: "width_one rp"
  have single: "\<exists>v. vs = [v]" if "res = Some vs" for vs
    using collect_width [OF _ w] c that by (auto simp: length_Suc_conv)
  show "length buf1 = length buf"
    using assms(2) single by (cases res) (auto simp: tlift_Some splice_at_def put_at_Inr)
  assume "r < length buf"
  then show "result_slot cfg tbl rd ni pi rp st (buf ! r) (buf1 ! r)"
  proof (cases res)
    case None
    then show ?thesis using assms(2) c by (cases st) (auto simp: result_slot_def)
  next
    case (Some vs)
    then obtain v where "vs = [v]" using single by blast
    then show ?thesis
      using assms(2) c Some \<open>r < length buf\<close> by (auto simp: tlift_Some splice_at_def put_at_Inr result_slot_def)
  qed
qed

lemma fill_results_slots:
  "fill_results cfg tbl rd ni pi prs buf t = Some (Inr ((buf', stale), t')) \<Longrightarrow>
   sorted_wrt (<) (map fst prs) \<Longrightarrow> list_all (\<lambda>p. width_one (snd p)) (butlast prs) \<Longrightarrow>
   (\<forall>i < length buf. untouched prs i \<longrightarrow> i < length buf' \<and> buf' ! i = buf ! i)
   \<and> (\<forall>(r, rp) \<in> set prs. width_one rp \<longrightarrow> r < length buf \<longrightarrow>
        r < length buf' \<and> result_slot cfg tbl rd ni pi rp stale (buf ! r) (buf' ! r))"
proof (induction prs arbitrary: buf t)
  case (Cons p rest)
  obtain r rp where p: "p = (r, rp)" by force
  obtain res st t1 buf1 t2 where c: "collect_res_from_cache cfg tbl rd rp ni pi t = Some (Inr ((res, st), t1))"
    and s: "(case res of Some vs \<Rightarrow> tlift (splice_at r vs buf) | None \<Rightarrow> tret buf) t1 = Some (Inr (buf1, t2))"
    and go: "(if st then tret (buf1, True) else fill_results cfg tbl rd ni pi rest buf1) t2 = Some (Inr ((buf', stale), t'))"
    using Cons.prems(1) by (auto simp: p tbind_Some)
  note st1 = splice_step [OF c s]
  have narrow: "rest \<noteq> [] \<Longrightarrow> width_one rp" using Cons.prems(3) by (cases rest) (simp_all add: p)
  have first: "i < length buf1 \<and> buf1 ! i = buf ! i" if "i < length buf" "untouched (p # rest) i" for i
    using st1(1) [OF that(1)] that(2) narrow by (cases "rest = []") (auto simp: untouched_def p)
  have others: "r2 < length buf1 \<and> buf1 ! r2 = buf ! r2" if "(r2, rp2) \<in> set rest" "r2 < length buf" for r2 rp2
  proof -
    have "rest \<noteq> []" using that(1) by auto
    then have "width_one rp" "r2 \<noteq> r" using that(1) narrow Cons.prems(2) by (auto simp: p)
    then show ?thesis using st1(1) [OF that(2)] by blast
  qed
  show ?case
  proof (cases st)
    case True
    then have b: "buf' = buf1" stale using go by simp_all
    have "r2 < length buf' \<and> result_slot cfg tbl rd ni pi rp2 stale (buf ! r2) (buf' ! r2)"
      if m: "(r2, rp2) \<in> set (p # rest)" and w: "width_one rp2" "r2 < length buf" for r2 rp2
    proof (cases "(r2, rp2) = p")
      case eq: True
      then show ?thesis using st1(2,3) w b True by (simp add: p)
    next
      case False
      then show ?thesis using others [of r2 rp2] m w b by (auto simp: result_slot_def)
    qed
    then show ?thesis using first b(1) by blast
  next
    case False
    then have go': "fill_results cfg tbl rd ni pi rest buf1 t2 = Some (Inr ((buf', stale), t'))" using go by simp
    have "sorted_wrt (<) (map fst rest)" "list_all (\<lambda>p. width_one (snd p)) (butlast rest)"
      using Cons.prems(2,3) by (auto simp: list_all_iff split: if_splits)
    note IH = Cons.IH [OF go' this]
    have keep: "untouched (p # rest) i \<Longrightarrow> untouched rest i" for i by (auto simp: untouched_def)
    have here: "untouched rest r"
      using Cons.prems(2) sorted_below_last [OF Cons.prems(2)] by (auto simp: untouched_def p)
    have "r2 < length buf' \<and> result_slot cfg tbl rd ni pi rp2 stale (buf ! r2) (buf' ! r2)"
      if m: "(r2, rp2) \<in> set (p # rest)" and w: "width_one rp2" "r2 < length buf" for r2 rp2
    proof (cases "(r2, rp2) = p")
      case eq: True
      then have "r < length buf1" "result_slot cfg tbl rd ni pi rp False (buf ! r) (buf1 ! r)"
        using st1(2,3) w False by (simp_all add: p)
      then show ?thesis using IH here eq by (auto simp: p result_slot_def)
    next
      case False
      then have "(r2, rp2) \<in> set rest" using m by simp
      then show ?thesis using others [of r2 rp2] IH w by fastforce
    qed
    moreover have "i < length buf' \<and> buf' ! i = buf ! i" if "i < length buf" "untouched (p # rest) i" for i
      using first [OF that] IH keep [OF that(2)] by simp
    ultimately show ?thesis by blast
  qed
qed simp

end
