(* ===== verification/Arg_Layout.thy ===== *)
theory Arg_Layout
  imports Arg_Slots Graph_Compile_Properties
begin

text \<open>
  From the arguments of a node in the graph file to the argument buffer its function is called
  with: the argument cache in closed form, and the layout check of the compiler as what keeps every
  argument in its own slot.
\<close>

section \<open>Slots\<close>

definition layout :: "arg list \<Rightarrow> arg list" where
  "layout as = filter (\<lambda>a. \<not> is_condition a) as"

definition places :: "(arg \<Rightarrow> bool) \<Rightarrow> arg list \<Rightarrow> nat list" where
  "places P L = filter (\<lambda>j. P (L ! j)) [0..<length L]"

definition slots :: "(arg \<Rightarrow> bool) \<Rightarrow> nat \<Rightarrow> arg list \<Rightarrow> nat list" where
  "slots P c L = map ((+) c) (places P L)"

lemma places_Cons: "places P (a # L) = (if P a then [0] else []) @ map Suc (places P L)"
proof -
  have "[0..<length (a # L)] = 0 # map Suc [0..<length L]"
    by (simp only: length_Cons map_Suc_upt) (rule upt_conv_Cons, simp)
  then show ?thesis by (simp add: places_def filter_map comp_def)
qed

lemma slots_Nil [simp]: "slots P c [] = []"
  by (simp add: slots_def places_def)

lemma slots_Cons: "slots P c (a # L) = (if P a then [c] else []) @ slots P (Suc c) L"
  by (simp add: slots_def places_Cons comp_def)

lemma slots_0 [simp]: "slots P 0 L = places P L"
  by (simp add: slots_def map_idI)

lemma set_places [simp]: "j \<in> set (places P L) \<longleftrightarrow> j < length L \<and> P (L ! j)"
  by (auto simp: places_def)

lemma places_sorted: "sorted_wrt (<) (places P L)"
  by (simp add: places_def sorted_wrt_filter)

lemma places_distinct: "distinct (places P L)"
  by (simp add: places_def)

lemma filter_places: "filter P L = map ((!) L) (places P L)"
  by (induction L) (simp_all add: places_Cons, simp add: places_def)

section \<open>The argument cache in closed form\<close>

fun ref_of :: "cm_types \<Rightarrow> nat" where
  "ref_of (CmRef k) = k"
| "ref_of _ = 0"

definition is_index_ref :: "arg \<Rightarrow> bool" where "is_index_ref a \<longleftrightarrow> arg_type a = CmRef 0"
definition is_workers_ref :: "arg \<Rightarrow> bool" where "is_workers_ref a \<longleftrightarrow> arg_type a = CmRef 1"

definition is_rotation :: "objects \<Rightarrow> arg \<Rightarrow> bool" where
  "is_rotation objs a \<longleftrightarrow> (case arg_type a of CmRef k \<Rightarrow> 1 < k \<and> 1 < length (objs ! k) | _ \<Rightarrow> False)"

definition is_dependency :: "arg \<Rightarrow> bool" where
  "is_dependency a \<longleftrightarrow> (case arg_type a of CmRes _ \<Rightarrow> True | CmDep _ \<Rightarrow> True | _ \<Rightarrow> False)"

definition static_slot :: "objects \<Rightarrow> arg \<Rightarrow> cm_types \<Rightarrow> cm_types" where
  "static_slot objs a old =
     (case arg_type a of
        CmRef k \<Rightarrow> if k \<le> 1 \<or> 1 < length (objs ! k) then old else objs ! k ! 0
      | CmRes _ \<Rightarrow> old | CmDep _ \<Rightarrow> old | CmBarrier _ \<Rightarrow> old | v \<Rightarrow> v)"

text \<open>What the arguments from the \<open>c\<close>th slot on have added to a cache.\<close>

definition cache_of :: "objects \<Rightarrow> nat \<Rightarrow> arg list \<Rightarrow> arg_cache_entry \<Rightarrow> arg_cache_entry \<Rightarrow> bool" where
  "cache_of objs c L ac ac' \<longleftrightarrow>
     rt_idxs_indexes ac' = rt_idxs_indexes ac @ slots is_index_ref c L
     \<and> rt_workers_indexes ac' = rt_workers_indexes ac @ slots is_workers_ref c L
     \<and> buffer_ref_indexes ac' = buffer_ref_indexes ac @ slots (is_rotation objs) c L
     \<and> buffer_values ac' = buffer_values ac @ map (\<lambda>a. objs ! ref_of (arg_type a)) (filter (is_rotation objs) L)
     \<and> res_indexes ac' = res_indexes ac @ slots is_dependency c L
     \<and> length (ac_args ac') = length (ac_args ac)
     \<and> (\<forall>i < length (ac_args ac). ac_args ac' ! i =
          (if c \<le> i \<and> i < c + length L then static_slot objs (L ! (i - c)) (ac_args ac ! i) else ac_args ac ! i))
     \<and> (\<forall>a \<in> set L. case arg_type a of CmRef k \<Rightarrow> k \<le> 1 \<or> k < length objs \<and> objs ! k \<noteq> [] | _ \<Rightarrow> True)"

definition cache_step ::
  "objects \<Rightarrow> arg \<Rightarrow> nat \<Rightarrow> nat \<Rightarrow> arg_cache_entry \<times> (node_id \<times> nat list) list
     \<Rightarrow> (arg_cache_entry \<times> (node_id \<times> nat list) list) result" where
  "cache_step objs a idx c st =
     (case st of (ac, h) \<Rightarrow>
        case arg_type a of
          CmRef obj_id \<Rightarrow> rbind (cache_ref objs obj_id c ac) (\<lambda>ac'. Inr (ac', h))
        | CmRes _ \<Rightarrow> Inr (cache_res idx c ac, push_pred a h)
        | CmDep _ \<Rightarrow> Inr (cache_res idx c ac, push_pred a h)
        | CmBarrier _ \<Rightarrow> Inr (ac, h)
        | v \<Rightarrow> Inr (ac\<lparr>ac_args := (ac_args ac)[c := v]\<rparr>, h))"

lemma arg_cache_loop_step:
  "arg_cache_loop objs skip (a # as) idx c (ac, h) =
     (if skip \<and> is_condition a then arg_cache_loop objs skip as (idx + 1) c (ac, h)
      else rbind (cache_step objs a idx c (ac, h)) (arg_cache_loop objs skip as (idx + 1) (c + 1)))"
  by (simp add: cache_step_def)

lemma cache_step_of:
  assumes "cache_step objs a idx c (ac, h) = Inr (ac1, h1)"
  shows "cache_of objs c [a] ac ac1"
proof (cases "arg_type a")
  case (CmRef k)
  then show ?thesis
    using assms
    by (auto simp: cache_step_def cache_ref_def cache_of_def slots_Cons is_index_ref_def is_workers_ref_def
        is_rotation_def is_dependency_def static_slot_def rbind_eq_Inr nth_list_update Let_def split: if_splits)
qed (use assms in \<open>auto simp: cache_step_def cache_res_def cache_of_def slots_Cons is_index_ref_def
    is_workers_ref_def is_rotation_def is_dependency_def static_slot_def nth_list_update\<close>)

lemma cache_of_trans:
  assumes "cache_of objs c [a] ac ac1" "cache_of objs (Suc c) L ac1 ac2"
  shows "cache_of objs c (a # L) ac ac2"
proof -
  have "ac_args ac2 ! i = (if c \<le> i \<and> i < c + length (a # L)
      then static_slot objs ((a # L) ! (i - c)) (ac_args ac ! i) else ac_args ac ! i)"
    if "i < length (ac_args ac)" for i
  proof (cases "i = c")
    case True
    then show ?thesis using assms that by (simp add: cache_of_def)
  next
    case False
    then have "ac_args ac1 ! i = ac_args ac ! i" using assms(1) that by (auto simp: cache_of_def)
    then show ?thesis using assms that False by (auto simp: cache_of_def nth_Cons' Suc_le_eq)
  qed
  then show ?thesis using assms by (simp add: cache_of_def slots_Cons)
qed

lemma arg_cache_loop_of:
  "arg_cache_loop objs True as idx c (ac, h) = Inr (ac', h') \<Longrightarrow> cache_of objs c (layout as) ac ac'"
proof (induction as arbitrary: idx c ac h)
  case Nil
  then show ?case by (auto simp: layout_def cache_of_def)
next
  case (Cons a as)
  show ?case
  proof (cases "is_condition a")
    case True
    then show ?thesis using Cons by (simp add: layout_def)
  next
    case False
    then obtain ac1 h1 where s: "cache_step objs a idx c (ac, h) = Inr (ac1, h1)"
      "arg_cache_loop objs True as (idx + 1) (c + 1) (ac1, h1) = Inr (ac', h')"
      using Cons.prems by (auto simp: arg_cache_loop_step rbind_eq_Inr simp del: arg_cache_loop.simps)
    show ?thesis
      using cache_of_trans [OF cache_step_of [OF s(1)]] Cons.IH [OF s(2)] False by (simp add: layout_def)
  qed
qed

section \<open>The cache entry of a node\<close>

text \<open>The cached form of one dependency argument.\<close>

definition caches_dependency :: "node \<Rightarrow> arg \<Rightarrow> res_pred_cache \<Rightarrow> bool" where
  "caches_dependency n a rp \<longleftrightarrow>
     (case arg_type a of
        CmRes k \<Rightarrow> \<not> rp_is_dep rp \<and> rp_res_node_id rp = k \<and> rp_node_factor rp = node_factor n
          \<and> rp_indexes rp = (case arg_predecessor a of Some p \<Rightarrow> pred_indexes p | None \<Rightarrow> [])
      | CmDep k \<Rightarrow> rp_is_dep rp
      | _ \<Rightarrow> False)"

lemma build_res_preds_other:
  "\<not> is_dependency a \<Longrightarrow> build_res_preds g nid n skip (a # as) = build_res_preds g nid n skip as"
  by (cases "arg_type a") (simp_all add: is_dependency_def)

lemma build_res_preds_dependency:
  assumes "is_dependency a" "\<not> is_condition a" "build_res_preds g nid n skip (a # as) = Inr rps"
  shows "\<exists>rp v. rps = rp # v \<and> caches_dependency n a rp \<and> build_res_preds g nid n skip as = Inr v"
  using assms by (cases "arg_type a")
    (auto simp: is_dependency_def caches_dependency_def rbind_eq_Inr split: if_splits)

lemma build_res_preds_layout:
  "build_res_preds g nid n True as = Inr rps \<Longrightarrow>
     list_all2 (caches_dependency n) (filter is_dependency (layout as)) rps"
proof (induction as arbitrary: rps)
  case (Cons a as)
  consider "is_condition a" | "\<not> is_condition a" "is_dependency a" | "\<not> is_condition a" "\<not> is_dependency a" by blast
  then show ?case
  proof cases
    case 1
    then show ?thesis using Cons by (simp add: layout_def)
  next
    case 2
    then obtain rp v where v: "rps = rp # v" "caches_dependency n a rp" "build_res_preds g nid n True as = Inr v"
      using build_res_preds_dependency Cons.prems by blast
    then show ?thesis using Cons.IH [OF v(3)] 2 by (simp add: layout_def)
  next
    case 3
    then show ?thesis using Cons.IH Cons.prems unfolding build_res_preds_other [OF 3(2)] by (simp add: layout_def)
  qed
qed (simp add: layout_def)

text \<open>The argument cache of a node as compilation leaves it.\<close>

definition entry_of_args :: "objects \<Rightarrow> node \<Rightarrow> arg_cache_entry \<Rightarrow> bool" where
  "entry_of_args objs n ac \<longleftrightarrow>
     cache_of objs 0 (layout (node_args n))
       (arg_cache_default\<lparr>ac_args := replicate (length (node_args n)) CmNone\<rparr>) (ac\<lparr>res_predecessors := []\<rparr>)
     \<and> list_all2 (caches_dependency n) (filter is_dependency (layout (node_args n))) (res_predecessors ac)"

lemma cache_of_res_preds: "cache_of objs c L ac0 (ac\<lparr>res_predecessors := x\<rparr>) = cache_of objs c L ac0 ac"
  by (simp add: cache_of_def)

lemma node_cache_entry_args:
  assumes "node_cache_entry reg order n objs initials conds = Inr e" "node_name n \<noteq> ''$network''"
  shows "cache_of objs 0 (layout (node_args n))
    (arg_cache_default\<lparr>ac_args := replicate (length (node_args n)) CmNone\<rparr>) (ce_arg_cache e)"
proof -
  obtain ac h where "build_arg_cache (node_args n) objs True = Inr (ac, h)" "ce_arg_cache e = ac"
    using assms by (auto simp: node_cache_entry_def rbind_eq_Inr)
  then show ?thesis using arg_cache_loop_of by (simp add: build_arg_cache_def)
qed

lemma mapi_args: "(\<And>i e. ce_arg_cache (f i e) = ce_arg_cache e) \<Longrightarrow> map ce_arg_cache (mapi f xs) = map ce_arg_cache xs"
  by (rule nth_equalityI) simp_all

text \<open>The passes between the first and the last leave the argument caches alone.\<close>

lemma build_node_cache_passes:
  assumes "build_node_cache reg affinity td order g objs = Inr cache"
  obtains c0 c5 c6 where
    "rmap (\<lambda>n. node_cache_entry reg order n objs (initial_nodes g) (condition_nodes g)) (g_nodes g) = Inr c0"
    "map ce_arg_cache c5 = map ce_arg_cache c0"
    "rmap (\<lambda>nid. set_res_preds g nid (c5 ! nid)) [0..<length c5] = Inr c6"
    "cache = map (set_template_stable td) c6"
proof -
  obtain c0 where c0: "rmap (\<lambda>n. node_cache_entry reg order n objs (initial_nodes g) (condition_nodes g)) (g_nodes g) = Inr c0"
    using assms by (auto simp: build_node_cache_def rbind_eq_Inr)
  define c1 where "c1 = mapi (set_successor_count g) c0"
  define c2 where "c2 = mapi (\<lambda>nid e. e\<lparr>ce_worker_resolvable := is_worker_resolvable g c1 nid\<rparr>) c1"
  define c3 where "c3 = mapi (\<lambda>nid e. e\<lparr>ce_needs_result_store := has_res_consumer g nid\<rparr>) c2"
  define c4 where "c4 = mapi (\<lambda>nid e. if fanout_bulk_eligible g nid e
      then e\<lparr>ce_is_fanout_bulk := True\<rparr> else e) c3"
  define c5 where "c5 = mapi (\<lambda>nid e. e\<lparr>ce_priority := to_priority (node_prio (g_nodes g ! nid)),
      ce_affinity_group := affinity (node_use_workers (g_nodes g ! nid))\<rparr>) c4"
  have "map ce_arg_cache c5 = map ce_arg_cache c0"
    by (simp add: c5_def c4_def c3_def c2_def c1_def mapi_args set_successor_count_def)
  moreover obtain c6 where "rmap (\<lambda>nid. set_res_preds g nid (c5 ! nid)) [0..<length c5] = Inr c6"
    "cache = map (set_template_stable td) c6"
    using assms c0
    by (auto simp: build_node_cache_def rbind_eq_Inr Let_def c1_def c2_def c3_def c4_def c5_def split: if_splits)
  ultimately show ?thesis using that c0 by blast
qed

lemma build_node_cache_args:
  assumes "build_node_cache reg affinity td order g objs = Inr cache" "i < length (g_nodes g)"
    and "node_name (g_nodes g ! i) \<noteq> ''$network''"
  shows "entry_of_args objs (g_nodes g ! i) (ce_arg_cache (cache ! i))"
proof -
  obtain c0 c5 c6 where c0: "rmap (\<lambda>n. node_cache_entry reg order n objs (initial_nodes g) (condition_nodes g)) (g_nodes g) = Inr c0"
    and c5: "map ce_arg_cache c5 = map ce_arg_cache c0"
    and c6: "rmap (\<lambda>nid. set_res_preds g nid (c5 ! nid)) [0..<length c5] = Inr c6"
    and cache: "cache = map (set_template_stable td) c6"
    by (rule build_node_cache_passes [OF assms(1)])
  have l: "length c0 = length (g_nodes g)" "length c5 = length c0" "length c6 = length c5"
    using c0 c6 map_eq_imp_length_eq [OF c5] by (simp_all add: rmap_Inr)
  have e5: "ce_arg_cache (c5 ! i) = ce_arg_cache (c0 ! i)"
    using arg_cong [OF c5, of "\<lambda>xs. xs ! i"] l assms(2) by simp
  have "node_cache_entry reg order (g_nodes g ! i) objs (initial_nodes g) (condition_nodes g) = Inr (c0 ! i)"
    using c0 assms(2) by (simp add: rmap_Inr)
  note e0 = node_cache_entry_args [OF this assms(3)]
  have "set_res_preds g i (c5 ! i) = Inr (c6 ! i)" using c6 l assms(2) by (simp add: rmap_Inr)
  then obtain main cond where main: "build_res_preds g i (g_nodes g ! i) True (node_args (g_nodes g ! i)) = Inr main"
    and c6i: "install_res_preds main cond (c5 ! i) = c6 ! i"
    by (auto simp: set_res_preds_def Let_def rbind_eq_Inr)
  have "ce_arg_cache (c6 ! i) = (ce_arg_cache (c5 ! i))\<lparr>res_predecessors := main\<rparr>"
    by (simp add: c6i [symmetric] install_res_preds_def)
  then have "ce_arg_cache (cache ! i) = (ce_arg_cache (c0 ! i))\<lparr>res_predecessors := main\<rparr>"
    using e5 l assms(2) by (simp add: cache set_template_stable_def)
  then show ?thesis
    using e0 build_res_preds_layout [OF main] by (simp add: entry_of_args_def cache_of_res_preds)
qed

section \<open>The populated buffer\<close>

text \<open>What an argument that is no dependency puts into its slot.\<close>

definition static_holds :: "objects \<Rightarrow> nat \<Rightarrow> nat \<Rightarrow> arg \<Rightarrow> cm_types \<Rightarrow> bool" where
  "static_holds objs node_index workers a v \<longleftrightarrow>
     (case arg_type a of
        CmRef k \<Rightarrow>
          if k = 0 then v = CmUsize (word_of_nat node_index)
          else if k = 1 then v = CmUsize (word_of_nat workers)
          else get_object_value (objs ! k) node_index = Inr v
      | CmRes _ \<Rightarrow> v = CmNone | CmDep _ \<Rightarrow> v = CmNone | CmBarrier _ \<Rightarrow> v = CmNone | x \<Rightarrow> v = x)"

lemma rotation_values:
  assumes "k < length (places (is_rotation objs) L)"
  shows "map (\<lambda>a. objs ! ref_of (arg_type a)) (filter (is_rotation objs) L) ! k
    = objs ! ref_of (arg_type (L ! (places (is_rotation objs) L ! k)))"
  using assms by (simp add: filter_places)

lemma references_in_place:
  assumes e: "entry_of_args objs n ac" and j: "j < length (layout (node_args n))"
    and b1: "process_buffer_refs ac i (ac_args ac) = Inr b1" and b2: "process_runtime_refs ac i w b1 = Inr b2"
  shows "length b2 = length (node_args n) \<and> static_holds objs i w (layout (node_args n) ! j) (b2 ! j)"
proof -
  let ?L = "layout (node_args n)" and ?a = "layout (node_args n) ! j"
  have le: "length ?L \<le> length (node_args n)" by (simp add: layout_def)
  have ac: "rt_idxs_indexes ac = places is_index_ref ?L" "rt_workers_indexes ac = places is_workers_ref ?L"
    "buffer_ref_indexes ac = places (is_rotation objs) ?L"
    "buffer_values ac = map (\<lambda>a. objs ! ref_of (arg_type a)) (filter (is_rotation objs) ?L)"
    "length (ac_args ac) = length (node_args n)"
    "ac_args ac ! j = static_slot objs ?a CmNone"
    "case arg_type ?a of CmRef k \<Rightarrow> k \<le> 1 \<or> k < length objs \<and> objs ! k \<noteq> [] | _ \<Rightarrow> True"
    using e j le unfolding entry_of_args_def cache_of_def by (auto simp: arg_cache_default_def)
  have lv: "length (buffer_values ac) = length (buffer_ref_indexes ac)"
    unfolding ac(3,4) by (simp add: filter_places)
  note p1 = put_buffers_slots [OF b1 [unfolded process_buffer_refs_def] _ lv, unfolded ac(3), OF places_distinct]
  have d: "set (rt_idxs_indexes ac) \<inter> set (rt_workers_indexes ac) = {}"
    by (auto simp: ac is_index_ref_def is_workers_ref_def)
  note p2 = process_runtime_slots [OF b2 d]
  have lj: "j < length b1" "length b2 = length (node_args n)" using p1 p2 ac(5) j le by simp_all
  have keep: "b1 ! j = static_slot objs ?a CmNone" if "\<not> is_rotation objs ?a"
    using p1 ac(5,6) j le that by simp
  have rot: "get_object_value (objs ! ref_of (arg_type ?a)) i = Inr (b1 ! j)" if r: "is_rotation objs ?a"
  proof -
    have "j \<in> set (places (is_rotation objs) ?L)" using r j by simp
    then obtain k where k: "k < length (places (is_rotation objs) ?L)" "places (is_rotation objs) ?L ! k = j"
      unfolding in_set_conv_nth by blast
    have "get_object_value (buffer_values ac ! k) i = Inr (b1 ! (places (is_rotation objs) ?L ! k))"
      using p1 k(1) by blast
    then show ?thesis unfolding ac(4) rotation_values [OF k(1)] k(2) .
  qed
  have b2j: "b2 ! j = (if is_index_ref ?a then CmUsize (word_of_nat i)
      else if is_workers_ref ?a then CmUsize (word_of_nat w) else b1 ! j)"
    using p2 lj j by (simp add: ac(1,2))
  have "static_holds objs i w ?a (b2 ! j)"
  proof (cases "arg_type ?a")
    case (CmRef k)
    consider "k = 0" | "k = 1" | "1 < k" "is_rotation objs ?a" | "1 < k" "\<not> is_rotation objs ?a" by linarith
    then show ?thesis
    proof cases
      case 3
      then show ?thesis using rot CmRef by (simp add: static_holds_def b2j is_index_ref_def is_workers_ref_def)
    next
      case 4
      then show ?thesis using keep CmRef ac(7)
        by (auto simp: static_holds_def b2j is_index_ref_def is_workers_ref_def static_slot_def is_rotation_def
            get_object_value_def)
    qed (use CmRef in \<open>simp_all add: static_holds_def b2j is_index_ref_def is_workers_ref_def\<close>)
  qed (use keep in \<open>simp_all add: static_holds_def b2j is_index_ref_def is_workers_ref_def static_slot_def is_rotation_def\<close>)
  then show ?thesis using lj by simp
qed

lemma populate_cached_phases:
  assumes "populate_cached_args_into cfg tbl rd ac i p [] t = Some (Inr ((buf, stale), t'))"
  shows "\<exists>w b1 b2 t1. (rt_workers_indexes ac \<noteq> [] \<longrightarrow> w = cfg_workers cfg)
    \<and> process_buffer_refs ac i (ac_args ac) = Inr b1 \<and> process_runtime_refs ac i w b1 = Inr b2
    \<and> fill_results cfg tbl rd i p (zip (res_indexes ac) (res_predecessors ac)) b2 t1 = Some (Inr ((buf, stale), t'))"
proof (cases "buffer_ref_indexes ac = [] \<and> rt_idxs_indexes ac = [] \<and> rt_workers_indexes ac = [] \<and> res_indexes ac = []")
  case True
  then show ?thesis
    using assms by (auto simp: populate_cached_args_into_def process_buffer_refs_def process_runtime_refs_def Let_def)
next
  case False
  let ?w = "if rt_workers_indexes ac \<noteq> [] then cfg_workers cfg else 0"
  obtain b1 b2 where "process_buffer_refs ac i (ac_args ac) = Inr b1" "process_runtime_refs ac i ?w b1 = Inr b2"
    "fill_results cfg tbl rd i p (zip (res_indexes ac) (res_predecessors ac)) b2 t = Some (Inr ((buf, stale), t'))"
    using assms False by (auto simp: populate_cached_args_into_def Let_def tbind_Some tlift_Some rbind_eq_Inr)
  then show ?thesis by (intro exI [of _ ?w] exI [of _ b1] exI [of _ b2] exI [of _ t]) simp
qed

definition ungrouped :: "arg \<Rightarrow> bool" where
  "ungrouped a \<longleftrightarrow> (case arg_predecessor a of Some p \<Rightarrow> pred_group_by p = None | None \<Rightarrow> True)"

lemma caches_narrow:
  "caches_dependency n a rp \<Longrightarrow> \<not> multi_value (node_factor n) a \<Longrightarrow> ungrouped a \<Longrightarrow> width_one rp"
  by (auto simp: caches_dependency_def multi_value_def ungrouped_def width_one_def not_less
      split: cm_types.splits option.splits)

text \<open>The layout check: every argument but the last takes one value.\<close>

definition narrow_layout :: "nat \<Rightarrow> arg list \<Rightarrow> bool" where
  "narrow_layout fac L \<longleftrightarrow> (\<forall>j. j + 1 < length L \<longrightarrow> \<not> multi_value fac (L ! j))"

lemma layout_loop_iff: "layout_loop name fac pos L = Inr () \<longleftrightarrow> narrow_layout fac L"
proof (induction L arbitrary: pos)
  case (Cons a L)
  have "narrow_layout fac (a # L) \<longleftrightarrow> \<not> (multi_value fac a \<and> L \<noteq> []) \<and> narrow_layout fac L"
    unfolding narrow_layout_def by (auto simp: nth_Cons' less_Suc_eq_0_disj)
  then show ?case using Cons.IH by simp
qed (simp add: narrow_layout_def)

lemma validate_iff: "validate_res_arg_layout name as fac = Inr () \<longleftrightarrow> narrow_layout fac (layout as)"
  by (simp add: validate_res_arg_layout_def layout_def layout_loop_iff)

text \<open>The pairs of slot and predecessor that the population goes through.\<close>

lemma dependency_pairs:
  assumes e: "entry_of_args objs n ac"
  defines "L \<equiv> layout (node_args n)" and "prs \<equiv> zip (res_indexes ac) (res_predecessors ac)"
  shows "map fst prs = places is_dependency L"
    and "(j, rp) \<in> set prs \<Longrightarrow> caches_dependency n (L ! j) rp"
proof -
  have r: "res_indexes ac = places is_dependency L"
    using e by (simp add: entry_of_args_def cache_of_def arg_cache_default_def L_def)
  have all: "list_all2 (caches_dependency n) (map ((!) L) (places is_dependency L)) (res_predecessors ac)"
    using e by (simp add: entry_of_args_def L_def filter_places)
  have len: "length (places is_dependency L) = length (res_predecessors ac)"
    using list_all2_lengthD [OF all] by simp
  then show "map fst prs = places is_dependency L" by (simp add: prs_def r)
  show "(j, rp) \<in> set prs \<Longrightarrow> caches_dependency n (L ! j) rp"
    using all by (auto simp: prs_def r in_set_zip list_all2_conv_all_nth)
qed

lemma narrow_pairs:
  assumes e: "entry_of_args objs n ac" and v: "narrow_layout (node_factor n) (layout (node_args n))"
    and u: "list_all ungrouped (layout (node_args n))"
  defines "L \<equiv> layout (node_args n)" and "prs \<equiv> zip (res_indexes ac) (res_predecessors ac)"
  shows "list_all (\<lambda>p. width_one (snd p)) (butlast prs)"
    and "prs \<noteq> [] \<Longrightarrow> \<not> width_one (snd (last prs)) \<Longrightarrow> Suc (fst (last prs)) = length L"
proof -
  note d = dependency_pairs [OF e, folded L_def prs_def]
  have w: "width_one rp" if m: "(j, rp) \<in> set prs" and l: "j + 1 < length L" for j rp
  proof (rule caches_narrow [OF d(2) [OF m]])
    show "\<not> multi_value (node_factor n) (L ! j)" using v l by (simp add: narrow_layout_def L_def)
    show "ungrouped (L ! j)" using u l by (simp add: list_all_length L_def)
  qed
  have s: "sorted_wrt (<) (map fst prs)" by (simp add: d(1) places_sorted)
  have inL: "j < length L" if "(j, rp) \<in> set prs" for j rp
  proof -
    have "j \<in> set (map fst prs)" using that by force
    then show ?thesis by (simp add: d(1))
  qed
  show "list_all (\<lambda>p. width_one (snd p)) (butlast prs)"
  proof (cases prs rule: rev_cases)
    case (snoc ps q)
    have "width_one (snd p)" if "p \<in> set ps" for p
    proof -
      have "fst p < fst q" using s that by (auto simp: snoc sorted_wrt_append)
      moreover have "fst q < length L" using inL [of "fst q" "snd q"] by (simp add: snoc)
      ultimately show ?thesis using w [of "fst p" "snd p"] that by (simp add: snoc)
    qed
    then show ?thesis by (simp add: snoc list_all_iff)
  qed simp
  show "prs \<noteq> [] \<Longrightarrow> \<not> width_one (snd (last prs)) \<Longrightarrow> Suc (fst (last prs)) = length L"
    using w [of "fst (last prs)" "snd (last prs)"] inL [of "fst (last prs)" "snd (last prs)"] by force
qed

text \<open>What the slot of an argument holds once the buffer is populated.\<close>

definition slot_filled ::
  "arg_config \<Rightarrow> nat option list list \<Rightarrow> reader \<Rightarrow> objects \<Rightarrow> node \<Rightarrow> nat \<Rightarrow> nat \<Rightarrow> bool \<Rightarrow> arg \<Rightarrow> cm_types \<Rightarrow> bool" where
  "slot_filled cfg tbl rd objs n i p stale a v \<longleftrightarrow>
     (if is_dependency a
      then \<exists>rp. caches_dependency n a rp \<and> result_slot cfg tbl rd i p rp stale CmNone v
      else static_holds objs i (cfg_workers cfg) a v)"

lemma static_holds_workers:
  "arg_type a \<noteq> CmRef 1 \<Longrightarrow> static_holds objs i w a v = static_holds objs i w' a v"
  by (auto simp: static_holds_def split: cm_types.splits)

text \<open>The pairs of a population: only the last may take several values, and it is then the last slot.\<close>

definition narrow_prs :: "nat \<Rightarrow> (nat \<times> res_pred_cache) list \<Rightarrow> bool" where
  "narrow_prs len prs \<longleftrightarrow> list_all (\<lambda>p. width_one (snd p)) (butlast prs)
     \<and> (prs \<noteq> [] \<and> \<not> width_one (snd (last prs)) \<longrightarrow> Suc (fst (last prs)) = len)"

lemma population_phases:
  assumes e: "entry_of_args objs n ac"
    and nw: "narrow_prs (length (layout (node_args n))) (zip (res_indexes ac) (res_predecessors ac))"
    and run: "populate_cached_args_into cfg tbl rd ac i p [] t = Some (Inr ((buf, stale), t'))"
  shows "\<exists>w b1 b2. (rt_workers_indexes ac \<noteq> [] \<longrightarrow> w = cfg_workers cfg)
    \<and> process_buffer_refs ac i (ac_args ac) = Inr b1 \<and> process_runtime_refs ac i w b1 = Inr b2
    \<and> (\<forall>j < length b2. untouched (zip (res_indexes ac) (res_predecessors ac)) j \<longrightarrow> j < length buf \<and> buf ! j = b2 ! j)
    \<and> (\<forall>j rp. (j, rp) \<in> set (zip (res_indexes ac) (res_predecessors ac)) \<longrightarrow> width_one rp \<longrightarrow> j < length b2
        \<longrightarrow> j < length buf \<and> result_slot cfg tbl rd i p rp stale (b2 ! j) (buf ! j))"
proof -
  let ?prs = "zip (res_indexes ac) (res_predecessors ac)"
  obtain w b1 b2 t1 where w: "rt_workers_indexes ac \<noteq> [] \<longrightarrow> w = cfg_workers cfg"
    and b: "process_buffer_refs ac i (ac_args ac) = Inr b1" "process_runtime_refs ac i w b1 = Inr b2"
    and fill: "fill_results cfg tbl rd i p ?prs b2 t1 = Some (Inr ((buf, stale), t'))"
    using populate_cached_phases [OF run] by blast
  have sorted: "sorted_wrt (<) (map fst ?prs)" by (simp only: dependency_pairs(1) [OF e] places_sorted)
  have narrow: "list_all (\<lambda>p. width_one (snd p)) (butlast ?prs)" using nw by (simp add: narrow_prs_def)
  note f = fill_results_slots [OF fill sorted narrow]
  show ?thesis using w b f by blast
qed

lemma filled_dependency:
  assumes e: "entry_of_args objs n ac"
    and nw: "narrow_prs (length (layout (node_args n))) (zip (res_indexes ac) (res_predecessors ac))"
    and run: "populate_cached_args_into cfg tbl rd ac i p [] t = Some (Inr ((buf, stale), t'))"
    and rp: "(j, rp) \<in> set (zip (res_indexes ac) (res_predecessors ac))" "width_one rp"
  shows "j < length buf \<and> result_slot cfg tbl rd i p rp stale CmNone (buf ! j)"
proof -
  let ?L = "layout (node_args n)"
  obtain w b1 b2 where w: "rt_workers_indexes ac \<noteq> [] \<longrightarrow> w = cfg_workers cfg"
    and b: "process_buffer_refs ac i (ac_args ac) = Inr b1" "process_runtime_refs ac i w b1 = Inr b2"
    and fs: "\<forall>j < length b2. untouched (zip (res_indexes ac) (res_predecessors ac)) j \<longrightarrow> j < length buf \<and> buf ! j = b2 ! j"
    and fd: "\<forall>j rp. (j, rp) \<in> set (zip (res_indexes ac) (res_predecessors ac)) \<longrightarrow> width_one rp \<longrightarrow> j < length b2
      \<longrightarrow> j < length buf \<and> result_slot cfg tbl rd i p rp stale (b2 ! j) (buf ! j)"
    using population_phases [OF e nw run] by blast
  have "j \<in> set (map fst (zip (res_indexes ac) (res_predecessors ac)))" using rp(1) by force
  then have j: "j < length ?L" "is_dependency (?L ! j)" by (simp_all add: dependency_pairs(1) [OF e])
  note st = references_in_place [OF e j(1) b]
  have "b2 ! j = CmNone" using st j(2) by (auto simp: static_holds_def is_dependency_def split: cm_types.splits)
  moreover have "j < length b2" using st j(1) by (simp add: layout_def) (metis length_filter_le less_le_trans)
  ultimately show ?thesis using fd rp by metis
qed

lemma untouched_static:
  assumes e: "entry_of_args objs n ac"
    and nw: "narrow_prs (length (layout (node_args n))) (zip (res_indexes ac) (res_predecessors ac))"
    and j: "j < length (layout (node_args n))" "\<not> is_dependency (layout (node_args n) ! j)"
  shows "untouched (zip (res_indexes ac) (res_predecessors ac)) j"
proof -
  let ?prs = "zip (res_indexes ac) (res_predecessors ac)" and ?L = "layout (node_args n)"
  have fsts: "fst ` set ?prs = set (places is_dependency ?L)"
    by (simp only: dependency_pairs(1) [OF e] flip: set_map)
  have "fst (last ?prs) \<noteq> j" if "?prs \<noteq> []"
  proof -
    have "fst (last ?prs) \<in> fst ` set ?prs" using that by (intro imageI last_in_set)
    then show ?thesis unfolding fsts using j(2) by auto
  qed
  then show ?thesis
    unfolding untouched_def fsts using j nw by (auto simp: narrow_prs_def less_Suc_eq simp del: zip_eq_Nil_iff)
qed

lemma filled_static:
  assumes e: "entry_of_args objs n ac"
    and nw: "narrow_prs (length (layout (node_args n))) (zip (res_indexes ac) (res_predecessors ac))"
    and run: "populate_cached_args_into cfg tbl rd ac i p [] t = Some (Inr ((buf, stale), t'))"
    and j: "j < length (layout (node_args n))" "\<not> is_dependency (layout (node_args n) ! j)"
  shows "j < length buf \<and> static_holds objs i (cfg_workers cfg) (layout (node_args n) ! j) (buf ! j)"
proof -
  let ?L = "layout (node_args n)" and ?a = "layout (node_args n) ! j"
  obtain w b1 b2 where w: "rt_workers_indexes ac \<noteq> [] \<longrightarrow> w = cfg_workers cfg"
    and b: "process_buffer_refs ac i (ac_args ac) = Inr b1" "process_runtime_refs ac i w b1 = Inr b2"
    and fs: "\<forall>j < length b2. untouched (zip (res_indexes ac) (res_predecessors ac)) j \<longrightarrow> j < length buf \<and> buf ! j = b2 ! j"
    and fd: "\<forall>j rp. (j, rp) \<in> set (zip (res_indexes ac) (res_predecessors ac)) \<longrightarrow> width_one rp \<longrightarrow> j < length b2
      \<longrightarrow> j < length buf \<and> result_slot cfg tbl rd i p rp stale (b2 ! j) (buf ! j)"
    using population_phases [OF e nw run] by blast
  note st = references_in_place [OF e j(1) b]
  have "j < length b2" using st j(1) by (simp add: layout_def) (metis length_filter_le less_le_trans)
  with fs untouched_static [OF e nw j] have "j < length buf" "buf ! j = b2 ! j" by simp_all
  moreover have "static_holds objs i (cfg_workers cfg) ?a (b2 ! j)"
  proof (cases "arg_type ?a = CmRef 1")
    case True
    then have "j \<in> set (places is_workers_ref ?L)" using j(1) by (simp add: is_workers_ref_def)
    moreover have "rt_workers_indexes ac = places is_workers_ref ?L"
      using e by (simp add: entry_of_args_def cache_of_def arg_cache_default_def)
    ultimately have "w = cfg_workers cfg" using w by (metis empty_iff empty_set)
    then show ?thesis using st by simp
  next
    case False
    then show ?thesis using st static_holds_workers by blast
  qed
  ultimately show ?thesis by simp
qed

lemma populated_slots:
  assumes e: "entry_of_args objs n ac" and v: "narrow_layout (node_factor n) (layout (node_args n))"
    and u: "list_all ungrouped (layout (node_args n))"
    and run: "populate_cached_args_into cfg tbl rd ac i p [] t = Some (Inr ((buf, stale), t'))"
    and j: "j < length (layout (node_args n))" "\<not> multi_value (node_factor n) (layout (node_args n) ! j)"
  shows "j < length buf \<and> slot_filled cfg tbl rd objs n i p stale (layout (node_args n) ! j) (buf ! j)"
proof -
  let ?prs = "zip (res_indexes ac) (res_predecessors ac)" and ?a = "layout (node_args n) ! j"
  have nw: "narrow_prs (length (layout (node_args n))) ?prs"
    using narrow_pairs [OF e v u] by (simp add: narrow_prs_def del: zip_eq_Nil_iff)
  show ?thesis
  proof (cases "is_dependency ?a")
    case True
    then have "j \<in> set (map fst ?prs)" using j(1) by (simp only: dependency_pairs(1) [OF e]) simp
    then obtain rp where rp: "(j, rp) \<in> set ?prs" by auto
    note c = dependency_pairs(2) [OF e rp]
    have "ungrouped ?a" using u j(1) by (simp add: list_all_length)
    from caches_narrow [OF c j(2) this] show ?thesis
      using filled_dependency [OF e nw run rp] c True by (auto simp: slot_filled_def)
  next
    case False
    then show ?thesis using filled_static [OF e nw run j(1)] by (simp add: slot_filled_def)
  qed
qed

section \<open>The layout check protects every argument\<close>

lemma parse_node_laid_out:
  "parse_single_node env objs ids names j = Inr n \<Longrightarrow> narrow_layout (node_factor n) (layout (node_args n))"
  by (auto simp: parse_single_node_def rbind_eq_Inr Let_def dest!: validate_iff [THEN iffD1])

lemma parse_nodes_laid_out:
  "parse_nodes env objs ids js names c g = Inr (g', names') \<Longrightarrow>
     (\<forall>n \<in> set (g_nodes g). narrow_layout (node_factor n) (layout (node_args n))) \<Longrightarrow>
     n \<in> set (g_nodes g') \<Longrightarrow> narrow_layout (node_factor n) (layout (node_args n))"
proof (induction js arbitrary: names c g)
  case (Cons j js)
  then obtain m h where m: "parse_single_node env objs ids names j = Inr m"
    and h: "add_node (m\<lparr>node_ident := unat c\<rparr>) g = Inr h"
    and r: "parse_nodes env objs ids js (names(nj_name j \<mapsto> unat c)) (c + 1) h = Inr (g', names')"
    by (auto simp: rbind_eq_Inr)
  have "g_nodes h = g_nodes g @ [m\<lparr>node_ident := unat c\<rparr>]"
    using h by (auto simp: add_node_def Let_def split: if_splits)
  then show ?case using Cons.IH [OF r] Cons.prems(2,3) parse_node_laid_out [OF m] by auto
qed simp

lemma accepted_laid_out:
  assumes "from_graph_file env gf = Inr spec" "n \<in> set (g_nodes (gs_graph spec))"
  shows "narrow_layout (node_factor n) (layout (node_args n))"
proof -
  obtain objs ids nc g0 names0 c g names ps where
    "ropt (parse_network_config env objs ids (\<lambda>_. None)) (gf_network_config gf) = Inr nc"
    and g0: "(case nc of None \<Rightarrow> Inr (graph_new, \<lambda>_. None, 0)
        | Some c \<Rightarrow> rbind (lift_panic (add_node (network_node 0 (nc_frame_packets c)) graph_new)) (\<lambda>g.
            Inr (g, [''$network'' \<mapsto> 0], 1))) = Inr (g0, names0, c)"
    and g: "parse_nodes env objs ids (gf_nodes gf) names0 c g0 = Inr (g, names)"
    and spec: "gs_graph spec = g\<lparr>post_nodes := ps\<rparr>"
    by (rule from_graph_file_steps [OF assms(1)])
  have "\<forall>n \<in> set (g_nodes g0). narrow_layout (node_factor n) (layout (node_args n))"
  proof (cases nc)
    case None
    then show ?thesis using g0 by (auto simp: graph_new_def)
  next
    case (Some d)
    then have "add_node (network_node 0 (nc_frame_packets d)) graph_new = Inr g0"
      using g0 by (auto simp: rbind_eq_Inr)
    from topology_add_node [OF topology_new this] show ?thesis
      by (simp add: network_node_def layout_def narrow_layout_def graph_new_def)
  qed
  then show ?thesis using parse_nodes_laid_out [OF g] assms(2) by (simp add: spec)
qed


text \<open>Grouped arguments are not checked: here the four results of the first argument take the place of
  the literal 7 after it.\<close>

definition grouped_args :: "arg list" where
  "grouped_args = [\<lparr>arg_type = CmRes 0, arg_init_condition = None,
       arg_predecessor = Some \<lparr>pred_id = 0, pred_indexes = [0, 1, 2, 3], pred_group_by = Some 2\<rparr>\<rparr>,
     \<lparr>arg_type = CmUsize 7, arg_init_condition = None, arg_predecessor = None\<rparr>]"

definition grouped_graph :: graph where
  "grouped_graph = graph_new\<lparr>g_nodes := [make_node 0 4 [], make_node 1 2 grouped_args]\<rparr>"

definition grouped_cache :: arg_cache_entry where
  "grouped_cache = \<lparr>ac_args = [CmNone, CmUsize 7], buffer_ref_indexes = [], buffer_values = [],
     rt_idxs_indexes = [], rt_workers_indexes = [], res_indexes = [0], real_res_indexes = [0],
     res_predecessors = [\<lparr>rp_node_id = 1, rp_res_node_id = 0, rp_indexes = [0, 1, 2, 3], rp_pred_factor = 4,
       rp_pred_group_size = None, rp_node_group_size = None, rp_node_factor = 2, rp_is_dep = False,
       rp_node_has_barrier = False\<rparr>]\<rparr>"

definition results_in_order :: reader where
  "results_in_order = \<lparr>rd_slot = 0, rd_exec_slot = 0, rd_exec_gen = 0,
     rd_view = \<lambda>_. \<lparr>v_results = \<lambda>(slot, nid, i). Some (CmUsize (word_of_nat i)), v_shutdown = False,
       v_generation = [0]\<rparr>\<rparr>"

lemma grouped_entry:
  "\<exists>h rps. build_arg_cache grouped_args [] True = Inr (grouped_cache\<lparr>res_predecessors := []\<rparr>, h)
     \<and> build_res_preds grouped_graph 1 (make_node 1 2 grouped_args) True grouped_args = Inr rps
     \<and> res_predecessors grouped_cache = rps"
  by (simp add: build_arg_cache_def grouped_args_def arg_cache_default_def is_condition_def cache_res_def
      push_pred_def grouped_cache_def grouped_graph_def make_node_def node_forced_barrier_def
      node_has_ambiguous_multi_res_args_def pred_is_ambiguous_multi_arg_def args_on_pred_def reads_pred_def
      is_barrier_def graph_new_def)



end
