(* ===== verification/Unchecked.thy ===== *)
theory Unchecked
  imports Arg_Layout
begin

text \<open>
  The selection of unchecked wrappers (\<^verbatim>\<open>select_unchecked_wrappers\<close> of \<^verbatim>\<open>runtime/init.rs\<close>): a
  node whose arguments provably always have the variants its function expects calls a twin of the
  function that does not check them. The tables of the twins, the argument specifications and the
  return variants are generated from plugins, so they are arguments here.
\<close>

section \<open>Variants\<close>

primrec variant_tag :: "cm_types \<Rightarrow> string" where
  "variant_tag (CmBool b) = ''Bool''"
| "variant_tag (CmI8 i) = ''I8''"
| "variant_tag (CmI16 i) = ''I16''"
| "variant_tag (CmI32 i) = ''I32''"
| "variant_tag (CmI64 i) = ''I64''"
| "variant_tag (CmU8 i) = ''U8''"
| "variant_tag (CmU16 i) = ''U16''"
| "variant_tag (CmU32 i) = ''U32''"
| "variant_tag (CmU64 i) = ''U64''"
| "variant_tag (CmF32 f) = ''F32''"
| "variant_tag (CmF64 f) = ''F64''"
| "variant_tag (CmChar c) = ''Char''"
| "variant_tag (CmUsize i) = ''Usize''"
| "variant_tag (CmIsize i) = ''Isize''"
| "variant_tag (CmI128 i) = ''I128''"
| "variant_tag (CmU128 i) = ''U128''"
| "variant_tag (CmString s) = ''String''"
| "variant_tag (CmComplex32 z) = ''Complex32''"
| "variant_tag (CmComplex64 z) = ''Complex64''"
| "variant_tag (CmVecCmt vs) = ''VecCmt''"
| "variant_tag (CmRef i) = ''Ref''"
| "variant_tag (CmRes i) = ''Res''"
| "variant_tag (CmDep i) = ''Dep''"
| "variant_tag (CmBarrier s) = ''Barrier''"
| "variant_tag CmNone = ''None''"
| "variant_tag CmInit = ''Init''"
| "variant_tag (CmAny a) = ''Any''"
| "variant_tag (CmAnySliced a) = ''AnySliced''"
| "variant_tag (CmVecAny a) = ''VecAny''"
| "variant_tag (CmBytes b) = ''Bytes''"
| "variant_tag (CmAnyHeld a) = ''AnyHeld''"

record wrapper_tables =
  wt_argspec :: "string \<Rightarrow> string list option"
  wt_ret_variant :: "string \<Rightarrow> string option"
  wt_has_twin :: "string \<Rightarrow> bool"

section \<open>Selection\<close>

definition nth_option :: "'a list \<Rightarrow> nat \<Rightarrow> 'a option" where
  "nth_option xs i = (if i < length xs then Some (xs ! i) else None)"

text \<open>The variant of a dependency slot: none if any grouping is declared for it.\<close>

definition dependency_variant ::
  "wrapper_tables \<Rightarrow> cache_entry list \<Rightarrow> nat option list list \<Rightarrow> res_pred_cache \<Rightarrow> string option" where
  "dependency_variant wt cache tbl rp =
     (if rp_is_dep rp then Some ''None''
      else if rp_node_group_size rp \<noteq> None \<or> rp_pred_group_size rp \<noteq> None then None
      else if Option.bind (Option.bind (nth_option tbl (rp_node_id rp)) (\<lambda>row. nth_option row (rp_res_node_id rp))) id \<noteq> None
      then None
      else Option.bind (nth_option cache (rp_res_node_id rp)) (\<lambda>pred. wt_ret_variant wt (ce_func_name pred)))"

definition rotation_variant :: "cm_types list \<Rightarrow> string option" where
  "rotation_variant vs =
     (case map variant_tag vs of
        [] \<Rightarrow> None
      | tag # tags \<Rightarrow> if list_all (\<lambda>t. t = tag) tags then Some tag else None)"

definition provable_variant ::
  "wrapper_tables \<Rightarrow> cache_entry list \<Rightarrow> nat option list list \<Rightarrow> cache_entry \<Rightarrow> nat \<Rightarrow> string option result" where
  "provable_variant wt cache tbl entry arg_idx =
     (let ac = ce_arg_cache entry in
      case position arg_idx (res_indexes ac) of
        Some pos \<Rightarrow>
          (case nth_option (res_predecessors ac) pos of
             Some rp \<Rightarrow> Inr (dependency_variant wt cache tbl rp) | None \<Rightarrow> Inl IndexOutOfBounds)
      | None \<Rightarrow>
          if arg_idx \<in> set (rt_idxs_indexes ac) \<or> arg_idx \<in> set (rt_workers_indexes ac) then Inr (Some ''Usize'')
          else case position arg_idx (buffer_ref_indexes ac) of
            Some bpos \<Rightarrow> Inr (Option.bind (nth_option (buffer_values ac) bpos) rotation_variant)
          | None \<Rightarrow> Inr (map_option variant_tag (nth_option (ac_args ac) arg_idx)))"

text \<open>The first slot that is not proven ends the look at a specification.\<close>

fun all_proven ::
  "wrapper_tables \<Rightarrow> cache_entry list \<Rightarrow> nat option list list \<Rightarrow> cache_entry \<Rightarrow> nat \<Rightarrow> string list \<Rightarrow> bool result" where
  "all_proven wt cache tbl entry i [] = Inr True"
| "all_proven wt cache tbl entry i (req # reqs) =
     (if req = ''*'' then all_proven wt cache tbl entry (Suc i) reqs
      else rbind (provable_variant wt cache tbl entry i) (\<lambda>v.
        if v = Some req then all_proven wt cache tbl entry (Suc i) reqs else Inr False))"

definition fixed_spec :: "string list \<Rightarrow> string list" where
  "fixed_spec spec = (if spec \<noteq> [] \<and> last spec = ''...'' then butlast spec else spec)"

definition select_one ::
  "wrapper_tables \<Rightarrow> nat option list list \<Rightarrow> cache_entry list \<Rightarrow> nat \<Rightarrow> cache_entry list result" where
  "select_one wt tbl cache i =
     (let entry = cache ! i in
      if \<not> ce_template_stable entry \<or> ce_name entry = ''$network'' then Inr cache
      else case wt_argspec wt (ce_func_name entry) of
        None \<Rightarrow> Inr cache
      | Some spec \<Rightarrow>
          if length (ac_args (ce_arg_cache entry)) < length (fixed_spec spec) then Inr cache
          else rbind (all_proven wt cache tbl entry 0 (fixed_spec spec)) (\<lambda>proven.
            if proven \<and> wt_has_twin wt (ce_func_name entry)
            then Inr (cache[i := entry\<lparr>ce_func_ptr := UncheckedTwin (ce_func_name entry), ce_uses_unchecked := True\<rparr>])
            else Inr cache))"

fun select_loop ::
  "wrapper_tables \<Rightarrow> nat option list list \<Rightarrow> nat list \<Rightarrow> cache_entry list \<Rightarrow> cache_entry list result" where
  "select_loop wt tbl [] cache = Inr cache"
| "select_loop wt tbl (i # is) cache = rbind (select_one wt tbl cache i) (select_loop wt tbl is)"

definition select_unchecked_wrappers ::
  "bool \<Rightarrow> wrapper_tables \<Rightarrow> nat option list list \<Rightarrow> cache_entry list \<Rightarrow> cache_entry list result" where
  "select_unchecked_wrappers disabled wt tbl cache =
     (if disabled then Inr cache else select_loop wt tbl [0..<length cache] cache)"

section \<open>What a selected node has been proven to have\<close>

lemma position_Some: "position x xs = Some p \<Longrightarrow> p < length xs \<and> xs ! p = x"
  by (induction xs arbitrary: p) (auto split: if_splits)

lemma position_None: "position x xs = None \<longleftrightarrow> x \<notin> set xs"
  by (induction xs) auto

text \<open>The proof of a slot looks at the other entries for their function names only.\<close>

lemma all_proven_names:
  assumes "map ce_func_name cache = map ce_func_name cache'"
  shows "all_proven wt cache tbl entry i spec = all_proven wt cache' tbl entry i spec"
proof -
  have "length cache = length cache'" using map_eq_imp_length_eq [OF assms] .
  moreover have "ce_func_name (cache ! k) = ce_func_name (cache' ! k)" if "k < length cache'" for k
    using arg_cong [OF assms, of "\<lambda>xs. xs ! k"] that calculation by simp
  ultimately have "dependency_variant wt cache tbl rp = dependency_variant wt cache' tbl rp" for rp
    by (simp add: dependency_variant_def nth_option_def)
  then have "provable_variant wt cache tbl entry j = provable_variant wt cache' tbl entry j" for j
    by (simp add: provable_variant_def Let_def cong: option.case_cong)
  then show ?thesis
    by (induction spec arbitrary: i) (simp_all cong: if_cong)
qed

lemma all_proven_slots:
  "all_proven wt cache tbl entry i spec = Inr True \<Longrightarrow> k < length spec \<Longrightarrow>
     spec ! k = ''*'' \<or> provable_variant wt cache tbl entry (i + k) = Inr (Some (spec ! k))"
proof (induction spec arbitrary: i k)
  case (Cons req reqs)
  have rest: "all_proven wt cache tbl entry (Suc i) reqs = Inr True"
    and first: "req = ''*'' \<or> provable_variant wt cache tbl entry i = Inr (Some req)"
    using Cons.prems(1) by (auto simp: rbind_eq_Inr split: if_splits)
  show ?case
  proof (cases k)
    case 0
    then show ?thesis using first by simp
  next
    case (Suc m)
    then show ?thesis using Cons.IH [OF rest, of m] Cons.prems(2) by simp
  qed
qed simp

definition proven_entry ::
  "wrapper_tables \<Rightarrow> cache_entry list \<Rightarrow> nat option list list \<Rightarrow> cache_entry \<Rightarrow> string list \<Rightarrow> bool" where
  "proven_entry wt cache tbl entry spec \<longleftrightarrow>
     ce_template_stable entry \<and> wt_argspec wt (ce_func_name entry) = Some spec
     \<and> length (fixed_spec spec) \<le> length (ac_args (ce_arg_cache entry))
     \<and> all_proven wt cache tbl entry 0 (fixed_spec spec) = Inr True"

lemma select_one_props:
  assumes "select_one wt tbl cache i = Inr cache'" "i < length cache"
  shows "map ce_func_name cache' = map ce_func_name cache"
    and "j \<noteq> i \<Longrightarrow> cache' ! j = cache ! j"
    and "cache' ! i = cache ! i \<or> (\<exists>spec. proven_entry wt cache tbl (cache ! i) spec)"
  using assms by (auto simp: select_one_def Let_def rbind_eq_Inr proven_entry_def not_less map_update
      list_update_id split: if_splits option.splits) (metis list_update_id map_update nth_map)+

lemma select_loop_props:
  "select_loop wt tbl is cache = Inr cache' \<Longrightarrow> distinct is \<Longrightarrow> \<forall>i \<in> set is. i < length cache \<Longrightarrow>
     cache' ! j = cache ! j \<or> (\<exists>spec. proven_entry wt cache tbl (cache ! j) spec)"
proof (induction "is" arbitrary: cache)
  case (Cons i "is")
  obtain mid where mid: "select_one wt tbl cache i = Inr mid" "select_loop wt tbl is mid = Inr cache'"
    using Cons.prems(1) by (auto simp: rbind_eq_Inr)
  have i: "i < length cache" using Cons.prems(3) by simp
  note p = select_one_props [OF mid(1) i]
  have "length mid = length cache" using map_eq_imp_length_eq [OF p(1)] .
  then have IH: "cache' ! j = mid ! j \<or> (\<exists>spec. proven_entry wt mid tbl (mid ! j) spec)"
    using Cons.IH [OF mid(2)] Cons.prems(2,3) by simp
  have e: "proven_entry wt mid tbl x spec = proven_entry wt cache tbl x spec" for x spec
    using all_proven_names [OF p(1)] by (simp add: proven_entry_def)
  show ?case
  proof (cases "j = i")
    case True
    then have "mid ! i = cache ! i \<or> (\<exists>spec. proven_entry wt cache tbl (cache ! j) spec)" using p(3) by simp
    then show ?thesis using IH e True by auto
  next
    case False
    then show ?thesis using IH e p(2) by simp
  qed
qed simp

lemma selected_proven:
  assumes "select_unchecked_wrappers disabled wt tbl cache = Inr cache'" "cache' ! j \<noteq> cache ! j"
  shows "\<exists>spec. proven_entry wt cache tbl (cache ! j) spec"
  using assms select_loop_props [of wt tbl "[0..<length cache]" cache cache' j]
  by (auto simp: select_unchecked_wrappers_def split: if_splits)

section \<open>What the slots hold\<close>

lemma get_or_wait_stored:
  assumes "get_or_wait single c es eg view t = Some (Inr ((r, stale), t'))"
  shows "(case r of Some v \<Rightarrow> \<exists>k. v_results (view k) c = Some v | None \<Rightarrow> stale \<or> single)"
proof (cases "v_results (view t) c")
  case None
  then obtain k where "poll single c es eg (view k) = Some (Inr (r, stale))"
    using assms spin_wait_result [of single c es eg view "Suc t"] by (auto simp: get_or_wait_def)
  then show ?thesis by (auto simp: poll_def split: option.splits if_splits)
next
  case (Some v)
  then have "r = Some v" using assms by (simp add: get_or_wait_def)
  then show ?thesis using Some by auto
qed

lemma fetch_one_stored:
  assumes "fetch_one cfg rd nid idx t = Some (Inr ((r, stale), t'))"
  shows "case r of Some v \<Rightarrow> \<exists>k i. v_results (rd_view rd k) (rd_slot rd, nid, i) = Some v
    | None \<Rightarrow> stale \<or> cfg_single_slot_mode cfg"
proof -
  obtain i where "get_or_wait (cfg_single_slot_mode cfg) (rd_slot rd, nid, i) (rd_exec_slot rd) (rd_exec_gen rd)
      (rd_view rd) t = Some (Inr ((r, stale), t'))"
    using assms by (auto simp: fetch_one_def tbind_Some tlift_Some)
  from get_or_wait_stored [OF this] show ?thesis by (auto split: option.splits)
qed

text \<open>A dependency that takes one value and names a predecessor yields a stored result of it, or
  reports the task as stale, except in single-slot mode.\<close>

lemma collects_stored:
  assumes "collects cfg tbl rd i p rp r stale" "\<not> rp_is_dep rp" "width_one rp" "rp_indexes rp \<noteq> []"
    "\<not> cfg_single_slot_mode cfg"
  shows "case r of Some vs \<Rightarrow> \<exists>v k m. vs = [v] \<and> v_results (rd_view rd k) (rd_slot rd, rp_res_node_id rp, m) = Some v
    | None \<Rightarrow> stale"
proof -
  have w: "length (rp_indexes rp) = 1 \<or> (length (rp_indexes rp) \<noteq> 1 \<and> 1 < length (rp_indexes rp)
      \<and> length (rp_indexes rp) = rp_node_factor rp)"
    using assms(2,3,4) by (cases "rp_indexes rp") (auto simp: width_one_def)
  obtain gs t1 t2 where "fetch_res_results cfg rd (rp_res_node_id rp) (rp_indexes rp) i p (rp_node_factor rp)
       (rp_pred_factor rp) (rp_node_group_size rp) gs (rp_node_has_barrier rp) t1 = Some (Inr ((r, stale), t2))"
    using assms(1,2) by (auto simp: collects_def collect_res_from_cache_def tbind_Some)
  then obtain idx r' where "fetch_one cfg rd (rp_res_node_id rp) idx t1 = Some (Inr ((r', stale), t2))"
    and r: "r = map_option (\<lambda>v. [v]) r'"
    using w assms(4) by (auto simp: fetch_res_results_def tbind_Some)
  from fetch_one_stored [OF this(1)] show ?thesis using assms(5) by (cases r') (auto simp: r)
qed

lemma position_place: "position j (places P L) = Some k \<Longrightarrow> j < length L \<and> P (L ! j)"
  using position_Some [of j "places P L" k] nth_mem [of k "places P L"] by auto

lemma cache_of_entry:
  assumes "entry_of_args objs n ac"
  shows "res_indexes ac = places is_dependency (layout (node_args n))"
    "rt_idxs_indexes ac = places is_index_ref (layout (node_args n))"
    "rt_workers_indexes ac = places is_workers_ref (layout (node_args n))"
    "buffer_ref_indexes ac = places (is_rotation objs) (layout (node_args n))"
    "buffer_values ac = map (\<lambda>a. objs ! ref_of (arg_type a)) (filter (is_rotation objs) (layout (node_args n)))"
    "length (ac_args ac) = length (node_args n)"
    "j < length (layout (node_args n)) \<Longrightarrow> ac_args ac ! j = static_slot objs (layout (node_args n) ! j) CmNone"
    "length (layout (node_args n)) \<le> j \<Longrightarrow> j < length (node_args n) \<Longrightarrow> ac_args ac ! j = CmNone"
    "j < length (layout (node_args n)) \<Longrightarrow> arg_type (layout (node_args n) ! j) = CmRef k \<Longrightarrow> k \<le> 1 \<or> objs ! k \<noteq> []"
proof -
  have le: "length (layout (node_args n)) \<le> length (node_args n)" by (simp add: layout_def)
  have c: "cache_of objs 0 (layout (node_args n))
       (arg_cache_default\<lparr>ac_args := replicate (length (node_args n)) CmNone\<rparr>) ac"
    using assms by (simp add: entry_of_args_def cache_of_res_preds)
  show "res_indexes ac = places is_dependency (layout (node_args n))"
    "rt_idxs_indexes ac = places is_index_ref (layout (node_args n))"
    "rt_workers_indexes ac = places is_workers_ref (layout (node_args n))"
    "buffer_ref_indexes ac = places (is_rotation objs) (layout (node_args n))"
    "buffer_values ac = map (\<lambda>a. objs ! ref_of (arg_type a)) (filter (is_rotation objs) (layout (node_args n)))"
    "length (ac_args ac) = length (node_args n)"
    using c by (simp_all add: cache_of_def arg_cache_default_def)
  show "ac_args ac ! j = static_slot objs (layout (node_args n) ! j) CmNone" if "j < length (layout (node_args n))"
    using c that le by (simp add: cache_of_def arg_cache_default_def)
  show "ac_args ac ! j = CmNone" if "length (layout (node_args n)) \<le> j" "j < length (node_args n)"
    using c that by (simp add: cache_of_def arg_cache_default_def)
  show "k \<le> 1 \<or> objs ! k \<noteq> []" if "j < length (layout (node_args n))" "arg_type (layout (node_args n) ! j) = CmRef k"
  proof -
    have "\<forall>a \<in> set (layout (node_args n)). case arg_type a of CmRef k \<Rightarrow> k \<le> 1 \<or> k < length objs \<and> objs ! k \<noteq> [] | _ \<Rightarrow> True"
      using c unfolding cache_of_def by blast
    from bspec [OF this nth_mem [OF that(1)]] show ?thesis using that(2) by auto
  qed
qed

lemma rotation_tag:
  assumes "rotation_variant vs = Some tag" "get_object_value vs i = Inr v"
  shows "variant_tag v = tag"
proof -
  have "vs \<noteq> []" using assms(1) by (auto simp: rotation_variant_def)
  then have "i mod length vs < length vs" by simp
  then have "v \<in> set vs" using assms(2) by (auto simp: get_object_value_def split: if_splits)
  moreover have "\<forall>x \<in> set vs. variant_tag x = tag"
    using assms(1) by (cases vs) (auto simp: rotation_variant_def list_all_iff split: if_splits)
  ultimately show ?thesis by simp
qed

lemma static_literal_tag:
  assumes "static_holds objs i w a v" "\<not> is_dependency a" "\<not> is_index_ref a" "\<not> is_workers_ref a" "\<not> is_rotation objs a"
    "\<And>k. arg_type a = CmRef k \<Longrightarrow> k \<le> 1 \<or> objs ! k \<noteq> []"
  shows "v = static_slot objs a CmNone"
proof (cases "arg_type a")
  case (CmRef k)
  then have "1 < k" using assms(3,4) by (auto simp: is_index_ref_def is_workers_ref_def)
  then show ?thesis
    using assms(1,5,6) CmRef by (auto simp: static_holds_def static_slot_def is_rotation_def get_object_value_def)
qed (use assms in \<open>simp_all add: static_holds_def static_slot_def is_dependency_def\<close>)

lemma stable_narrow:
  assumes "list_all width_one (res_predecessors ac)"
  shows "narrow_prs len (zip (res_indexes ac) (res_predecessors ac))"
proof -
  have "\<forall>q \<in> set (zip (res_indexes ac) (res_predecessors ac)). width_one (snd q)"
    using assms by (auto simp: list_all_iff dest: set_zip_rightD)
  then show ?thesis
    unfolding narrow_prs_def list_all_iff by (meson in_set_butlastD last_in_set)
qed

text \<open>What the proofs of a node rest on: the argument cache is the one compilation builds for its
  arguments, of which each dependency takes one value and names a predecessor; the results that are
  stored have the return variant the registry lists for their function.\<close>

definition stores_variants :: "wrapper_tables \<Rightarrow> cache_entry list \<Rightarrow> reader \<Rightarrow> bool" where
  "stores_variants wt cache rd \<longleftrightarrow>
     (\<forall>k nid m v tag. v_results (rd_view rd k) (rd_slot rd, nid, m) = Some v \<and> nid < length cache
        \<and> wt_ret_variant wt (ce_func_name (cache ! nid)) = Some tag \<longrightarrow> variant_tag v = tag)"

lemma proven_dependency:
  assumes e: "entry_of_args objs n ac" and nw: "narrow_prs (length (layout (node_args n))) (zip (res_indexes ac) (res_predecessors ac))"
    and run: "populate_cached_args_into cfg tb rd ac i p [] t = Some (Inr ((buf, False), t'))"
    and rp: "(j, rp) \<in> set (zip (res_indexes ac) (res_predecessors ac))" "width_one rp"
      "rp_is_dep rp \<or> rp_indexes rp \<noteq> []"
    and tag: "dependency_variant wt cache tbl rp = Some tag"
    and ok: "stores_variants wt cache rd" "\<not> cfg_single_slot_mode cfg"
  shows "variant_tag (buf ! j) = tag"
proof -
  have r: "result_slot cfg tb rd i p rp False CmNone (buf ! j)"
    using filled_dependency [OF e nw run rp(1,2)] by simp
  show ?thesis
  proof (cases "rp_is_dep rp")
    case True
    then have "buf ! j = CmNone" using r by (auto simp: result_slot_def collects_def collect_res_from_cache_def)
    then show ?thesis using tag True by (simp add: dependency_variant_def)
  next
    case False
    have st: "collects cfg tb rd i p rp r st \<Longrightarrow> (case r of Some vs \<Rightarrow>
        \<exists>v k m. vs = [v] \<and> v_results (rd_view rd k) (rd_slot rd, rp_res_node_id rp, m) = Some v | None \<Rightarrow> st)" for r st
      using collects_stored [OF _ False rp(2)] rp(3) False ok(2) by blast
    have "\<not> collects cfg tb rd i p rp None False" using st [of None False] by auto
    then obtain s' where "collects cfg tb rd i p rp (Some [buf ! j]) s'" using r by (auto simp: result_slot_def)
    from st [OF this] obtain k m where "v_results (rd_view rd k) (rd_slot rd, rp_res_node_id rp, m) = Some (buf ! j)"
      by auto
    moreover have "rp_res_node_id rp < length cache" "wt_ret_variant wt (ce_func_name (cache ! rp_res_node_id rp)) = Some tag"
      using tag False by (auto simp: dependency_variant_def nth_option_def split: if_splits)
    ultimately show ?thesis using ok(1) unfolding stores_variants_def by blast
  qed
qed

lemma proven_static:
  assumes e: "entry_of_args objs n ac" and nw: "narrow_prs (length (layout (node_args n))) (zip (res_indexes ac) (res_predecessors ac))"
    and run: "populate_cached_args_into cfg tb rd ac i p [] t = Some (Inr ((buf, False), t'))"
    and j: "j < length (layout (node_args n))" "\<not> is_dependency (layout (node_args n) ! j)"
    and pv: "provable_variant wt cache tbl entry j = Inr (Some tag)" "ce_arg_cache entry = ac"
  shows "variant_tag (buf ! j) = tag"
proof -
  let ?L = "layout (node_args n)" and ?a = "layout (node_args n) ! j"
  note c = cache_of_entry [OF e]
  have h: "static_holds objs i (cfg_workers cfg) ?a (buf ! j)" using filled_static [OF e nw run j] by simp
  have nd: "position j (res_indexes ac) = None" using j by (simp add: position_None c(1))
  consider "is_index_ref ?a \<or> is_workers_ref ?a" | "\<not> (is_index_ref ?a \<or> is_workers_ref ?a)" "is_rotation objs ?a"
    | "\<not> (is_index_ref ?a \<or> is_workers_ref ?a)" "\<not> is_rotation objs ?a" by blast
  then show ?thesis
  proof cases
    case 1
    then have "tag = ''Usize''" using pv nd j(1) by (simp add: provable_variant_def Let_def c(2,3))
    then show ?thesis using h 1 by (auto simp: static_holds_def is_index_ref_def is_workers_ref_def)
  next
    case 2
    then have "j \<in> set (places (is_rotation objs) ?L)" using j(1) by simp
    then obtain k where k: "position j (places (is_rotation objs) ?L) = Some k"
      using position_None [of j "places (is_rotation objs) ?L"] by auto
    note pk = position_Some [OF k]
    have "nth_option (buffer_values ac) k = Some (objs ! ref_of (arg_type ?a))"
      using rotation_values [of k objs ?L] pk by (simp add: nth_option_def c(5) filter_places)
    then have "rotation_variant (objs ! ref_of (arg_type ?a)) = Some tag"
      using pv nd 2(1) k j(1) by (simp add: provable_variant_def Let_def c(2,3,4))
    moreover have "get_object_value (objs ! ref_of (arg_type ?a)) i = Inr (buf ! j)"
      using h 2(2) by (auto simp: static_holds_def is_rotation_def split: cm_types.splits if_splits)
    ultimately show ?thesis by (rule rotation_tag)
  next
    case 3
    have "position j (buffer_ref_indexes ac) = None" using 3(2) by (simp add: position_None c(4))
    then have "map_option variant_tag (nth_option (ac_args ac) j) = Some tag"
      using pv nd 3(1) j(1) by (simp add: provable_variant_def Let_def c(2,3))
    then have "tag = variant_tag (ac_args ac ! j)" by (simp add: nth_option_def split: if_splits)
    moreover have "buf ! j = static_slot objs ?a CmNone"
      using 3 j c(9) [OF j(1)] by (intro static_literal_tag [OF h]) auto
    ultimately show ?thesis by (simp add: c(7) [OF j(1)])
  qed
qed

text \<open>Behind the arguments that occupy a slot the template holds nothing.\<close>

lemma proven_trailing:
  assumes e: "entry_of_args objs n ac" and nw: "list_all width_one (res_predecessors ac)"
    and run: "populate_cached_args_into cfg tb rd ac i p [] t = Some (Inr ((buf, False), t'))"
    and j: "length (layout (node_args n)) \<le> j" "j < length (node_args n)"
    and pv: "provable_variant wt cache tbl entry j = Inr (Some tag)" "ce_arg_cache entry = ac"
  shows "j < length buf \<and> variant_tag (buf ! j) = tag"
proof -
  let ?L = "layout (node_args n)" and ?prs = "zip (res_indexes ac) (res_predecessors ac)"
  note c = cache_of_entry [OF e]
  have off: "j \<notin> set (places P ?L)" for P using j(1) by simp
  have tag: "tag = ''None''"
    using pv off j c(6,8) by (simp add: provable_variant_def Let_def position_None [THEN iffD2] c(1-4) nth_option_def)
  obtain w b1 b2 where b: "process_buffer_refs ac i (ac_args ac) = Inr b1" "process_runtime_refs ac i w b1 = Inr b2"
    and f: "\<forall>k < length b2. untouched ?prs k \<longrightarrow> k < length buf \<and> buf ! k = b2 ! k"
    using population_phases [OF e stable_narrow [OF nw] run] by blast
  have u: "untouched ?prs j"
  proof -
    have "j \<notin> fst ` set ?prs"
      using off [of is_dependency] by (simp only: dependency_pairs(1) [OF e] flip: set_map) simp
    moreover have "width_one (snd (last ?prs))" if "?prs \<noteq> []"
    proof -
      have "last ?prs \<in> set ?prs" using that by (rule last_in_set)
      then have "snd (last ?prs) \<in> set (res_predecessors ac)" by (metis prod.collapse set_zip_rightD)
      then show ?thesis using nw by (simp add: list_all_iff)
    qed
    ultimately show ?thesis unfolding untouched_def by blast
  qed
  have lv: "length (buffer_values ac) = length (buffer_ref_indexes ac)" by (simp add: c(4,5) filter_places)
  note p1 = put_buffers_slots [OF b(1) [unfolded process_buffer_refs_def] _ lv, unfolded c(4), OF places_distinct]
  have d: "set (rt_idxs_indexes ac) \<inter> set (rt_workers_indexes ac) = {}"
    by (auto simp: c(2,3) is_index_ref_def is_workers_ref_def)
  note p2 = process_runtime_slots [OF b(2) d]
  have "j < length b1" "b1 ! j = CmNone" using p1 off j(2) c(6,8) j by simp_all
  then have "j < length b2" "b2 ! j = CmNone"
    using p2 off [of is_index_ref] off [of is_workers_ref] by (simp_all add: c(2,3))
  then show ?thesis using f u tag by simp
qed

lemma proven_slot:
  assumes e: "entry_of_args objs n ac" and nw: "list_all width_one (res_predecessors ac)"
    and named: "list_all (\<lambda>rp. rp_is_dep rp \<or> rp_indexes rp \<noteq> []) (res_predecessors ac)"
    and run: "populate_cached_args_into cfg tb rd ac i p [] t = Some (Inr ((buf, False), t'))"
    and ok: "stores_variants wt cache rd" "\<not> cfg_single_slot_mode cfg"
    and j: "j < length (node_args n)"
    and pv: "provable_variant wt cache tbl entry j = Inr (Some tag)" "ce_arg_cache entry = ac"
  shows "j < length buf \<and> variant_tag (buf ! j) = tag"
proof -
  let ?L = "layout (node_args n)" and ?prs = "zip (res_indexes ac) (res_predecessors ac)"
  note c = cache_of_entry [OF e] and nw' = stable_narrow [OF nw]
  consider "length ?L \<le> j" | "j < length ?L" "\<not> is_dependency (?L ! j)" | "j < length ?L" "is_dependency (?L ! j)"
    by linarith
  then show ?thesis
  proof cases
    case 1
    then show ?thesis using proven_trailing [OF e nw run _ j pv] by blast
  next
    case 2
    then show ?thesis using proven_static [OF e nw' run 2 pv] filled_static [OF e nw' run 2] by blast
  next
    case 3
    then have "j \<in> set (places is_dependency ?L)" by simp
    then obtain k where k: "position j (res_indexes ac) = Some k"
      using position_None [of j "places is_dependency ?L"] by (auto simp: c(1))
    obtain rp where rp: "nth_option (res_predecessors ac) k = Some rp" "dependency_variant wt cache tbl rp = Some tag"
      using pv k by (auto simp: provable_variant_def Let_def split: option.splits)
    then have kl: "k < length (res_predecessors ac)" "res_predecessors ac ! k = rp"
      by (auto simp: nth_option_def split: if_splits)
    have m: "(j, rp) \<in> set ?prs"
      using position_Some [OF k] kl by (auto simp: in_set_zip intro!: exI [of _ k])
    have "rp \<in> set (res_predecessors ac)" using kl by auto
    then have "width_one rp" "rp_is_dep rp \<or> rp_indexes rp \<noteq> []" using nw named by (auto simp: list_all_iff)
    then show ?thesis
      using proven_dependency [OF e nw' run m _ _ rp(2) ok] filled_dependency [OF e nw' run m] by blast
  qed
qed

lemma stable_entry:
  assumes "build_node_cache reg affinity td order g objs = Inr cache" "i < length cache" "ce_template_stable (cache ! i)"
  shows "list_all width_one (res_predecessors (ce_arg_cache (cache ! i)))"
proof -
  obtain c0 c5 c6 where "cache = map (set_template_stable td) c6"
    by (rule build_node_cache_passes [OF assms(1)])
  then show ?thesis using assms(2,3) by (simp add: set_template_stable_def)
qed


section \<open>Samples\<close>

text \<open>A function that takes an index and returns one, with its unchecked twin.\<close>

definition sample_tables :: wrapper_tables where
  "sample_tables = \<lparr>wt_argspec = \<lambda>_. Some [''Usize''], wt_ret_variant = \<lambda>_. Some ''Usize'', wt_has_twin = \<lambda>_. True\<rparr>"

definition selects :: "graph_spec \<Rightarrow> nat \<Rightarrow> arg_cache_entry \<Rightarrow> bool" where
  "selects spec i ac =
     (case compile sample_registry (\<lambda>_. 0) False False [] spec of
        Inr c \<Rightarrow>
          (case select_unchecked_wrappers False sample_tables (tbl_group_by (gd_tables c)) (gc_node_cache (gd_cache c)) of
             Inr cache' \<Rightarrow> ce_uses_unchecked (cache' ! i) \<and> \<not> ce_uses_unchecked (gc_node_cache (gd_cache c) ! i)
               \<and> ce_func_ptr (cache' ! i) = UncheckedTwin ''work''
               \<and> ce_arg_cache (gc_node_cache (gd_cache c) ! i) = ac \<and> ce_arg_cache (cache' ! i) = ac
           | Inl _ \<Rightarrow> False)
      | Inl _ \<Rightarrow> False)"

lemma selectsD:
  assumes "selects spec i ac"
  obtains c cache' where "compile sample_registry (\<lambda>_. 0) False False [] spec = Inr c"
    "select_unchecked_wrappers False sample_tables (tbl_group_by (gd_tables c)) (gc_node_cache (gd_cache c)) = Inr cache'"
    "cache' ! i \<noteq> gc_node_cache (gd_cache c) ! i" "ce_func_ptr (cache' ! i) = UncheckedTwin ''work''"
    "ce_arg_cache (gc_node_cache (gd_cache c) ! i) = ac" "ce_arg_cache (cache' ! i) = ac"
  using assms by (auto simp: selects_def split: sum.splits) metis

lemma sample_selects: "selects sample_spec 0 (arg_cache_default\<lparr>ac_args := [CmNone], rt_idxs_indexes := [0]\<rparr>)"
  by code_simp


text \<open>The range \<^verbatim>\<open>1-n\<close> with an \<open>n\<close> of 1 names no predecessor instance.\<close>

definition hole_file :: graph_file where
  "hole_file = \<lparr>gf_initializations = [\<lparr>ij_name = ''n'', ij_factor = None,
       ij_args = [\<lparr>ai_type = ''usize'', ai_value = ''1''\<rparr>], ij_function = None\<rparr>],
     gf_nodes = [plain_node ''a'' None [],
       plain_node ''b'' None [\<lparr>aj_type = ''$res'', aj_value = None, aj_condition = None,
         aj_predecessor = Some \<lparr>pj_name = ''a'', pj_indexes = ''1-n'', pj_group_by = None\<rparr>\<rparr>]],
     gf_post_nodes = None, gf_network_config = None\<rparr>"

definition hole_spec :: graph_spec where
  "hole_spec = \<lparr>gs_graph = \<lparr>g_nodes =
       [\<lparr>node_name = ''a'', node_args = [], node_ident = 0, node_loop_args = None, node_factor = 1,
         node_group_size = None, node_func_name = ''work'', node_loop = None, node_condition = None,
         node_prio = Normal, node_use_workers = None\<rparr>,
        \<lparr>node_name = ''b'', node_args = [res_arg 0 []], node_ident = 1, node_loop_args = None,
         node_factor = 1, node_group_size = None, node_func_name = ''work'', node_loop = None,
         node_condition = None, node_prio = Normal, node_use_workers = None\<rparr>],
       initial_nodes = [0], successors = [[1]], condition_nodes = {}, post_nodes = None\<rparr>,
     gs_network = None, gs_objects = [[CmUsize 0], [CmUsize 1], [CmUsize 1]]\<rparr>"

definition hole_cache :: arg_cache_entry where
  "hole_cache = arg_cache_default\<lparr>ac_args := [CmNone], res_indexes := [0], real_res_indexes := [0],
     res_predecessors := [\<lparr>rp_node_id = 1, rp_res_node_id = 0, rp_indexes = [], rp_pred_factor = 1,
       rp_pred_group_size = None, rp_node_group_size = None, rp_node_factor = 1, rp_is_dep = False,
       rp_node_has_barrier = False\<rparr>]\<rparr>"

lemma hole_accepted: "from_graph_file sample_env hole_file = Inr hole_spec"
proof -
  have o: "init_objects sample_env (gf_initializations hole_file)
      = Inr ([[CmUsize 0], [CmUsize 1], [CmUsize 1]], sample_ids)"
    by (simp add: hole_file_def init_objects_def factor_or_one_def init_values_def sample_env_def
      literal_evals sample_ids_def)
  show ?thesis
    by (simp add: from_graph_file_def o)
      (simp add: hole_file_def plain_node_def sample_ids_def sample_env_def show_nat_0 literal_evals
        compile_evals hole_spec_def res_arg_def)
qed

lemma hole_selects: "selects hole_spec 1 hole_cache"
  by code_simp

text \<open>C13: A dependency on no instance defeats the proof. The compiler accepts a file in which the range
  of a dependency turns out empty, and the selection takes the slot to hold the return variant of
  the predecessor's function and installs the unchecked twin; but the population finds nothing to
  read, and the twin is called with the empty value in that slot.\<close>

theorem empty_dependency_defeats_proof:
  "from_graph_file sample_env hole_file = Inr hole_spec
   \<and> (\<exists>c cache'. compile sample_registry (\<lambda>_. 0) False False [] hole_spec = Inr c
       \<and> select_unchecked_wrappers False sample_tables (tbl_group_by (gd_tables c)) (gc_node_cache (gd_cache c)) = Inr cache'
       \<and> ce_func_ptr (cache' ! 1) = UncheckedTwin ''work'' \<and> wt_argspec sample_tables ''work'' = Some [''Usize'']
       \<and> populate_cached_args_into cfg [[None, None], [None, None]] rd (ce_arg_cache (cache' ! 1)) m p [] t
           = Some (Inr (([CmNone], False), t))
       \<and> variant_tag CmNone \<noteq> ''Usize'')"
proof -
  obtain c cache' where c: "compile sample_registry (\<lambda>_. 0) False False [] hole_spec = Inr c"
    "select_unchecked_wrappers False sample_tables (tbl_group_by (gd_tables c)) (gc_node_cache (gd_cache c)) = Inr cache'"
    "ce_func_ptr (cache' ! 1) = UncheckedTwin ''work''" and ac: "ce_arg_cache (cache' ! 1) = hole_cache"
    by (rule selectsD [OF hole_selects])
  have "populate_cached_args_into cfg [[None, None], [None, None]] rd (ce_arg_cache (cache' ! 1)) m p [] t
      = Some (Inr (([CmNone], False), t))"
    unfolding ac
    by (simp add: hole_cache_def arg_cache_default_def populate_cached_args_into_def process_buffer_refs_def
        process_runtime_refs_def collect_res_from_cache_def table_group_by_def or_else_def fetch_res_results_def Let_def
        tbind_def tlift_def tret_def)
  then show ?thesis using hole_accepted c by (auto simp: sample_tables_def)
qed

end
