(* ===== verification/Post_Nodes.thy ===== *)
theory Post_Nodes
  imports Runtime_Run
begin

text \<open>
  Post-nodes (\<^verbatim>\<open>runtime/scheduling.rs\<close>) and the wait loop of the main thread
  (\<^verbatim>\<open>runtime/mod.rs\<close>): when a run ends, and the nodes that run after it. The main thread sleeps
  between its looks at the state; what the other threads do meanwhile is a function of the time and
  the state. Spawning and joining threads, receiver sockets and the transfer of sockets in a
  handover are left out.
\<close>

unbundle bit_operations_syntax

section \<open>Scheduling post-nodes\<close>

definition post_info :: "nat \<Rightarrow> node \<Rightarrow> nat \<Rightarrow> node_info" where
  "post_info slot n i = set_post_node True (node_info_new (node_ident n) slot i 0)"

definition registered :: "registry \<Rightarrow> string \<Rightarrow> func_ref option" where
  "registered reg name = (if has_func reg name then Some (Registered name) else None)"

text \<open>The arguments of a post-node are built on the main thread, instance by instance.\<close>

fun post_requests ::
  "rt_config \<Rightarrow> graph_cache \<Rightarrow> services \<Rightarrow> rt_state \<Rightarrow> nat \<Rightarrow> node \<Rightarrow> nat list
     \<Rightarrow> (node_info \<times> cm_types list option \<times> func_ref option) list step" where
  "post_requests cfg gc sv s slot n [] = Some (Inr [])"
| "post_requests cfg gc sv s slot n (i # is) =
     sbind (at_once (parse_args (args_of cfg) (gc_graph gc) (gc_init_objects gc) (gc_pred_group_by gc)
         (\<lambda>_. view_of s) (node_args n) i slot 0 None [])) (\<lambda>args.
     sbind (post_requests cfg gc sv s slot n is) (\<lambda>reqs.
       Some (Inr ((post_info slot n i, Some args, registered (sv_registry sv) (node_func_name n)) # reqs))))"

definition post_completed :: "nat \<Rightarrow> node \<Rightarrow> rt_state \<Rightarrow> nat" where
  "post_completed slot n s =
     length (filter (\<lambda>i. result_exists (cell_of (post_info slot n i)) (node_results s)) [0..<node_factor n])"

text \<open>After each sleep the main thread counts the results anew.\<close>

partial_function (option) await_post ::
  "(nat \<Rightarrow> rt_state \<Rightarrow> rt_state) \<Rightarrow> nat \<Rightarrow> node \<Rightarrow> nat \<Rightarrow> nat \<Rightarrow> rt_state \<Rightarrow> (rt_state \<times> nat) step" where
  "await_post env slot n completed t s =
     (if completed < node_factor n then
        let s' = env t s in await_post env slot n (post_completed slot n s') (t + 1) s'
      else Some (Inr (s, t)))"

fun schedule_nodes ::
  "rt_config \<Rightarrow> graph_cache \<Rightarrow> services \<Rightarrow> (nat \<Rightarrow> rt_state \<Rightarrow> rt_state) \<Rightarrow> nat \<Rightarrow> node list \<Rightarrow> nat \<Rightarrow> rt_state
     \<Rightarrow> (rt_state \<times> nat) step" where
  "schedule_nodes cfg gc sv env slot [] t s = Some (Inr (s, t))"
| "schedule_nodes cfg gc sv env slot (n # ns) t s =
     sbind (post_requests cfg gc sv s slot n [0..<node_factor n]) (\<lambda>reqs.
     sbind (Some (send_to_scheduler sv gc reqs s)) (\<lambda>s1.
     sbind (await_post env slot n 0 t s1) (\<lambda>(s2, t2).
       schedule_nodes cfg gc sv env slot ns t2 s2)))"

definition schedule_post_nodes ::
  "rt_config \<Rightarrow> graph_cache \<Rightarrow> services \<Rightarrow> (nat \<Rightarrow> rt_state \<Rightarrow> rt_state) \<Rightarrow> nat \<Rightarrow> nat \<Rightarrow> rt_state
     \<Rightarrow> (rt_state \<times> nat) step" where
  "schedule_post_nodes cfg gc sv env system_threads t s =
     (case post_nodes (gc_graph gc) of
        Some nodes \<Rightarrow> schedule_nodes cfg gc sv env (cfg_slots cfg + system_threads) nodes t s
      | None \<Rightarrow> Some (Inr (s, t)))"

section \<open>The wait loop\<close>

definition HANDOVER_QUIET_ns :: nat where
  "HANDOVER_QUIET_ns = 20000000"

record run_progress =
  pr_elapsed :: nat
  pr_frames_completed :: nat
  pr_max_frames :: nat
  pr_active_slots :: nat
  pr_stale_drops :: u64

text \<open>Options of a run that only the main thread reads, and what it sees from outside at a look:
  nanoseconds since the start, whether the sockets have been handed over, and whether the ingest
  channels are empty. The predicate is given its call number, since it may keep a state.\<close>

record run_options =
  ro_max_runtime :: "nat option"
  ro_predicate :: "(nat \<Rightarrow> run_progress \<Rightarrow> bool) option"
  ro_handover_listen :: bool

record look =
  lk_elapsed_ns :: nat
  lk_handed_over :: bool
  lk_channels_empty :: bool

definition handover_drained :: "rt_config \<Rightarrow> bool \<Rightarrow> rt_state \<Rightarrow> bool" where
  "handover_drained cfg channels_empty s \<longleftrightarrow>
     frame_packets (net s) \<noteq> 0 \<and> channels_empty \<and> pending_count (net s) = 0
     \<and> list_all (\<lambda>i. unat (packet_counters s ! i) < frame_packets (net s))
         (filter (bit (active_bitmap s)) [0..<cfg_slots cfg])"

definition progress_of :: "rt_config \<Rightarrow> nat \<Rightarrow> rt_state \<Rightarrow> run_progress" where
  "progress_of cfg elapsed s =
     \<lparr>pr_elapsed = elapsed, pr_frames_completed = frame_complete_counter s, pr_max_frames = cfg_max_frames cfg,
      pr_active_slots = length (filter (bit (active_bitmap s)) [0..<64]), pr_stale_drops = stale_tasks_dropped s\<rparr>"

text \<open>One look: whether the run ends, and since when a handed-over run has completed no frame.\<close>

definition run_look ::
  "rt_config \<Rightarrow> run_options \<Rightarrow> nat \<Rightarrow> look \<Rightarrow> rt_state \<Rightarrow> (nat \<times> nat) option \<Rightarrow> bool \<times> (nat \<times> nat) option" where
  "run_look cfg opts k l s quiet =
     (let completed_frames = frame_complete_counter s;
          now = lk_elapsed_ns l;
          (finish, quiet') =
            (if (case ro_max_runtime opts of Some m \<Rightarrow> m < now div 10 ^ 9 | None \<Rightarrow> False) then (True, quiet)
             else if completed_frames = cfg_max_frames cfg then (True, quiet)
             else if lk_handed_over l then
               if handover_drained cfg (lk_channels_empty l) s then (True, quiet)
               else (case quiet of
                   Some (n, since) \<Rightarrow>
                     if n = completed_frames then (HANDOVER_QUIET_ns \<le> now - since, quiet)
                     else (False, Some (completed_frames, now))
                 | None \<Rightarrow> (False, Some (completed_frames, now)))
             else (False, quiet))
      in (finish \<or> (case ro_predicate opts of Some pred \<Rightarrow> pred k (progress_of cfg now s) | None \<Rightarrow> False),
          quiet'))"

partial_function (option) run_wait ::
  "rt_config \<Rightarrow> graph_cache \<Rightarrow> services \<Rightarrow> run_options \<Rightarrow> nat \<Rightarrow> (nat \<Rightarrow> rt_state \<Rightarrow> rt_state) \<Rightarrow> (nat \<Rightarrow> look)
     \<Rightarrow> nat \<Rightarrow> (nat \<times> nat) option \<Rightarrow> rt_state \<Rightarrow> (rt_state \<times> nat) step" where
  "run_wait cfg gc sv opts system_threads env looks t quiet s =
     (let s1 = env t s
      in case run_look cfg opts t (looks t) s1 quiet of
           (finish, quiet') \<Rightarrow>
             if finish then
               schedule_post_nodes cfg gc sv env system_threads (t + 1) (s1\<lparr>shutdown_flag := True\<rparr>)
             else run_wait cfg gc sv opts system_threads env looks (t + 1) quiet' s1)"

text \<open>Without a limit, a predicate or a handover listener the main thread goes on to join the
  resolution threads at once.\<close>

definition run_impl ::
  "rt_config \<Rightarrow> graph_cache \<Rightarrow> services \<Rightarrow> run_options \<Rightarrow> nat \<Rightarrow> (nat \<Rightarrow> rt_state \<Rightarrow> rt_state) \<Rightarrow> (nat \<Rightarrow> look)
     \<Rightarrow> rt_state \<Rightarrow> (rt_state \<times> nat) step" where
  "run_impl cfg gc sv opts system_threads env looks s =
     (if ro_max_runtime opts \<noteq> None \<or> ro_predicate opts \<noteq> None \<or> ro_handover_listen opts
      then run_wait cfg gc sv opts system_threads env looks 0 None s
      else Some (Inr (s, 0)))"

end
