(* ===== verification/Post_Properties.thy ===== *)
theory Post_Properties
  imports Post_Nodes Task_Properties
begin

text \<open>
  What post-nodes see and do, when their wait ends, and when a run ends.
\<close>

unbundle bit_operations_syntax

section \<open>Waiting for the instances of a post-node\<close>

definition all_stored :: "nat \<Rightarrow> node \<Rightarrow> rt_state \<Rightarrow> bool" where
  "all_stored slot n s \<longleftrightarrow> (\<forall>i < node_factor n. result_exists (slot, node_ident n, i) (node_results s))"

lemma post_info_fields [simp]:
  "cell_of (post_info slot n i) = (slot, node_ident n, i)" "ni_id (post_info slot n i) = node_ident n"
  "ni_slot (post_info slot n i) = slot" "ni_index (post_info slot n i) = i"
  "post_node (post_info slot n i)" "ni_gen (post_info slot n i) = 0" "bulk_count (post_info slot n i) = 1"
  by (simp_all add: post_info_def set_post_node_def node_info_new_def cell_of_def)

lemma post_completed_all: "node_factor n \<le> post_completed slot n s \<longleftrightarrow> all_stored slot n s"
proof (cases "all_stored slot n s")
  case True
  then have "filter (\<lambda>i. result_exists (cell_of (post_info slot n i)) (node_results s)) [0..<node_factor n]
      = [0..<node_factor n]"
    by (intro filter_True) (simp add: all_stored_def)
  then show ?thesis using True by (simp only: post_completed_def length_upt) simp
next
  case False
  then obtain i where "i \<in> set [0..<node_factor n]" "\<not> result_exists (cell_of (post_info slot n i)) (node_results s)"
    by (auto simp: all_stored_def)
  then have "post_completed slot n s < length [0..<node_factor n]"
    unfolding post_completed_def by (rule length_filter_less)
  then show ?thesis using False by simp
qed

lemma await_stored:
  assumes "await_post env slot n c t s = Some r" "\<forall>t s. I s \<longrightarrow> I (env t s)" "I s"
  shows "\<exists>s' t'. r = Inr (s', t') \<and> I s' \<and> (if c < node_factor n then all_stored slot n s' else s' = s)"
proof -
  have "(\<forall>t s. I s \<longrightarrow> I (env t s)) \<longrightarrow> I s \<longrightarrow>
      (\<exists>s' t'. r = Inr (s', t') \<and> I s' \<and> (if c < node_factor n then all_stored slot n s' else s' = s))"
    using assms(1)
  proof (induction rule: await_post.raw_induct [rotated 1, consumes 1])
    case (1 await env slot n c t s r)
    show ?case
    proof (intro impI)
      assume env: "\<forall>t s. I s \<longrightarrow> I (env t s)" and s: "I s"
      show "\<exists>s' t'. r = Inr (s', t') \<and> I s' \<and> (if c < node_factor n then all_stored slot n s' else s' = s)"
      proof (cases "c < node_factor n")
        case True
        then have "await env slot n (post_completed slot n (env t s)) (t + 1) (env t s) = Some r"
          using 1(2) by (simp add: Let_def)
        from 1(1) [OF this] show ?thesis
          using env s True post_completed_all [of n slot "env t s"] by (auto split: if_splits)
      qed (use 1(2) s in auto)
    qed
  qed
  then show ?thesis using assms(2,3) by blast
qed

lemma send_only_schedules: "send_to_scheduler sv gc reqs s = Inr s' \<Longrightarrow> \<exists>ss. s' = s\<lparr>scheduled := ss\<rparr>"
proof (induction reqs arbitrary: s)
  case (Cons req reqs)
  then obtain t where "send_to_scheduler sv gc reqs (s\<lparr>scheduled := scheduled s @ [t]\<rparr>) = Inr s'"
    by (auto simp: rbind_eq_Inr)
  from Cons.IH [OF this] show ?case by auto
qed (auto intro: exI [of _ "scheduled s'"])

lemma scheduled_nodes_stored:
  assumes "schedule_nodes cfg gc sv env slot ns t s = Some (Inr (s', t'))"
    and "\<forall>t s. I s \<longrightarrow> I (env t s)" "\<forall>s ss. I s \<longrightarrow> I (s\<lparr>scheduled := ss\<rparr>)" "I s"
  shows "I s' \<and> (\<forall>n \<in> set ns. 0 < node_factor n \<longrightarrow> (\<exists>s. I s \<and> all_stored slot n s))"
  using assms(1,4)
proof (induction ns arbitrary: t s)
  case (Cons n ns)
  then obtain reqs s1 s2 t2 where s1: "send_to_scheduler sv gc reqs s = Inr s1"
    and s2: "await_post env slot n 0 t s1 = Some (Inr (s2, t2))"
    and r: "schedule_nodes cfg gc sv env slot ns t2 s2 = Some (Inr (s', t'))"
    by (auto simp: sbind_Some)
  have "I s1" using send_only_schedules [OF s1] assms(3) Cons.prems(2) by auto
  from await_stored [where I = I, OF s2 assms(2) this]
  have "I s2" "0 < node_factor n \<longrightarrow> all_stored slot n s2" by (auto split: if_splits)
  then show ?case using Cons.IH [OF r] by auto
qed simp

text \<open>C36: A post-node that does not fit the result store is waited for forever. The store has a cell
  for each instance of the regular nodes only; a post-node is stored under its own number. If it has
  an instance for which the regular node of that number has no cell, the main thread never comes
  back from scheduling the post-nodes, whatever the other threads do.\<close>

theorem post_wait_never_ends:
  assumes "post_nodes (gc_graph gc) = Some ns" "n \<in> set ns" "i < node_factor n"
    and "\<not> cell_valid (node_results s) (cfg_slots cfg + system_threads, node_ident n, i)"
    and "\<forall>t s. cell_valid (node_results (env t s)) = cell_valid (node_results s)"
  shows "schedule_post_nodes cfg gc sv env system_threads t s \<noteq> Some (Inr r)"
proof
  assume "schedule_post_nodes cfg gc sv env system_threads t s = Some (Inr r)"
  then have "schedule_nodes cfg gc sv env (cfg_slots cfg + system_threads) ns t s = Some (Inr (fst r, snd r))"
    using assms(1) by (simp add: schedule_post_nodes_def)
  from scheduled_nodes_stored [where I = "\<lambda>s'. cell_valid (node_results s') = cell_valid (node_results s)", OF this]
  obtain s' where "cell_valid (node_results s') = cell_valid (node_results s)"
      "all_stored (cfg_slots cfg + system_threads) n s'"
    using assms(2,3,5) by auto
  then show False using assms(3,4) by (auto simp: all_stored_def result_exists_def)
qed

section \<open>What a post-node reads\<close>

definition arg_values :: "arg_config \<Rightarrow> cm_types list list \<Rightarrow> nat \<Rightarrow> arg \<Rightarrow> cm_types list" where
  "arg_values cfg objs i a =
     (case arg_type a of
        CmRef k \<Rightarrow>
          (case handle_special_ref k i (cfg_workers cfg) of
             Some vs \<Rightarrow> vs
           | None \<Rightarrow> (case get_object_value (objs ! k) i of Inr v \<Rightarrow> [v] | Inl _ \<Rightarrow> []))
      | CmRes _ \<Rightarrow> []
      | CmDep _ \<Rightarrow> [CmNone]
      | CmBarrier _ \<Rightarrow> []
      | v \<Rightarrow> [v])"

definition post_values :: "arg_config \<Rightarrow> cm_types list list \<Rightarrow> nat \<Rightarrow> arg list \<Rightarrow> cm_types list" where
  "post_values cfg objs i as = concat (map (arg_values cfg objs i) (filter (\<lambda>a. \<not> is_condition a) as))"

text \<open>A reader that finds nothing in its slot after the shutdown.\<close>

definition finds_nothing :: "nat \<Rightarrow> (nat \<Rightarrow> view) \<Rightarrow> bool" where
  "finds_nothing slot view \<longleftrightarrow> (\<forall>t. v_shutdown (view t) \<and> (\<forall>k i. v_results (view t) (slot, k, i) = None))"

lemma wait_finds_nothing:
  assumes "finds_nothing slot view"
  shows "get_or_wait b (slot, k, i) es eg view t = Some (Inr ((None, True), Suc (Suc t)))"
proof -
  have "poll b (slot, k, i) es eg (view (Suc t)) = Some (Inr (None, True))"
    using assms by (simp add: poll_def finds_nothing_def)
  then show ?thesis
    using assms by (simp add: get_or_wait_def finds_nothing_def) (subst spin_wait.simps, simp)
qed

lemma fetch_finds_nothing:
  assumes "fetch_res_results cfg rd nid ks i p nf pf ngs eff hb t = Some (Inr ((r, stale), t'))"
    "finds_nothing (rd_slot rd) (rd_view rd)"
  shows "r = None"
  using assms
  by (cases ks) (auto simp: fetch_res_results_def fetch_one_def tbind_Some tret_def wait_finds_nothing
      tlift_def split: if_splits sum.splits option.splits)

lemma collect_values:
  assumes "collect_arg_result cfg g objs tbl rd a nid i nf p None t = Some (Inr ((r, stale), t'))"
    "finds_nothing (rd_slot rd) (rd_view rd) \<or> \<not> is_result (arg_type a)"
  shows "(case r of Some vs \<Rightarrow> vs | None \<Rightarrow> []) = arg_values cfg objs i a"
proof (cases "\<exists>k. arg_type a = CmRes k")
  case True
  then have "r = None"
    using assms fetch_finds_nothing
    by (auto simp: collect_arg_result_def tbind_Some tret_def split: option.splits prod.splits)
  then show ?thesis using True by (auto simp: arg_values_def)
next
  case False
  then show ?thesis
    using assms(1) [symmetric]
    by (auto simp: collect_arg_result_def arg_values_def tret_def tfail_def tlift_def rbind_eq_Inr
        split: cm_types.splits option.splits if_splits sum.splits)
qed

lemma parse_args_values:
  assumes "parse_args cfg g objs tbl view as i slot p None acc t = Some (Inr (vs, t'))"
    "finds_nothing slot view \<or> (\<forall>a \<in> set as. is_condition a \<or> \<not> is_result (arg_type a))"
  shows "vs = acc @ post_values cfg objs i as"
  using assms
proof (induction as arbitrary: acc t)
  case Nil
  then show ?case by (simp add: tret_def post_values_def)
next
  case (Cons a as)
  show ?case
  proof (cases "is_condition a")
    case True
    then show ?thesis using Cons by (simp add: post_values_def)
  next
    case False
    then obtain r stale t1 where
      c: "collect_arg_result cfg g objs tbl \<lparr>rd_slot = slot, rd_exec_slot = NO_EXEC, rd_exec_gen = 0, rd_view = view\<rparr>
        a 0 i 0 p None t = Some (Inr ((r, stale), t1))"
      and p: "parse_args cfg g objs tbl view as i slot p None (acc @ (case r of Some vs \<Rightarrow> vs | None \<Rightarrow> [])) t1
        = Some (Inr (vs, t'))"
      using Cons.prems(1) by (auto simp: tbind_Some)
    have "(case r of Some vs \<Rightarrow> vs | None \<Rightarrow> []) = arg_values cfg objs i a"
      using Cons.prems(2) False by (intro collect_values [OF c]) auto
    then show ?thesis using Cons.IH [OF p] Cons.prems(2) False by (auto simp: post_values_def)
  qed
qed

lemma post_requests_values:
  assumes "post_requests cfg gc sv s slot n is = Some (Inr reqs)"
    "finds_nothing slot (\<lambda>_. view_of s) \<or> (\<forall>a \<in> set (node_args n). is_condition a \<or> \<not> is_result (arg_type a))"
  shows "reqs = map (\<lambda>i. (post_info slot n i, Some (post_values (args_of cfg) (gc_init_objects gc) i (node_args n)),
    registered (sv_registry sv) (node_func_name n))) is"
  using assms(1)
proof (induction "is" arbitrary: reqs)
  case (Cons i "is")
  then obtain args t' reqs' where
    a: "parse_args (args_of cfg) (gc_graph gc) (gc_init_objects gc) (gc_pred_group_by gc) (\<lambda>_. view_of s)
      (node_args n) i slot 0 None [] 0 = Some (Inr (args, t'))"
    and r: "post_requests cfg gc sv s slot n is = Some (Inr reqs')"
      "reqs = (post_info slot n i, Some args, registered (sv_registry sv) (node_func_name n)) # reqs'"
    by (auto simp: sbind_Some at_once_Some)
  show ?case using parse_args_values [OF a assms(2)] Cons.IH [OF r(1)] r(2) by simp
qed simp


section \<open>A worker serves the post-nodes\<close>

text \<open>One worker that drains the queue while the main thread sleeps.\<close>

fun serve :: "rt_config \<Rightarrow> graph_cache \<Rightarrow> services \<Rightarrow> nat \<Rightarrow> rt_state \<Rightarrow> rt_state" where
  "serve cfg gc sv 0 s = s"
| "serve cfg gc sv (Suc m) s =
     (case scheduled s of
        [] \<Rightarrow> s
      | t # _ \<Rightarrow>
          (case run_scheduled cfg gc sv t [] s of
             Some (Inr (_, s')) \<Rightarrow> serve cfg gc sv m s'
           | _ \<Rightarrow> s))"

definition one_worker :: "rt_config \<Rightarrow> graph_cache \<Rightarrow> services \<Rightarrow> nat \<Rightarrow> rt_state \<Rightarrow> rt_state" where
  "one_worker cfg gc sv t s = serve cfg gc sv (length (scheduled s)) s"

text \<open>A post-node fits the tables: it is listed under its number, its function is registered, every
  instance has a cell, and no argument waits for a result.\<close>

definition static_arg :: "cm_types list list \<Rightarrow> arg \<Rightarrow> bool" where
  "static_arg objs a \<longleftrightarrow> is_condition a \<or> \<not> is_result (arg_type a)
     \<and> (case arg_type a of CmRef k \<Rightarrow> k < 2 \<or> k < length objs \<and> objs ! k \<noteq> [] | _ \<Rightarrow> True)"

definition post_fits :: "graph_cache \<Rightarrow> services \<Rightarrow> (cell \<Rightarrow> bool) \<Rightarrow> nat \<Rightarrow> node list \<Rightarrow> node \<Rightarrow> bool" where
  "post_fits gc sv valid slot ns n \<longleftrightarrow>
     node_ident n < length ns \<and> ns ! node_ident n = n \<and> node_ident n < length (gc_node_cache gc)
     \<and> has_func (sv_registry sv) (node_func_name n)
     \<and> list_all (\<lambda>i. valid (slot, node_ident n, i)) [0..<node_factor n]
     \<and> list_all (static_arg (gc_init_objects gc)) (node_args n)"

definition post_call :: "rt_config \<Rightarrow> graph_cache \<Rightarrow> node \<Rightarrow> nat \<Rightarrow> plugin_call" where
  "post_call cfg gc n i =
     Call (Registered (node_func_name n)) (post_values (args_of cfg) (gc_init_objects gc) i (node_args n))"

lemma parse_args_fixed:
  assumes "list_all (static_arg objs) as"
  shows "\<exists>vs. parse_args cfg g objs tbl view as i slot p None acc t = Some (Inr (vs, t))"
  using assms
proof (induction as arbitrary: acc)
  case (Cons a as)
  show ?case
  proof (cases "is_condition a")
    case False
    then have "\<exists>r. collect_arg_result cfg g objs tbl rd a 0 i 0 p None t = Some (Inr (r, t))" for rd
      using Cons.prems
      by (auto simp: collect_arg_result_def tret_def tlift_def handle_special_ref_def get_object_value_def
          static_arg_def split: cm_types.splits)
    then obtain r where "collect_arg_result cfg g objs tbl
        \<lparr>rd_slot = slot, rd_exec_slot = NO_EXEC, rd_exec_gen = 0, rd_view = view\<rparr> a 0 i 0 p None t = Some (Inr (r, t))"
      by blast
    then show ?thesis using Cons False by (simp add: tbind_def case_prod_beta)
  qed (use Cons in simp)
qed (simp add: tret_def)

lemma post_requests_fixed:
  assumes "list_all (static_arg (gc_init_objects gc)) (node_args n)"
  shows "\<exists>reqs. post_requests cfg gc sv s slot n is = Some (Inr reqs)"
proof (induction "is")
  case (Cons i "is")
  then show ?case
    using parse_args_fixed [OF assms, of "args_of cfg" "gc_graph gc" "gc_pred_group_by gc" "\<lambda>_. view_of s" i slot 0 "[]" 0]
    by (auto simp: at_once_def)
qed simp

text \<open>What a served post-node leaves behind.\<close>

definition post_task :: "rt_config \<Rightarrow> graph_cache \<Rightarrow> services \<Rightarrow> nat \<Rightarrow> node \<Rightarrow> nat \<Rightarrow> sched_task" where
  "post_task cfg gc sv slot n i =
     \<lparr>st_node = post_info slot n i, st_func = Registered (node_func_name n), st_priority = priority_of_post n,
      st_group = sv_affinity sv (node_use_workers n),
      st_args = Some (post_values (args_of cfg) (gc_init_objects gc) i (node_args n))\<rparr>"

lemma send_posts:
  assumes "post_nodes (gc_graph gc) = Some ns" "node_ident n < length ns" "ns ! node_ident n = n"
    "has_func (sv_registry sv) (node_func_name n)"
  shows "send_to_scheduler sv gc (map (\<lambda>i. (post_info slot n i,
      Some (post_values (args_of cfg) (gc_init_objects gc) i (node_args n)), registered (sv_registry sv) (node_func_name n))) is) s
    = Inr (s\<lparr>scheduled := scheduled s @ map (post_task cfg gc sv slot n) is\<rparr>)"
  using assms
  by (induction "is" arbitrary: s)
    (simp_all add: prepare_task_def registered_def vec_at_def post_task_def)

text \<open>What the store answers after the instances \<open>is\<close> of a post-node.\<close>

definition post_result :: "rt_config \<Rightarrow> graph_cache \<Rightarrow> services \<Rightarrow> node \<Rightarrow> nat \<Rightarrow> cm_types" where
  "post_result cfg gc sv n i =
     sv_plugin sv (Registered (node_func_name n)) (post_values (args_of cfg) (gc_init_objects gc) i (node_args n))"

definition served :: "rt_config \<Rightarrow> graph_cache \<Rightarrow> services \<Rightarrow> nat \<Rightarrow> (node \<times> nat) list \<Rightarrow> rt_state \<Rightarrow> rt_state \<Rightarrow> bool" where
  "served cfg gc sv slot ps s s' \<longleftrightarrow>
     plugin_calls s' = plugin_calls s @ map (\<lambda>(n, i). post_call cfg gc n i) ps
     \<and> rm_ok (node_results s') \<and> cell_valid (node_results s') = cell_valid (node_results s)
     \<and> lookup (node_results s') = foldl (\<lambda>m (n, i). m((slot, node_ident n, i) \<mapsto> post_result cfg gc sv n i))
         (lookup (node_results s)) ps"

lemma served_trans:
  "served cfg gc sv slot ps s1 s2 \<Longrightarrow> served cfg gc sv slot qs s2 s3 \<Longrightarrow> served cfg gc sv slot (ps @ qs) s1 s3"
  by (simp add: served_def)

lemma run_post_task:
  assumes "scheduled s = post_task cfg gc sv slot n i # ts" "rm_ok (node_results s)"
    "cell_valid (node_results s) (slot, node_ident n, i)" "node_ident n < length (gc_node_cache gc)"
    "storable (post_result cfg gc sv n i)"
  shows "\<exists>s'. run_scheduled cfg gc sv (post_task cfg gc sv slot n i) [] s = Some (Inr ([], s'))
    \<and> scheduled s' = ts \<and> served cfg gc sv slot [(n, i)] s s'"
proof -
  obtain m where m: "rm_set (slot, node_ident n, i) (post_result cfg gc sv n i) (node_results s) = Inr m"
    "rm_ok m" "cell_valid m = cell_valid (node_results s)"
    "lookup m = (lookup (node_results s))((slot, node_ident n, i) \<mapsto> post_result cfg gc sv n i)"
    using rm_set_ok [OF assms(2,3,5)] by blast
  show ?thesis
    using assms(1,4) m
    by (simp add: run_scheduled_def post_task_def run_node.simps execute_task_def execute_single_task_def
        call_plugin_def complete_single_def store_result_def vec_at_def served_def post_call_def post_result_def)
qed

lemma serve_posts:
  assumes "scheduled s = map (post_task cfg gc sv slot n) is" "rm_ok (node_results s)"
    "\<forall>i \<in> set is. cell_valid (node_results s) (slot, node_ident n, i)" "node_ident n < length (gc_node_cache gc)"
    "\<forall>i. storable (post_result cfg gc sv n i)"
  shows "scheduled (serve cfg gc sv (length is) s) = []
    \<and> served cfg gc sv slot (map (Pair n) is) s (serve cfg gc sv (length is) s)"
  using assms
proof (induction "is" arbitrary: s)
  case (Cons i "is")
  obtain s' where r: "run_scheduled cfg gc sv (post_task cfg gc sv slot n i) [] s = Some (Inr ([], s'))"
    and q: "scheduled s' = map (post_task cfg gc sv slot n) is" and v: "served cfg gc sv slot [(n, i)] s s'"
    using run_post_task [of s cfg gc sv slot n i "map (post_task cfg gc sv slot n) is"] Cons.prems by auto
  have "rm_ok (node_results s')" "\<forall>i \<in> set is. cell_valid (node_results s') (slot, node_ident n, i)"
    using v Cons.prems(3) by (simp_all add: served_def)
  note rest = Cons.IH [OF q this Cons.prems(4,5)]
  show ?case using rest served_trans [OF v] Cons.prems(1) r by auto
qed (simp add: served_def)

lemma stored_results:
  assumes "inj_on (\<lambda>(n, i). (node_ident n, i)) (set ps)" "(n, i) \<in> set ps"
  shows "foldl (\<lambda>m (n, i). m((slot, node_ident n, i) \<mapsto> post_result cfg gc sv n i)) f ps (slot, node_ident n, i)
    = Some (post_result cfg gc sv n i)"
  using assms
proof (induction ps rule: rev_induct)
  case (snoc p ps)
  obtain m j where p: "p = (m, j)" by (cases p)
  show ?case
  proof (cases "(node_ident m, j) = (node_ident n, i)")
    case True
    then have "p = (n, i)" using inj_onD [OF snoc.prems(1), of p "(n, i)"] snoc.prems(2) p by simp
    then show ?thesis by simp
  next
    case False
    then show ?thesis using snoc p by (auto simp: inj_on_def)
  qed
qed simp

lemma served_stored:
  assumes "served cfg gc sv slot (map (Pair n) [0..<node_factor n]) s s'"
  shows "all_stored slot n s'"
proof -
  have "inj_on (\<lambda>(n, i). (node_ident n, i)) (set (map (Pair n) [0..<node_factor n]))" by (auto simp: inj_on_def)
  from stored_results [OF this, where slot = slot and cfg = cfg and gc = gc and sv = sv and f = "lookup (node_results s)"]
  show ?thesis
    using assms by (auto simp: all_stored_def served_def result_exists_lookup)
qed

lemma await_served:
  assumes "scheduled s = map (post_task cfg gc sv slot n) [0..<node_factor n]" "rm_ok (node_results s)"
    "\<forall>i < node_factor n. cell_valid (node_results s) (slot, node_ident n, i)" "node_ident n < length (gc_node_cache gc)"
    "\<forall>i. storable (post_result cfg gc sv n i)"
  shows "\<exists>s' t'. await_post (one_worker cfg gc sv) slot n 0 t s = Some (Inr (s', t')) \<and> scheduled s' = []
    \<and> served cfg gc sv slot (map (Pair n) [0..<node_factor n]) s s'"
proof (cases "node_factor n")
  case 0
  then show ?thesis using assms(1,2) by (subst await_post.simps) (simp add: served_def)
next
  case (Suc k)
  let ?s = "one_worker cfg gc sv t s"
  have v: "scheduled ?s = []" "served cfg gc sv slot (map (Pair n) [0..<node_factor n]) s ?s"
    using serve_posts [OF assms(1,2) _ assms(4,5)] assms(3) by (simp_all add: one_worker_def assms(1) del: upt_Suc)
  have "\<not> post_completed slot n ?s < node_factor n"
    using served_stored [OF v(2)] by (simp add: post_completed_all [symmetric])
  then have "await_post (one_worker cfg gc sv) slot n 0 t s = Some (Inr (?s, t + 1))"
    using Suc by (subst await_post.simps) (simp add: Let_def await_post.simps)
  then show ?thesis using v by blast
qed

lemma schedule_served:
  assumes ns: "post_nodes (gc_graph gc) = Some ns" and st: "\<forall>n i. storable (post_result cfg gc sv n i)"
    and "list_all (post_fits gc sv (cell_valid (node_results s)) slot ns) ms" "rm_ok (node_results s)" "scheduled s = []"
  shows "\<exists>s' t'. schedule_nodes cfg gc sv (one_worker cfg gc sv) slot ms t s = Some (Inr (s', t'))
    \<and> served cfg gc sv slot (concat (map (\<lambda>n. map (Pair n) [0..<node_factor n]) ms)) s s'"
  using assms(3-)
proof (induction ms arbitrary: s t)
  case (Cons n ms)
  let ?s = "s\<lparr>scheduled := map (post_task cfg gc sv slot n) [0..<node_factor n]\<rparr>"
  have n: "node_ident n < length ns" "ns ! node_ident n = n" "node_ident n < length (gc_node_cache gc)"
    "has_func (sv_registry sv) (node_func_name n)" "list_all (static_arg (gc_init_objects gc)) (node_args n)"
    "\<forall>i < node_factor n. cell_valid (node_results s) (slot, node_ident n, i)"
    using Cons.prems(1) by (simp_all add: post_fits_def list_all_iff)
  obtain reqs where r: "post_requests cfg gc sv s slot n [0..<node_factor n] = Some (Inr reqs)"
    using post_requests_fixed [OF n(5)] by blast
  have "\<forall>a \<in> set (node_args n). is_condition a \<or> \<not> is_result (arg_type a)"
    using n(5) by (auto simp: list_all_iff static_arg_def)
  then have "send_to_scheduler sv gc reqs s = Inr ?s"
    using post_requests_values [OF r] send_posts [OF ns n(1,2,4)] Cons.prems(3) by simp
  moreover obtain s' t' where a: "await_post (one_worker cfg gc sv) slot n 0 t ?s = Some (Inr (s', t'))" "scheduled s' = []"
    "served cfg gc sv slot (map (Pair n) [0..<node_factor n]) ?s s'"
    using await_served [of ?s cfg gc sv slot n t] Cons.prems(2) n(3,6) st by auto
  moreover have v: "served cfg gc sv slot (map (Pair n) [0..<node_factor n]) s s'"
    using a(3) by (simp add: served_def)
  moreover have "list_all (post_fits gc sv (cell_valid (node_results s')) slot ns) ms" "rm_ok (node_results s')"
    using v Cons.prems(1) by (simp_all add: served_def)
  ultimately show ?case
    using Cons.IH [of s' t'] r served_trans [OF v] by fastforce
qed (simp add: served_def)



section \<open>Samples\<close>

text \<open>The runtime at rest with post-nodes after the graph.\<close>

definition posts_gc :: "node list \<Rightarrow> graph_cache" where
  "posts_gc ns = demo_gc\<lparr>gc_graph := (gc_graph demo_gc)\<lparr>post_nodes := Some ns\<rparr>, gc_pred_group_by := [[None]]\<rparr>"

definition literal_arg :: "cm_types \<Rightarrow> arg" where
  "literal_arg v = \<lparr>arg_type = v, arg_init_condition = None, arg_predecessor = None\<rparr>"

lemma demo_results:
  "node_results demo_state = result_map_new two_stage 3" "scheduled demo_state = []" "plugin_calls demo_state = []"
  by (simp_all add: demo_state_def initial_state_def)

theorem post_wait_never_ends_witness:
  "schedule_post_nodes demo_config (posts_gc [make_node 0 9 []]) demo_services (\<lambda>_ s. s) 1 0 demo_state \<noteq> Some (Inr (demo_state, 0))"
  by (rule post_wait_never_ends [where ns = "[make_node 0 9 []]" and n = "make_node 0 9 []" and i = 8])
    (simp_all add: posts_gc_def demo_results cell_valid_new two_stage_def make_node_def)



end
