(* ===== verification/Run_End.thy ===== *)
theory Run_End
  imports Post_Properties
begin

text \<open>
  When a run ends: the wait loop of the main thread stops at its first look at which there is a reason,
  sets the shutdown flag and schedules the post-nodes.
\<close>

section \<open>The looks of the main thread\<close>

text \<open>The state at each look, and what the main thread then knows of a handed-over run.\<close>

primrec observed :: "(nat \<Rightarrow> rt_state \<Rightarrow> rt_state) \<Rightarrow> rt_state \<Rightarrow> nat \<Rightarrow> rt_state" where
  "observed env s 0 = env 0 s"
| "observed env s (Suc k) = env (Suc k) (observed env s k)"

primrec quiet_at ::
  "rt_config \<Rightarrow> run_options \<Rightarrow> (nat \<Rightarrow> rt_state \<Rightarrow> rt_state) \<Rightarrow> (nat \<Rightarrow> look) \<Rightarrow> rt_state \<Rightarrow> nat \<Rightarrow> (nat \<times> nat) option" where
  "quiet_at cfg opts env looks s 0 = None"
| "quiet_at cfg opts env looks s (Suc k) =
     snd (run_look cfg opts k (looks k) (observed env s k) (quiet_at cfg opts env looks s k))"

definition ends_at ::
  "rt_config \<Rightarrow> run_options \<Rightarrow> (nat \<Rightarrow> rt_state \<Rightarrow> rt_state) \<Rightarrow> (nat \<Rightarrow> look) \<Rightarrow> rt_state \<Rightarrow> nat \<Rightarrow> bool" where
  "ends_at cfg opts env looks s k \<longleftrightarrow>
     fst (run_look cfg opts k (looks k) (observed env s k) (quiet_at cfg opts env looks s k))"

definition before :: "(nat \<Rightarrow> rt_state \<Rightarrow> rt_state) \<Rightarrow> rt_state \<Rightarrow> nat \<Rightarrow> rt_state" where
  "before env s k = (case k of 0 \<Rightarrow> s | Suc j \<Rightarrow> observed env s j)"

lemma before_simps: "before env s 0 = s" "before env s (Suc k) = observed env s k" "env k (before env s k) = observed env s k"
  by (simp_all add: before_def split: nat.split)

lemma run_wait_goes_on:
  assumes "\<not> ends_at cfg opts env looks s k"
  shows "run_wait cfg gc sv opts st env looks k (quiet_at cfg opts env looks s k) (before env s k)
    = run_wait cfg gc sv opts st env looks (Suc k) (quiet_at cfg opts env looks s (Suc k)) (before env s (Suc k))"
  using assms
  by (subst run_wait.simps) (simp add: ends_at_def Let_def before_simps case_prod_beta)

lemma run_wait_finishes:
  assumes "ends_at cfg opts env looks s k"
  shows "run_wait cfg gc sv opts st env looks k (quiet_at cfg opts env looks s k) (before env s k)
    = schedule_post_nodes cfg gc sv env st (Suc k) ((observed env s k)\<lparr>shutdown_flag := True\<rparr>)"
  using assms
  by (subst run_wait.simps) (simp add: ends_at_def Let_def before_simps case_prod_beta)

lemma run_wait_skips:
  assumes "\<forall>j < k. \<not> ends_at cfg opts env looks s j"
  shows "run_wait cfg gc sv opts st env looks 0 None s
    = run_wait cfg gc sv opts st env looks k (quiet_at cfg opts env looks s k) (before env s k)"
  using assms
proof (induction k)
  case (Suc k)
  then show ?case using run_wait_goes_on [of cfg opts env looks s k] by simp
qed (simp add: before_simps)

lemma run_wait_some:
  assumes "run_wait cfg gc sv opts st env looks 0 None s = Some r"
  shows "\<exists>j. ends_at cfg opts env looks s j"
proof -
  have "\<forall>s. q = quiet_at cfg opts env looks s k \<longrightarrow> s' = before env s k \<longrightarrow> (\<exists>j. ends_at cfg opts env looks s j)"
    if "run_wait cfg gc sv opts st env looks k q s' = Some r" for k q s' r
    using that
  proof (induction rule: run_wait.raw_induct [rotated 1, consumes 1])
    case (1 run cfg gc sv opts st env looks k q s' r)
    show ?case
    proof (intro allI impI)
      fix s assume q: "q = quiet_at cfg opts env looks s k" and s': "s' = before env s k"
      show "\<exists>j. ends_at cfg opts env looks s j"
      proof (cases "ends_at cfg opts env looks s k")
        case False
        then have "run cfg gc sv opts st env looks (k + 1) (quiet_at cfg opts env looks s (Suc k)) (observed env s k) = Some r"
          using 1(2) by (simp add: q s' ends_at_def Let_def before_simps case_prod_beta)
        from 1(1) [OF this] show ?thesis by (auto simp: before_simps)
      qed blast
    qed
  qed
  then show ?thesis using assms by (metis before_simps(1) quiet_at.simps(1))
qed

section \<open>Reasons\<close>

text \<open>The clock does not run backwards.\<close>

definition clock :: "(nat \<Rightarrow> look) \<Rightarrow> bool" where
  "clock looks \<longleftrightarrow> (\<forall>j k. j \<le> k \<longrightarrow> lk_elapsed_ns (looks j) \<le> lk_elapsed_ns (looks k))"

lemma quiet_since:
  "quiet_at cfg opts env looks s k = Some (n, since) \<Longrightarrow> \<exists>j < k. since = lk_elapsed_ns (looks j)"
proof (induction k)
  case (Suc k)
  then have "quiet_at cfg opts env looks s k = Some (n, since) \<or> since = lk_elapsed_ns (looks k)"
    by (auto simp: run_look_def Let_def split: if_splits option.splits prod.splits)
  then show ?case using Suc.IH less_Suc_eq by blast
qed simp

lemma quiet_starts:
  assumes "\<not> ends_at cfg opts env looks s k" "lk_handed_over (looks k)" "clock looks"
  shows "\<exists>since \<le> lk_elapsed_ns (looks k).
    quiet_at cfg opts env looks s (Suc k) = Some (frame_complete_counter (observed env s k), since)"
proof -
  have "since \<le> lk_elapsed_ns (looks k)" if "quiet_at cfg opts env looks s k = Some (n, since)" for n since
    using quiet_since [OF that] assms(3) by (auto simp: clock_def)
  then show ?thesis
    using assms(1,2)
    by (auto simp: ends_at_def run_look_def Let_def split: if_splits option.splits prod.splits)
qed

lemma quiet_stays:
  assumes "\<not> ends_at cfg opts env looks s k" "lk_handed_over (looks k)"
    "quiet_at cfg opts env looks s k = Some (frame_complete_counter (observed env s k), since)"
  shows "quiet_at cfg opts env looks s (Suc k) = Some (frame_complete_counter (observed env s k), since)
    \<and> lk_elapsed_ns (looks k) - since < HANDOVER_QUIET_ns"
  using assms by (auto simp: ends_at_def run_look_def Let_def split: if_splits option.splits prod.splits)

lemma quiet_run_ends:
  assumes "clock looks" "a < b" "\<forall>k \<in> {a..b}. lk_handed_over (looks k)"
    "\<forall>k \<in> {a..b}. frame_complete_counter (observed env s k) = c"
    "lk_elapsed_ns (looks a) + HANDOVER_QUIET_ns \<le> lk_elapsed_ns (looks b)"
  shows "\<exists>k \<in> {a..b}. ends_at cfg opts env looks s k"
proof (rule ccontr)
  assume "\<not> ?thesis"
  then have go: "\<not> ends_at cfg opts env looks s k" if "a \<le> k" "k \<le> b" for k using that by auto
  obtain since where since: "since \<le> lk_elapsed_ns (looks a)"
    "quiet_at cfg opts env looks s (Suc a) = Some (c, since)"
    using quiet_starts [OF go _ assms(1), of a] assms(2,3,4) by auto
  have q: "quiet_at cfg opts env looks s k = Some (c, since)"
    if "Suc a \<le> k" "k \<le> b" for k
    using that
  proof (induction k rule: dec_induct)
    case (step k)
    then show ?case using quiet_stays [OF go, of k since] assms(3,4) by simp
  qed (rule since(2))
  have "quiet_at cfg opts env looks s b = Some (frame_complete_counter (observed env s b), since)"
    using q [of b] assms(2,4) by simp
  then have "lk_elapsed_ns (looks b) - since < HANDOVER_QUIET_ns"
    using quiet_stays [OF go, of b since] assms(2,3) by simp
  then show False using since(1) assms(5) by simp
qed

definition reason ::
  "rt_config \<Rightarrow> run_options \<Rightarrow> nat \<Rightarrow> look \<Rightarrow> rt_state \<Rightarrow> bool" where
  "reason cfg opts k l s \<longleftrightarrow>
     (\<exists>m. ro_max_runtime opts = Some m \<and> (m + 1) * 10 ^ 9 \<le> lk_elapsed_ns l)
     \<or> frame_complete_counter s = cfg_max_frames cfg
     \<or> lk_handed_over l \<and> handover_drained cfg (lk_channels_empty l) s
     \<or> (\<exists>p. ro_predicate opts = Some p \<and> p k (progress_of cfg (lk_elapsed_ns l) s))"

lemma seconds_passed: "(m + 1) * 10 ^ 9 \<le> t \<longleftrightarrow> m < t div (10 ^ 9 :: nat)"
  by (simp add: less_eq_div_iff_mult_less_eq Suc_le_eq [symmetric])

lemma reason_ends: "reason cfg opts k (looks k) (observed env s k) \<Longrightarrow> ends_at cfg opts env looks s k"
  by (auto simp: reason_def ends_at_def run_look_def seconds_passed Let_def split: option.splits prod.splits)

lemma ends_reason:
  "ends_at cfg opts env looks s k \<Longrightarrow> \<forall>j \<le> k. \<not> lk_handed_over (looks j) \<Longrightarrow> reason cfg opts k (looks k) (observed env s k)"
  by (auto simp: reason_def ends_at_def run_look_def seconds_passed Let_def split: option.splits prod.splits if_splits)



end
