(* ===== verification/Sliced.thy ===== *)
theory Sliced
  imports Prelude
begin

text \<open>
  \<^verbatim>\<open>SlicedContainer\<close> of \<^verbatim>\<open>tomii-types/src/lib.rs\<close>: a buffer whose ranges tasks borrow, for writing
  or for reading, with one bit per element and kind of borrow, in chunks of 64. The first part
  has the operations as they run alone, the second every atomic access as one step of a thread,
  so that the borrows of several threads interleave at the granularity of the code.
  The elements themselves are not modelled: a granted range stands for the slice.
\<close>

section \<open>State, ranges and masks\<close>

record sliced =
  sc_length :: nat
  write_chunks :: "u64 list"
  read_chunks :: "u64 list"

definition sliced_new :: "nat \<Rightarrow> sliced" where
  "sliced_new len =
     (let chunk_count = (len + 63) div 64
      in \<lparr>sc_length = len, write_chunks = replicate chunk_count 0,
          read_chunks = replicate chunk_count 0\<rparr>)"

definition range_end :: "sliced \<Rightarrow> nat \<Rightarrow> nat \<Rightarrow> nat option" where
  "range_end c start len =
     (if sc_length c < start then None
      else if len + start < 2 ^ 64 \<and> len + start \<le> sc_length c then Some (len + start) else None)"

definition mask_for_chunk :: "nat \<Rightarrow> nat \<Rightarrow> nat \<Rightarrow> u64" where
  "mask_for_chunk range_start e chunk_idx =
     (let chunk_start = chunk_idx * 64;
          chunk_end = chunk_start + 64;
          from = max range_start chunk_start;
          to = min e chunk_end
      in if to \<le> from then 0
         else let bit_start = from - chunk_start; bit_len = to - from
              in if 64 \<le> bit_len then - 1
                 else push_bit bit_start (drop_bit (64 - bit_len) (- 1)))"

text \<open>The chunks \<open>first_chunk..=last_chunk\<close> of a non-empty range.\<close>

definition chunks_of :: "nat \<Rightarrow> nat \<Rightarrow> nat list" where
  "chunks_of start e = [start div 64 ..< Suc ((e - 1) div 64)]"

definition fetch_and_not :: "u64 list \<Rightarrow> nat \<times> u64 \<Rightarrow> u64 list" where
  "fetch_and_not cs a = cs[fst a := cs ! fst a AND NOT (snd a)]"

definition fetch_or :: "u64 list \<Rightarrow> nat \<times> u64 \<Rightarrow> u64 list" where
  "fetch_or cs a = cs[fst a := cs ! fst a OR snd a]"

definition undo_write :: "(nat \<times> u64) list \<Rightarrow> sliced \<Rightarrow> sliced" where
  "undo_write acquired c = c\<lparr>write_chunks := foldl fetch_and_not (write_chunks c) acquired\<rparr>"

definition undo_read :: "(nat \<times> u64) list \<Rightarrow> sliced \<Rightarrow> sliced" where
  "undo_read acquired c = c\<lparr>read_chunks := foldl fetch_and_not (read_chunks c) acquired\<rparr>"

section \<open>The operations, run alone\<close>

text \<open>
  \<^verbatim>\<open>sliced_data_mut\<close>: without interference the compare-and-swap succeeds at once. The result says
  whether the slice \<open>start..start + len\<close> is granted.
\<close>

fun write_loop :: "nat \<Rightarrow> nat \<Rightarrow> nat list \<Rightarrow> (nat \<times> u64) list \<Rightarrow> sliced \<Rightarrow> bool \<times> sliced" where
  "write_loop start e [] acquired c = (True, c)"
| "write_loop start e (k # ks) acquired c =
     (let mask = mask_for_chunk start e k
      in if mask = 0 then write_loop start e ks acquired c
         else if read_chunks c ! k AND mask \<noteq> 0 then (False, undo_write acquired c)
         else let current = write_chunks c ! k
              in if current AND mask \<noteq> 0 then (False, undo_write acquired c)
                 else write_loop start e ks (acquired @ [(k, mask)])
                        (c\<lparr>write_chunks := (write_chunks c)[k := current OR mask]\<rparr>))"

definition sliced_data_mut :: "nat \<Rightarrow> nat \<Rightarrow> sliced \<Rightarrow> bool \<times> sliced" where
  "sliced_data_mut start len c =
     (case range_end c start len of
        None \<Rightarrow> (False, c)
      | Some e \<Rightarrow> if len = 0 then (True, c) else write_loop start e (chunks_of start e) [] c)"

fun release_loop :: "nat \<Rightarrow> nat \<Rightarrow> nat list \<Rightarrow> u64 list \<Rightarrow> u64 list" where
  "release_loop start e [] cs = cs"
| "release_loop start e (k # ks) cs =
     (let mask = mask_for_chunk start e k
      in release_loop start e ks (if mask \<noteq> 0 then fetch_and_not cs (k, mask) else cs))"

definition unset_range :: "nat \<Rightarrow> nat \<Rightarrow> sliced \<Rightarrow> sliced" where
  "unset_range start len c =
     (case range_end c start len of
        None \<Rightarrow> c
      | Some e \<Rightarrow>
          if len = 0 then c
          else c\<lparr>write_chunks := release_loop start e (chunks_of start e) (write_chunks c)\<rparr>)"

definition release_read_range :: "nat \<Rightarrow> nat \<Rightarrow> sliced \<Rightarrow> sliced" where
  "release_read_range start len c =
     (case range_end c start len of
        None \<Rightarrow> c
      | Some e \<Rightarrow>
          if len = 0 then c
          else c\<lparr>read_chunks := release_loop start e (chunks_of start e) (read_chunks c)\<rparr>)"

definition any_write_bit :: "nat \<Rightarrow> nat \<Rightarrow> sliced \<Rightarrow> bool" where
  "any_write_bit start e c =
     list_ex (\<lambda>k. let mask = mask_for_chunk start e k
                  in mask \<noteq> 0 \<and> write_chunks c ! k AND mask \<noteq> 0) (chunks_of start e)"

definition is_range_borrowed :: "nat \<Rightarrow> nat \<Rightarrow> sliced \<Rightarrow> bool" where
  "is_range_borrowed start len c =
     (case range_end c start len of
        None \<Rightarrow> False
      | Some e \<Rightarrow> if len = 0 then False else any_write_bit start e c)"

definition can_read_range :: "nat \<Rightarrow> nat \<Rightarrow> sliced \<Rightarrow> bool" where
  "can_read_range start len c =
     (case range_end c start len of
        None \<Rightarrow> False
      | Some e \<Rightarrow> if len = 0 then True else \<not> any_write_bit start e c)"

fun acquire_loop :: "nat \<Rightarrow> nat \<Rightarrow> nat list \<Rightarrow> (nat \<times> u64) list \<Rightarrow> sliced \<Rightarrow> bool \<times> sliced" where
  "acquire_loop start e [] acquired c = (True, c)"
| "acquire_loop start e (k # ks) acquired c =
     (let mask = mask_for_chunk start e k
      in if mask = 0 then acquire_loop start e ks acquired c
         else if write_chunks c ! k AND mask \<noteq> 0 then (False, undo_read acquired c)
         else acquire_loop start e ks (acquired @ [(k, mask)])
                (c\<lparr>read_chunks := fetch_or (read_chunks c) (k, mask)\<rparr>))"

definition acquire_read_range :: "nat \<Rightarrow> nat \<Rightarrow> sliced \<Rightarrow> bool \<times> sliced" where
  "acquire_read_range start e c = acquire_loop start e (chunks_of start e) [] c"

definition sliced_get_range :: "nat \<Rightarrow> nat \<Rightarrow> sliced \<Rightarrow> bool \<times> sliced" where
  "sliced_get_range start len c =
     (case range_end c start len of
        None \<Rightarrow> (False, c)
      | Some e \<Rightarrow> if len = 0 then (True, c) else acquire_read_range start e c)"


section \<open>Typed access (\<^verbatim>\<open>SlicedAccess\<close>, \<^verbatim>\<open>CmTypes::sliced_get_mut_range\<close>)\<close>

text \<open>
  A granted range is handed out as raw bytes and read as elements of the size the caller expects;
  the borrow is given back when that size does not fit. The byte count wraps as \<^verbatim>\<open>usize\<close>.
\<close>

definition get_mut_range_raw :: "nat \<Rightarrow> nat \<Rightarrow> nat \<Rightarrow> sliced \<Rightarrow> nat option \<times> sliced" where
  "get_mut_range_raw size_of_t start len c =
     (case sliced_data_mut start len c of
        (True, c') \<Rightarrow> (Some (len * size_of_t mod 2 ^ 64), c')
      | (False, c') \<Rightarrow> (None, c'))"

definition get_range_raw :: "nat \<Rightarrow> nat \<Rightarrow> nat \<Rightarrow> sliced \<Rightarrow> nat option \<times> sliced" where
  "get_range_raw size_of_t start len c =
     (case range_end c start len of
        None \<Rightarrow> (None, c)
      | Some e \<Rightarrow>
          if len = 0 then (Some 0, c)
          else case acquire_read_range start e c of
                 (True, c') \<Rightarrow> (Some (len * size_of_t mod 2 ^ 64), c')
               | (False, c') \<Rightarrow> (None, c'))"

definition sliced_get_mut_range :: "nat \<Rightarrow> nat \<Rightarrow> nat \<Rightarrow> nat \<Rightarrow> sliced \<Rightarrow> nat option \<times> sliced" where
  "sliced_get_mut_range size_of_t element_size start len c =
     (case get_mut_range_raw size_of_t start len c of
        (Some byte_len, c') \<Rightarrow>
          if element_size = 0 \<or> byte_len mod element_size \<noteq> 0 then (None, unset_range start len c')
          else (Some (byte_len div element_size), c')
      | (None, c') \<Rightarrow> (None, c'))"

definition cm_sliced_get_range :: "nat \<Rightarrow> nat \<Rightarrow> nat \<Rightarrow> nat \<Rightarrow> sliced \<Rightarrow> nat option \<times> sliced" where
  "cm_sliced_get_range size_of_t element_size start len c =
     (case get_range_raw size_of_t start len c of
        (Some byte_len, c') \<Rightarrow>
          if element_size = 0 \<or> byte_len mod element_size \<noteq> 0
          then (None, release_read_range start len c')
          else (Some (byte_len div element_size), c')
      | (None, c') \<Rightarrow> (None, c'))"

text \<open>
  \<^verbatim>\<open>sliced_data_mut_timeout\<close> and \<^verbatim>\<open>sliced_get_range_timeout\<close> try again until they are granted or the
  timeout has passed. Between two attempts other threads change the buffer: the list gives the
  buffer each attempt finds and whether the timeout has passed after it. An empty list stands for
  attempts beyond those given.
\<close>

fun sliced_data_mut_retry :: "nat \<Rightarrow> nat \<Rightarrow> (sliced \<times> bool) list \<Rightarrow> (bool \<times> sliced) option" where
  "sliced_data_mut_retry start len [] = None"
| "sliced_data_mut_retry start len ((c, elapsed) # later) =
     (case sliced_data_mut start len c of
        (True, c') \<Rightarrow> Some (True, c')
      | (False, c') \<Rightarrow>
          if elapsed then Some (False, c') else sliced_data_mut_retry start len later)"

definition sliced_data_mut_timeout ::
  "nat \<Rightarrow> nat \<Rightarrow> bool \<Rightarrow> sliced \<Rightarrow> (sliced \<times> bool) list \<Rightarrow> (bool \<times> sliced) option" where
  "sliced_data_mut_timeout start len zero_timeout c attempts =
     (case range_end c start len of
        None \<Rightarrow> Some (False, c)
      | Some _ \<Rightarrow>
          if zero_timeout then Some (sliced_data_mut start len c)
          else sliced_data_mut_retry start len attempts)"

fun acquire_read_retry :: "nat \<Rightarrow> nat \<Rightarrow> (sliced \<times> bool) list \<Rightarrow> (bool \<times> sliced) option" where
  "acquire_read_retry start e [] = None"
| "acquire_read_retry start e ((c, elapsed) # later) =
     (case acquire_read_range start e c of
        (True, c') \<Rightarrow> Some (True, c')
      | (False, c') \<Rightarrow> if elapsed then Some (False, c') else acquire_read_retry start e later)"

definition sliced_get_range_timeout ::
  "nat \<Rightarrow> nat \<Rightarrow> sliced \<Rightarrow> (sliced \<times> bool) list \<Rightarrow> (bool \<times> sliced) option" where
  "sliced_get_range_timeout start len c attempts =
     (case range_end c start len of
        None \<Rightarrow> Some (False, c)
      | Some e \<Rightarrow> if len = 0 then Some (True, c) else acquire_read_retry start e attempts)"

section \<open>The steps of a thread\<close>

text \<open>
  Where a thread stands in \<^verbatim>\<open>sliced_data_mut\<close>, \<^verbatim>\<open>acquire_read_range\<close> or the release of a guard;
  every step makes one atomic access at most. \<open>Writing\<close> and \<open>Reading\<close> are threads that hold a
  guard. A request is read by a thread that is idle (what to borrow) or holds a guard (drop it).
\<close>

type_synonym acquisitions = "(nat \<times> u64) list"

datatype borrow_state =
    Idle
  | WriteCheck nat nat "nat list" acquisitions
  | WriteLoad nat nat nat "nat list" acquisitions
  | WriteSwap nat nat nat "nat list" acquisitions u64
  | WriteUndo acquisitions
  | Writing nat nat
  | WriteRelease nat nat "nat list"
  | ReadCheck nat nat "nat list" acquisitions
  | ReadSet nat nat nat "nat list" acquisitions
  | ReadUndo acquisitions
  | Reading nat nat
  | ReadRelease nat nat "nat list"

datatype request = BorrowMut nat nat | Borrow nat nat | DropGuard

fun borrow_step :: "request \<Rightarrow> borrow_state \<Rightarrow> sliced \<Rightarrow> borrow_state \<times> sliced" where
  "borrow_step (BorrowMut start len) Idle c =
     (case range_end c start len of
        None \<Rightarrow> (Idle, c)
      | Some e \<Rightarrow>
          (if len = 0 then Writing start 0 else WriteCheck start e (chunks_of start e) [], c))"
| "borrow_step (Borrow start len) Idle c =
     (case range_end c start len of
        None \<Rightarrow> (Idle, c)
      | Some e \<Rightarrow>
          (if len = 0 then Reading start 0 else ReadCheck start e (chunks_of start e) [], c))"
| "borrow_step DropGuard Idle c = (Idle, c)"
| "borrow_step _ (WriteCheck start e [] acquired) c = (Writing start (e - start), c)"
| "borrow_step _ (WriteCheck start e (k # ks) acquired) c =
     (let mask = mask_for_chunk start e k
      in if mask = 0 then (WriteCheck start e ks acquired, c)
         else if read_chunks c ! k AND mask \<noteq> 0 then (WriteUndo acquired, c)
         else (WriteLoad start e k ks acquired, c))"
| "borrow_step _ (WriteLoad start e k ks acquired) c =
     (WriteSwap start e k ks acquired (write_chunks c ! k), c)"
| "borrow_step _ (WriteSwap start e k ks acquired current) c =
     (let mask = mask_for_chunk start e k
      in if current AND mask \<noteq> 0 then (WriteUndo acquired, c)
         else if write_chunks c ! k = current then
           (WriteCheck start e ks (acquired @ [(k, mask)]),
            c\<lparr>write_chunks := (write_chunks c)[k := current OR mask]\<rparr>)
         else (WriteSwap start e k ks acquired (write_chunks c ! k), c))"
| "borrow_step _ (WriteUndo []) c = (Idle, c)"
| "borrow_step _ (WriteUndo (a # as)) c =
     (WriteUndo as, c\<lparr>write_chunks := fetch_and_not (write_chunks c) a\<rparr>)"
| "borrow_step DropGuard (Writing start len) c =
     (case range_end c start len of
        None \<Rightarrow> (Idle, c)
      | Some e \<Rightarrow> (if len = 0 then Idle else WriteRelease start e (chunks_of start e), c))"
| "borrow_step _ (Writing start len) c = (Writing start len, c)"
| "borrow_step _ (WriteRelease start e []) c = (Idle, c)"
| "borrow_step _ (WriteRelease start e (k # ks)) c =
     (let mask = mask_for_chunk start e k
      in (WriteRelease start e ks,
          if mask \<noteq> 0 then c\<lparr>write_chunks := fetch_and_not (write_chunks c) (k, mask)\<rparr> else c))"
| "borrow_step _ (ReadCheck start e [] acquired) c = (Reading start (e - start), c)"
| "borrow_step _ (ReadCheck start e (k # ks) acquired) c =
     (let mask = mask_for_chunk start e k
      in if mask = 0 then (ReadCheck start e ks acquired, c)
         else if write_chunks c ! k AND mask \<noteq> 0 then (ReadUndo acquired, c)
         else (ReadSet start e k ks acquired, c))"
| "borrow_step _ (ReadSet start e k ks acquired) c =
     (let mask = mask_for_chunk start e k
      in (ReadCheck start e ks (acquired @ [(k, mask)]),
          c\<lparr>read_chunks := fetch_or (read_chunks c) (k, mask)\<rparr>))"
| "borrow_step _ (ReadUndo []) c = (Idle, c)"
| "borrow_step _ (ReadUndo (a # as)) c =
     (ReadUndo as, c\<lparr>read_chunks := fetch_and_not (read_chunks c) a\<rparr>)"
| "borrow_step DropGuard (Reading start len) c =
     (case range_end c start len of
        None \<Rightarrow> (Idle, c)
      | Some e \<Rightarrow> (if len = 0 then Idle else ReadRelease start e (chunks_of start e), c))"
| "borrow_step _ (Reading start len) c = (Reading start len, c)"
| "borrow_step _ (ReadRelease start e []) c = (Idle, c)"
| "borrow_step _ (ReadRelease start e (k # ks)) c =
     (let mask = mask_for_chunk start e k
      in (ReadRelease start e ks,
          if mask \<noteq> 0 then c\<lparr>read_chunks := fetch_and_not (read_chunks c) (k, mask)\<rparr> else c))"

text \<open>A schedule says which thread makes its next step, and on which request.\<close>

type_synonym borrowers = "(nat \<Rightarrow> borrow_state) \<times> sliced"

fun borrow_run :: "(nat \<times> request) list \<Rightarrow> borrowers \<Rightarrow> borrowers" where
  "borrow_run [] w = w"
| "borrow_run ((t, r) # later) w =
     (case borrow_step r (fst w t) (snd w) of (p, c) \<Rightarrow> borrow_run later ((fst w)(t := p), c))"

definition borrow_start :: "nat \<Rightarrow> borrowers" where
  "borrow_start len = (\<lambda>_. Idle, sliced_new len)"

end
