(* ===== verification/Sliced_Borrows.thy ===== *)
theory Sliced_Borrows
  imports Sliced
begin

text \<open>
  What the bits of a \<^verbatim>\<open>SlicedContainer\<close> say: the operations run alone are operations on the set
  of borrowed elements, the steps of any number of threads keep the elements borrowed for writing
  apart, and elements borrowed for reading are protected from one reader only.
\<close>

section \<open>Bits and elements\<close>

definition covers :: "(nat \<times> u64) list \<Rightarrow> nat \<Rightarrow> bool" where
  "covers as p \<longleftrightarrow> (\<exists>(k, m) \<in> set as. p div 64 = k \<and> bit m (p mod 64))"

definition bit_set :: "u64 list \<Rightarrow> nat \<Rightarrow> bool" where
  "bit_set cs p \<longleftrightarrow> p div 64 < length cs \<and> bit (cs ! (p div 64)) (p mod 64)"

abbreviation masks_of :: "nat \<Rightarrow> nat \<Rightarrow> nat list \<Rightarrow> (nat \<times> u64) list" where
  "masks_of s e ks \<equiv> map (\<lambda>k. (k, mask_for_chunk s e k)) ks"

definition sliced_ok :: "sliced \<Rightarrow> bool" where
  "sliced_ok c \<longleftrightarrow> length (write_chunks c) = (sc_length c + 63) div 64
     \<and> length (read_chunks c) = (sc_length c + 63) div 64"

lemma bit_mask_for_chunk:
  "bit (mask_for_chunk s e k) i \<longleftrightarrow> i < 64 \<and> s \<le> k * 64 + i \<and> k * 64 + i < e"
  by (auto simp: mask_for_chunk_def Let_def bit_push_bit_iff bit_drop_bit_eq bit_mask_iff max_def min_def
      split: if_splits)

lemma covers_simps [simp]:
  "covers [] p \<longleftrightarrow> False"
  "covers ((k, m) # as) p \<longleftrightarrow> p div 64 = k \<and> bit m (p mod 64) \<or> covers as p"
  "covers (as @ bs) p \<longleftrightarrow> covers as p \<or> covers bs p"
  by (auto simp: covers_def)

lemma covers_masks: "covers (masks_of s e ks) p \<longleftrightarrow> p div 64 \<in> set ks \<and> s \<le> p \<and> p < e"
  by (auto simp: covers_def bit_mask_for_chunk)

lemma chunk_range: "s < e \<Longrightarrow> k \<in> set (chunks_of s e) \<longleftrightarrow> s div 64 \<le> k \<and> k \<le> (e - 1) div 64"
  by (auto simp: chunks_of_def)

lemma covers_chunks:
  assumes "s < e"
  shows "covers (masks_of s e (chunks_of s e)) p \<longleftrightarrow> s \<le> p \<and> p < e"
proof -
  have "p div 64 \<in> set (chunks_of s e)" if "s \<le> p" "p < e"
    using that assms div_le_mono [of s p 64] div_le_mono [of p "e - 1" 64] by (simp add: chunk_range)
  then show ?thesis by (auto simp: covers_masks)
qed

lemma mask_nonzero:
  assumes "s < e" "k \<in> set (chunks_of s e)"
  shows "mask_for_chunk s e k \<noteq> 0"
proof -
  have "s div 64 \<le> k" "k \<le> (e - 1) div 64" using assms by (simp_all add: chunk_range)
  then have "s < k * 64 + 64" "k * 64 < e"
    using assms(1) div_mult_mod_eq [of s 64] div_mult_mod_eq [of "e - 1" 64]
      mod_less_divisor [of 64 s] by linarith+
  then have "bit (mask_for_chunk s e k) (max s (k * 64) - k * 64)"
    using assms(1) unfolding bit_mask_for_chunk max_def by (auto simp: not_le)
  then show ?thesis by (rule contrapos_pn) simp
qed

lemma chunk_in_length:
  assumes "s < e" "k \<in> set (chunks_of s e)" "e \<le> n"
  shows "k < (n + 63) div 64"
proof -
  have "k \<le> (n - 1) div 64"
    using assms div_le_mono [of "e - 1" "n - 1" 64] by (simp add: chunk_range) linarith
  moreover have "(n + 63) div 64 = (n - 1) div 64 + 1"
    using assms(1,3) div_add_self2 [of 64 "n - 1"] by simp
  ultimately show ?thesis by simp
qed

lemma distinct_chunks [simp]: "distinct (chunks_of s e)"
  by (simp add: chunks_of_def)

lemma word_and_nonzero: "(w :: u64) AND m \<noteq> 0 \<longleftrightarrow> (\<exists>i. i < 64 \<and> bit w i \<and> bit m i)"
proof -
  have "w AND m = 0 \<longleftrightarrow> (\<forall>i < 64. \<not> (bit w i \<and> bit m i))"
  proof
    assume "\<forall>i < 64. \<not> (bit w i \<and> bit m i)"
    then show "w AND m = 0" by (intro bit_word_eqI) (simp add: bit_and_iff)
  next
    assume "w AND m = 0"
    then have "\<not> bit (w AND m) i" for i by simp
    then show "\<forall>i < 64. \<not> (bit w i \<and> bit m i)" by (simp add: bit_and_iff)
  qed
  then show ?thesis by blast
qed

lemma chunk_busy:
  assumes "k < length cs"
  shows "cs ! k AND mask_for_chunk s e k \<noteq> 0 \<longleftrightarrow> (\<exists>p. p div 64 = k \<and> s \<le> p \<and> p < e \<and> bit_set cs p)"
proof
  assume "cs ! k AND mask_for_chunk s e k \<noteq> 0"
  then obtain i where i: "i < 64" "bit (cs ! k) i" "s \<le> k * 64 + i" "k * 64 + i < e"
    by (auto simp: word_and_nonzero bit_mask_for_chunk)
  then show "\<exists>p. p div 64 = k \<and> s \<le> p \<and> p < e \<and> bit_set cs p"
    using assms by (intro exI [of _ "k * 64 + i"]) (simp add: bit_set_def)
next
  assume "\<exists>p. p div 64 = k \<and> s \<le> p \<and> p < e \<and> bit_set cs p"
  then obtain p where p: "p div 64 = k" "s \<le> p" "p < e" "bit (cs ! k) (p mod 64)"
    by (auto simp: bit_set_def)
  then have "k * 64 + p mod 64 = p" by auto
  then show "cs ! k AND mask_for_chunk s e k \<noteq> 0"
    using p unfolding word_and_nonzero bit_mask_for_chunk by (intro exI [of _ "p mod 64"]) simp
qed

lemma bit_set_not [simp]:
  "bit_set (fetch_and_not cs (k, m)) p \<longleftrightarrow> bit_set cs p \<and> \<not> (p div 64 = k \<and> bit m (p mod 64))"
  by (cases "p div 64 = k") (auto simp: bit_set_def fetch_and_not_def bit_and_iff bit_not_iff)

lemma bit_set_or:
  "k < length cs \<Longrightarrow>
    bit_set (cs[k := cs ! k OR m]) p \<longleftrightarrow> bit_set cs p \<or> p div 64 = k \<and> bit m (p mod 64)"
  by (auto simp: bit_set_def nth_list_update bit_or_iff)

lemma length_fetch [simp]: "length (fetch_and_not cs a) = length cs" "length (fetch_or cs a) = length cs"
  by (simp_all add: fetch_and_not_def fetch_or_def)

lemma bit_set_undo: "bit_set (foldl fetch_and_not cs as) p \<longleftrightarrow> bit_set cs p \<and> \<not> covers as p"
proof (induction as arbitrary: cs)
  case (Cons a as)
  obtain k m where "a = (k, m)" by (cases a)
  then show ?case by (simp add: Cons.IH)
qed simp

lemma bit_set_release:
  "bit_set (release_loop s e ks cs) p \<longleftrightarrow> bit_set cs p \<and> \<not> (p div 64 \<in> set ks \<and> s \<le> p \<and> p < e)"
proof (induction ks arbitrary: cs)
  case (Cons k ks)
  have k: "bit (mask_for_chunk s e (p div 64)) (p mod 64) \<longleftrightarrow> s \<le> p \<and> p < e"
    by (simp add: bit_mask_for_chunk)
  have "bit_set (if mask_for_chunk s e k \<noteq> 0 then fetch_and_not cs (k, mask_for_chunk s e k) else cs) p
    \<longleftrightarrow> bit_set cs p \<and> \<not> (p div 64 = k \<and> s \<le> p \<and> p < e)"
    using k by (cases "p div 64 = k") auto
  then show ?case unfolding release_loop.simps Let_def Cons.IH by auto
qed simp

lemma length_undo [simp]: "length (foldl fetch_and_not cs as) = length cs"
  by (induction as arbitrary: cs) auto

lemma length_release [simp]: "length (release_loop s e ks cs) = length cs"
  by (induction ks arbitrary: cs) (auto simp: Let_def)

lemma range_endD: "range_end c s len = Some e \<Longrightarrow> e = s + len \<and> e \<le> sc_length c"
  by (auto simp: range_end_def split: if_splits)

lemma bit_set_new [simp]: "\<not> bit_set (write_chunks (sliced_new n)) p"
    "\<not> bit_set (read_chunks (sliced_new n)) p"
  by (auto simp: sliced_new_def bit_set_def Let_def)

lemma sliced_ok_new [simp]: "sliced_ok (sliced_new n)"
  by (simp add: sliced_ok_def sliced_new_def Let_def)


section \<open>The operations on the sets of borrowed elements\<close>

abbreviation writing :: "sliced \<Rightarrow> nat \<Rightarrow> bool" where
  "writing c \<equiv> bit_set (write_chunks c)"

abbreviation reading :: "sliced \<Rightarrow> nat \<Rightarrow> bool" where
  "reading c \<equiv> bit_set (read_chunks c)"

lemma chunk_lists_eq:
  assumes "length as = length bs" "\<And>p. bit_set as p \<longleftrightarrow> bit_set bs p"
  shows "as = bs"
proof (rule nth_equalityI)
  fix k assume k: "k < length as"
  show "as ! k = bs ! k"
  proof (rule bit_word_eqI)
    fix i assume "i < LENGTH(64)"
    then show "bit (as ! k) i \<longleftrightarrow> bit (bs ! k) i"
      using assms(2) [of "k * 64 + i"] k assms(1) by (simp add: bit_set_def)
  qed
qed (rule assms(1))

lemma in_chunk: "p div 64 = k \<Longrightarrow> bit (mask_for_chunk s e k) (p mod 64) \<longleftrightarrow> s \<le> p \<and> p < e"
  by (auto simp: bit_mask_for_chunk)

definition part :: "nat \<Rightarrow> nat \<Rightarrow> nat list \<Rightarrow> nat \<Rightarrow> bool" where
  "part s e ks p \<longleftrightarrow> p div 64 \<in> set ks \<and> s \<le> p \<and> p < e"

lemma part_simps [simp]:
  "part s e [] p \<longleftrightarrow> False"
  "part s e (k # ks) p \<longleftrightarrow> p div 64 = k \<and> s \<le> p \<and> p < e \<or> part s e ks p"
  by (auto simp: part_def)

lemma part_chunks: "s < e \<Longrightarrow> part s e (chunks_of s e) p \<longleftrightarrow> s \<le> p \<and> p < e"
  using covers_chunks [of s e p] by (simp add: part_def covers_masks)

lemma write_loop_spec:
  assumes "\<forall>k \<in> set ks. k < length (write_chunks c) \<and> k < length (read_chunks c)"
    and "\<forall>k \<in> set ks. mask_for_chunk s e k \<noteq> 0" and "distinct ks"
    and "write_loop s e ks acquired c = (g, c')"
  shows "(g \<longleftrightarrow> (\<forall>p. part s e ks p \<longrightarrow> \<not> writing c p \<and> \<not> reading c p))
    \<and> (\<forall>p. writing c' p \<longleftrightarrow>
          (if g then writing c p \<or> part s e ks p else writing c p \<and> \<not> covers acquired p))
    \<and> length (write_chunks c') = length (write_chunks c)
    \<and> read_chunks c' = read_chunks c \<and> sc_length c' = sc_length c"
  using assms
proof (induction ks arbitrary: acquired c)
  case (Cons k ks)
  let ?m = "mask_for_chunk s e k"
  have k: "k < length (write_chunks c)" "k < length (read_chunks c)" "?m \<noteq> 0"
    using Cons.prems by simp_all
  have busy: "ws ! k AND ?m \<noteq> 0 \<longleftrightarrow> (\<exists>p. part s e [k] p \<and> bit_set ws p)" if "k < length ws" for ws
    using chunk_busy [OF that, of s e] by auto
  show ?case
  proof (cases "read_chunks c ! k AND ?m \<noteq> 0 \<or> write_chunks c ! k AND ?m \<noteq> 0")
    case True
    then have "g = False \<and> c' = undo_write acquired c"
      using Cons.prems(4) k(3) by (auto simp: Let_def split: if_splits)
    moreover have "\<exists>p. part s e (k # ks) p \<and> (writing c p \<or> reading c p)"
      using True busy [OF k(1)] busy [OF k(2)] by auto
    ultimately show ?thesis by (auto simp: undo_write_def bit_set_undo)
  next
    case False
    let ?c = "c\<lparr>write_chunks := (write_chunks c)[k := write_chunks c ! k OR ?m]\<rparr>"
    have run: "write_loop s e ks (acquired @ [(k, ?m)]) ?c = (g, c')"
      using Cons.prems(4) False k(3) by (simp add: Let_def)
    have bits: "writing ?c p \<longleftrightarrow> writing c p \<or> part s e [k] p" for p
      using bit_set_or [OF k(1), of ?m p] in_chunk [of p k s e] by auto
    have free: "\<not> writing c p" "\<not> reading c p" if "part s e [k] p" for p
      using False that busy [OF k(1)] busy [OF k(2)] by blast+
    have acq: "covers (acquired @ [(k, ?m)]) p \<longleftrightarrow> covers acquired p \<or> part s e [k] p" for p
      using in_chunk [of p k s e] by auto
    have other: "\<not> (part s e ks p \<and> part s e [k] p)" for p
      using Cons.prems(3) by (auto simp: part_def)
    have rest: "(g \<longleftrightarrow> (\<forall>p. part s e ks p \<longrightarrow> \<not> writing ?c p \<and> \<not> reading ?c p))
      \<and> (\<forall>p. writing c' p \<longleftrightarrow> (if g then writing ?c p \<or> part s e ks p
            else writing ?c p \<and> \<not> covers (acquired @ [(k, ?m)]) p))
      \<and> length (write_chunks c') = length (write_chunks ?c)
      \<and> read_chunks c' = read_chunks ?c \<and> sc_length c' = sc_length ?c"
    proof (rule Cons.IH)
      show "write_loop s e ks (acquired @ [(k, ?m)]) ?c = (g, c')" by (rule run)
    qed (use Cons.prems in simp_all)
    have cons: "part s e (k # ks) p \<longleftrightarrow> part s e [k] p \<or> part s e ks p" for p
      unfolding part_simps by blast
    have same: "reading ?c p \<longleftrightarrow> reading c p" for p by simp
    have g: "g \<longleftrightarrow> (\<forall>p. part s e ks p \<longrightarrow> \<not> writing ?c p \<and> \<not> reading ?c p)"
      and w: "writing c' p \<longleftrightarrow> (if g then writing ?c p \<or> part s e ks p
            else writing ?c p \<and> \<not> covers (acquired @ [(k, ?m)]) p)" for p
      using rest by blast+
    have "g \<longleftrightarrow> (\<forall>p. part s e (k # ks) p \<longrightarrow> \<not> writing c p \<and> \<not> reading c p)"
      unfolding g cons bits same using free other by blast
    moreover have "writing c' p \<longleftrightarrow>
        (if g then writing c p \<or> part s e (k # ks) p else writing c p \<and> \<not> covers acquired p)" for p
      unfolding w cons bits acq using free by (cases g) (simp only: if_True, blast, simp only: if_False, blast)
    moreover have "length (write_chunks c') = length (write_chunks c)" using rest by simp
    moreover have "read_chunks c' = read_chunks c \<and> sc_length c' = sc_length c" using rest by simp
    ultimately show ?thesis by blast
  qed
qed simp


lemma acquire_loop_spec:
  assumes "\<forall>k \<in> set ks. k < length (write_chunks c) \<and> k < length (read_chunks c)"
    and "\<forall>k \<in> set ks. mask_for_chunk s e k \<noteq> 0"
    and "acquire_loop s e ks acquired c = (g, c')"
  shows "(g \<longleftrightarrow> (\<forall>p. part s e ks p \<longrightarrow> \<not> writing c p))
    \<and> (g \<longrightarrow> (\<forall>p. reading c' p \<longleftrightarrow> reading c p \<or> part s e ks p))
    \<and> length (read_chunks c') = length (read_chunks c)
    \<and> write_chunks c' = write_chunks c \<and> sc_length c' = sc_length c"
  using assms
proof (induction ks arbitrary: acquired c)
  case (Cons k ks)
  let ?m = "mask_for_chunk s e k"
  have k: "k < length (write_chunks c)" "k < length (read_chunks c)" "?m \<noteq> 0"
    using Cons.prems by simp_all
  have cons: "part s e (k # ks) p \<longleftrightarrow> part s e [k] p \<or> part s e ks p" for p
    unfolding part_simps by blast
  have busy: "write_chunks c ! k AND ?m \<noteq> 0 \<longleftrightarrow> (\<exists>p. part s e [k] p \<and> writing c p)"
    using chunk_busy [OF k(1), of s e] by auto
  show ?case
  proof (cases "write_chunks c ! k AND ?m \<noteq> 0")
    case True
    then have "g = False \<and> c' = undo_read acquired c"
      using Cons.prems(3) k(3) by (auto simp: Let_def)
    then show ?thesis using True busy unfolding cons by (auto simp: undo_read_def)
  next
    case False
    let ?c = "c\<lparr>read_chunks := fetch_or (read_chunks c) (k, ?m)\<rparr>"
    have bits: "reading ?c p \<longleftrightarrow> reading c p \<or> part s e [k] p" for p
      using bit_set_or [OF k(2), of ?m p] in_chunk [of p k s e] by (auto simp: fetch_or_def)
    have rest: "(g \<longleftrightarrow> (\<forall>p. part s e ks p \<longrightarrow> \<not> writing ?c p))
      \<and> (g \<longrightarrow> (\<forall>p. reading c' p \<longleftrightarrow> reading ?c p \<or> part s e ks p))
      \<and> length (read_chunks c') = length (read_chunks ?c)
      \<and> write_chunks c' = write_chunks ?c \<and> sc_length c' = sc_length ?c"
    proof (rule Cons.IH)
      show "acquire_loop s e ks (acquired @ [(k, ?m)]) ?c = (g, c')"
        using Cons.prems(3) False k(3) by (simp add: Let_def)
    qed (use Cons.prems in simp_all)
    have same: "writing ?c p \<longleftrightarrow> writing c p" for p by simp
    have free: "\<not> (part s e [k] p \<and> writing c p)" for p using False busy by blast
    have "g \<longleftrightarrow> (\<forall>p. part s e (k # ks) p \<longrightarrow> \<not> writing c p)"
      using rest free unfolding cons same by blast
    moreover have "g \<longrightarrow> (\<forall>p. reading c' p \<longleftrightarrow> reading c p \<or> part s e (k # ks) p)"
      using rest unfolding cons bits by blast
    ultimately show ?thesis using rest by simp
  qed
qed simp

lemma chunks_ready:
  assumes "sliced_ok c" "s < e" "e \<le> sc_length c"
  shows "\<forall>k \<in> set (chunks_of s e). k < length (write_chunks c) \<and> k < length (read_chunks c)"
    and "\<forall>k \<in> set (chunks_of s e). mask_for_chunk s e k \<noteq> 0"
  using assms chunk_in_length [of s e] mask_nonzero [of s e] by (auto simp: sliced_ok_def)

lemma range_end_iff:
  "sc_length c < 2 ^ 64 \<Longrightarrow>
    range_end c s len = (if s + len \<le> sc_length c then Some (s + len) else None)"
  by (auto simp: range_end_def add.commute)

lemma sliced_data_mut_spec:
  assumes "sliced_ok c" "sc_length c < 2 ^ 64" "sliced_data_mut s len c = (g, c')"
  shows "g \<longleftrightarrow> s + len \<le> sc_length c
            \<and> (\<forall>p. s \<le> p \<and> p < s + len \<longrightarrow> \<not> writing c p \<and> \<not> reading c p)"
    and "writing c' p \<longleftrightarrow> writing c p \<or> g \<and> s \<le> p \<and> p < s + len"
    and "read_chunks c' = read_chunks c" "sc_length c' = sc_length c" "sliced_ok c'"
proof -
  have "(g \<longleftrightarrow> s + len \<le> sc_length c
            \<and> (\<forall>p. s \<le> p \<and> p < s + len \<longrightarrow> \<not> writing c p \<and> \<not> reading c p))
    \<and> (\<forall>p. writing c' p \<longleftrightarrow> writing c p \<or> g \<and> s \<le> p \<and> p < s + len)
    \<and> read_chunks c' = read_chunks c \<and> sc_length c' = sc_length c
    \<and> length (write_chunks c') = length (write_chunks c)"
  proof (cases "s + len \<le> sc_length c \<and> 0 < len")
    case True
    then have se: "s < s + len" "s + len \<le> sc_length c" by simp_all
    have "write_loop s (s + len) (chunks_of s (s + len)) [] c = (g, c')"
      using assms(3) True by (simp add: sliced_data_mut_def range_end_iff [OF assms(2)])
    from write_loop_spec [OF chunks_ready [OF assms(1) se] distinct_chunks this]
    show ?thesis using se by (auto simp: part_chunks)
  next
    case False
    then have "c' = c" "g \<longleftrightarrow> s + len \<le> sc_length c"
      using assms(3) by (auto simp: sliced_data_mut_def range_end_iff [OF assms(2)] split: if_splits)
    then show ?thesis using False by auto
  qed
  then show "g \<longleftrightarrow> s + len \<le> sc_length c
            \<and> (\<forall>p. s \<le> p \<and> p < s + len \<longrightarrow> \<not> writing c p \<and> \<not> reading c p)"
    and "writing c' p \<longleftrightarrow> writing c p \<or> g \<and> s \<le> p \<and> p < s + len"
    and "read_chunks c' = read_chunks c" "sc_length c' = sc_length c" "sliced_ok c'"
    using assms(1) by (blast, blast, blast, blast, simp add: sliced_ok_def)
qed

lemma sliced_get_range_spec:
  assumes "sliced_ok c" "sc_length c < 2 ^ 64" "sliced_get_range s len c = (g, c')"
  shows "g \<longleftrightarrow> s + len \<le> sc_length c \<and> (\<forall>p. s \<le> p \<and> p < s + len \<longrightarrow> \<not> writing c p)"
    and "g \<Longrightarrow> reading c' p \<longleftrightarrow> reading c p \<or> s \<le> p \<and> p < s + len"
    and "write_chunks c' = write_chunks c" "sc_length c' = sc_length c" "sliced_ok c'"
proof -
  have "(g \<longleftrightarrow> s + len \<le> sc_length c \<and> (\<forall>p. s \<le> p \<and> p < s + len \<longrightarrow> \<not> writing c p))
    \<and> (g \<longrightarrow> (\<forall>p. reading c' p \<longleftrightarrow> reading c p \<or> s \<le> p \<and> p < s + len))
    \<and> length (read_chunks c') = length (read_chunks c)
    \<and> write_chunks c' = write_chunks c \<and> sc_length c' = sc_length c"
  proof (cases "s + len \<le> sc_length c \<and> 0 < len")
    case True
    then have se: "s < s + len" "s + len \<le> sc_length c" by simp_all
    have "acquire_loop s (s + len) (chunks_of s (s + len)) [] c = (g, c')"
      using assms(3) True
      by (simp add: sliced_get_range_def acquire_read_range_def range_end_iff [OF assms(2)])
    from acquire_loop_spec [OF chunks_ready [OF assms(1) se] this]
    show ?thesis using se by (simp add: part_chunks)
  next
    case False
    then have "c' = c" "g \<longleftrightarrow> s + len \<le> sc_length c"
      using assms(3) by (auto simp: sliced_get_range_def range_end_iff [OF assms(2)] split: if_splits)
    then show ?thesis using False by auto
  qed
  then show "g \<longleftrightarrow> s + len \<le> sc_length c \<and> (\<forall>p. s \<le> p \<and> p < s + len \<longrightarrow> \<not> writing c p)"
    and "g \<Longrightarrow> reading c' p \<longleftrightarrow> reading c p \<or> s \<le> p \<and> p < s + len"
    and "write_chunks c' = write_chunks c" "sc_length c' = sc_length c" "sliced_ok c'"
    using assms(1) by (blast, blast, blast, blast, simp add: sliced_ok_def)
qed


lemma unset_range_spec:
  assumes "sliced_ok c" "s + len \<le> sc_length c" "sc_length c < 2 ^ 64"
  shows "writing (unset_range s len c) p \<longleftrightarrow> writing c p \<and> \<not> (s \<le> p \<and> p < s + len)"
    and "read_chunks (unset_range s len c) = read_chunks c"
    and "sc_length (unset_range s len c) = sc_length c"
    and "length (write_chunks (unset_range s len c)) = length (write_chunks c)"
  using assms(2) part_chunks [of s "s + len" p]
  by (auto simp: unset_range_def range_end_iff [OF assms(3)] bit_set_release part_def)

lemma release_read_spec:
  assumes "sliced_ok c" "s + len \<le> sc_length c" "sc_length c < 2 ^ 64"
  shows "reading (release_read_range s len c) p \<longleftrightarrow> reading c p \<and> \<not> (s \<le> p \<and> p < s + len)"
    and "write_chunks (release_read_range s len c) = write_chunks c"
    and "sc_length (release_read_range s len c) = sc_length c"
    and "sliced_ok (release_read_range s len c)"
  using assms(1,2) part_chunks [of s "s + len" p]
  by (auto simp: release_read_range_def range_end_iff [OF assms(3)] bit_set_release part_def sliced_ok_def)

lemma any_write_bit_iff:
  assumes "sliced_ok c" "s < e" "e \<le> sc_length c"
  shows "any_write_bit s e c \<longleftrightarrow> (\<exists>p. s \<le> p \<and> p < e \<and> writing c p)"
proof -
  have "any_write_bit s e c
    \<longleftrightarrow> (\<exists>k \<in> set (chunks_of s e). \<exists>p. p div 64 = k \<and> s \<le> p \<and> p < e \<and> writing c p)"
    using chunks_ready [OF assms] chunk_busy [of _ "write_chunks c" s e]
    unfolding any_write_bit_def list_ex_iff Let_def by blast
  then show ?thesis using part_chunks [OF assms(2)] by (auto simp: part_def)
qed

section \<open>Steps of several threads\<close>

fun owned :: "borrow_state \<Rightarrow> acquisitions" where
  "owned (WriteCheck _ _ _ acquired) = acquired"
| "owned (WriteLoad _ _ _ _ acquired) = acquired"
| "owned (WriteSwap _ _ _ _ acquired _) = acquired"
| "owned (WriteUndo acquired) = acquired"
| "owned (Writing s len) = (if len = 0 then [] else masks_of s (s + len) (chunks_of s (s + len)))"
| "owned (WriteRelease s e ks) = masks_of s e ks"
| "owned _ = []"

definition midway :: "sliced \<Rightarrow> nat \<Rightarrow> nat \<Rightarrow> nat list \<Rightarrow> acquisitions \<Rightarrow> bool" where
  "midway c s e ks acquired \<longleftrightarrow> s < e \<and> e \<le> sc_length c
     \<and> (\<exists>pre. chunks_of s e = pre @ ks \<and> acquired = masks_of s e pre)"

fun position_ok :: "sliced \<Rightarrow> borrow_state \<Rightarrow> bool" where
  "position_ok c (WriteCheck s e ks acquired) = midway c s e ks acquired"
| "position_ok c (WriteLoad s e k ks acquired) = midway c s e (k # ks) acquired"
| "position_ok c (WriteSwap s e k ks acquired _) = midway c s e (k # ks) acquired"
| "position_ok c (WriteUndo acquired) = distinct (map fst acquired)"
| "position_ok c (Writing s len) = (s + len \<le> sc_length c)"
| "position_ok c (WriteRelease s e ks) = (s < e \<and> e \<le> sc_length c \<and> distinct ks)"
| "position_ok c _ = True"

text \<open>A step takes and gives back elements for its thread and leaves those of others alone.\<close>

definition moves :: "sliced \<Rightarrow> acquisitions \<Rightarrow> sliced \<Rightarrow> acquisitions \<Rightarrow> bool" where
  "moves c own c' own' \<longleftrightarrow>
     (\<forall>p. covers own' p \<longrightarrow> covers own p \<or> \<not> writing c p) \<and>
     (\<forall>p. writing c' p \<longleftrightarrow> covers own' p \<or> writing c p \<and> \<not> covers own p)"

lemma moves_same:
  assumes "\<forall>p. covers own p \<longrightarrow> writing c p" "write_chunks c' = write_chunks c" "covers own' = covers own"
  shows "moves c own c' own'"
  using assms by (auto simp: moves_def)

lemma moves_give:
  assumes "\<forall>p. covers ((k, m) # own) p \<longrightarrow> writing c p" "k \<notin> fst ` set own"
    and "write_chunks c' = fetch_and_not (write_chunks c) (k, m)"
  shows "moves c ((k, m) # own) c' own"
proof -
  have "p div 64 \<noteq> k" if "covers own p" for p
    using that assms(2) by (force simp: covers_def)
  then show ?thesis using assms(1) by (auto simp: moves_def assms(3))
qed

lemma moves_take:
  assumes "\<forall>p. covers own p \<longrightarrow> writing c p" "k < length (write_chunks c)"
    and "write_chunks c ! k AND m = 0"
    and "write_chunks c' = (write_chunks c)[k := write_chunks c ! k OR m]"
  shows "moves c own c' (own @ [(k, m)])"
proof -
  have "\<not> writing c p" if "p div 64 = k" "bit m (p mod 64)" for p
  proof -
    have "\<not> bit (write_chunks c ! k AND m) (p mod 64)" using assms(3) by simp
    then show ?thesis using that by (simp add: bit_set_def bit_and_iff)
  qed
  then show ?thesis
    using assms(1) by (auto simp: moves_def assms(4) bit_set_or [OF assms(2)])
qed

lemma midway_chunk:
  assumes "midway c s e (k # ks) acquired" "sliced_ok c"
  shows "k < length (write_chunks c)" "k < length (read_chunks c)" "mask_for_chunk s e k \<noteq> 0"
    and "midway c s e ks (acquired @ [(k, mask_for_chunk s e k)])"
    and "distinct (map fst acquired)"
proof -
  obtain pre where pre: "chunks_of s e = pre @ k # ks" "acquired = masks_of s e pre"
    and se: "s < e" "e \<le> sc_length c" using assms(1) by (auto simp: midway_def)
  then have k: "k \<in> set (chunks_of s e)" by simp
  show "k < length (write_chunks c)" "k < length (read_chunks c)" "mask_for_chunk s e k \<noteq> 0"
    using chunks_ready [OF assms(2) se] k by auto
  show "midway c s e ks (acquired @ [(k, mask_for_chunk s e k)])"
    using pre se unfolding midway_def by (intro conjI exI [of _ "pre @ [k]"]) simp_all
  have "distinct pre" using distinct_chunks [of s e] pre(1) by simp
  then show "distinct (map fst acquired)" by (simp add: pre(2) comp_def)
qed

lemma midway_done:
  assumes "midway c s e [] acquired"
  shows "s + (e - s) \<le> sc_length c" "acquired = owned (Writing s (e - s))"
  using assms by (auto simp: midway_def)


lemma sliced_ok_update:
  "sliced_ok c \<Longrightarrow> length ws = length (write_chunks c) \<Longrightarrow> sliced_ok (c\<lparr>write_chunks := ws\<rparr>)"
  "sliced_ok c \<Longrightarrow> length rs = length (read_chunks c) \<Longrightarrow> sliced_ok (c\<lparr>read_chunks := rs\<rparr>)"
  by (simp_all add: sliced_ok_def)

lemma position_ok_cong: "sc_length c' = sc_length c \<Longrightarrow> position_ok c' pos = position_ok c pos"
  by (cases pos) (simp_all add: midway_def)

definition step_ok :: "sliced \<Rightarrow> borrow_state \<Rightarrow> sliced \<Rightarrow> borrow_state \<Rightarrow> bool" where
  "step_ok c pos c' pos' \<longleftrightarrow> moves c (owned pos) c' (owned pos') \<and> position_ok c' pos'
     \<and> sliced_ok c' \<and> sc_length c' = sc_length c"

lemma step_quiet:
  assumes "sliced_ok c" "\<forall>p. covers (owned pos) p \<longrightarrow> writing c p" "owned pos' = owned pos"
    and "position_ok c pos'"
  shows "step_ok c pos c pos'"
  using assms moves_same [of "owned pos" c c "owned pos'"] by (simp add: step_ok_def)

lemma step_reads:
  assumes "sliced_ok c" "owned pos = []" "owned pos' = []" "position_ok c pos'"
    and "length rs = length (read_chunks c)"
  shows "step_ok c pos (c\<lparr>read_chunks := rs\<rparr>) pos'"
  using assms position_ok_cong [of "c\<lparr>read_chunks := rs\<rparr>" c pos']
  by (simp add: step_ok_def moves_def sliced_ok_update)

lemma write_release_step:
  assumes "sliced_ok c" "position_ok c (WriteRelease s e (k # ks))"
    and "\<forall>p. covers (owned (WriteRelease s e (k # ks))) p \<longrightarrow> writing c p"
  shows "step_ok c (WriteRelease s e (k # ks))
      (if mask_for_chunk s e k \<noteq> 0
       then c\<lparr>write_chunks := fetch_and_not (write_chunks c) (k, mask_for_chunk s e k)\<rparr> else c)
      (WriteRelease s e ks)"
proof (cases "mask_for_chunk s e k = 0")
  case True
  have "covers (owned (WriteRelease s e ks)) = covers (owned (WriteRelease s e (k # ks)))"
    by (simp add: True fun_eq_iff)
  then have "moves c (owned (WriteRelease s e (k # ks))) c (owned (WriteRelease s e ks))"
    by (rule moves_same [OF assms(3) refl])
  then show ?thesis using True assms(1,2) by (simp add: step_ok_def)
next
  case False
  let ?c = "c\<lparr>write_chunks := fetch_and_not (write_chunks c) (k, mask_for_chunk s e k)\<rparr>"
  have "moves c ((k, mask_for_chunk s e k) # masks_of s e ks) ?c (masks_of s e ks)"
  proof (rule moves_give)
    show "\<forall>p. covers ((k, mask_for_chunk s e k) # masks_of s e ks) p \<longrightarrow> writing c p"
      using assms(3) by (simp only: owned.simps list.map)
    show "k \<notin> fst ` set (masks_of s e ks)" using assms(2) by auto
  qed simp
  then have "moves c (owned (WriteRelease s e (k # ks))) ?c (owned (WriteRelease s e ks))"
    by (simp only: owned.simps list.map)
  moreover have "sliced_ok ?c" using assms(1) by (simp add: sliced_ok_update)
  ultimately show ?thesis using False assms(2) by (simp add: step_ok_def)
qed

lemma write_swap_step:
  assumes "sliced_ok c" "position_ok c (WriteSwap s e k ks acquired current)"
    and "\<forall>p. covers acquired p \<longrightarrow> writing c p"
    and "borrow_step r (WriteSwap s e k ks acquired current) c = (pos', c')"
  shows "step_ok c (WriteSwap s e k ks acquired current) c' pos'"
proof -
  let ?m = "mask_for_chunk s e k"
  let ?c = "c\<lparr>write_chunks := (write_chunks c)[k := current OR ?m]\<rparr>"
  have mid: "midway c s e (k # ks) acquired" using assms(2) by simp
  note k = midway_chunk [OF mid assms(1)]
  show ?thesis
  proof (cases "current AND ?m = 0")
    case False
    then have "pos' = WriteUndo acquired" "c' = c" using assms(4) by (simp_all add: Let_def)
    then show ?thesis using step_quiet [OF assms(1)] assms(3) k(5) by simp
  next
    case free: True
    show ?thesis
    proof (cases "write_chunks c ! k = current")
      case True
      have step: "pos' = WriteCheck s e ks (acquired @ [(k, ?m)])" "c' = ?c"
        using assms(4) free True by (simp_all add: Let_def)
      have "moves c acquired ?c (acquired @ [(k, ?m)])"
      proof (rule moves_take)
        show "write_chunks c ! k AND ?m = 0" by (simp only: True free)
        show "write_chunks ?c = (write_chunks c)[k := write_chunks c ! k OR ?m]" by (simp add: True)
      qed (use assms(3) k(1) in blast)+
      moreover have "midway ?c s e ks (acquired @ [(k, ?m)])" using k(4) by (simp add: midway_def)
      moreover have "sliced_ok ?c" using assms(1) by (simp add: sliced_ok_update)
      ultimately show ?thesis unfolding step by (simp add: step_ok_def)
    next
      case False
      then have "pos' = WriteSwap s e k ks acquired (write_chunks c ! k)" "c' = c"
        using assms(4) free by (auto simp: Let_def)
      then show ?thesis using step_quiet [OF assms(1)] assms(3) mid by simp
    qed
  qed
qed

lemma write_undo_step:
  assumes "sliced_ok c" "position_ok c (WriteUndo (a # as))"
    and "\<forall>p. covers (a # as) p \<longrightarrow> writing c p"
  shows "step_ok c (WriteUndo (a # as))
      (c\<lparr>write_chunks := fetch_and_not (write_chunks c) a\<rparr>) (WriteUndo as)"
proof -
  obtain k m where a: "a = (k, m)" by (cases a)
  let ?c = "c\<lparr>write_chunks := fetch_and_not (write_chunks c) (k, m)\<rparr>"
  have "moves c ((k, m) # as) ?c as"
    by (rule moves_give) (use assms a in simp_all)
  then show ?thesis using assms by (simp add: step_ok_def sliced_ok_update a)
qed

lemma write_check_step:
  assumes "sliced_ok c" "midway c s e ks acquired" "\<forall>p. covers acquired p \<longrightarrow> writing c p"
    and "borrow_step r (WriteCheck s e ks acquired) c = (pos', c')"
  shows "step_ok c (WriteCheck s e ks acquired) c' pos'"
proof (cases ks)
  case Nil
  have "owned (Writing s (e - s)) = owned (WriteCheck s e ks acquired)"
    using midway_done [of c s e acquired] assms(2) Nil by simp
  moreover have "position_ok c (Writing s (e - s))"
    using midway_done [of c s e acquired] assms(2) Nil by simp
  moreover have "pos' = Writing s (e - s)" "c' = c" using assms(4) Nil by simp_all
  ultimately show ?thesis using step_quiet [OF assms(1)] assms(3) Nil by simp
next
  case (Cons k rest)
  note k = midway_chunk [OF assms(2) [unfolded Cons] assms(1)]
  have "c' = c \<and> (pos' = WriteUndo acquired \<or> pos' = WriteLoad s e k rest acquired)"
    using assms(4) k(3) Cons by (auto simp: Let_def split: if_splits)
  then show ?thesis using assms(1-3) k(5) Cons by (auto intro!: step_quiet)
qed

lemma borrow_step_ok:
  assumes "sliced_ok c" "position_ok c pos" "\<forall>p. covers (owned pos) p \<longrightarrow> writing c p"
    and "borrow_step r pos c = (pos', c')" "sc_length c < 2 ^ 64"
  shows "step_ok c pos c' pos'"
proof (cases pos)
  case Idle
  then show ?thesis
    using assms
    by (cases r) (auto intro!: step_quiet simp: midway_def dest!: range_endD split: option.splits if_splits)
next
  case (WriteCheck s e ks acquired)
  then show ?thesis using write_check_step [of c s e ks acquired r pos' c'] assms by simp
next
  case (WriteUndo as)
  then show ?thesis
    using assms write_undo_step [of c] by (cases as) (auto intro!: step_quiet)
next
  case (Writing s len)
  then show ?thesis
    using assms
    by (cases r) (auto intro!: step_quiet simp: range_end_iff split: if_splits)
next
  case (WriteRelease s e ks)
  then show ?thesis
    using assms write_release_step [of c s e] by (cases ks) (auto intro!: step_quiet simp: Let_def)
next
  case (WriteSwap s e k ks acquired current)
  then show ?thesis using write_swap_step assms by (simp del: borrow_step.simps)
next
  case (ReadCheck s e ks acquired)
  then show ?thesis
    using assms by (cases ks) (auto intro!: step_quiet simp: Let_def split: if_splits)
next
  case (ReadSet s e k ks acquired)
  then show ?thesis using assms by (auto intro!: step_reads simp: Let_def)
next
  case (ReadUndo as)
  then show ?thesis using assms by (cases as) (auto intro!: step_quiet step_reads)
next
  case (Reading s len)
  then show ?thesis
    using assms by (cases r) (auto intro!: step_quiet split: option.splits if_splits)
next
  case (ReadRelease s e ks)
  then show ?thesis using assms by (cases ks) (auto intro!: step_quiet step_reads simp: Let_def split: if_splits)
qed (use assms in \<open>auto intro!: step_quiet\<close>)


definition borrows_ok :: "nat \<Rightarrow> borrowers \<Rightarrow> bool" where
  "borrows_ok len w \<longleftrightarrow> sliced_ok (snd w) \<and> sc_length (snd w) = len
     \<and> (\<forall>t. position_ok (snd w) (fst w t))
     \<and> (\<forall>p. writing (snd w) p \<longleftrightarrow> (\<exists>t. covers (owned (fst w t)) p))
     \<and> (\<forall>t u p. covers (owned (fst w t)) p \<and> covers (owned (fst w u)) p \<longrightarrow> t = u)"

lemma borrows_okD:
  assumes "borrows_ok len (pcs, c)"
  shows "sliced_ok c" "sc_length c = len" "position_ok c (pcs u)"
    and "writing c p \<longleftrightarrow> (\<exists>u. covers (owned (pcs u)) p)"
    and "covers (owned (pcs u)) p \<Longrightarrow> covers (owned (pcs v)) p \<Longrightarrow> u = v"
  using assms unfolding borrows_ok_def fst_conv snd_conv by blast+

lemma borrows_ok_start: "borrows_ok len (borrow_start len)"
  by (simp add: borrows_ok_def borrow_start_def) (simp add: sliced_new_def Let_def)

lemma borrows_ok_step:
  assumes "borrows_ok len (pcs, c)" "len < 2 ^ 64" "borrow_step r (pcs t) c = (pos', c')"
  shows "borrows_ok len (pcs(t := pos'), c')"
proof -
  note ok = borrows_okD(1-3) [OF assms(1)] and bits = borrows_okD(4) [OF assms(1)]
    and only = borrows_okD(5) [OF assms(1)]
  have "step_ok c (pcs t) c' pos'"
    by (rule borrow_step_ok [OF ok(1) ok(3) _ assms(3)]) (use bits ok(2) assms(2) in auto)
  then have moved: "\<And>p. covers (owned pos') p \<Longrightarrow> covers (owned (pcs t)) p \<or> \<not> writing c p"
      "\<And>p. writing c' p \<longleftrightarrow> covers (owned pos') p \<or> writing c p \<and> \<not> covers (owned (pcs t)) p"
    and new: "position_ok c' pos'" "sliced_ok c'" "sc_length c' = sc_length c"
    by (auto simp: step_ok_def moves_def)
  let ?own = "\<lambda>u. owned ((pcs(t := pos')) u)"
  have "(\<exists>u. covers (?own u) p)
      \<longleftrightarrow> covers (owned pos') p \<or> (\<exists>u. u \<noteq> t \<and> covers (owned (pcs u)) p)" for p
    unfolding fun_upd_def by auto
  moreover have "writing c p \<and> \<not> covers (owned (pcs t)) p
      \<longleftrightarrow> (\<exists>u. u \<noteq> t \<and> covers (owned (pcs u)) p) \<and> \<not> covers (owned (pcs t)) p" for p
    using bits by metis
  ultimately have "writing c' p \<longleftrightarrow> (\<exists>u. covers (?own u) p)" for p
    using moved [of p] bits only by metis
  moreover have mine: "u = t" if "covers (owned (pcs u)) p" "covers (owned pos') p" for u p
    using moved(1) [OF that(2)] only bits that(1) by blast
  have "u = v" if "covers (?own u) p" "covers (?own v) p" for u v p
    using that mine only by (metis fun_upd_apply)
  moreover have "position_ok c' ((pcs(t := pos')) u)" for u
    using new(1) ok(3) position_ok_cong [OF new(3)] by simp
  ultimately show ?thesis
    using new(2,3) ok(2) \<open>\<And>v u p. covers (?own u) p \<Longrightarrow> covers (?own v) p \<Longrightarrow> u = v\<close>
    unfolding borrows_ok_def fst_conv snd_conv by blast
qed

lemma borrows_ok_run:
  "borrows_ok len w \<Longrightarrow> len < 2 ^ 64 \<Longrightarrow> borrows_ok len (borrow_run sched w)"
proof (induction sched w rule: borrow_run.induct)
  case (2 t r later w)
  obtain pos' c' where step: "borrow_step r (fst w t) (snd w) = (pos', c')" by fastforce
  have "borrows_ok len ((fst w)(t := pos'), c')"
    using borrows_ok_step [of len "fst w" "snd w", OF _ 2(3) step] 2(2) by simp
  then show ?case using 2(1) [OF step [symmetric] _ 2(3)] step by simp
qed simp

section \<open>Properties\<close>

text \<open>C32: a mutable borrow run alone is granted exactly when its range lies in the buffer and no
  element of it is borrowed, for writing or reading; a borrow that is refused leaves the buffer as
  it was, one that is granted marks its elements and no others, and dropping the guard restores
  the buffer. The query \<^verbatim>\<open>is_range_borrowed\<close> reads exactly the write marks.\<close>

theorem mutable_borrow_protocol:
  assumes "sliced_ok c" "sc_length c < 2 ^ 64" "sliced_data_mut s len c = (g, c')"
  shows "(g \<longleftrightarrow> s + len \<le> sc_length c
            \<and> (\<forall>p. s \<le> p \<and> p < s + len \<longrightarrow> \<not> writing c p \<and> \<not> reading c p))
    \<and> (\<not> g \<longrightarrow> c' = c)
    \<and> (\<forall>p. writing c' p \<longleftrightarrow> writing c p \<or> g \<and> s \<le> p \<and> p < s + len)
    \<and> (g \<longrightarrow> unset_range s len c' = c)
    \<and> (is_range_borrowed s len c
         \<longleftrightarrow> s + len \<le> sc_length c \<and> (\<exists>p. s \<le> p \<and> p < s + len \<and> writing c p))"
proof (intro conjI impI allI)
  note spec = sliced_data_mut_spec [OF assms]
  have lens: "length (write_chunks c') = length (write_chunks c)"
    using assms(1) spec(4,5) by (simp add: sliced_ok_def)
  show "g \<longleftrightarrow> s + len \<le> sc_length c
            \<and> (\<forall>p. s \<le> p \<and> p < s + len \<longrightarrow> \<not> writing c p \<and> \<not> reading c p)" by (rule spec(1))
  show "writing c' p \<longleftrightarrow> writing c p \<or> g \<and> s \<le> p \<and> p < s + len" for p by (rule spec(2))
  have eq: "x = c" if "read_chunks x = read_chunks c" "sc_length x = sc_length c"
    "length (write_chunks x) = length (write_chunks c)" "\<And>p. writing x p \<longleftrightarrow> writing c p" for x
    using that chunk_lists_eq [of "write_chunks x" "write_chunks c"] by (intro sliced.equality) simp_all
  show "c' = c" if "\<not> g" using spec(2-4) lens that by (intro eq) simp_all
  show "unset_range s len c' = c" if "g"
  proof (rule eq)
    have room: "s + len \<le> sc_length c'" "sc_length c' < 2 ^ 64"
      and free: "\<And>p. s \<le> p \<Longrightarrow> p < s + len \<Longrightarrow> \<not> writing c p"
      using spec(1,4) that assms(2) by auto
    note un = unset_range_spec [OF spec(5) room]
    show "writing (unset_range s len c') p \<longleftrightarrow> writing c p" for p
      unfolding un(1) spec(2) using free by blast
  qed (use unset_range_spec [of c' s len] spec lens that assms(2) in simp_all)
  show "is_range_borrowed s len c
         \<longleftrightarrow> s + len \<le> sc_length c \<and> (\<exists>p. s \<le> p \<and> p < s + len \<and> writing c p)"
    using any_write_bit_iff [OF assms(1), of s "s + len"]
    by (auto simp: is_range_borrowed_def range_end_iff [OF assms(2)])
qed

theorem mutable_borrow_protocol_witness:
  "\<exists>c'. sliced_data_mut 60 10 (sliced_new 100) = (True, c') \<and> unset_range 60 10 c' = sliced_new 100"
proof -
  have "sc_length (sliced_new 100) < 2 ^ 64" by (simp add: sliced_new_def Let_def)
  from mutable_borrow_protocol [OF sliced_ok_new this, of 60 10 _ _]
  have spec: "sliced_data_mut 60 10 (sliced_new 100) = (g, c') \<Longrightarrow>
    (g \<longleftrightarrow> 60 + 10 \<le> sc_length (sliced_new 100)) \<and> (g \<longrightarrow> unset_range 60 10 c' = sliced_new 100)" for g c'
    by simp
  obtain g c' where run: "sliced_data_mut 60 10 (sliced_new 100) = (g, c')" by fastforce
  then show ?thesis using spec [OF run] by (simp add: sliced_new_def Let_def)
qed

text \<open>C33: however the atomic accesses of any number of threads interleave, two guards that give
  mutable access to a common element belong to one thread, every element of a mutable guard is
  marked as borrowed, and no mark is left without an owner: when every thread is idle no element
  is marked.\<close>

theorem mutable_slices_disjoint:
  assumes "len < 2 ^ 64" "borrow_run sched (borrow_start len) = (pcs, c)"
  shows "(\<forall>t u a m b n p. pcs t = Writing a m \<and> pcs u = Writing b n
            \<and> a \<le> p \<and> p < a + m \<and> b \<le> p \<and> p < b + n \<longrightarrow> t = u)
    \<and> (\<forall>t a m p. pcs t = Writing a m \<and> a \<le> p \<and> p < a + m \<longrightarrow> p < len \<and> writing c p)
    \<and> ((\<forall>t. pcs t = Idle) \<longrightarrow> (\<forall>p. \<not> writing c p))"
proof -
  have ok: "borrows_ok len (pcs, c)"
    using borrows_ok_run [OF borrows_ok_start assms(1), of sched] assms(2) by simp
  have cover: "covers (owned (pcs t)) p" if "pcs t = Writing a m" "a \<le> p" "p < a + m" for t a m p
    using that covers_chunks [of a "a + m" p] by simp
  have "p < len" if "pcs t = Writing a m" "p < a + m" for t a m p
  proof -
    have "position_ok c (pcs t)" "sc_length c = len" using ok by (simp_all add: borrows_ok_def)
    then show ?thesis using that by simp
  qed
  moreover have "writing c p" if "pcs t = Writing a m" "a \<le> p" "p < a + m" for t a m p
    using borrows_okD(4) [OF ok] cover [OF that] by blast
  moreover have "t = u" if "pcs t = Writing a m" "pcs u = Writing b n" "a \<le> p" "p < a + m"
    "b \<le> p" "p < b + n" for t u a m b n p
    using borrows_okD(5) [OF ok] cover [OF that(1,3,4)] cover [OF that(2,5,6)] by blast
  moreover have "\<not> writing c p" if "\<forall>t. pcs t = Idle" for p
    using ok that by (simp add: borrows_ok_def)
  ultimately show ?thesis by blast
qed

lemma two_borrows:
  "mask_for_chunk 0 4 0 = 15" "mask_for_chunk 4 8 0 = 240"
  by (simp_all add: mask_for_chunk_def Let_def max_def min_def mask_eq_exp_minus_1 push_bit_eq_mult)

theorem mutable_slices_disjoint_witness:
  "\<exists>pcs c. borrow_run ((0, BorrowMut 0 4) # (1, BorrowMut 4 4)
      # [(0, DropGuard), (1, DropGuard), (0, DropGuard), (1, DropGuard), (0, DropGuard),
         (1, DropGuard), (0, DropGuard), (1, DropGuard), (1, DropGuard)]) (borrow_start 8) = (pcs, c)
    \<and> pcs 0 = Writing 0 4 \<and> pcs 1 = Writing 4 4 \<and> writing c 5"
proof -
  let ?sched = "(0 :: nat, BorrowMut 0 4) # (1, BorrowMut 4 4)
      # [(0, DropGuard), (1, DropGuard), (0, DropGuard), (1, DropGuard), (0, DropGuard),
         (1, DropGuard), (0, DropGuard), (1, DropGuard), (1, DropGuard)]"
  obtain pcs c where run: "borrow_run ?sched (borrow_start 8) = (pcs, c)" by fastforce
  have pos: "fst (borrow_run ?sched (borrow_start 8)) 0 = Writing 0 4"
    "fst (borrow_run ?sched (borrow_start 8)) 1 = Writing 4 4"
    by (simp_all add: two_borrows borrow_start_def sliced_new_def range_end_def chunks_of_def)
  have "\<forall>t a m p. pcs t = Writing a m \<and> a \<le> p \<and> p < a + m \<longrightarrow> p < 8 \<and> writing c p"
    using mutable_slices_disjoint [OF _ run] by simp
  from spec [OF spec [OF spec [OF spec [OF this, of 1], of 4], of 4], of 5]
  have "writing c 5" using pos unfolding run by simp
  then show ?thesis using run pos unfolding run by simp
qed


text \<open>C34: the marks of readers do not count readers, and a reader and a writer each look at the
  other's marks before they set their own. So (1) when two threads read the same range and one of
  them drops its guard, a writer is granted the range although the other thread still reads it;
  (2) a refused reader takes the marks of another reader with it: its rollback clears the elements
  of the chunks it had acquired; and (3) a reader and a writer that interleave are both granted the
  same range.\<close>

theorem readers_lose_protection:
  assumes "sliced_ok c" "sc_length c < 2 ^ 64" "0 < len"
    and "sliced_get_range s len c = (True, c1)" "sliced_get_range s len c1 = (True, c2)"
  shows "(\<exists>c3. sliced_data_mut s len (release_read_range s len c2) = (True, c3))
    \<and> (\<exists>sched pcs d. borrow_run sched (borrow_start 8) = (pcs, d)
          \<and> pcs 0 = Writing 0 4 \<and> pcs 1 = Reading 0 4)
    \<and> (\<exists>c4 c5. sliced_get_range 0 64 (snd (sliced_data_mut 64 64 (sliced_new 128))) = (True, c4)
          \<and> sliced_get_range 0 128 c4 = (False, c5) \<and> reading c4 0 \<and> \<not> reading c5 0)"
proof (intro conjI)
  note first = sliced_get_range_spec [OF assms(1,2,4)]
  have c1: "sliced_ok c1" "sc_length c1 < 2 ^ 64" using first(4,5) assms(2) by simp_all
  note second = sliced_get_range_spec [OF c1 assms(5)]
  have c2: "sliced_ok c2" "sc_length c2 < 2 ^ 64" "s + len \<le> sc_length c2"
    using second(1,4,5) c1(2) by simp_all
  note third = release_read_spec [OF c2(1,3,2)]
  obtain g c3 where run: "sliced_data_mut s len (release_read_range s len c2) = (g, c3)" by fastforce
  have "sc_length (release_read_range s len c2) < 2 ^ 64" using third(3) c2(2) by simp
  from sliced_data_mut_spec(1) [OF third(4) this run]
  have "g" using third(1-3) first(1,3) second(3) c2(3) by simp
  then show "\<exists>c3. sliced_data_mut s len (release_read_range s len c2) = (True, c3)" using run by simp
next
  let ?sched = "[(0, BorrowMut 0 4), (1, Borrow 0 4), (0, DropGuard), (1, DropGuard), (0, DropGuard),
    (0, DropGuard), (0, DropGuard), (1, DropGuard), (1, DropGuard)]"
  obtain pcs d where run: "borrow_run ?sched (borrow_start 8) = (pcs, d)" by fastforce
  have "fst (borrow_run ?sched (borrow_start 8)) 0 = Writing 0 4"
    "fst (borrow_run ?sched (borrow_start 8)) 1 = Reading 0 4"
    by (simp_all add: two_borrows borrow_start_def sliced_new_def range_end_def chunks_of_def)
  then show "\<exists>sched pcs d. borrow_run sched (borrow_start 8) = (pcs, d)
          \<and> pcs 0 = Writing 0 4 \<and> pcs 1 = Reading 0 4"
    using run by fastforce
next
  let ?c4 = "\<lparr>sc_length = 128, write_chunks = [0, - 1], read_chunks = [- 1, 0]\<rparr>"
  let ?c5 = "\<lparr>sc_length = 128, write_chunks = [0, - 1], read_chunks = [0, 0]\<rparr>"
  have two: "replicate 2 (0 :: u64) = [0, 0]" by (simp add: numeral_2_eq_2)
  note defs = sliced_get_range_def sliced_data_mut_def sliced_new_def range_end_def chunks_of_def
    acquire_read_range_def mask_for_chunk_def fetch_or_def fetch_and_not_def undo_read_def Let_def
  have "sliced_get_range 0 64 (snd (sliced_data_mut 64 64 (sliced_new 128))) = (True, ?c4)"
    "sliced_get_range 0 128 ?c4 = (False, ?c5)"
    by (simp_all add: defs two)
  moreover have "reading ?c4 0" "\<not> reading ?c5 0" by (simp_all add: bit_set_def)
  ultimately show "\<exists>c4 c5. sliced_get_range 0 64 (snd (sliced_data_mut 64 64 (sliced_new 128))) = (True, c4)
          \<and> sliced_get_range 0 128 c4 = (False, c5) \<and> reading c4 0 \<and> \<not> reading c5 0"
    by blast
qed

theorem readers_lose_protection_witness:
  "\<exists>c1 c2 c3. sliced_get_range 2 3 (sliced_new 8) = (True, c1)
     \<and> sliced_get_range 2 3 c1 = (True, c2)
     \<and> sliced_data_mut 2 3 (release_read_range 2 3 c2) = (True, c3)"
proof -
  have new: "sc_length (sliced_new 8) = 8" by (simp add: sliced_new_def Let_def)
  obtain g1 c1 where one: "sliced_get_range 2 3 (sliced_new 8) = (g1, c1)" by fastforce
  have g1: "g1" "sliced_ok c1" "sc_length c1 = 8" "write_chunks c1 = write_chunks (sliced_new 8)"
    using sliced_get_range_spec [OF sliced_ok_new _ one] new by simp_all
  obtain g2 c2 where two: "sliced_get_range 2 3 c1 = (g2, c2)" by fastforce
  have g2: "g2" using sliced_get_range_spec(1) [OF g1(2) _ two] g1(3,4) by simp
  have "\<exists>c3. sliced_data_mut 2 3 (release_read_range 2 3 c2) = (True, c3)"
    using readers_lose_protection [of "sliced_new 8" 3 2 c1 c2] one two g1(1) g2 new by simp
  then show ?thesis using one two g1(1) g2 by simp
qed

end
