(* ===== verification/Core_Alloc.thy ===== *)
theory Core_Alloc
  imports Prelude
begin

text \<open>
  \<^verbatim>\<open>core_alloc.rs\<close>: which cores the system threads, the receiver threads and the workers are
  pinned to. The sorted identifiers of the cores the machine has are an argument. Sums wrap as
  \<^verbatim>\<open>usize\<close> does in the release profile.
\<close>

record core_allocation =
  system_core_offset :: nat
  ca_system_threads :: nat
  receiver_offset :: nat
  ca_receiver_threads :: nat
  worker_offset :: nat
  worker_count :: nat
  main_core :: "nat option"
  all_core_ids :: "nat list"

definition wadd :: "nat \<Rightarrow> nat \<Rightarrow> nat" where
  "wadd a b = (a + b) mod 2 ^ 64"

definition allocation_checks :: "core_allocation \<Rightarrow> bool" where
  "allocation_checks a \<longleftrightarrow>
     wadd (system_core_offset a) (ca_system_threads a) \<le> receiver_offset a
     \<and> wadd (receiver_offset a) (ca_receiver_threads a) \<le> worker_offset a"

definition allocate_cores ::
  "nat list \<Rightarrow> nat \<Rightarrow> nat \<Rightarrow> nat \<Rightarrow> nat \<Rightarrow> core_allocation result" where
  "allocate_cores core_ids core_offset sys recv work =
     (let available = length core_ids;
          total = wadd (wadd sys recv) work;
          layout = (\<lambda>start main.
            let recv_start = wadd start sys
            in \<lparr>system_core_offset = start, ca_system_threads = sys, receiver_offset = recv_start,
                ca_receiver_threads = recv, worker_offset = wadd recv_start recv,
                worker_count = work, main_core = main, all_core_ids = core_ids\<rparr>);
          checked = (\<lambda>a. if allocation_checks a then Inr a else Inl AssertionFailed)
      in if available < 2 then Inl ExplicitPanic
         else if wadd core_offset total < available then
           (if core_offset < available
            then checked (layout (wadd core_offset 1) (Some (core_ids ! core_offset)))
            else Inl IndexOutOfBounds)
         else if wadd core_offset total \<le> available then checked (layout core_offset None)
         else if total \<le> available then checked (layout 0 None)
         else
           let max_system = 1;
               remaining = available - max_system;
               max_receivers = min recv (remaining div 2);
               max_workers = max (remaining - max_receivers) 1
           in checked \<lparr>system_core_offset = 0, ca_system_threads = max_system,
                receiver_offset = max_system, ca_receiver_threads = max_receivers,
                worker_offset = max_system + max_receivers, worker_count = max_workers,
                main_core = None, all_core_ids = core_ids\<rparr>)"

lemma wadd_small: "a + b < 2 ^ 64 \<Longrightarrow> wadd a b = a + b"
  by (simp add: wadd_def)

text \<open>C37: on a machine with two cores or more and thread counts that do not overflow, cores are
  allocated: the ranges of system threads, receivers and workers follow one another without
  overlap, inside the cores of the machine, apart from the core of the main thread. Unless the
  machine is over-subscribed, every thread asked for gets a core of its own; when it is, all cores
  are used, by one system thread, at most the receivers asked for, and at least one worker.\<close>

theorem allocation_disjoint:
  assumes "2 \<le> length cores" "length cores < 2 ^ 63" "off + sys + recv + work < 2 ^ 63"
  shows "\<exists>a. allocate_cores cores off sys recv work = Inr a \<and> all_core_ids a = cores
    \<and> system_core_offset a + ca_system_threads a \<le> receiver_offset a
    \<and> receiver_offset a + ca_receiver_threads a \<le> worker_offset a
    \<and> worker_offset a + worker_count a \<le> length cores
    \<and> (\<forall>m. main_core a = Some m \<longrightarrow> off < system_core_offset a \<and> m = cores ! off)
    \<and> (if sys + recv + work \<le> length cores
       then ca_system_threads a = sys \<and> ca_receiver_threads a = recv \<and> worker_count a = work
       else ca_system_threads a = 1 \<and> ca_receiver_threads a \<le> recv \<and> 1 \<le> worker_count a
         \<and> ca_system_threads a + ca_receiver_threads a + worker_count a = length cores)"
proof -
  have total: "wadd (wadd sys recv) work = sys + recv + work"
    "wadd off (sys + recv + work) = off + (sys + recv + work)"
    using assms(3) by (simp_all add: wadd_small)
  let ?n = "length cores" and ?t = "sys + recv + work"
  consider "off + ?t < ?n" | "off + ?t = ?n" | "?n < off + ?t" "?t \<le> ?n" | "?n < ?t"
    by linarith
  then show ?thesis
  proof cases
    case 4
    have "(?n - 1) div 2 \<le> ?n - 1" by simp
    then show ?thesis
      using 4 assms(1,2)
      by (simp add: allocate_cores_def Let_def total allocation_checks_def wadd_small min_def max_def) linarith
  qed (use assms in \<open>simp add: allocate_cores_def Let_def total allocation_checks_def wadd_small\<close>)+
qed

theorem allocation_disjoint_witness:
  "\<exists>a. allocate_cores [0..<8] 0 1 2 8 = Inr a \<and> worker_offset a + worker_count a \<le> 8
     \<and> ca_system_threads a + ca_receiver_threads a + worker_count a = 8"
  using allocation_disjoint [of "[0..<8]" 0 1 2 8] by auto

end
