(* ===== verification/Affinity.thy ===== *)
theory Affinity
  imports Worker_Range Core_Alloc
begin

text \<open>
  Which worker serves which queue: the affinity groups of \<^verbatim>\<open>scheduler.rs\<close>
  (\<^verbatim>\<open>WorkerAffinityConfig\<close>) and the worker groups of \<^verbatim>\<open>custom_scheduler/builder.rs\<close>. A set of
  specifications is a list without duplicates in the order of iteration; the code sorts it.
\<close>

section \<open>The order on ranges (\<^verbatim>\<open>derive(Ord)\<close>)\<close>

instantiation worker_range_ext :: (linorder) linorder
begin

definition less_eq_worker_range_ext :: "'a worker_range_scheme \<Rightarrow> 'a worker_range_scheme \<Rightarrow> bool" where
  "less_eq_worker_range_ext r s \<longleftrightarrow> wr_start r < wr_start s \<or> wr_start r = wr_start s
     \<and> (wr_end r < wr_end s \<or> wr_end r = wr_end s \<and> worker_range.more r \<le> worker_range.more s)"

definition less_worker_range_ext :: "'a worker_range_scheme \<Rightarrow> 'a worker_range_scheme \<Rightarrow> bool" where
  "less_worker_range_ext r s \<longleftrightarrow> r \<le> s \<and> \<not> s \<le> r"

instance
proof
  fix r s t :: "'a worker_range_scheme"
  show "r \<le> r" "r \<le> s \<or> s \<le> r" "(r < s) = (r \<le> s \<and> \<not> s \<le> r)"
    by (auto simp: less_eq_worker_range_ext_def less_worker_range_ext_def)
  show "r \<le> s \<Longrightarrow> s \<le> t \<Longrightarrow> r \<le> t" by (auto simp: less_eq_worker_range_ext_def)
  show "r \<le> s \<Longrightarrow> s \<le> r \<Longrightarrow> r = s"
    by (rule worker_range.equality) (auto simp: less_eq_worker_range_ext_def)
qed

end

section \<open>Affinity groups\<close>

record worker_affinity =
  range_to_group :: "(worker_range \<times> nat) list"
  affinity_groups :: "(nat \<times> worker_range) list"
  worker_to_groups :: "nat list list"

definition push_group :: "nat \<Rightarrow> worker_range \<Rightarrow> nat list list \<Rightarrow> nat list list" where
  "push_group group_id r table =
     foldl (\<lambda>t worker_idx. t[worker_idx := t ! worker_idx @ [group_id]]) table [wr_start r ..< wr_end r]"

text \<open>A range inside the workers makes \<^verbatim>\<open>get_mut(..).unwrap()\<close> succeed: the table has an entry for
  each of them.\<close>

fun add_range_groups ::
  "nat \<Rightarrow> nat \<Rightarrow> worker_range list \<Rightarrow> worker_affinity \<Rightarrow> worker_affinity result" where
  "add_range_groups total_workers group_id [] a = Inr a"
| "add_range_groups total_workers group_id (r # rs) a =
     (if total_workers < wr_end r then Inl ExplicitPanic
      else add_range_groups total_workers (group_id + 1) rs
        (a\<lparr>range_to_group := (r, group_id) # range_to_group a,
           affinity_groups := affinity_groups a @ [(group_id, r)],
           worker_to_groups := push_group group_id r (worker_to_groups a)\<rparr>))"

definition from_worker_ranges :: "worker_range list \<Rightarrow> nat \<Rightarrow> worker_affinity result" where
  "from_worker_ranges ranges total_workers =
     add_range_groups total_workers 1 (sort ranges)
       \<lparr>range_to_group = [], affinity_groups = [], worker_to_groups = replicate total_workers []\<rparr>"

fun range_of_spec :: "worker_range_spec \<Rightarrow> worker_range option" where
  "range_of_spec (Range r) = Some r"
| "range_of_spec (Count n) = None"

definition from_worker_specs :: "worker_range_spec list \<Rightarrow> nat \<Rightarrow> worker_affinity result" where
  "from_worker_specs specs total_workers =
     (let range_specs = sort (List.map_filter range_of_spec specs)
      in if list_ex (\<lambda>r. total_workers < wr_end r) range_specs then Inl ExplicitPanic
         else from_worker_ranges range_specs total_workers)"

definition get_group :: "worker_affinity \<Rightarrow> worker_range_spec option \<Rightarrow> nat" where
  "get_group a use_workers =
     (case use_workers of
        None \<Rightarrow> 0
      | Some (Range r) \<Rightarrow> (case map_of (range_to_group a) r of Some g \<Rightarrow> g | None \<Rightarrow> 0)
      | Some (Count _) \<Rightarrow> 0)"

definition get_worker_groups :: "worker_affinity \<Rightarrow> nat \<Rightarrow> nat list" where
  "get_worker_groups a worker_idx =
     (if worker_idx < length (worker_to_groups a) then worker_to_groups a ! worker_idx else [])"

section \<open>Worker groups of the custom scheduler\<close>

record group_config =
  num_workers :: nat
  group_id :: nat
  allow_global_steal :: bool
  spin_iterations :: nat

record scheduler_builder =
  sb_groups :: "group_config list"
  sb_core_offset :: nat
  sb_system_threads :: nat
  sb_receiver_threads :: nat
  sb_worker_affinity :: "worker_affinity option"
  sb_sharded :: bool

definition builder_new :: scheduler_builder where
  "builder_new = \<lparr>sb_groups = [], sb_core_offset = 0, sb_system_threads = 1,
     sb_receiver_threads = 0, sb_worker_affinity = None, sb_sharded = False\<rparr>"

definition add_group :: "group_config \<Rightarrow> scheduler_builder \<Rightarrow> scheduler_builder" where
  "add_group g b = b\<lparr>sb_groups := sb_groups b @ [g]\<rparr>"

definition add_workers :: "nat \<Rightarrow> nat \<Rightarrow> scheduler_builder \<Rightarrow> scheduler_builder" where
  "add_workers n spin b =
     add_group \<lparr>num_workers = n, group_id = length (sb_groups b), allow_global_steal = True,
       spin_iterations = spin\<rparr> b"

text \<open>\<open>n\<close> split evenly in \<open>parts\<close>: the first \<open>n mod parts\<close> shares have one more.\<close>

definition even_shares :: "nat \<Rightarrow> nat \<Rightarrow> nat list" where
  "even_shares n parts =
     (let base = n div parts; extra = n mod parts
      in map (\<lambda>s. base + (if s < extra then 1 else 0)) [0..<parts])"

definition add_shard :: "nat \<Rightarrow> nat \<Rightarrow> scheduler_builder \<Rightarrow> scheduler_builder" where
  "add_shard spin n b = (if n = 0 then b else add_workers n spin b)"

definition add_sharded_workers ::
  "nat \<Rightarrow> nat \<Rightarrow> nat \<Rightarrow> scheduler_builder \<Rightarrow> scheduler_builder" where
  "add_sharded_workers n shard_size0 spin b =
     (let shard_size = max shard_size0 1;
          num_shards = max ((n + shard_size - 1) div shard_size) 1
      in (fold (add_shard spin) (even_shares n num_shards) b)\<lparr>sb_sharded := True\<rparr>)"

definition assigned_workers :: "(nat \<times> worker_range) list \<Rightarrow> nat list" where
  "assigned_workers groups =
     remdups (concat (map (\<lambda>(_, r). [wr_start r ..< wr_end r]) groups))"

definition with_affinity_groups ::
  "worker_affinity \<Rightarrow> nat \<Rightarrow> scheduler_builder \<Rightarrow> scheduler_builder" where
  "with_affinity_groups affinity total_workers b =
     (let global_worker_count = total_workers - length (assigned_workers (affinity_groups affinity));
          b1 = add_group \<lparr>num_workers = global_worker_count, group_id = 0,
                 allow_global_steal = True, spin_iterations = 64\<rparr> b;
          b2 = foldl (\<lambda>b (gid, r). add_group \<lparr>num_workers = wr_len r, group_id = gid,
                 allow_global_steal = True, spin_iterations = 64\<rparr> b) b1
                 (sort_key fst (affinity_groups affinity))
      in b2\<lparr>sb_worker_affinity := Some affinity\<rparr>)"

definition worker_to_group_idx :: "nat \<Rightarrow> nat \<Rightarrow> worker_affinity option \<Rightarrow> nat list" where
  "worker_to_group_idx total_workers num_groups affinity =
     (let has_affinity_groups = (case affinity of Some a \<Rightarrow> affinity_groups a \<noteq> [] | None \<Rightarrow> False)
      in if has_affinity_groups then
           map (\<lambda>w. case get_worker_groups (the affinity) w of [] \<Rightarrow> 0 | g # _ \<Rightarrow> g) [0..<total_workers]
         else if 1 < num_groups then
           concat (map (\<lambda>(g, n). replicate n g)
             (zip [0..<num_groups] (even_shares total_workers num_groups)))
         else replicate total_workers 0)"

record worker_layout =
  wl_groups :: "group_config list"
  wl_sharded :: bool
  wl_affinity :: "worker_affinity option"
  wl_worker_group :: "nat list"
  wl_allocation :: core_allocation

definition build_scheduler :: "nat list \<Rightarrow> scheduler_builder \<Rightarrow> worker_layout result" where
  "build_scheduler core_ids b =
     rbind (allocate_cores core_ids (sb_core_offset b) (sb_system_threads b) (sb_receiver_threads b)
              (sum_list (map num_workers (sb_groups b)) mod 2 ^ 64))
       (\<lambda>alloc.
          let num_groups = length (sb_groups b);
              groups = worker_to_group_idx (worker_count alloc) num_groups (sb_worker_affinity b)
          in if list_all (\<lambda>g. g < num_groups) groups then
               Inr \<lparr>wl_groups = sb_groups b, wl_sharded = (sb_sharded b \<and> 0 < num_groups),
                 wl_affinity = sb_worker_affinity b, wl_worker_group = groups,
                 wl_allocation = alloc\<rparr>
             else Inl IndexOutOfBounds)"

text \<open>\<^verbatim>\<open>create_scheduler\<close> for the custom scheduler.\<close>

definition CUSTOM_SHARD_SIZE :: nat where
  "CUSTOM_SHARD_SIZE = 8"

definition create_custom_scheduler ::
  "nat list \<Rightarrow> nat \<Rightarrow> nat \<Rightarrow> nat \<Rightarrow> nat \<Rightarrow> nat \<Rightarrow> worker_affinity option \<Rightarrow> worker_layout result" where
  "create_custom_scheduler core_ids core_offset workers system_threads receiver_threads spin affinity =
     (let b = builder_new\<lparr>sb_core_offset := core_offset, sb_system_threads := system_threads,
                sb_receiver_threads := receiver_threads\<rparr>
      in build_scheduler core_ids
           (case affinity of
              Some a \<Rightarrow>
                if affinity_groups a \<noteq> [] then with_affinity_groups a workers b
                else (add_sharded_workers workers CUSTOM_SHARD_SIZE spin b)
                       \<lparr>sb_worker_affinity := affinity\<rparr>
            | None \<Rightarrow> add_sharded_workers workers CUSTOM_SHARD_SIZE spin b))"

definition get_affinity_group :: "worker_layout \<Rightarrow> worker_range_spec option \<Rightarrow> nat" where
  "get_affinity_group l use_workers =
     (case wl_affinity l of Some a \<Rightarrow> get_group a use_workers | None \<Rightarrow> 0)"

end
