(* ===== verification/Custom_Scheduler.thy ===== *)
theory Custom_Scheduler
  imports Affinity Node_Cache "HOL-Library.Multiset"
begin

text \<open>
  The custom scheduler: priority channels (\<^verbatim>\<open>custom_scheduler/channels.rs\<close>), dispatch
  (\<^verbatim>\<open>mod.rs\<close>) and the loop of a worker (\<^verbatim>\<open>worker.rs\<close>). A channel is the list of the jobs in it,
  oldest first. Counters are 64-bit words that wrap. What a job does is a parameter of its type;
  a run of the scheduler is a sequence of sends, receives and completions of all threads.
\<close>

section \<open>Channels\<close>

record 'j channel_set =
  high_q :: "'j list"
  normal_q :: "'j list"
  low_q :: "'j list"

definition channel_set_new :: "'j channel_set" where
  "channel_set_new = \<lparr>high_q = [], normal_q = [], low_q = []\<rparr>"

fun send :: "priority \<Rightarrow> 'j \<Rightarrow> 'j channel_set \<Rightarrow> 'j channel_set" where
  "send PHigh j c = c\<lparr>high_q := high_q c @ [j]\<rparr>"
| "send PNormal j c = c\<lparr>normal_q := normal_q c @ [j]\<rparr>"
| "send PLow j c = c\<lparr>low_q := low_q c @ [j]\<rparr>"

fun recv :: "priority \<Rightarrow> 'j channel_set \<Rightarrow> 'j option \<times> 'j channel_set" where
  "recv PHigh c = (case high_q c of [] \<Rightarrow> (None, c) | j # js \<Rightarrow> (Some j, c\<lparr>high_q := js\<rparr>))"
| "recv PNormal c = (case normal_q c of [] \<Rightarrow> (None, c) | j # js \<Rightarrow> (Some j, c\<lparr>normal_q := js\<rparr>))"
| "recv PLow c = (case low_q c of [] \<Rightarrow> (None, c) | j # js \<Rightarrow> (Some j, c\<lparr>low_q := js\<rparr>))"

definition try_recv_prioritized :: "'j channel_set \<Rightarrow> 'j option \<times> 'j channel_set" where
  "try_recv_prioritized c =
     (case recv PHigh c of
        (Some j, c') \<Rightarrow> (Some j, c')
      | (None, _) \<Rightarrow>
          (case recv PNormal c of
             (Some j, c') \<Rightarrow> (Some j, c')
           | (None, _) \<Rightarrow> recv PLow c))"

definition channels_empty :: "'j channel_set \<Rightarrow> bool" where
  "channels_empty c \<longleftrightarrow> high_q c = [] \<and> normal_q c = [] \<and> low_q c = []"

definition channel_load :: "'j channel_set \<Rightarrow> nat" where
  "channel_load c = length (high_q c) + length (normal_q c) + length (low_q c)"

text \<open>\<^verbatim>\<open>try_recv_all\<close> probes (whose channel, which priority) in this order.\<close>

definition probe_order :: "bool \<Rightarrow> (bool \<times> priority) list" where
  "probe_order allow_global =
     [(True, PHigh), (True, PNormal)]
     @ (if allow_global then [(False, PHigh), (False, PNormal)] else [])
     @ [(True, PLow)] @ (if allow_global then [(False, PLow)] else [])"

fun probe_channels :: "(bool \<times> priority) list \<Rightarrow> 'j channel_set \<Rightarrow> 'j channel_set
    \<Rightarrow> 'j option \<times> 'j channel_set \<times> 'j channel_set" where
  "probe_channels [] grp global = (None, grp, global)"
| "probe_channels ((own, p) # later) grp global =
     (if own then
        case recv p grp of
          (Some j, grp') \<Rightarrow> (Some j, grp', global)
        | (None, _) \<Rightarrow> probe_channels later grp global
      else
        case recv p global of
          (Some j, global') \<Rightarrow> (Some j, grp, global')
        | (None, _) \<Rightarrow> probe_channels later grp global)"

definition try_recv_all ::
  "'j channel_set \<Rightarrow> 'j channel_set \<Rightarrow> bool \<Rightarrow> 'j option \<times> 'j channel_set \<times> 'j channel_set" where
  "try_recv_all grp global allow_global = probe_channels (probe_order allow_global) grp global"

fun steal_loop :: "nat list \<Rightarrow> nat \<Rightarrow> 'j channel_set list \<Rightarrow> 'j option \<times> 'j channel_set list" where
  "steal_loop [] own shards = (None, shards)"
| "steal_loop (i # is) own shards =
     (if i = own then steal_loop is own shards
      else case try_recv_prioritized (shards ! i) of
             (Some j, s') \<Rightarrow> (Some j, shards[i := s'])
           | (None, _) \<Rightarrow> steal_loop is own shards)"

definition try_steal_shards ::
  "'j channel_set list \<Rightarrow> nat \<Rightarrow> nat \<Rightarrow> 'j option \<times> 'j channel_set list" where
  "try_steal_shards shards own start =
     (let n = length shards
      in steal_loop (map (\<lambda>k. (start + k) mod n) [0..<n]) own shards)"

section \<open>State\<close>

record record_meta =
  rm_job_id :: u64
  rm_task_id :: node_id
  rm_slot :: nat
  rm_index :: nat

record task_meta =
  tm_task_id :: node_id
  tm_slot :: nat
  tm_index :: nat
  tm_should_record :: bool

text \<open>A job is a boxed closure or the descriptor of a graph node; \<^typ>\<open>'t\<close> is what it runs.\<close>

datatype 't job = Boxed 't "record_meta option" | NodeJob 't u64 bool

record 't custom_scheduler =
  cs_global :: "'t job channel_set"
  cs_groups :: "'t job channel_set list"
  cs_sharded :: bool
  cs_next_shard :: u64
  cs_in_flight :: "u64 list"
  cs_shutdown :: bool
  cs_total_spawned :: u64
  cs_total_completed :: u64
  cs_pending_tasks :: u64
  cs_node_exec :: bool

definition create_channels_and_state :: "nat \<Rightarrow> bool \<Rightarrow> 't custom_scheduler" where
  "create_channels_and_state num_groups sharded =
     \<lparr>cs_global = channel_set_new, cs_groups = replicate num_groups channel_set_new,
      cs_sharded = sharded, cs_next_shard = 0, cs_in_flight = replicate num_groups 0,
      cs_shutdown = False, cs_total_spawned = 0, cs_total_completed = 0, cs_pending_tasks = 0,
      cs_node_exec = False\<rparr>"

section \<open>Sending\<close>

definition count_spawn :: "'t custom_scheduler \<Rightarrow> 't custom_scheduler" where
  "count_spawn s = s\<lparr>cs_total_spawned := cs_total_spawned s + 1, cs_pending_tasks := cs_pending_tasks s + 1\<rparr>"

definition send_global :: "priority \<Rightarrow> 't job \<Rightarrow> 't custom_scheduler \<Rightarrow> 't custom_scheduler" where
  "send_global p j s = s\<lparr>cs_global := send p j (cs_global s)\<rparr>"

definition send_group :: "nat \<Rightarrow> priority \<Rightarrow> 't job \<Rightarrow> 't custom_scheduler \<Rightarrow> 't custom_scheduler" where
  "send_group g p j s = s\<lparr>cs_groups := (cs_groups s)[g := send p j (cs_groups s ! g)]\<rparr>"

definition spawn_with_priority :: "priority \<Rightarrow> 't \<Rightarrow> 't custom_scheduler \<Rightarrow> 't custom_scheduler" where
  "spawn_with_priority p task s = send_global p (Boxed task None) (count_spawn s)"

definition spawn_to_group :: "nat \<Rightarrow> priority \<Rightarrow> 't \<Rightarrow> 't custom_scheduler \<Rightarrow> 't custom_scheduler" where
  "spawn_to_group g p task s =
     (if g < length (cs_groups s) then send_group g p (Boxed task None) (count_spawn s)
      else spawn_with_priority p task s)"

definition record_meta_of :: "u64 \<Rightarrow> task_meta option \<Rightarrow> record_meta option" where
  "record_meta_of job_id meta =
     (case meta of
        Some m \<Rightarrow>
          if tm_should_record m then
            Some \<lparr>rm_job_id = job_id, rm_task_id = tm_task_id m, rm_slot = tm_slot m,
                  rm_index = tm_index m\<rparr>
          else None
      | None \<Rightarrow> None)"

definition spawn_with_meta_priority ::
  "priority \<Rightarrow> task_meta option \<Rightarrow> 't \<Rightarrow> 't custom_scheduler \<Rightarrow> 't custom_scheduler" where
  "spawn_with_meta_priority p meta task s =
     send_global p (Boxed task (record_meta_of (cs_total_spawned s) meta)) (count_spawn s)"

definition spawn_with_meta :: "task_meta option \<Rightarrow> 't \<Rightarrow> 't custom_scheduler \<Rightarrow> 't custom_scheduler" where
  "spawn_with_meta = spawn_with_meta_priority PNormal"

definition spawn_to_group_with_meta ::
  "nat \<Rightarrow> priority \<Rightarrow> task_meta option \<Rightarrow> 't \<Rightarrow> 't custom_scheduler \<Rightarrow> 't custom_scheduler" where
  "spawn_to_group_with_meta g p meta task s =
     (if g < length (cs_groups s) then
        send_group g p (Boxed task (record_meta_of (cs_total_spawned s) meta)) (count_spawn s)
      else spawn_with_meta_priority p meta task s)"

text \<open>
  \<^verbatim>\<open>spawn_node\<close> in the sharded configuration looks for the least loaded shard, starting at the
  round-robin cursor and stopping at a shard without work.
\<close>

definition shard_load :: "'t custom_scheduler \<Rightarrow> nat \<Rightarrow> u64" where
  "shard_load s i = of_nat (channel_load (cs_groups s ! i)) + cs_in_flight s ! i"

fun least_loaded :: "(nat \<Rightarrow> u64) \<Rightarrow> nat \<Rightarrow> nat \<Rightarrow> nat list \<Rightarrow> nat \<Rightarrow> u64 \<Rightarrow> nat" where
  "least_loaded load_of n start [] best best_load = best"
| "least_loaded load_of n start (k # ks) best best_load =
     (if best_load = 0 then best
      else let i = (start + k) mod n; l = load_of i
           in if l < best_load then least_loaded load_of n start ks i l
              else least_loaded load_of n start ks best best_load)"

definition spawn_node ::
  "nat \<Rightarrow> priority \<Rightarrow> 't \<Rightarrow> bool \<Rightarrow> 't custom_scheduler \<Rightarrow> 't custom_scheduler" where
  "spawn_node g p task should_record s0 =
     (let s = count_spawn s0;
          j = NodeJob task (cs_total_spawned s0) should_record;
          n = length (cs_groups s)
      in if 0 < g \<and> g < n then send_group g p j s
         else if cs_sharded s then
           (if n = 1 then send_group 0 p j s
            else
              let start = unat (cs_next_shard s) mod n;
                  best = least_loaded (shard_load s) n start [1..<n] start (shard_load s start)
              in send_group best p j (s\<lparr>cs_next_shard := cs_next_shard s + 1\<rparr>))
         else send_global p j s)"

definition set_node_executor :: "'t custom_scheduler \<Rightarrow> 't custom_scheduler" where
  "set_node_executor s = s\<lparr>cs_node_exec := True\<rparr>"

section \<open>The loop of a worker\<close>

text \<open>
  A worker looks for a job (\<^verbatim>\<open>try_recv_all\<close>, then the other shards), or blocks on its channels and
  receives from any of them, runs the job, and looks again until shutdown. \<open>job_done\<close> lists what
  has been executed; a typed job without an executor is dropped but counted.
\<close>

datatype 't worker = Looking | Running "'t job" | Exited

record 't pool =
  p_sched :: "'t custom_scheduler"
  p_workers :: "'t worker list"
  p_done :: "'t job list"

definition scan :: "worker_layout \<Rightarrow> nat \<Rightarrow> 't custom_scheduler
    \<Rightarrow> 't job option \<times> 't custom_scheduler" where
  "scan l w s =
     (let g = wl_worker_group l ! w;
          allow = allow_global_steal (wl_groups l ! g)
      in case try_recv_all (cs_groups s ! g) (cs_global s) allow of
           (Some j, grp, global) \<Rightarrow>
             (Some j, s\<lparr>cs_groups := (cs_groups s)[g := grp], cs_global := global\<rparr>)
         | (None, _) \<Rightarrow>
             if cs_sharded s then
               case try_steal_shards (cs_groups s) g (g + 1) of
                 (Some j, shards) \<Rightarrow> (Some j, s\<lparr>cs_groups := shards\<rparr>)
               | (None, _) \<Rightarrow> (None, s)
             else (None, s))"

text \<open>Phase 3, \<^verbatim>\<open>select!\<close>: any of the channels the worker listens on that has a message.\<close>

definition select_recv :: "worker_layout \<Rightarrow> nat \<Rightarrow> bool \<Rightarrow> priority \<Rightarrow> 't custom_scheduler
    \<Rightarrow> 't job option \<times> 't custom_scheduler" where
  "select_recv l w own p s =
     (let g = wl_worker_group l ! w;
          allow = allow_global_steal (wl_groups l ! g)
      in if own then
           case recv p (cs_groups s ! g) of
             (Some j, c) \<Rightarrow> (Some j, s\<lparr>cs_groups := (cs_groups s)[g := c]\<rparr>)
           | (None, _) \<Rightarrow> (None, s)
         else if allow then
           case recv p (cs_global s) of
             (Some j, c) \<Rightarrow> (Some j, s\<lparr>cs_global := c\<rparr>)
           | (None, _) \<Rightarrow> (None, s)
         else (None, s))"

definition start_job :: "worker_layout \<Rightarrow> nat \<Rightarrow> 't job \<Rightarrow> 't custom_scheduler \<Rightarrow> 't pool \<Rightarrow> 't pool" where
  "start_job l w j s p =
     (let g = wl_worker_group l ! w
      in p\<lparr>p_sched := (if cs_sharded s
               then s\<lparr>cs_in_flight := (cs_in_flight s)[g := cs_in_flight s ! g + 1]\<rparr> else s),
           p_workers := (p_workers p)[w := Running j]\<rparr>)"

definition finish_job :: "worker_layout \<Rightarrow> nat \<Rightarrow> 't job \<Rightarrow> 't pool \<Rightarrow> 't pool" where
  "finish_job l w j p =
     (let s = p_sched p;
          g = wl_worker_group l ! w;
          executed = (case j of Boxed _ _ \<Rightarrow> True | NodeJob _ _ _ \<Rightarrow> cs_node_exec s);
          s1 = s\<lparr>cs_pending_tasks := cs_pending_tasks s - 1,
                 cs_total_completed := cs_total_completed s + 1\<rparr>;
          s2 = (if cs_sharded s1
                then s1\<lparr>cs_in_flight := (cs_in_flight s1)[g := cs_in_flight s1 ! g - 1]\<rparr> else s1)
      in p\<lparr>p_sched := s2, p_workers := (p_workers p)[w := Looking],
           p_done := (if executed then p_done p @ [j] else p_done p)\<rparr>)"

datatype 't event =
    SpawnBoxed nat priority "task_meta option" 't
  | SpawnGlobal priority 't
  | SpawnNode nat priority 't bool
  | InstallExecutor
  | Scan nat
  | Select nat bool priority
  | Finish nat
  | Shutdown
  | Leave nat

fun pool_step :: "worker_layout \<Rightarrow> 't event \<Rightarrow> 't pool \<Rightarrow> 't pool" where
  "pool_step l (SpawnBoxed g pr meta t) p =
     p\<lparr>p_sched := spawn_to_group_with_meta g pr meta t (p_sched p)\<rparr>"
| "pool_step l (SpawnGlobal pr t) p = p\<lparr>p_sched := spawn_with_priority pr t (p_sched p)\<rparr>"
| "pool_step l (SpawnNode g pr t rd) p = p\<lparr>p_sched := spawn_node g pr t rd (p_sched p)\<rparr>"
| "pool_step l InstallExecutor p = p\<lparr>p_sched := set_node_executor (p_sched p)\<rparr>"
| "pool_step l (Scan w) p =
     (if w < length (p_workers p) \<and> p_workers p ! w = Looking \<and> \<not> cs_shutdown (p_sched p) then
        case scan l w (p_sched p) of
          (Some j, s) \<Rightarrow> start_job l w j s p
        | (None, _) \<Rightarrow> p
      else p)"
| "pool_step l (Select w own pr) p =
     (if w < length (p_workers p) \<and> p_workers p ! w = Looking then
        case select_recv l w own pr (p_sched p) of
          (Some j, s) \<Rightarrow> start_job l w j s p
        | (None, _) \<Rightarrow> p
      else p)"
| "pool_step l (Finish w) p =
     (if w < length (p_workers p) then
        case p_workers p ! w of Running j \<Rightarrow> finish_job l w j p | _ \<Rightarrow> p
      else p)"
| "pool_step l Shutdown p = p\<lparr>p_sched := (p_sched p)\<lparr>cs_shutdown := True\<rparr>\<rparr>"
| "pool_step l (Leave w) p =
     (if w < length (p_workers p) \<and> p_workers p ! w = Looking \<and> cs_shutdown (p_sched p)
      then p\<lparr>p_workers := (p_workers p)[w := Exited]\<rparr> else p)"

definition pool_start :: "worker_layout \<Rightarrow> 't pool" where
  "pool_start l =
     \<lparr>p_sched = create_channels_and_state (length (wl_groups l)) (wl_sharded l),
      p_workers = replicate (length (wl_worker_group l)) Looking, p_done = []\<rparr>"

definition pool_run :: "worker_layout \<Rightarrow> 't event list \<Rightarrow> 't pool \<Rightarrow> 't pool" where
  "pool_run l es p = fold (pool_step l) es p"

end
