(* ===== verification/Scheduler_Properties.thy ===== *)
theory Scheduler_Properties
  imports Custom_Scheduler
begin

text \<open>
  Properties of the custom scheduler: which groups have a worker, that no job is lost or run twice,
  that a worker finds the work there is, and that a group without a worker never runs its jobs.
\<close>

section \<open>Affinity groups\<close>

lemma upt_head: "[g..<g + Suc n] = g # [Suc g..<Suc g + n]"
  by (subst upt_rec) simp

lemma length_push_group [simp]: "length (push_group g r t) = length t"
proof -
  have "length (foldl (\<lambda>t w. t[w := t ! w @ [g]]) t ws) = length t" for ws
    by (induction ws arbitrary: t) simp_all
  then show ?thesis by (simp add: push_group_def)
qed

lemma nth_push_group:
  assumes "w < length t"
  shows "push_group g r t ! w = t ! w @ (if wr_contains r w then [g] else [])"
proof -
  have "foldl (\<lambda>t w. t[w := t ! w @ [g]]) t ws ! w = t ! w @ (if w \<in> set ws then [g] else [])"
    if "distinct ws" "w < length t" for ws t
    using that
  proof (induction ws arbitrary: t)
    case (Cons v ws)
    then show ?case by (cases "v = w") (auto simp: nth_list_update)
  qed simp
  then show ?thesis using assms by (auto simp: push_group_def wr_contains_def)
qed

lemma add_range_groups_props:
  assumes "add_range_groups tw g rs a = Inr a'"
  shows "affinity_groups a' = affinity_groups a @ zip [g..<g + length rs] rs
    \<and> length (worker_to_groups a') = length (worker_to_groups a)
    \<and> (\<forall>w < length (worker_to_groups a). worker_to_groups a' ! w = worker_to_groups a ! w
         @ map fst (filter (\<lambda>(i, r). wr_contains r w) (zip [g..<g + length rs] rs)))
    \<and> (\<forall>r \<in> set rs. wr_end r \<le> tw)
    \<and> (distinct rs \<longrightarrow> (\<forall>i < length rs. map_of (range_to_group a') (rs ! i) = Some (g + i)))
    \<and> (\<forall>r. r \<notin> set rs \<longrightarrow> map_of (range_to_group a') r = map_of (range_to_group a) r)"
  using assms
proof (induction rs arbitrary: g a)
  case (Cons r rs)
  let ?a = "a\<lparr>range_to_group := (r, g) # range_to_group a,
           affinity_groups := affinity_groups a @ [(g, r)],
           worker_to_groups := push_group g r (worker_to_groups a)\<rparr>"
  have run: "add_range_groups tw (Suc g) rs ?a = Inr a'" and le: "wr_end r \<le> tw"
    using Cons.prems by (simp_all split: if_splits)
  note IH = Cons.IH [OF run]
  have up: "[g..<g + length (r # rs)] = g # [Suc g..<Suc g + length rs]"
    by (simp only: length_Cons upt_head)
  have "map_of (range_to_group a') ((r # rs) ! i) = Some (g + i)"
    if "distinct (r # rs)" "i < length (r # rs)" for i
  proof (cases i)
    case 0
    then show ?thesis using IH that(1) by simp
  next
    case (Suc j)
    then show ?thesis using IH that by auto
  qed
  moreover have "worker_to_groups a' ! w = worker_to_groups a ! w
         @ map fst (filter (\<lambda>(i, r). wr_contains r w) (zip [g..<g + length (r # rs)] (r # rs)))"
    if "w < length (worker_to_groups a)" for w
    using IH that nth_push_group [OF that, of g r] unfolding up by auto
  ultimately show ?case using IH le unfolding up by auto
qed simp

lemma from_worker_ranges_props:
  assumes "from_worker_ranges ranges tw = Inr a" "distinct ranges"
  defines "rs \<equiv> sort ranges"
  shows "affinity_groups a = zip [1..<Suc (length rs)] rs"
    and "get_worker_groups a w = (if w < tw
           then map fst (filter (\<lambda>(i, r). wr_contains r w) (zip [1..<Suc (length rs)] rs)) else [])"
    and "r \<in> set rs \<Longrightarrow> wr_end r \<le> tw"
    and "i < length rs \<Longrightarrow> get_group a (Some (Range (rs ! i))) = Suc i"
  using add_range_groups_props [OF assms(1) [unfolded from_worker_ranges_def]] assms(2)
  by (auto simp: rs_def get_worker_groups_def get_group_def)

text \<open>The first group of a worker is that of the first range in the order that contains it.\<close>

definition first_range :: "worker_range list \<Rightarrow> nat \<Rightarrow> nat" where
  "first_range rs w =
     (case filter (\<lambda>(i, r). wr_contains r w) (zip [1..<Suc (length rs)] rs) of
        [] \<Rightarrow> 0 | (i, r) # _ \<Rightarrow> i)"

lemma first_range_eq:
  assumes "i < length rs"
  shows "first_range rs w = Suc i \<longleftrightarrow> wr_contains (rs ! i) w \<and> (\<forall>j < i. \<not> wr_contains (rs ! j) w)"
proof -
  have "(case filter (\<lambda>(i, r). wr_contains r w) (zip [g..<g + length rs] rs) of
        [] \<Rightarrow> 0 | (i, r) # _ \<Rightarrow> i) = g + i
    \<longleftrightarrow> wr_contains (rs ! i) w \<and> (\<forall>j < i. \<not> wr_contains (rs ! j) w)"
    if "i < length rs" "0 < g" for g i
    using that
  proof (induction rs arbitrary: g i)
    case (Cons r rs)
    have up: "[g..<g + length (r # rs)] = g # [Suc g..<Suc g + length rs]"
      by (simp only: length_Cons upt_head)
    have later: "case filter (\<lambda>(i, r). wr_contains r w) (zip [Suc g..<Suc g + length rs] rs) of
        [] \<Rightarrow> True | (i, r) # _ \<Rightarrow> g < i"
    proof (cases "filter (\<lambda>(i, r). wr_contains r w) (zip [Suc g..<Suc g + length rs] rs)")
      case (Cons x xs)
      then have "x \<in> set (filter (\<lambda>(i, r). wr_contains r w) (zip [Suc g..<Suc g + length rs] rs))"
        by simp
      then have "x \<in> set (zip [Suc g..<Suc g + length rs] rs)" by (simp only: set_filter mem_Collect_eq)
      then have "fst x \<in> set [Suc g..<Suc g + length rs]" by (metis in_set_zipE prod.collapse)
      then show ?thesis using Cons by (auto split: prod.split)
    qed simp
    show ?case
    proof (cases i)
      case 0
      then show ?thesis using later Cons.prems(2) unfolding up by (auto split: list.splits)
    next
      case (Suc j)
      then show ?thesis
        using Cons.IH [of j "Suc g"] Cons.prems unfolding up by (auto simp: all_less_Suc_shift)
    qed
  qed simp
  from this [of i 1] assms show ?thesis by (simp add: first_range_def)
qed

lemma first_worker_group:
  assumes "from_worker_ranges ranges tw = Inr a" "distinct ranges"
  shows "(case get_worker_groups a w of [] \<Rightarrow> 0 | g # _ \<Rightarrow> g)
    = (if w < tw then first_range (sort ranges) w else 0)"
  unfolding from_worker_ranges_props(2) [OF assms] first_range_def
  by (auto split: list.splits)


definition ranges_of :: "worker_range_spec list \<Rightarrow> worker_range list" where
  "ranges_of specs = sort (List.map_filter range_of_spec specs)"

lemma range_of_spec_Some [simp]: "range_of_spec x = Some r \<longleftrightarrow> x = Range r"
  by (cases x) auto

lemma set_ranges_of [simp]: "r \<in> set (ranges_of specs) \<longleftrightarrow> Range r \<in> set specs"
  by (force simp: ranges_of_def List.map_filter_def)

lemma distinct_ranges_of [simp]: "distinct specs \<Longrightarrow> distinct (ranges_of specs)"
proof -
  assume "distinct specs"
  then have "distinct (List.map_filter range_of_spec specs)"
    by (induction specs) (auto simp: List.map_filter_def)
  then show ?thesis by (simp add: ranges_of_def)
qed

lemma from_worker_specs_ranges:
  assumes "from_worker_specs specs tw = Inr a"
  shows "from_worker_ranges (ranges_of specs) tw = Inr a" "sort (ranges_of specs) = ranges_of specs"
  using assms by (simp_all add: from_worker_specs_def ranges_of_def Let_def sorted_sort_id split: if_splits)

lemma foldl_add_groups:
  "foldl (\<lambda>b (gid, r). add_group (f gid r) b) b grps
    = b\<lparr>sb_groups := sb_groups b @ map (\<lambda>(gid, r). f gid r) grps\<rparr>"
  by (induction grps arbitrary: b) (auto simp: add_group_def)

lemma affinity_layout:
  assumes "from_worker_specs specs workers = Inr a" "distinct specs" "ranges_of specs \<noteq> []"
    and "create_custom_scheduler cores off workers sys rcv spin (Some a) = Inr l"
  shows "length (wl_groups l) = Suc (length (ranges_of specs))"
    and "\<not> wl_sharded l" "\<forall>g \<in> set (wl_groups l). allow_global_steal g"
    and "w < length (wl_worker_group l) \<Longrightarrow>
      wl_worker_group l ! w = (if w < workers then first_range (ranges_of specs) w else 0)"
    and "i < length (ranges_of specs) \<Longrightarrow>
      get_affinity_group l (Some (Range (ranges_of specs ! i))) = Suc i"
proof -
  let ?rs = "ranges_of specs"
  note frm = from_worker_specs_ranges [OF assms(1)]
  note props = from_worker_ranges_props [OF frm(1) distinct_ranges_of [OF assms(2)], unfolded frm(2)]
  have groups: "affinity_groups a = zip [1..<Suc (length ?rs)] ?rs" by (rule props(1))
  have "map fst (zip [1..<Suc (length ?rs)] ?rs) = [1..<Suc (length ?rs)]"
    by (rule map_fst_zip) (simp del: upt_Suc)
  then have sorted: "sort_key fst (affinity_groups a) = affinity_groups a"
    unfolding groups by (intro sort_key_id_if_sorted) (simp only: sorted_upt)
  have ne: "affinity_groups a \<noteq> []" using assms(3) by (auto simp: groups zip_eq_Nil_iff Suc_le_eq simp del: upt_Suc)
  let ?b = "builder_new\<lparr>sb_core_offset := off, sb_system_threads := sys, sb_receiver_threads := rcv\<rparr>"
  let ?c = "with_affinity_groups a workers ?b"
  have build: "build_scheduler cores ?c = Inr l"
    using assms(4) ne by (simp add: create_custom_scheduler_def Let_def)
  have c: "length (sb_groups ?c) = Suc (length ?rs)" "sb_worker_affinity ?c = Some a" "\<not> sb_sharded ?c"
    "\<forall>g \<in> set (sb_groups ?c). allow_global_steal g"
    unfolding with_affinity_groups_def Let_def sorted foldl_add_groups
    by (auto simp: add_group_def builder_new_def groups Suc_le_eq)
  obtain alloc where l: "wl_groups l = sb_groups ?c" "wl_sharded l = False" "wl_affinity l = Some a"
    "wl_worker_group l = worker_to_group_idx (worker_count alloc) (Suc (length ?rs)) (Some a)"
    "wl_allocation l = alloc"
    using build c by (auto simp: build_scheduler_def rbind_eq_Inr Let_def split: if_splits)
  show "length (wl_groups l) = Suc (length ?rs)" "\<not> wl_sharded l"
    "\<forall>g \<in> set (wl_groups l). allow_global_steal g" using c l by simp_all
  show "get_affinity_group l (Some (Range (?rs ! i))) = Suc i" if "i < length ?rs"
    using props(4) [OF that] l(3) by (simp add: get_affinity_group_def)
  show "wl_worker_group l ! w = (if w < workers then first_range ?rs w else 0)"
    if "w < length (wl_worker_group l)"
    using that first_worker_group [OF frm(1) distinct_ranges_of [OF assms(2)], of w] ne
    by (simp add: l(4) worker_to_group_idx_def frm(2))
qed

lemma smaller_ranges:
  assumes "i < length (ranges_of specs)" "distinct specs"
  shows "(\<exists>j < i. wr_contains (ranges_of specs ! j) w)
    \<longleftrightarrow> (\<exists>r. Range r \<in> set specs \<and> r < ranges_of specs ! i \<and> wr_contains r w)"
proof -
  let ?rs = "ranges_of specs"
  have sorted: "sorted_wrt (<) ?rs"
    using distinct_ranges_of [OF assms(2)] by (simp add: strict_sorted_iff ranges_of_def)
  have less: "?rs ! j < ?rs ! i \<longleftrightarrow> j < i" if "j < length ?rs" for j
    using sorted_wrt_nth_less [OF sorted, of j i] sorted_wrt_nth_less [OF sorted, of i j] that assms(1)
    by (cases j i rule: linorder_cases) auto
  show ?thesis
  proof
    assume "\<exists>j < i. wr_contains (?rs ! j) w"
    then obtain j where j: "j < i" "wr_contains (?rs ! j) w" by blast
    then have len: "j < length ?rs" using assms(1) by simp
    then have "?rs ! j < ?rs ! i" using j(1) less by simp
    moreover have "?rs ! j \<in> set ?rs" by (rule nth_mem [OF len])
    ultimately show "\<exists>r. Range r \<in> set specs \<and> r < ?rs ! i \<and> wr_contains r w"
      using j(2) set_ranges_of by blast
  next
    assume "\<exists>r. Range r \<in> set specs \<and> r < ?rs ! i \<and> wr_contains r w"
    then obtain r where r: "r \<in> set ?rs" "r < ?rs ! i" "wr_contains r w" using set_ranges_of by blast
    obtain j where j: "j < length ?rs" "?rs ! j = r" using r(1) unfolding in_set_conv_nth by blast
    then have "j < i" using less [OF j(1)] r(2) by simp
    then show "\<exists>j < i. wr_contains (?rs ! j) w" using r(3) j(2) by blast
  qed
qed


section \<open>Jobs\<close>

definition jobs_of :: "'j channel_set \<Rightarrow> 'j multiset" where
  "jobs_of c = mset (high_q c) + mset (normal_q c) + mset (low_q c)"

definition queued :: "'t custom_scheduler \<Rightarrow> 't job multiset" where
  "queued s = jobs_of (cs_global s) + sum_list (map jobs_of (cs_groups s))"

fun running_job :: "'t worker \<Rightarrow> 't job multiset" where
  "running_job (Running j) = {#j#}"
| "running_job _ = {#}"

definition running :: "'t pool \<Rightarrow> 't job multiset" where
  "running p = sum_list (map running_job (p_workers p))"

lemma jobs_of_send [simp]: "jobs_of (send p j c) = add_mset j (jobs_of c)"
  by (cases p) (simp_all add: jobs_of_def)

lemma jobs_of_recv: "recv p c = (Some j, c') \<Longrightarrow> jobs_of c = add_mset j (jobs_of c')"
  by (cases p) (auto simp: jobs_of_def split: list.splits)

lemma jobs_of_new [simp]: "jobs_of channel_set_new = {#}"
  by (simp add: jobs_of_def channel_set_new_def)

lemma jobs_of_empty: "jobs_of c = {#} \<longleftrightarrow> (\<forall>p. fst (recv p c) = None)"
proof -
  have "jobs_of c = {#} \<longleftrightarrow> fst (recv PHigh c) = None \<and> fst (recv PNormal c) = None \<and> fst (recv PLow c) = None"
    by (auto simp: jobs_of_def split: list.splits)
  also have "\<dots> \<longleftrightarrow> (\<forall>p. fst (recv p c) = None)" by (metis priority.exhaust)
  finally show ?thesis .
qed

lemma channels_empty_jobs: "channels_empty c \<longleftrightarrow> jobs_of c = {#}"
  by (auto simp: channels_empty_def jobs_of_def)

lemma channel_load_jobs: "channel_load c = size (jobs_of c)"
  by (simp add: channel_load_def jobs_of_def)

lemma sum_list_replace:
  fixes f :: "'a \<Rightarrow> 'b multiset"
  assumes "i < length xs"
  shows "sum_list (map f (xs[i := y])) + f (xs ! i) = sum_list (map f xs) + f y"
  using assms
proof (induction xs arbitrary: i)
  case (Cons x xs)
  then show ?case by (cases i) (simp_all add: ac_simps)
qed simp

lemma sum_list_add_one:
  fixes f :: "'a \<Rightarrow> 'b multiset"
  assumes "i < length xs" "f y = add_mset j (f (xs ! i))"
  shows "sum_list (map f (xs[i := y])) = add_mset j (sum_list (map f xs))"
  using sum_list_replace [OF assms(1), of f y] assms(2) by simp

lemma sum_list_take_one:
  fixes f :: "'a \<Rightarrow> 'b multiset"
  assumes "i < length xs" "f (xs ! i) = add_mset j (f y)"
  shows "sum_list (map f xs) = add_mset j (sum_list (map f (xs[i := y])))"
  using sum_list_replace [OF assms(1), of f y] assms(2) by simp

lemma try_recv_prioritized_jobs:
  "try_recv_prioritized c = (Some j, c') \<Longrightarrow> jobs_of c = add_mset j (jobs_of c')"
  "try_recv_prioritized c = (None, c') \<Longrightarrow> jobs_of c = {#}"
proof -
  show "try_recv_prioritized c = (Some j, c') \<Longrightarrow> jobs_of c = add_mset j (jobs_of c')"
    by (auto simp: try_recv_prioritized_def intro: jobs_of_recv simp del: recv.simps
        split: prod.splits option.splits)
  show "try_recv_prioritized c = (None, c') \<Longrightarrow> jobs_of c = {#}"
    by (auto simp: try_recv_prioritized_def jobs_of_def split: list.splits)
qed

lemma probe_channels_Some:
  "probe_channels probes grp global = (Some j, grp', global') \<Longrightarrow>
    jobs_of grp = add_mset j (jobs_of grp') \<and> global' = global
    \<or> jobs_of global = add_mset j (jobs_of global') \<and> grp' = grp"
proof (induction probes grp global rule: probe_channels.induct)
  case (2 own p later grp global)
  show ?case
  proof (cases own)
    case True
    then show ?thesis
      using 2 jobs_of_recv [of p grp] by (cases "recv p grp"; cases "fst (recv p grp)") auto
  next
    case False
    then show ?thesis
      using 2 jobs_of_recv [of p global] by (cases "recv p global"; cases "fst (recv p global)") auto
  qed
qed simp

lemma probe_channels_None:
  "fst (probe_channels probes grp global) = None
    \<longleftrightarrow> (\<forall>(own, p) \<in> set probes. fst (recv p (if own then grp else global)) = None)"
proof (induction probes grp global rule: probe_channels.induct)
  case (2 own p later grp global)
  show ?case
  proof (cases own)
    case True
    then show ?thesis using 2(1) by (cases "recv p grp"; cases "fst (recv p grp)") auto
  next
    case False
    then show ?thesis using 2(2) by (cases "recv p global"; cases "fst (recv p global)") auto
  qed
qed simp

lemma try_recv_all_None:
  "fst (try_recv_all grp global allow) = None
    \<longleftrightarrow> jobs_of grp = {#} \<and> (allow \<longrightarrow> jobs_of global = {#})"
proof -
  have "jobs_of c = {#} \<longleftrightarrow> fst (recv PHigh c) = None \<and> fst (recv PNormal c) = None
      \<and> fst (recv PLow c) = None" for c :: "'a channel_set"
    unfolding jobs_of_empty by (metis priority.exhaust)
  then show ?thesis
    unfolding try_recv_all_def probe_channels_None probe_order_def
    by (cases allow) (auto simp del: recv.simps)
qed


lemma steal_loop_Some:
  "steal_loop is own shards = (Some j, shards') \<Longrightarrow> set is \<subseteq> {..<length shards} \<Longrightarrow>
    sum_list (map jobs_of shards) = add_mset j (sum_list (map jobs_of shards'))
    \<and> length shards' = length shards"
proof (induction "is")
  case (Cons i "is")
  then show ?case
    using sum_list_take_one [of i shards jobs_of j] try_recv_prioritized_jobs(1) [of "shards ! i" j]
    by (auto split: if_splits prod.splits option.splits)
qed simp

lemma steal_loop_None:
  "fst (steal_loop is own shards) = None \<longleftrightarrow> (\<forall>i \<in> set is. i \<noteq> own \<longrightarrow> jobs_of (shards ! i) = {#})"
proof (induction "is")
  case (Cons i "is")
  obtain r c where r: "try_recv_prioritized (shards ! i) = (r, c)" by fastforce
  show ?case
    using Cons r try_recv_prioritized_jobs [of "shards ! i"]
    by (cases r; cases "i = own") auto
qed simp

lemma steal_order: "set (map (\<lambda>k. (start + k) mod n) [0..<n]) = {..<n}"
proof (cases "n = 0")
  case False
  have "\<exists>k < n. i = (start + k) mod n" if "i < n" for i
  proof (intro exI conjI)
    let ?k = "(i + (n - start mod n)) mod n"
    show "?k < n" using False by simp
    have "(start + ?k) mod n = (start mod n + (i + (n - start mod n))) mod n"
      by (simp add: mod_simps)
    also have "start mod n + (i + (n - start mod n)) = i + n"
      using mod_less_divisor [of n start] False by linarith
    finally show "i = (start + ?k) mod n" using that by simp
  qed
  then show ?thesis using False by (auto simp: image_iff) (metis atLeastLessThan_iff zero_le)
qed simp

definition layout_ok :: "worker_layout \<Rightarrow> bool" where
  "layout_ok l \<longleftrightarrow> (\<forall>g \<in> set (wl_worker_group l). g < length (wl_groups l))
     \<and> (wl_sharded l \<longrightarrow> 0 < length (wl_groups l))"

lemma build_layout_ok: "build_scheduler cores b = Inr l \<Longrightarrow> layout_ok l"
  by (auto simp: build_scheduler_def rbind_eq_Inr Let_def layout_ok_def list_all_iff split: if_splits)

text \<open>The state of a pool that fits its layout.\<close>

definition pool_ok :: "worker_layout \<Rightarrow> 't pool \<Rightarrow> bool" where
  "pool_ok l p \<longleftrightarrow> layout_ok l \<and> length (p_workers p) = length (wl_worker_group l)
     \<and> length (cs_groups (p_sched p)) = length (wl_groups l) \<and> cs_sharded (p_sched p) = wl_sharded l"

lemma scan_Some:
  assumes "scan l w s = (Some j, s')" "wl_worker_group l ! w < length (cs_groups s)"
  shows "queued s = add_mset j (queued s')"
    and "length (cs_groups s') = length (cs_groups s)"
    and "s'\<lparr>cs_groups := cs_groups s, cs_global := cs_global s\<rparr> = s"
proof -
  let ?g = "wl_worker_group l ! w" and ?n = "length (cs_groups s)"
  obtain r grp global where all:
    "try_recv_all (cs_groups s ! ?g) (cs_global s) (allow_global_steal (wl_groups l ! ?g)) = (r, grp, global)"
    by (metis prod_cases3)
  have "queued s = add_mset j (queued s') \<and> length (cs_groups s') = length (cs_groups s)
    \<and> s'\<lparr>cs_groups := cs_groups s, cs_global := cs_global s\<rparr> = s"
  proof (cases r)
    case (Some j')
    then have s': "j' = j" "s' = s\<lparr>cs_groups := (cs_groups s)[?g := grp], cs_global := global\<rparr>"
      using assms(1) all by (auto simp: scan_def Let_def)
    from probe_channels_Some [OF all [unfolded try_recv_all_def Some]]
    show ?thesis
    proof
      assume "jobs_of (cs_groups s ! ?g) = add_mset j' (jobs_of grp) \<and> global = cs_global s"
      then show ?thesis
        using sum_list_take_one [OF assms(2), of jobs_of j' grp] by (simp add: s' queued_def)
    next
      assume "jobs_of (cs_global s) = add_mset j' (jobs_of global) \<and> grp = cs_groups s ! ?g"
      then show ?thesis by (simp add: s' queued_def)
    qed
  next
    case None
    then obtain shards where steal: "try_steal_shards (cs_groups s) ?g (?g + 1) = (Some j, shards)"
      "s' = s\<lparr>cs_groups := shards\<rparr>"
      using assms(1) all by (auto simp: scan_def Let_def split: if_splits prod.splits option.splits)
    then show ?thesis
      using steal_loop_Some [of "map (\<lambda>k. (Suc ?g + k) mod ?n) [0..<?n]" ?g "cs_groups s" j shards]
        steal_order [of "Suc ?g" ?n]
      by (simp add: try_steal_shards_def Let_def queued_def)
  qed
  then show "queued s = add_mset j (queued s')" "length (cs_groups s') = length (cs_groups s)"
    "s'\<lparr>cs_groups := cs_groups s, cs_global := cs_global s\<rparr> = s" by simp_all
qed

lemma scan_None:
  assumes "wl_worker_group l ! w < length (cs_groups s)"
  shows "fst (scan l w s) = None
    \<longleftrightarrow> jobs_of (cs_groups s ! (wl_worker_group l ! w)) = {#}
      \<and> (allow_global_steal (wl_groups l ! (wl_worker_group l ! w)) \<longrightarrow> jobs_of (cs_global s) = {#})
      \<and> (cs_sharded s \<longrightarrow> (\<forall>c \<in> set (cs_groups s). jobs_of c = {#}))"
proof -
  let ?g = "wl_worker_group l ! w" and ?n = "length (cs_groups s)"
  have steal: "fst (try_steal_shards (cs_groups s) ?g (?g + 1)) = None
    \<longleftrightarrow> (\<forall>i < ?n. i \<noteq> ?g \<longrightarrow> jobs_of (cs_groups s ! i) = {#})"
    using steal_order [of "Suc ?g" ?n] by (auto simp: try_steal_shards_def Let_def steal_loop_None)
  have "fst (scan l w s) = None
    \<longleftrightarrow> fst (try_recv_all (cs_groups s ! ?g) (cs_global s) (allow_global_steal (wl_groups l ! ?g))) = None
      \<and> (cs_sharded s \<longrightarrow> fst (try_steal_shards (cs_groups s) ?g (?g + 1)) = None)"
    by (auto simp: scan_def Let_def split: prod.splits option.splits)
  then show ?thesis
    unfolding try_recv_all_None steal using assms by (auto simp: all_set_conv_all_nth)
qed

lemma select_Some:
  assumes "select_recv l w own pr s = (Some j, s')" "wl_worker_group l ! w < length (cs_groups s)"
  shows "queued s = add_mset j (queued s')"
    and "length (cs_groups s') = length (cs_groups s)"
    and "s'\<lparr>cs_groups := cs_groups s, cs_global := cs_global s\<rparr> = s"
  using assms sum_list_take_one [OF assms(2), of jobs_of j]
  by (auto simp: select_recv_def Let_def queued_def dest!: jobs_of_recv split: if_splits prod.splits option.splits)


fun job_task :: "'t job \<Rightarrow> 't" where
  "job_task (Boxed t _) = t"
| "job_task (NodeJob t _ _) = t"

fun spawned :: "'t event \<Rightarrow> 't list" where
  "spawned (SpawnBoxed _ _ _ t) = [t]"
| "spawned (SpawnGlobal _ t) = [t]"
| "spawned (SpawnNode _ _ t _) = [t]"
| "spawned _ = []"

text \<open>What every send does: count the job and put it into one channel.\<close>

definition handed :: "'t custom_scheduler \<Rightarrow> 't \<Rightarrow> 't custom_scheduler \<Rightarrow> bool" where
  "handed s t s' \<longleftrightarrow> (\<exists>j. job_task j = t \<and> queued s' = add_mset j (queued s))
     \<and> length (cs_groups s') = length (cs_groups s) \<and> cs_sharded s' = cs_sharded s
     \<and> cs_node_exec s' = cs_node_exec s \<and> cs_total_spawned s' = cs_total_spawned s + 1
     \<and> cs_pending_tasks s' = cs_pending_tasks s + 1 \<and> cs_total_completed s' = cs_total_completed s"

lemma handed_global: "job_task j = t \<Longrightarrow> handed s t (send_global pr j (count_spawn s))"
  by (auto simp: handed_def send_global_def count_spawn_def queued_def)

lemma handed_group:
  assumes "job_task j = t" "g < length (cs_groups s)"
  shows "handed s t (send_group g pr j (count_spawn s))"
    and "handed s t (send_group g pr j ((count_spawn s)\<lparr>cs_next_shard := x\<rparr>))"
  using assms sum_list_add_one [of g "cs_groups s" jobs_of "send pr j (cs_groups s ! g)" j]
  by (auto simp: handed_def send_group_def count_spawn_def queued_def)

lemma least_loaded_bound:
  "best < n \<Longrightarrow> 0 < n \<Longrightarrow> least_loaded load_of n start ks best l < n"
  by (induction ks arbitrary: best l) (auto simp: Let_def)

definition counts_ok :: "'t pool \<Rightarrow> nat \<Rightarrow> bool" where
  "counts_ok p n \<longleftrightarrow> cs_node_exec (p_sched p)
     \<and> cs_total_spawned (p_sched p) = of_nat n
     \<and> cs_total_completed (p_sched p) = of_nat (length (p_done p))
     \<and> cs_pending_tasks (p_sched p) = of_nat (size (queued (p_sched p) + running p))"

definition all_jobs :: "'t pool \<Rightarrow> 't job multiset" where
  "all_jobs p = queued (p_sched p) + running p + mset (p_done p)"

lemma spawn_handed:
  "handed s t (spawn_with_priority pr t s)"
  "handed s t (spawn_to_group_with_meta g pr meta t s)"
  by (auto simp: spawn_with_priority_def spawn_to_group_with_meta_def spawn_with_meta_priority_def
      intro!: handed_global handed_group)

lemma spawn_node_handed:
  assumes "cs_sharded s \<longrightarrow> 0 < length (cs_groups s)"
  shows "handed s t (spawn_node g pr t rd s)"
proof -
  let ?n = "length (cs_groups s)" and ?c = "count_spawn s"
  have n: "length (cs_groups ?c) = ?n" "cs_sharded ?c = cs_sharded s" by (simp_all add: count_spawn_def)
  have "least_loaded f ?n (m mod ?n) ks (m mod ?n) l < ?n" if "0 < ?n" for f m ks l
    using that by (simp add: least_loaded_bound)
  then show ?thesis
    using assms unfolding spawn_node_def Let_def n by (auto intro!: handed_global handed_group)
qed

text \<open>The invariant: \<open>ts\<close> are the tasks handed over so far.\<close>

definition tally :: "worker_layout \<Rightarrow> 't list \<Rightarrow> 't pool \<Rightarrow> bool" where
  "tally l ts p \<longleftrightarrow> pool_ok l p \<and> counts_ok p (length ts) \<and> image_mset job_task (all_jobs p) = mset ts"

lemma tally_handed:
  assumes "tally l ts p" "handed (p_sched p) t s"
  shows "tally l (ts @ [t]) (p\<lparr>p_sched := s\<rparr>)"
  using assms
  by (auto simp: tally_def handed_def pool_ok_def counts_ok_def all_jobs_def running_def)

lemma queued_counters [simp]:
  "queued (s\<lparr>cs_in_flight := x\<rparr>) = queued s" "queued (s\<lparr>cs_pending_tasks := y\<rparr>) = queued s"
  "queued (s\<lparr>cs_total_completed := y\<rparr>) = queued s" "queued (s\<lparr>cs_shutdown := b\<rparr>) = queued s"
  "queued (s\<lparr>cs_node_exec := b\<rparr>) = queued s"
  by (simp_all add: queued_def)

lemma tally_start_job:
  assumes "tally l ts p" "w < length (p_workers p)" "p_workers p ! w = Looking"
    and "queued (p_sched p) = add_mset j (queued s)" "length (cs_groups s) = length (cs_groups (p_sched p))"
    and "s\<lparr>cs_groups := cs_groups (p_sched p), cs_global := cs_global (p_sched p)\<rparr> = p_sched p"
  shows "tally l ts (start_job l w j s p)"
proof -
  have same: "cs_sharded s = cs_sharded (p_sched p)" "cs_node_exec s = cs_node_exec (p_sched p)"
    "cs_total_spawned s = cs_total_spawned (p_sched p)" "cs_pending_tasks s = cs_pending_tasks (p_sched p)"
    "cs_total_completed s = cs_total_completed (p_sched p)"
    using arg_cong [OF assms(6), of cs_sharded] arg_cong [OF assms(6), of cs_node_exec]
      arg_cong [OF assms(6), of cs_total_spawned] arg_cong [OF assms(6), of cs_pending_tasks]
      arg_cong [OF assms(6), of cs_total_completed] by simp_all
  have "sum_list (map running_job ((p_workers p)[w := Running j])) = add_mset j (running p)"
    using sum_list_add_one [OF assms(2), of running_job "Running j" j] assms(3) by (simp add: running_def)
  then show ?thesis
    using assms(1,4,5) same
    by (auto simp: tally_def pool_ok_def counts_ok_def all_jobs_def start_job_def running_def Let_def)
qed

lemma tally_finish_job:
  assumes "tally l ts p" "w < length (p_workers p)" "p_workers p ! w = Running j"
  shows "tally l ts (finish_job l w j p)"
proof -
  have "running p = add_mset j (sum_list (map running_job ((p_workers p)[w := Looking])))"
    using sum_list_take_one [OF assms(2), of running_job j Looking] assms(3) by (simp add: running_def)
  then show ?thesis
    using assms(1)
    by (auto simp: tally_def pool_ok_def counts_ok_def all_jobs_def finish_job_def running_def
        Let_def split: job.splits)
qed


lemma worker_group_in_range:
  "pool_ok l p \<Longrightarrow> w < length (p_workers p) \<Longrightarrow> wl_worker_group l ! w < length (cs_groups (p_sched p))"
  by (simp add: pool_ok_def layout_ok_def)

lemma tally_step: "tally l ts p \<Longrightarrow> tally l (ts @ spawned e) (pool_step l e p)"
proof (induction e)
  case (SpawnNode g pr t rd)
  then have "cs_sharded (p_sched p) \<longrightarrow> 0 < length (cs_groups (p_sched p))"
    by (simp add: tally_def pool_ok_def layout_ok_def)
  then show ?case using tally_handed [OF SpawnNode spawn_node_handed] by simp
next
  case (Scan w)
  then have ok: "pool_ok l p" by (simp add: tally_def)
  show ?case
    using Scan scan_Some [OF _ worker_group_in_range [OF ok]]
    by (auto intro!: tally_start_job split: prod.splits option.splits)
next
  case (Select w own pr)
  then have ok: "pool_ok l p" by (simp add: tally_def)
  show ?case
    using Select select_Some [OF _ worker_group_in_range [OF ok]]
    by (auto intro!: tally_start_job split: prod.splits option.splits)
next
  case (Finish w)
  then show ?case using tally_finish_job [of l ts p w] by (auto split: worker.splits)
next
  case (Leave w)
  have "running (p\<lparr>p_workers := (p_workers p)[w := Exited]\<rparr>) = running p"
    if "w < length (p_workers p)" "p_workers p ! w = Looking"
    using sum_list_replace [OF that(1), of running_job Exited] that(2) by (simp add: running_def)
  then show ?case
    using Leave by (auto simp: tally_def pool_ok_def counts_ok_def all_jobs_def)
next
  case (SpawnBoxed g pr meta t)
  then show ?case using tally_handed [OF _ spawn_handed(2)] by simp
next
  case (SpawnGlobal pr t)
  then show ?case using tally_handed [OF _ spawn_handed(1)] by simp
qed (auto simp: set_node_executor_def tally_def pool_ok_def counts_ok_def all_jobs_def running_def)

lemma tally_run: "tally l ts p \<Longrightarrow> tally l (ts @ concat (map spawned es)) (pool_run l es p)"
proof (induction es arbitrary: ts p)
  case (Cons e es)
  show ?case
    using Cons.IH [OF tally_step [OF Cons.prems, of e]] by (simp add: pool_run_def)
qed (simp add: pool_run_def)

lemma sum_list_replicate_empty [simp]: "sum_list (replicate n ({#} :: 'b multiset)) = {#}"
  by (induction n) simp_all

lemma tally_start:
  "layout_ok l \<Longrightarrow> tally l [] (pool_step l InstallExecutor (pool_start l))"
  by (simp add: tally_def pool_ok_def counts_ok_def all_jobs_def running_def queued_def pool_start_def
      create_channels_and_state_def set_node_executor_def)


section \<open>Groups without a worker\<close>

definition group_jobs :: "nat \<Rightarrow> 't custom_scheduler \<Rightarrow> 't job multiset" where
  "group_jobs g s = jobs_of (cs_groups s ! g)"

lemma handed_grows:
  "group_jobs g s \<subseteq># group_jobs g (spawn_with_priority pr t s)"
  "group_jobs g s \<subseteq># group_jobs g (spawn_to_group_with_meta g' pr meta t s)"
  "group_jobs g s \<subseteq># group_jobs g (spawn_node g' pr t rd s)"
proof -
  have group: "group_jobs g s \<subseteq># group_jobs g (send_group h pr j (f (count_spawn s)))"
    if "\<And>x. cs_groups (f x) = cs_groups x" for h j f
    by (cases "h = g"; cases "h < length (cs_groups s)")
      (simp_all add: group_jobs_def send_group_def count_spawn_def that not_less list_update_beyond)
  have global: "group_jobs g s \<subseteq># group_jobs g (send_global pr j (count_spawn s))" for j
    by (simp add: group_jobs_def send_global_def count_spawn_def)
  show "group_jobs g s \<subseteq># group_jobs g (spawn_with_priority pr t s)"
    "group_jobs g s \<subseteq># group_jobs g (spawn_to_group_with_meta g' pr meta t s)"
    using global group [of id]
    by (simp_all add: spawn_with_priority_def spawn_to_group_with_meta_def spawn_with_meta_priority_def)
  show "group_jobs g s \<subseteq># group_jobs g (spawn_node g' pr t rd s)"
    using global group [of id] group [of "\<lambda>x. x\<lparr>cs_next_shard := cs_next_shard x + 1\<rparr>"]
    by (simp add: spawn_node_def Let_def)
qed

lemma start_job_groups [simp]:
  "cs_groups (p_sched (start_job l w j s p)) = cs_groups s"
  "cs_sharded (p_sched (start_job l w j s p)) = cs_sharded s"
  by (simp_all add: start_job_def Let_def)

lemma finish_job_groups [simp]:
  "cs_groups (p_sched (finish_job l w j p)) = cs_groups (p_sched p)"
  "cs_sharded (p_sched (finish_job l w j p)) = cs_sharded (p_sched p)"
  by (simp_all add: finish_job_def Let_def)

lemma unserved_group_step:
  assumes "g \<notin> set (wl_worker_group l)" "length (p_workers p) = length (wl_worker_group l)"
    and "\<not> cs_sharded (p_sched p)"
  shows "group_jobs g (p_sched p) \<subseteq># group_jobs g (p_sched (pool_step l e p))
    \<and> length (p_workers (pool_step l e p)) = length (wl_worker_group l)
    \<and> \<not> cs_sharded (p_sched (pool_step l e p))"
proof (cases e)
  case (Scan w)
  have "w < length (p_workers p) \<Longrightarrow> wl_worker_group l ! w \<noteq> g"
    using assms(1,2) nth_mem by metis
  then show ?thesis
    using Scan assms(2,3)
    by (auto simp: scan_def Let_def group_jobs_def start_job_def split: prod.splits option.splits)
next
  case (Select w own pr)
  have "w < length (p_workers p) \<Longrightarrow> wl_worker_group l ! w \<noteq> g"
    using assms(1,2) nth_mem by metis
  then show ?thesis
    using Select assms(2,3)
    by (auto simp: select_recv_def Let_def group_jobs_def start_job_def split: prod.splits option.splits)
next
  case (Finish w)
  then show ?thesis
    using assms(2,3) by (auto simp: group_jobs_def finish_job_def Let_def split: worker.splits)
next
  case (SpawnBoxed h pr meta t)
  then show ?thesis
    using assms(2,3) handed_grows(2) spawn_handed(2) [of "p_sched p" t h pr meta] by (simp add: handed_def)
next
  case (SpawnGlobal pr t)
  then show ?thesis
    using assms(2,3) handed_grows(1) spawn_handed(1) [of "p_sched p" t pr] by (simp add: handed_def)
next
  case (SpawnNode h pr t rd)
  then show ?thesis
    using assms(2,3) handed_grows(3) spawn_node_handed [of "p_sched p" t h pr rd] by (simp add: handed_def)
qed (use assms(2,3) in \<open>simp_all add: group_jobs_def set_node_executor_def\<close>)

lemma unserved_group_run:
  assumes "g \<notin> set (wl_worker_group l)" "length (p_workers p) = length (wl_worker_group l)"
    and "\<not> cs_sharded (p_sched p)"
  shows "group_jobs g (p_sched p) \<subseteq># group_jobs g (p_sched (pool_run l es p))"
  using assms(2,3)
proof (induction es arbitrary: p)
  case (Cons e es)
  note step = unserved_group_step [OF assms(1) Cons.prems, of e]
  have "group_jobs g (p_sched (pool_step l e p)) \<subseteq># group_jobs g (p_sched (pool_run l es (pool_step l e p)))"
    by (rule Cons.IH) (use step in simp_all)
  then show ?case using step by (auto simp: pool_run_def intro: subset_mset.order_trans)
qed (simp add: pool_run_def)


lemma unserved_shape:
  assumes "g \<notin> set (wl_worker_group l)" "length (p_workers p) = length (wl_worker_group l)"
    and "\<not> cs_sharded (p_sched p)"
  shows "length (p_workers (pool_run l es p)) = length (wl_worker_group l)
    \<and> \<not> cs_sharded (p_sched (pool_run l es p))"
  using assms(2,3)
proof (induction es arbitrary: p)
  case (Cons e es)
  show ?case
    using Cons.IH [of "pool_step l e p"] unserved_group_step [OF assms(1) Cons.prems, of e]
    by (simp add: pool_run_def)
qed (simp add: pool_run_def)

lemma unserved_start:
  "\<not> wl_sharded l \<Longrightarrow> length (p_workers (pool_start l)) = length (wl_worker_group l)"
  "\<not> wl_sharded l \<Longrightarrow> \<not> cs_sharded (p_sched (pool_start l))"
  by (simp_all add: pool_start_def create_channels_and_state_def)

section \<open>Properties\<close>

text \<open>C38: the custom scheduler neither loses nor duplicates a job: in every state of a run the jobs
  queued, running and executed are exactly the jobs handed over, once each, and the counters of
  spawned, completed and pending jobs say so (modulo their width).\<close>

theorem every_job_kept:
  assumes "build_scheduler cores b = Inr l"
    and "p = pool_run l es (pool_step l InstallExecutor (pool_start l))"
  shows "image_mset job_task (queued (p_sched p) + running p + mset (p_done p))
      = mset (concat (map spawned es))
    \<and> cs_total_spawned (p_sched p) = of_nat (length (concat (map spawned es)))
    \<and> cs_total_completed (p_sched p) = of_nat (length (p_done p))
    \<and> cs_pending_tasks (p_sched p) = of_nat (size (queued (p_sched p)) + size (running p))"
  using tally_run [OF tally_start [OF build_layout_ok [OF assms(1)]], of es]
  by (simp add: assms(2) tally_def all_jobs_def counts_ok_def)

definition small_pool :: worker_layout where
  "small_pool = \<lparr>wl_groups = [\<lparr>num_workers = 2, group_id = 0, allow_global_steal = True, spin_iterations = 64\<rparr>],
     wl_sharded = True, wl_affinity = None, wl_worker_group = [0, 0],
     wl_allocation = \<lparr>system_core_offset = 1, ca_system_threads = 1, receiver_offset = 2,
       ca_receiver_threads = 0, worker_offset = 2, worker_count = 2, main_core = Some 0,
       all_core_ids = [0..<8]\<rparr>\<rparr>"

lemma small_pool_built:
  "create_custom_scheduler [0..<8] 0 2 1 0 64 None = Inr small_pool"
proof -
  have two: "replicate 2 (0 :: nat) = [0, 0]" by (simp add: numeral_2_eq_2)
  show ?thesis
  by (simp add: create_custom_scheduler_def Let_def add_sharded_workers_def CUSTOM_SHARD_SIZE_def
      add_workers_def add_group_def builder_new_def build_scheduler_def allocate_cores_def wadd_def
      allocation_checks_def worker_to_group_idx_def small_pool_def two
      even_shares_def add_shard_def)
qed

theorem every_job_kept_witness:
  "\<exists>p :: nat pool. p = pool_run small_pool
      [SpawnNode 0 PNormal 7 False, SpawnNode 0 PHigh 8 False, Scan 0, Finish 0]
      (pool_step small_pool InstallExecutor (pool_start small_pool))
    \<and> image_mset job_task (queued (p_sched p) + running p + mset (p_done p)) = {#7, 8#}"
proof -
  have "build_scheduler [0..<8] (add_sharded_workers 2 CUSTOM_SHARD_SIZE 64
      (builder_new\<lparr>sb_core_offset := 0, sb_system_threads := 1, sb_receiver_threads := 0\<rparr>)) = Inr small_pool"
    using small_pool_built by (simp add: create_custom_scheduler_def Let_def)
  from every_job_kept [OF this refl, of "[SpawnNode 0 PNormal (7 :: nat) False, SpawnNode 0 PHigh 8 False, Scan 0, Finish 0]"]
  show ?thesis by simp
qed

section \<open>Shards\<close>

lemma add_shards_groups:
  assumes "\<forall>g \<in> set (sb_groups b). allow_global_steal g"
  shows "\<forall>g \<in> set (sb_groups (fold (add_shard spin) sizes b)). allow_global_steal g"
  using assms
proof (induction sizes arbitrary: b)
  case (Cons n sizes)
  have "\<forall>g \<in> set (sb_groups (add_shard spin n b)). allow_global_steal g"
    using Cons.prems by (auto simp: add_shard_def add_workers_def add_group_def)
  then show ?case using Cons.IH by simp
qed simp

lemma add_shards_length:
  "0 \<notin> set sizes \<Longrightarrow>
    length (sb_groups (fold (add_shard spin) sizes b)) = length (sb_groups b) + length sizes"
  by (induction sizes arbitrary: b) (auto simp: add_shard_def add_workers_def add_group_def)

lemma add_shards_affinity:
  "sb_worker_affinity (fold (add_shard spin) sizes b) = sb_worker_affinity b"
  by (induction sizes arbitrary: b) (auto simp: add_shard_def add_workers_def add_group_def)

lemma length_even_shares [simp]: "length (even_shares n k) = k"
  by (simp add: even_shares_def Let_def)

lemma even_shares_pos: "k \<le> n \<Longrightarrow> 0 \<notin> set (even_shares n k)"
  by (auto simp: even_shares_def Let_def div_eq_0_iff)

lemma created_groups_steal:
  assumes "create_custom_scheduler cores off workers sys rcv spin affinity = Inr l"
  shows "\<forall>g \<in> set (wl_groups l). allow_global_steal g" "layout_ok l"
proof -
  obtain b where b: "build_scheduler cores b = Inr l" and steal: "\<forall>g \<in> set (sb_groups b). allow_global_steal g"
  proof -
    let ?b = "builder_new\<lparr>sb_core_offset := off, sb_system_threads := sys, sb_receiver_threads := rcv\<rparr>"
    have shards: "\<forall>g \<in> set (sb_groups (add_sharded_workers workers CUSTOM_SHARD_SIZE spin ?b)). allow_global_steal g"
      using add_shards_groups(1) [of ?b] by (simp add: add_sharded_workers_def Let_def builder_new_def)
    have "\<forall>g \<in> set (sb_groups (with_affinity_groups a workers ?b)). allow_global_steal g" for a
      unfolding with_affinity_groups_def Let_def foldl_add_groups
      by (auto simp: add_group_def builder_new_def)
    then show ?thesis
      using assms shards that
      by (auto simp: create_custom_scheduler_def Let_def split: option.splits if_splits)
  qed
  then show "\<forall>g \<in> set (wl_groups l). allow_global_steal g" "layout_ok l"
    using build_layout_ok by (auto simp: build_scheduler_def rbind_eq_Inr Let_def split: if_splits)
qed


lemma ceil_shards: "1 \<le> n \<Longrightarrow> 1 \<le> k \<Longrightarrow> max ((n + k - 1) div k) 1 \<le> (n :: nat)"
proof -
  assume n: "1 \<le> n" and k: "1 \<le> k"
  have "n + k - 1 \<le> n * k"
  proof -
    have "(n - 1) * (k - 1) + n + k - 1 = n * k" using n k by (cases n; cases k) auto
    then show ?thesis by linarith
  qed
  then have "(n + k - 1) div k \<le> n" using k by (metis div_le_mono nonzero_mult_div_cancel_right not_one_le_zero)
  then show ?thesis using n by simp
qed

lemma sum_even_shares: "0 < k \<Longrightarrow> sum_list (even_shares n k) = n"
proof -
  assume k: "0 < k"
  have "sum_list (map (\<lambda>s. b + (if s < e then 1 else 0)) [0..<m]) = m * b + min e m" for b e m :: nat
    by (induction m) auto
  then show ?thesis using k mod_less_divisor [of k n] by (simp add: even_shares_def Let_def min_def)
qed

text \<open>Without affinity groups the layout is sharded and every shard has a worker.\<close>

lemma sharded_layout:
  assumes "create_custom_scheduler cores off workers sys rcv spin None = Inr l" "1 \<le> workers"
  shows "wl_sharded l"
    and "length (wl_groups l) \<le> length (wl_worker_group l) \<Longrightarrow> g < length (wl_groups l)
      \<Longrightarrow> g \<in> set (wl_worker_group l)"
proof -
  let ?b = "builder_new\<lparr>sb_core_offset := off, sb_system_threads := sys, sb_receiver_threads := rcv\<rparr>"
  define k where "k = max ((workers + 8 - 1) div 8) (1 :: nat)"
  define b where "b = fold (add_shard spin) (even_shares workers k) ?b"
  have k: "1 \<le> k" "k \<le> workers" using ceil_shards [of workers 8] assms(2) by (simp_all add: k_def)
  have len: "length (sb_groups b) = k"
    using add_shards_length [OF even_shares_pos [OF k(2)], of spin ?b] by (simp add: b_def builder_new_def)
  have aff: "sb_worker_affinity b = None" by (simp add: b_def add_shards_affinity builder_new_def)
  have "build_scheduler cores (b\<lparr>sb_sharded := True\<rparr>) = Inr l"
    using assms(1)
    by (simp add: create_custom_scheduler_def Let_def add_sharded_workers_def CUSTOM_SHARD_SIZE_def b_def k_def)
  then obtain alloc where l: "wl_groups l = sb_groups b" "wl_sharded l"
    "wl_worker_group l = worker_to_group_idx (worker_count alloc) k None" "wl_allocation l = alloc"
    using k(1) by (auto simp: build_scheduler_def rbind_eq_Inr Let_def len aff split: if_splits)
  show "wl_sharded l" by (rule l(2))
  show "g \<in> set (wl_worker_group l)"
    if "length (wl_groups l) \<le> length (wl_worker_group l)" "g < length (wl_groups l)"
  proof -
    let ?n = "worker_count alloc"
    have g: "g < k" "k \<le> length (worker_to_group_idx ?n k None)" using that l(1,3) len by simp_all
    show ?thesis
    proof (cases "1 < k")
      case True
      have "length (worker_to_group_idx ?n k None) = sum_list (even_shares ?n k)"
        using True by (simp add: worker_to_group_idx_def length_concat comp_def case_prod_unfold)
      then have "k \<le> ?n" using g(2) sum_even_shares [of k ?n] k(1) by simp
      then have "even_shares ?n k ! g \<noteq> 0"
        using even_shares_pos [of k ?n] g(1) by (metis length_even_shares nth_mem)
      moreover have "(g, even_shares ?n k ! g) \<in> set (zip [0..<k] (even_shares ?n k))"
        using g(1) by (auto simp: in_set_zip intro!: exI [of _ g])
      ultimately show ?thesis
        using True by (force simp: l(3) worker_to_group_idx_def)
    next
      case False
      then have "k = 1" "g = 0" using g(1) k(1) by simp_all
      then show ?thesis using g(2) by (simp add: l(3) worker_to_group_idx_def split: if_splits)
    qed
  qed
qed


lemma queued_empty: "queued s = {#} \<longleftrightarrow> jobs_of (cs_global s) = {#} \<and> (\<forall>c \<in> set (cs_groups s). jobs_of c = {#})"
proof -
  have "sum_list (map jobs_of cs) = {#} \<longleftrightarrow> (\<forall>c \<in> set cs. jobs_of c = {#})"
    for cs :: "'a job channel_set list" by (induction cs) auto
  then show ?thesis by (simp add: queued_def)
qed



text \<open>C40: a worker serves the group of the first range, in the order of ranges, that contains it,
  and no other. So the group of a range has a worker exactly if one of its workers lies in no
  range that sorts before it; otherwise, for instance for the range 2-3 besides 0-7, jobs sent to
  the group are kept in its channels for ever: no run of the scheduler takes one out.\<close>

theorem shadowed_range_starves:
  assumes "from_worker_specs specs workers = Inr a" "distinct specs" "Range r \<in> set specs"
    and "create_custom_scheduler cores off workers sys rcv spin (Some a) = Inr l"
    and "g = get_affinity_group l (Some (Range r))"
  shows "(g \<in> set (wl_worker_group l) \<longleftrightarrow> (\<exists>w. w < length (wl_worker_group l) \<and> w < workers
            \<and> wr_contains r w \<and> (\<forall>r'. Range r' \<in> set specs \<and> r' < r \<longrightarrow> \<not> wr_contains r' w)))
    \<and> 0 < g \<and> g < length (wl_groups l)
    \<and> (g \<notin> set (wl_worker_group l) \<longrightarrow>
        (\<forall>(es :: 't event list) es'. let p = pool_run l es (pool_start l)
                  in group_jobs g (p_sched p) \<subseteq># group_jobs g (p_sched (pool_run l es' p))))"
proof -
  let ?rs = "ranges_of specs"
  have r: "r \<in> set ?rs" using assms(3) by simp
  then have ne: "?rs \<noteq> []" using length_pos_if_in_set by fastforce
  obtain i where i: "i < length ?rs" "?rs ! i = r" using r by (auto simp only: in_set_conv_nth)
  note layout = affinity_layout [OF assms(1,2) ne assms(4)]
  have g: "g = Suc i" using layout(5) [OF i(1)] assms(5) i(2) by simp
  have "wl_worker_group l ! w = g \<longleftrightarrow> w < workers \<and> wr_contains r w
      \<and> (\<forall>r'. Range r' \<in> set specs \<and> r' < r \<longrightarrow> \<not> wr_contains r' w)"
    if "w < length (wl_worker_group l)" for w
    using layout(4) [OF that] first_range_eq [OF i(1), of w] smaller_ranges [OF i(1) assms(2), of w]
    unfolding g i(2) by auto
  then have served: "g \<in> set (wl_worker_group l) \<longleftrightarrow> (\<exists>w. w < length (wl_worker_group l) \<and> w < workers
            \<and> wr_contains r w \<and> (\<forall>r'. Range r' \<in> set specs \<and> r' < r \<longrightarrow> \<not> wr_contains r' w))"
    unfolding in_set_conv_nth by blast
  have "group_jobs g (p_sched (pool_run l es (pool_start l)))
      \<subseteq># group_jobs g (p_sched (pool_run l es' (pool_run l es (pool_start l))))"
    if "g \<notin> set (wl_worker_group l)" for es es' :: "'t event list"
    by (rule unserved_group_run [OF that]) (use unserved_start [OF layout(2)] unserved_shape [OF that] in blast)+
  then show ?thesis unfolding Let_def using served g layout(1) i(1) by (intro conjI impI allI) simp_all
qed


definition nested_specs :: "worker_range_spec list" where
  "nested_specs = [Range \<lparr>wr_start = 2, wr_end = 4\<rparr>, Range \<lparr>wr_start = 0, wr_end = 4\<rparr>]"

definition nested_affinity :: worker_affinity where
  "nested_affinity = \<lparr>range_to_group = [(\<lparr>wr_start = 2, wr_end = 4\<rparr>, 2), (\<lparr>wr_start = 0, wr_end = 4\<rparr>, 1)],
     affinity_groups = [(1, \<lparr>wr_start = 0, wr_end = 4\<rparr>), (2, \<lparr>wr_start = 2, wr_end = 4\<rparr>)],
     worker_to_groups = [[1], [1], [1, 2], [1, 2]]\<rparr>"

lemma nested_affinity: "from_worker_specs nested_specs 4 = Inr nested_affinity"
proof -
  have order: "\<lparr>wr_start = 0, wr_end = 4\<rparr> \<le> \<lparr>wr_start = 2, wr_end = (4 :: nat)\<rparr>"
    "\<not> \<lparr>wr_start = 2, wr_end = 4\<rparr> \<le> \<lparr>wr_start = 0, wr_end = (4 :: nat)\<rparr>"
    by (simp_all add: less_eq_worker_range_ext_def)
  have four: "replicate 4 ([] :: nat list) = [[], [], [], []]" "[2..<4] = [2, 3 :: nat]" "[0..<4] = [0, 1, 2, 3 :: nat]"
    by (simp_all add: eval_nat_numeral)
  show ?thesis
    by (simp add: from_worker_specs_def from_worker_ranges_def nested_specs_def nested_affinity_def
        List.map_filter_def order push_group_def four)
qed

theorem shadowed_range_starves_witness:
  "\<exists>l. create_custom_scheduler [0..<16] 0 4 1 0 64 (Some nested_affinity) = Inr l
    \<and> get_affinity_group l (Some (Range \<lparr>wr_start = 2, wr_end = 4\<rparr>)) \<notin> set (wl_worker_group l)"
proof -
  have four: "[2..<4] = [2, 3 :: nat]" "[0..<4] = [0, 1, 2, 3 :: nat]" "[0..<6] = [0, 1, 2, 3, 4, 5 :: nat]"
    by (simp_all add: eval_nat_numeral)
  have "\<exists>l. create_custom_scheduler [0..<16] 0 4 1 0 64 (Some nested_affinity) = Inr l"
    by (simp add: create_custom_scheduler_def nested_affinity_def with_affinity_groups_def Let_def
        builder_new_def add_group_def assigned_workers_def four wr_len_def build_scheduler_def
        allocate_cores_def wadd_def allocation_checks_def worker_to_group_idx_def get_worker_groups_def)
  then obtain l where l: "create_custom_scheduler [0..<16] 0 4 1 0 64 (Some nested_affinity) = Inr l" by blast
  have "distinct nested_specs" "Range \<lparr>wr_start = 2, wr_end = 4\<rparr> \<in> set nested_specs"
    "Range \<lparr>wr_start = 0, wr_end = 4\<rparr> \<in> set nested_specs"
    "\<lparr>wr_start = 0, wr_end = 4\<rparr> < \<lparr>wr_start = 2, wr_end = (4 :: nat)\<rparr>"
    by (simp_all add: nested_specs_def less_worker_range_ext_def less_eq_worker_range_ext_def)
  then show ?thesis
    using shadowed_range_starves [OF nested_affinity _ _ l refl, of "\<lparr>wr_start = 2, wr_end = 4\<rparr>"] l
    by (fastforce simp: wr_contains_def)
qed

end
