(* ===== verification/Spec2Isabelle.thy ===== *)
theory Spec2Isabelle
  imports Dep_Counter Graph_Model Worker_Range Delivery Result_Map Arg_Resolution
    Batch_Properties Task_Properties Run_Example Compiled_Run Unchecked Run_End Sliced_Borrows Core_Alloc
    Scheduler_Properties
begin

text \<open>
  A verification library for the Tomii task-graph runtime (\<^verbatim>\<open>src/tomii-core\<close> and the value
  types of \<^verbatim>\<open>src/tomii-types\<close>).

  \<^bold>\<open>The program.\<close> A configuration describes a graph of nodes; a node has a number of instances
  (its factor), arguments that name the nodes it reads (\<^verbatim>\<open>$res\<close>, \<^verbatim>\<open>$dep\<close>, \<^verbatim>\<open>$barrier\<close>) and
  optional conditions. Frames of data run through the graph in slots. For each slot the runtime
  keeps dependency counters, tagged with the generation of the slot so that no counter is ever
  cleared, counters of pending tasks, and a store of results. When an instance completes, the
  edges to its successors say which groups of successor instances it counts for; instances whose
  counter reaches its threshold are dispatched to the scheduler.

  The graph is compiled from a configuration file, which gives the nodes, their arguments and the
  objects they start from; the compiled graph, its tables and the scheduler are built once and
  shared by all threads.

  \<^bold>\<open>The model.\<close> The data types, tables and operations are translated from the source as functions.
  Words have the width of the source; a panic is a value of the error type. Every atomic operation
  is one step on an explicit state, and the functions that consist of several atomic operations are
  run without interference, except where the source waits: a wait for a result observes a
  sequence of views of the state, in which other threads may change everything
  (\<^verbatim>\<open>Arg_Resolution\<close>), and between the unlocked steps of packet routing and slot completion,
  where a parameter of the model changes the state as other threads may. Interleavings of whole
  operations are sequences of operations.

  \<^bold>\<open>The parts.\<close>
    \<^item> \<^verbatim>\<open>Prelude\<close>: results, panics, list and word lemmas.
    \<^item> \<^verbatim>\<open>Gen_Word\<close> (\<^verbatim>\<open>buffers/mod.rs\<close>): generation-tagged cells; \<^verbatim>\<open>Node_Dep\<close>, \<^verbatim>\<open>Dep_Counting\<close>,
      \<^verbatim>\<open>Dep_Properties\<close>, \<^verbatim>\<open>Dep_Counter\<close> (\<^verbatim>\<open>buffers/node_dep.rs\<close>, \<^verbatim>\<open>dependency_counter.rs\<close>): the
      dependency counters, their well-formedness, release in order, exactly once, and lazily
      reinitialised.
    \<^item> \<^verbatim>\<open>Cm_Types\<close> (\<^verbatim>\<open>tomii-types/src/lib.rs\<close>), \<^verbatim>\<open>Graph_Struct\<close>, \<^verbatim>\<open>Graph_Model\<close>
      (\<^verbatim>\<open>graph_struct.rs\<close>, \<^verbatim>\<open>graph.rs\<close>): values, nodes, conditions, graph construction and
      dependency counts. \<^verbatim>\<open>Text_Parse\<close> and \<^verbatim>\<open>Worker_Range\<close> (\<^verbatim>\<open>worker_range.rs\<close>): number
      syntax and worker specifications.
    \<^item> \<^verbatim>\<open>Node_Cache\<close>, \<^verbatim>\<open>Routing\<close>, \<^verbatim>\<open>Successor\<close> (\<^verbatim>\<open>runtime/node_cache.rs\<close>,
      \<^verbatim>\<open>runtime/init.rs\<close>, \<^verbatim>\<open>runtime/successor_arena.rs\<close>, \<^verbatim>\<open>runtime/successor.rs\<close>): the tables
      computed from the graph, the flattened edges, and the decrements behind an edge.
      \<^verbatim>\<open>Unchecked\<close> (\<^verbatim>\<open>runtime/init.rs\<close>): which nodes get the unchecked twin of their
      function, and that the twin's arguments have the types it extracts.
      \<^verbatim>\<open>Delivery\<close> composes graph, tables, arena and counters: a barrier is released by the last
      of the instances its filters admit.
    \<^item> \<^verbatim>\<open>Config_Parse\<close> (\<^verbatim>\<open>tomii-types/src/lib.rs\<close>): the literals of a configuration,
      integers, correctly rounded floats and complex numbers. \<^verbatim>\<open>Graph_Json\<close>, \<^verbatim>\<open>Graph_Compile\<close>
      (\<^verbatim>\<open>json_structs.rs\<close>, \<^verbatim>\<open>obj_gen.rs\<close>, \<^verbatim>\<open>graph_gen.rs\<close>): the compiler from a parsed
      configuration to the graph, its objects and its tables, with every refusal;
      \<^verbatim>\<open>Graph_Compile_Properties\<close>: accepted graphs are acyclic, what factors and indexes denote.
      \<^verbatim>\<open>Arg_Slots\<close>, \<^verbatim>\<open>Arg_Layout\<close>: where the arguments of a compiled node arrive.
    \<^item> \<^verbatim>\<open>Sliced\<close>, \<^verbatim>\<open>Sliced_Borrows\<close> (\<^verbatim>\<open>tomii-types/src/lib.rs\<close>): buffers whose ranges are
      borrowed for reading or writing by several threads, as atomic steps.
    \<^item> \<^verbatim>\<open>Core_Alloc\<close> (\<^verbatim>\<open>core_alloc.rs\<close>), \<^verbatim>\<open>Affinity\<close>, \<^verbatim>\<open>Custom_Scheduler\<close>,
      \<^verbatim>\<open>Scheduler_Properties\<close> (\<^verbatim>\<open>scheduler.rs\<close>, \<^verbatim>\<open>custom_scheduler\<close>): cores, affinity groups,
      the queues of the custom scheduler and the loop of a worker as steps on the pool.
    \<^item> \<^verbatim>\<open>Result_Map\<close> (\<^verbatim>\<open>buffers/result_map.rs\<close>): the result store, a refinement of a map.
    \<^item> \<^verbatim>\<open>Arg_Resolution\<close> (\<^verbatim>\<open>runtime/arg_resolution.rs\<close>): arguments of a task, waiting.
    \<^item> \<^verbatim>\<open>Runtime_State\<close> (\<^verbatim>\<open>runtime/shared_data.rs\<close>, \<^verbatim>\<open>runtime/mod.rs\<close>): the shared state and
      how it is built.
    \<^item> \<^verbatim>\<open>Task_Execution\<close>, \<^verbatim>\<open>Task_Properties\<close> (\<^verbatim>\<open>runtime/scheduling.rs\<close>,
      \<^verbatim>\<open>runtime/task_execution.rs\<close>): dispatch, execution, worker-side resolution.
    \<^item> \<^verbatim>\<open>Batch_Resolution\<close>, \<^verbatim>\<open>Batch_Properties\<close> (\<^verbatim>\<open>runtime/batch_resolution.rs\<close>,
      \<^verbatim>\<open>runtime/resolution_loop.rs\<close>): the batch protocol of the resolution threads, its
      agreement with the worker path, and the pending-task counters. \<^verbatim>\<open>Inline_Termination\<close>,
      \<^verbatim>\<open>Compiled_Run\<close>: the trampoline of inline continuations ends on every compiled graph.
    \<^item> \<^verbatim>\<open>Slot_Management\<close>, \<^verbatim>\<open>Slot_Invariants\<close>, \<^verbatim>\<open>Slot_Lifecycle\<close>
      (\<^verbatim>\<open>runtime/slot_management.rs\<close>, \<^verbatim>\<open>runtime/slot_lifecycle.rs\<close>): the table of slots and
      frames (assignment, release, promotion, the frame cache), seeding, generation bumps,
      completion, restart and eviction; the table is in order in every reachable state.
    \<^item> \<^verbatim>\<open>Packet_Processing\<close> (\<^verbatim>\<open>runtime/packet_processing.rs\<close>): decoding, admission, parking,
      routing to slots, frame completion, coalescing.
    \<^item> \<^verbatim>\<open>Runtime_Frame\<close>, \<^verbatim>\<open>Runtime_Run\<close>, \<^verbatim>\<open>Run_Invariants\<close>, \<^verbatim>\<open>Run_Example\<close>,
      \<^verbatim>\<open>Eviction\<close> (\<^verbatim>\<open>runtime/resolution_loop.rs\<close>): what each operation leaves alone, the runs
      of all threads as a step relation, invariants of every state of a run, an example run, and
      what the eviction of a buffering slot does.

    \<^item> \<^verbatim>\<open>Post_Nodes\<close>, \<^verbatim>\<open>Post_Properties\<close>, \<^verbatim>\<open>Run_End\<close> (\<^verbatim>\<open>runtime/mod.rs\<close>,
      \<^verbatim>\<open>runtime/scheduling.rs\<close>): the wait loop of the main thread, when a run ends, and the
      post-nodes scheduled after it.

  \<^bold>\<open>Bounds and fuel.\<close> Loops are structural recursion on the list they walk, except: a wait, the
  trampoline of inline continuations and the loops of the main thread, which may run for ever, are \<^verbatim>\<open>partial_function\<close>s (a wait
  is proved to return exactly when one of its three events happens); and the doubling loop of
  \<^verbatim>\<open>next_power_of_two\<close>, whose fuel is the number itself, which is enough as \<open>n \<le> 2 ^ n\<close>.

  \<^bold>\<open>Not modelled.\<close> Timing, recording, tracing and debug output; sockets and receiver threads;
  the Rayon pool and plugin schedulers (a dispatched task is then an element of a list; the queues
  of the custom scheduler are modelled); the reading of JSON text into records, which is a library,
  and the command line; loading of plugin libraries (plugin functions are parameters) and the
  generator of plugin wrappers. Memory orderings weaker than sequential consistency are not visible
  in the model.
\<close>

end
